(* ===== verification/Prelude.thy ===== *)
theory Prelude
  imports Main "HOL-Library.Word" "HOL-Library.AList"
begin

text \<open>
  Shared vocabulary of the development: the machine integer widths, fallible computations
  (Rust's \<open>Result\<close> as a sum whose left side is the error), Rust's text operations on byte
  strings, the loop combinators that the components use, and the generic list lemmas that their
  proofs share.

  A Rust \<open>String\<close> is its sequence of UTF-8 bytes, so a \<open>string\<close> here is a list of bytes.
\<close>

type_synonym u8 = "8 word"
type_synonym u16 = "16 word"
type_synonym u32 = "32 word"
type_synonym u64 = "64 word"

text \<open>\<open>outcome\<close> collects the inversion rules of fallible computations.\<close>

named_theorems outcome

section \<open>Fallible computations\<close>

text \<open>The question-mark operator: the first error wins.\<close>

definition res_bind :: "'e + 'a \<Rightarrow> ('a \<Rightarrow> 'e + 'b) \<Rightarrow> 'e + 'b" where
  "res_bind r f = (case r of Inl e \<Rightarrow> Inl e | Inr a \<Rightarrow> f a)"

lemma res_bind_simps [simp]:
  "res_bind (Inl e) f = Inl e"
  "res_bind (Inr a) f = f a"
  by (simp_all add: res_bind_def)

lemma res_bind_Inr_iff [outcome]:
  "res_bind r f = Inr b \<longleftrightarrow> (\<exists>a. r = Inr a \<and> f a = Inr b)"
  by (cases r) auto

lemma res_bind_Inl_iff [outcome]:
  "res_bind r f = Inl e \<longleftrightarrow> r = Inl e \<or> (\<exists>a. r = Inr a \<and> f a = Inl e)"
  by (cases r) auto

lemma res_bind_assoc: "res_bind (res_bind r f) g = res_bind r (\<lambda>a. res_bind (f a) g)"
  by (cases r) auto

definition map_err :: "('e \<Rightarrow> 'f) \<Rightarrow> 'e + 'a \<Rightarrow> 'f + 'a" where
  "map_err f r = (case r of Inl e \<Rightarrow> Inl (f e) | Inr a \<Rightarrow> Inr a)"

lemma map_err_simps [simp]:
  "map_err f (Inl e) = Inl (f e)"
  "map_err f (Inr a) = Inr a"
  by (simp_all add: map_err_def)

lemma map_err_Inr_iff [outcome]: "map_err f r = Inr a \<longleftrightarrow> r = Inr a"
  by (cases r) auto

text \<open>\<open>Option::ok_or\<close>.\<close>

definition ok_or :: "'e \<Rightarrow> 'a option \<Rightarrow> 'e + 'a" where
  "ok_or e x = (case x of None \<Rightarrow> Inl e | Some a \<Rightarrow> Inr a)"

lemma ok_or_simps [simp]:
  "ok_or e None = Inl e"
  "ok_or e (Some a) = Inr a"
  by (simp_all add: ok_or_def)

lemma ok_or_Inr_iff [outcome]: "ok_or e x = Inr a \<longleftrightarrow> x = Some a"
  by (cases x) auto

text \<open>Collecting an iterator of results into a result of a vector: the first error stops it.\<close>

fun collect_results :: "('a \<Rightarrow> 'e + 'b) \<Rightarrow> 'a list \<Rightarrow> 'e + 'b list" where
  "collect_results f [] = Inr []"
| "collect_results f (x # xs) =
     res_bind (f x) (\<lambda>y. res_bind (collect_results f xs) (\<lambda>ys. Inr (y # ys)))"

lemma collect_results_Inr_iff:
  "collect_results f xs = Inr ys \<longleftrightarrow> list_all2 (\<lambda>x y. f x = Inr y) xs ys"
  by (induction xs arbitrary: ys) (auto simp: outcome list_all2_Cons1)

lemma collect_results_length: "collect_results f xs = Inr ys \<Longrightarrow> length ys = length xs"
  by (auto simp: collect_results_Inr_iff dest: list_all2_lengthD)

lemma collect_results_total:
  "(\<And>x. x \<in> set xs \<Longrightarrow> f x = Inr (g x)) \<Longrightarrow> collect_results f xs = Inr (map g xs)"
  by (induction xs) auto

lemma option_eq_SomeI: "(\<And>x. a = Some x \<longleftrightarrow> b = Some x) \<Longrightarrow> a = b"
  by (cases a; cases b) auto

text \<open>The error values the plugins return to the host; the variants the source constructs.\<close>

datatype ArrowError = SchemaError string | InvalidArgumentError string

datatype PluginError =
    Internal string
  | Execution string
  | ArrowFailure ArrowError
  | StateFailure string

section \<open>Text\<close>

text \<open>The upper-case form of an ASCII byte; option keys are ASCII literals of the source.\<close>

definition ascii_upper :: "char \<Rightarrow> char" where
  "ascii_upper c =
     (if 97 \<le> (of_char c :: nat) \<and> (of_char c :: nat) \<le> 122
      then char_of ((of_char c :: nat) - 32) else c)"

definition ascii_lower :: "char \<Rightarrow> char" where
  "ascii_lower c =
     (if 65 \<le> (of_char c :: nat) \<and> (of_char c :: nat) \<le> 90
      then char_of ((of_char c :: nat) + 32) else c)"

definition to_uppercase :: "string \<Rightarrow> string" where
  "to_uppercase s = map ascii_upper s"

definition to_ascii_lowercase :: "string \<Rightarrow> string" where
  "to_ascii_lowercase s = map ascii_lower s"

text \<open>\<open>str::split_once\<close> on a one-byte separator.\<close>

fun split_once :: "char \<Rightarrow> string \<Rightarrow> (string \<times> string) option" where
  "split_once c [] = None"
| "split_once c (x # xs) =
     (if x = c then Some ([], xs)
      else map_option (\<lambda>(a, b). (x # a, b)) (split_once c xs))"

lemma split_once_None_iff: "split_once c s = None \<longleftrightarrow> c \<notin> set s"
  by (induction s) auto

lemma split_once_Some_iff:
  "split_once c s = Some (a, b) \<longleftrightarrow> s = a @ c # b \<and> c \<notin> set a"
proof (induction s arbitrary: a)
  case Nil
  then show ?case by simp
next
  case (Cons x s)
  then show ?case by (cases a) (auto)
qed

text \<open>\<open>str::strip_prefix\<close>, \<open>str::splitn\<close> on a byte, and splitting at the first occurrence of a text.\<close>

definition strip_prefix :: "string \<Rightarrow> string \<Rightarrow> string option" where
  "strip_prefix p s = (if take (length p) s = p then Some (drop (length p) s) else None)"

fun splitn :: "nat \<Rightarrow> char \<Rightarrow> string \<Rightarrow> string list" where
  "splitn 0 c s = []"
| "splitn (Suc 0) c s = [s]"
| "splitn (Suc (Suc n)) c s =
     (case split_once c s of None \<Rightarrow> [s] | Some (a, b) \<Rightarrow> a # splitn (Suc n) c b)"

fun split_at_text :: "string \<Rightarrow> string \<Rightarrow> (string \<times> string) option" where
  "split_at_text p [] = (if p = [] then Some ([], []) else None)"
| "split_at_text p (x # xs) =
     (case strip_prefix p (x # xs) of
        Some rest \<Rightarrow> Some ([], rest)
      | None \<Rightarrow> map_option (\<lambda>(a, b). (x # a, b)) (split_at_text p xs))"

lemma strip_prefix_Some_iff: "strip_prefix p s = Some r \<longleftrightarrow> s = p @ r"
  by (auto simp: strip_prefix_def) (metis append_take_drop_id)

text \<open>Joining with a separator.\<close>

fun join_with :: "string \<Rightarrow> string list \<Rightarrow> string" where
  "join_with sep [] = []"
| "join_with sep [x] = x"
| "join_with sep (x # y # xs) = x @ sep @ join_with sep (y # xs)"

text \<open>A value between single quotes, as the error messages print it.\<close>

definition quoted :: "string \<Rightarrow> string" where
  "quoted s = CHR 0x27 # s @ [CHR 0x27]"

text \<open>Decimal rendering of an unsigned integer.\<close>

fun show_nat :: "nat \<Rightarrow> string" where
  "show_nat n =
     (if n < 10 then [char_of (48 + n)] else show_nat (n div 10) @ [char_of (48 + n mod 10)])"

declare show_nat.simps [simp del]

text \<open>
  \<open>FromStr\<close> of the unsigned integers: an optional plus sign, then decimal digits; \<open>lim\<close> is the
  greatest value of the type. A digit that does not fit stops the scan before later characters
  are looked at.
\<close>

definition is_digit :: "char \<Rightarrow> bool" where
  "is_digit c \<longleftrightarrow> 48 \<le> (of_char c :: nat) \<and> (of_char c :: nat) \<le> 57"

fun parse_digits :: "nat \<Rightarrow> nat \<Rightarrow> string \<Rightarrow> string + nat" where
  "parse_digits lim acc [] = Inr acc"
| "parse_digits lim acc (c # cs) =
     (if \<not> is_digit c then Inl ''invalid digit found in string''
      else (let v = acc * 10 + (of_char c - 48) in
            if v > lim then Inl ''number too large to fit in target type''
            else parse_digits lim v cs))"

definition parse_unsigned :: "nat \<Rightarrow> string \<Rightarrow> string + nat" where
  "parse_unsigned lim s =
     (if s = [] then Inl ''cannot parse integer from empty string''
      else if hd s = CHR ''+'' \<and> tl s \<noteq> [] then parse_digits lim 0 (tl s)
      else parse_digits lim 0 s)"

definition parse_bool :: "string \<Rightarrow> string + bool" where
  "parse_bool s =
     (if s = ''true'' then Inr True else if s = ''false'' then Inr False
      else Inl (''provided string was not '' @ [CHR 0x60] @ ''true'' @ [CHR 0x60] @ '' or ''
                @ [CHR 0x60] @ ''false'' @ [CHR 0x60]))"

abbreviation u16_max :: nat where "u16_max \<equiv> 2 ^ 16 - 1"
abbreviation u64_max :: nat where "u64_max \<equiv> 2 ^ 64 - 1"

lemma parse_digits_append:
  "parse_digits lim acc (xs @ ys) = res_bind (parse_digits lim acc xs) (\<lambda>v. parse_digits lim v ys)"
  by (induction lim acc xs rule: parse_digits.induct) (auto simp: Let_def)

lemma of_char_digit: "n < 10 \<Longrightarrow> of_char (char_of (48 + n :: nat) :: char) = 48 + n"
  by (simp add: of_char_of)

lemma parse_digits_show:
  "n \<le> lim \<Longrightarrow> parse_digits lim 0 (show_nat n) = Inr n"
proof (induction n rule: show_nat.induct)
  case (1 n)
  show ?case
  proof (cases "n < 10")
    case True
    with 1 show ?thesis by (simp add: show_nat.simps [of n] is_digit_def of_char_digit)
  next
    case False
    then have "parse_digits lim 0 (show_nat (n div 10)) = Inr (n div 10)"
      using 1 by (intro "1.IH") auto
    with False "1.prems" show ?thesis
      by (simp add: show_nat.simps [of n] parse_digits_append is_digit_def of_char_digit Let_def)
  qed
qed

lemma show_nat_digits: "c \<in> set (show_nat n) \<Longrightarrow> is_digit c"
proof (induction n rule: show_nat.induct)
  case (1 n)
  then show ?case
    by (cases "n < 10") (auto simp: show_nat.simps [of n] is_digit_def of_char_digit)
qed

lemma show_nat_not_Nil [simp]: "show_nat n \<noteq> []"
  by (simp add: show_nat.simps)

lemma parse_unsigned_show_digits: "parse_unsigned lim (show_nat i) = parse_digits lim 0 (show_nat i)"
  using show_nat_digits [of "hd (show_nat i)" i] by (auto simp: parse_unsigned_def is_digit_def)

text \<open>Printing and parsing round trip, for every value of the type.\<close>

lemma parse_unsigned_show: "n \<le> lim \<Longrightarrow> parse_unsigned lim (show_nat n) = Inr n"
  by (simp add: parse_unsigned_show_digits parse_digits_show)

text \<open>A number that parses is the number that was printed, whether or not it could have been too large.\<close>

lemma parse_digits_mono: "parse_digits lim acc s = Inr n \<Longrightarrow> lim \<le> lim' \<Longrightarrow> parse_digits lim' acc s = Inr n"
  by (induction lim acc s rule: parse_digits.induct) (auto simp: Let_def split: if_splits)

lemma parse_unsigned_show_eq: "parse_unsigned lim (show_nat i) = Inr n \<Longrightarrow> n = i"
  using parse_digits_mono [of lim 0 "show_nat i" n "max lim i"] parse_digits_show [of i "max lim i"]
  by (simp add: parse_unsigned_show_digits)

lemma parse_digits_bound: "parse_digits lim acc s = Inr n \<Longrightarrow> acc \<le> lim \<Longrightarrow> n \<le> lim"
  by (induction lim acc s rule: parse_digits.induct) (auto simp: Let_def split: if_splits)

lemma parse_unsigned_bound: "parse_unsigned lim s = Inr n \<Longrightarrow> n \<le> lim"
  by (auto simp: parse_unsigned_def split: if_splits dest: parse_digits_bound)

section \<open>Lists\<close>

lemma sorted_wrt_fst_filter:
  "sorted_wrt (<) (map fst m) \<Longrightarrow> sorted_wrt (<) (map fst (filter P m))"
  by (induction m) auto

lemma takeWhile_eq_filter_sorted:
  fixes b :: "'a :: linorder"
  assumes "sorted (map fst xs)"
  shows "takeWhile (\<lambda>x. fst x \<le> b) xs = filter (\<lambda>x. fst x \<le> b) xs"
  using assms
proof (induction xs)
  case Nil
  then show ?case by simp
next
  case (Cons x xs)
  show ?case
  proof (cases "fst x \<le> b")
    case True
    with Cons show ?thesis by simp
  next
    case False
    with Cons.prems have "\<forall>y \<in> set xs. \<not> fst y \<le> b" by auto
    with False show ?thesis by simp
  qed
qed

lemma dropWhile_eq_filter_sorted:
  fixes b :: "'a :: linorder"
  assumes "sorted (map fst xs)"
  shows "dropWhile (\<lambda>x. fst x \<le> b) xs = filter (\<lambda>x. \<not> fst x \<le> b) xs"
  using assms
proof (induction xs)
  case Nil
  then show ?case by simp
next
  case (Cons x xs)
  show ?case
  proof (cases "fst x \<le> b")
    case True
    with Cons show ?thesis by simp
  next
    case False
    with Cons.prems have "\<forall>y \<in> set xs. \<not> fst y \<le> b" by auto
    with False show ?thesis by simp
  qed
qed

lemma concat_map_filter_id:
  "concat (map (\<lambda>x. if P x then [f x] else []) xs) = map f (filter P xs)"
  by (induction xs) auto

lemma Int_image_empty_iff: "A \<inter> f ` B = {} \<longleftrightarrow> (\<forall>x \<in> B. f x \<notin> A)"
  by blast

text \<open>\<open>str::trim\<close>, for ASCII white space.\<close>

definition is_space :: "char \<Rightarrow> bool" where
  "is_space c \<longleftrightarrow> (of_char c :: nat) = 32 \<or> (9 \<le> (of_char c :: nat) \<and> (of_char c :: nat) \<le> 13)"

definition trim :: "string \<Rightarrow> string" where
  "trim s = rev (dropWhile is_space (rev (dropWhile is_space s)))"

text \<open>\<open>FromStr\<close> of \<open>NonZeroU64\<close> and \<open>NonZeroUsize\<close>.\<close>

definition parse_non_zero :: "string \<Rightarrow> string + nat" where
  "parse_non_zero s =
     res_bind (parse_unsigned u64_max s)
       (\<lambda>n. if n = 0 then Inl ''number would be zero for non-zero type'' else Inr n)"

text \<open>\<open>str::split\<close> at a character: one piece more than the text has separators.\<close>

fun split_char :: "char \<Rightarrow> string \<Rightarrow> string list" where
  "split_char c [] = [[]]"
| "split_char c (x # xs) =
     (if x = c then [] # split_char c xs
      else (case split_char c xs of p # ps \<Rightarrow> (x # p) # ps | [] \<Rightarrow> [[x]]))"

text \<open>\<open>Display\<close> of a signed integer.\<close>

definition show_int :: "int \<Rightarrow> string" where
  "show_int i = (if i < 0 then CHR ''-'' # show_nat (nat (- i)) else show_nat (nat i))"

text \<open>The conversions \<open>as u32\<close> and \<open>as i32\<close> keep the low bits.\<close>

definition as_u32 :: "int \<Rightarrow> int" where
  "as_u32 x = x mod 2 ^ 32"

definition as_i32 :: "int \<Rightarrow> int" where
  "as_i32 x = (x + 2 ^ 31) mod 2 ^ 32 - 2 ^ 31"

end
