(* ===== verification/CdcCells.thy ===== *)
theory CdcCells
  imports Prelude
begin

text \<open>
  Replicated cell values and their rendering as JSON, \<open>src/src/postgres_cdc/json.rs\<close>.

  The cell variants are those the source matches on. Values whose type belongs to another crate
  (decimals, dates, times, UUIDs, floats) are elements of a type variable, and the crate operations
  the source applies to them are the fields of the parameter record \<open>foreign\<close>: the formatting of
  a value as text, the calendar arithmetic of a value and the conversion of floats.
\<close>

section \<open>Values\<close>

datatype json =
    JNull
  | JBool bool
  | JInt int
  | JFloat string
  | JString string
  | JArray "json list"
  | JObject "(string \<times> json) list"

datatype 'x ArrayCell =
    ABool "bool option list"
  | AString "string option list"
  | AI16 "16 word option list"
  | AI32 "32 word option list"
  | AU32 "32 word option list"
  | AI64 "64 word option list"
  | AF32 "'x option list"
  | AF64 "'x option list"
  | ANumeric "'x option list"
  | ADate "'x option list"
  | ATime "'x option list"
  | ATimeTz "'x option list"
  | ATimestamp "'x option list"
  | ATimestampTz "'x option list"
  | AUuid "'x option list"
  | AJson "json option list"
  | ABytes "u8 list option list"

datatype 'x Cell =
    is_CNull: CNull
  | is_CBool: CBool bool
  | is_CString: CString string
  | is_CI16: CI16 "16 word"
  | is_CI32: CI32 "32 word"
  | is_CU32: CU32 "32 word"
  | is_CI64: CI64 "64 word"
  | is_CF32: CF32 'x
  | is_CF64: CF64 'x
  | is_CNumeric: CNumeric 'x
  | is_CDate: CDate 'x
  | is_CTime: CTime 'x
  | is_CTimeTz: CTimeTz 'x
  | is_CTimestamp: CTimestamp 'x
  | is_CTimestampTz: CTimestampTz 'x
  | is_CUuid: CUuid 'x
  | is_CJson: CJson json
  | is_CBytes: CBytes "u8 list"
  | is_CArray: CArray "'x ArrayCell"

text \<open>
  Operations of other crates. \<open>f32_json\<close> and \<open>f64_json\<close> are what the \<open>json!\<close> macro makes of
  a float; \<open>f64_of_f32\<close> is the widening conversion; \<open>json_to_string\<close> prints a JSON value.
\<close>

record 'x foreign =
  f32_json :: "'x \<Rightarrow> json"
  f64_json :: "'x \<Rightarrow> json"
  f64_of_f32 :: "'x \<Rightarrow> 'x"
  numeric_to_string :: "'x \<Rightarrow> string"
  date_to_string :: "'x \<Rightarrow> string"
  time_to_string :: "'x \<Rightarrow> string"
  timetz_to_string :: "'x \<Rightarrow> string"
  timestamp_to_string :: "'x \<Rightarrow> string"
  timestamptz_to_rfc3339 :: "'x \<Rightarrow> string"
  uuid_to_string :: "'x \<Rightarrow> string"
  base64_encode :: "u8 list \<Rightarrow> string"
  json_to_string :: "json \<Rightarrow> string"
  num_days_from_ce :: "'x \<Rightarrow> 32 word"
  num_seconds_from_midnight :: "'x \<Rightarrow> 32 word"
  nanosecond :: "'x \<Rightarrow> 32 word"
  timestamp_micros :: "'x \<Rightarrow> 64 word"
  timestamptz_micros :: "'x \<Rightarrow> 64 word"

section \<open>Cells as JSON\<close>

definition json_list :: "('a \<Rightarrow> json) \<Rightarrow> 'a option list \<Rightarrow> json" where
  "json_list f items = JArray (map (\<lambda>v. case v of None \<Rightarrow> JNull | Some x \<Rightarrow> f x) items)"

fun array_to_json :: "'x foreign \<Rightarrow> 'x ArrayCell \<Rightarrow> json" where
  "array_to_json F (ABool v) = json_list JBool v"
| "array_to_json F (AString v) = json_list JString v"
| "array_to_json F (AI16 v) = json_list (\<lambda>x. JInt (sint x)) v"
| "array_to_json F (AI32 v) = json_list (\<lambda>x. JInt (sint x)) v"
| "array_to_json F (AU32 v) = json_list (\<lambda>x. JInt (uint x)) v"
| "array_to_json F (AI64 v) = json_list (\<lambda>x. JInt (sint x)) v"
| "array_to_json F (AF32 v) = json_list (f32_json F) v"
| "array_to_json F (AF64 v) = json_list (f64_json F) v"
| "array_to_json F (ANumeric v) = json_list (\<lambda>n. JString (numeric_to_string F n)) v"
| "array_to_json F (ADate v) = json_list (\<lambda>d. JString (date_to_string F d)) v"
| "array_to_json F (ATime v) = json_list (\<lambda>t. JString (time_to_string F t)) v"
| "array_to_json F (ATimeTz v) = json_list (\<lambda>t. JString (timetz_to_string F t)) v"
| "array_to_json F (ATimestamp v) = json_list (\<lambda>t. JString (timestamp_to_string F t)) v"
| "array_to_json F (ATimestampTz v) = json_list (\<lambda>t. JString (timestamptz_to_rfc3339 F t)) v"
| "array_to_json F (AUuid v) = json_list (\<lambda>u. JString (uuid_to_string F u)) v"
| "array_to_json F (AJson v) = json_list (\<lambda>j. j) v"
| "array_to_json F (ABytes v) = json_list (\<lambda>b. JString (base64_encode F b)) v"

fun cell_to_json :: "'x foreign \<Rightarrow> 'x Cell \<Rightarrow> json" where
  "cell_to_json F CNull = JNull"
| "cell_to_json F (CBool b) = JBool b"
| "cell_to_json F (CString s) = JString s"
| "cell_to_json F (CI16 v) = JInt (sint v)"
| "cell_to_json F (CI32 v) = JInt (sint v)"
| "cell_to_json F (CU32 v) = JInt (uint v)"
| "cell_to_json F (CI64 v) = JInt (sint v)"
| "cell_to_json F (CF32 v) = f32_json F v"
| "cell_to_json F (CF64 v) = f64_json F v"
| "cell_to_json F (CNumeric n) = JString (numeric_to_string F n)"
| "cell_to_json F (CDate d) = JString (date_to_string F d)"
| "cell_to_json F (CTime t) = JString (time_to_string F t)"
| "cell_to_json F (CTimeTz t) = JString (timetz_to_string F t)"
| "cell_to_json F (CTimestamp ts) = JString (timestamp_to_string F ts)"
| "cell_to_json F (CTimestampTz ts) = JString (timestamptz_to_rfc3339 F ts)"
| "cell_to_json F (CUuid u) = JString (uuid_to_string F u)"
| "cell_to_json F (CJson v) = v"
| "cell_to_json F (CBytes b) = JString (base64_encode F b)"
| "cell_to_json F (CArray arr) = array_to_json F arr"

text \<open>The number of elements of an array cell and the positions that hold a null.\<close>

fun array_nulls :: "'x ArrayCell \<Rightarrow> bool list" where
  "array_nulls (ABool v) = map Option.is_none v"
| "array_nulls (AString v) = map Option.is_none v"
| "array_nulls (AI16 v) = map Option.is_none v"
| "array_nulls (AI32 v) = map Option.is_none v"
| "array_nulls (AU32 v) = map Option.is_none v"
| "array_nulls (AI64 v) = map Option.is_none v"
| "array_nulls (AF32 v) = map Option.is_none v"
| "array_nulls (AF64 v) = map Option.is_none v"
| "array_nulls (ANumeric v) = map Option.is_none v"
| "array_nulls (ADate v) = map Option.is_none v"
| "array_nulls (ATime v) = map Option.is_none v"
| "array_nulls (ATimeTz v) = map Option.is_none v"
| "array_nulls (ATimestamp v) = map Option.is_none v"
| "array_nulls (ATimestampTz v) = map Option.is_none v"
| "array_nulls (AUuid v) = map Option.is_none v"
| "array_nulls (AJson v) = map Option.is_none v"
| "array_nulls (ABytes v) = map Option.is_none v"

text \<open>An array keeps its length, and a null element stays a null at its position.\<close>

lemma array_to_json_shape:
  "\<exists>js. array_to_json F arr = JArray js \<and>
        list_all2 (\<lambda>absent j. absent \<longrightarrow> j = JNull) (array_nulls arr) js"
  by (cases arr) (auto simp: json_list_def list_all2_map1 list_all2_map2 list.rel_refl_strong
      intro!: list.rel_refl_strong split: option.splits)

end
