(* ===== verification/CdcArrow.thy ===== *)
theory CdcArrow
  imports CdcCells
begin

text \<open>
  Typed column construction, \<open>src/src/postgres_cdc/arrow.rs\<close>, and the schema discovery that
  chooses the column types, \<open>src/src/postgres_cdc/discovery.rs\<close>.

  Arrow's \<open>RecordBatch::try_new\<close> and Postgres' type catalogue are not part of the repository: the
  first is the parameter \<open>try_new\<close>, the second the parameter \<open>from_oid\<close>, whose result names the
  types the source compares with. A finished column is the builder it was finished from. Error
  messages leave out the text another crate prints into them.
\<close>

section \<open>Arrow types and schemas\<close>

datatype TimeUnit = Second | Millisecond | Microsecond | Nanosecond

text \<open>
  The Arrow types that the plugins name. The fields of a nested type are triples of name, type and
  nullability.
\<close>

datatype DataType =
    DBoolean
  | DInt8
  | DInt16
  | DInt32
  | DInt64
  | DUInt8
  | DUInt16
  | DUInt32
  | DUInt64
  | DFloat16
  | DFloat32
  | DFloat64
  | DUtf8
  | DLargeUtf8
  | DUtf8View
  | DBinary
  | DLargeBinary
  | DBinaryView
  | DFixedSizeBinary nat
  | DDate32
  | DDate64
  | DTime32 TimeUnit
  | DTime64 TimeUnit
  | DTimestamp TimeUnit "string option"
  | DDecimal128 nat int
  | DDecimal256 nat int
  | DList "string \<times> DataType \<times> bool"
  | DLargeList "string \<times> DataType \<times> bool"
  | DFixedSizeList "string \<times> DataType \<times> bool" nat
  | DStruct "(string \<times> DataType \<times> bool) list"
  | DMap "string \<times> DataType \<times> bool" bool
  | DOther string

record Field =
  field_name :: string
  data_type :: DataType
  nullable :: bool

type_synonym Schema = "Field list"

section \<open>Schema discovery\<close>

record DiscoveredColumn =
  dc_name :: string
  type_oid :: u32

datatype PgType =
    PgBOOL | PgINT2 | PgINT4 | PgINT8 | PgOID | PgFLOAT4 | PgFLOAT8 | PgBYTEA
  | PgDATE | PgTIME | PgTIMESTAMP | PgTIMESTAMPTZ | PgOther u32

definition STREAMLING_COLUMN_NAME_OP :: string where
  "STREAMLING_COLUMN_NAME_OP = ''_gs_op''"

definition arrow_type_for :: "(u32 \<Rightarrow> PgType option) \<Rightarrow> u32 \<Rightarrow> DataType" where
  "arrow_type_for from_oid oid =
     (case from_oid oid of
        None \<Rightarrow> DUtf8
      | Some t \<Rightarrow>
          (if t = PgBOOL then DBoolean
           else if t = PgINT2 then DInt16
           else if t = PgINT4 then DInt32
           else if t = PgINT8 then DInt64
           else if t = PgOID then DUInt32
           else if t = PgFLOAT4 then DFloat32
           else if t = PgFLOAT8 then DFloat64
           else if t = PgBYTEA then DBinary
           else if t = PgDATE then DDate32
           else if t = PgTIME then DTime64 Microsecond
           else if t = PgTIMESTAMP then DTimestamp Microsecond None
           else if t = PgTIMESTAMPTZ then DTimestamp Microsecond (Some ''UTC'')
           else DUtf8))"

text \<open>The loop of \<open>build_output_schema\<close> over the discovered columns.\<close>

fun output_fields :: "(u32 \<Rightarrow> PgType option) \<Rightarrow> DiscoveredColumn list \<Rightarrow> string + Field list" where
  "output_fields from_oid [] = Inr []"
| "output_fields from_oid (c # cs) =
     (if dc_name c = STREAMLING_COLUMN_NAME_OP
      then Inl (''postgres_cdc_source: table column '' @ quoted (dc_name c)
                @ '' collides with the reserved streamling op column'')
      else res_bind (output_fields from_oid cs)
        (\<lambda>fs. Inr (\<lparr>field_name = dc_name c, data_type = arrow_type_for from_oid (type_oid c),
                     nullable = True\<rparr> # fs)))"

definition build_output_schema ::
  "(u32 \<Rightarrow> PgType option) \<Rightarrow> DiscoveredColumn list \<Rightarrow> string + Schema" where
  "build_output_schema from_oid columns =
     (if columns = [] then Inl ''postgres_cdc_source: table has no columns''
      else res_bind (output_fields from_oid columns)
        (\<lambda>fs. Inr (\<lparr>field_name = STREAMLING_COLUMN_NAME_OP, data_type = DUtf8,
                     nullable = False\<rparr> # fs)))"

section \<open>Rows and column builders\<close>

record 'x CdcRow =
  row_op :: string
  row_values :: "'x Cell option list"

definition gs_op_for :: "string \<Rightarrow> string" where
  "gs_op_for op = (if op = ''update'' then ''u'' else if op = ''delete'' then ''d'' else ''i'')"

datatype 'x ColBuilder =
    BBool "bool option list"
  | BI16 "16 word option list"
  | BI32 "32 word option list"
  | BI64 "64 word option list"
  | BU32 "32 word option list"
  | BF32 "'x option list"
  | BF64 "'x option list"
  | BUtf8 "string option list"
  | BBin "u8 list option list"
  | BDate "32 word option list"
  | BTime "64 word option list"
  | BTs "64 word option list"
  | BTsTz "64 word option list"

definition cell_to_utf8 :: "'x foreign \<Rightarrow> 'x Cell \<Rightarrow> string" where
  "cell_to_utf8 F cell =
     (case cell of
        CString s \<Rightarrow> s
      | other \<Rightarrow>
          (case cell_to_json F other of JString s \<Rightarrow> s | v \<Rightarrow> json_to_string F v))"

definition UNIX_EPOCH_DAYS :: "32 word" where
  "UNIX_EPOCH_DAYS = 719163"

definition colbuilder_new :: "DataType \<Rightarrow> ArrowError + 'x ColBuilder" where
  "colbuilder_new dt =
     (case dt of
        DBoolean \<Rightarrow> Inr (BBool [])
      | DInt16 \<Rightarrow> Inr (BI16 [])
      | DInt32 \<Rightarrow> Inr (BI32 [])
      | DInt64 \<Rightarrow> Inr (BI64 [])
      | DUInt32 \<Rightarrow> Inr (BU32 [])
      | DFloat32 \<Rightarrow> Inr (BF32 [])
      | DFloat64 \<Rightarrow> Inr (BF64 [])
      | DUtf8 \<Rightarrow> Inr (BUtf8 [])
      | DBinary \<Rightarrow> Inr (BBin [])
      | DDate32 \<Rightarrow> Inr (BDate [])
      | DTime64 u \<Rightarrow>
          (if u = Microsecond then Inr (BTime [])
           else Inl (SchemaError ''postgres_cdc: unsupported output column type''))
      | DTimestamp u tz \<Rightarrow>
          (if u = Microsecond \<and> tz = None then Inr (BTs [])
           else if u = Microsecond \<and> tz = Some ''UTC'' then Inr (BTsTz [])
           else Inl (SchemaError ''postgres_cdc: unsupported output column type''))
      | _ \<Rightarrow> Inl (SchemaError ''postgres_cdc: unsupported output column type''))"

definition append_null :: "'x ColBuilder \<Rightarrow> 'x ColBuilder" where
  "append_null b =
     (case b of
        BBool v \<Rightarrow> BBool (v @ [None])
      | BI16 v \<Rightarrow> BI16 (v @ [None])
      | BI32 v \<Rightarrow> BI32 (v @ [None])
      | BI64 v \<Rightarrow> BI64 (v @ [None])
      | BU32 v \<Rightarrow> BU32 (v @ [None])
      | BF32 v \<Rightarrow> BF32 (v @ [None])
      | BF64 v \<Rightarrow> BF64 (v @ [None])
      | BUtf8 v \<Rightarrow> BUtf8 (v @ [None])
      | BBin v \<Rightarrow> BBin (v @ [None])
      | BDate v \<Rightarrow> BDate (v @ [None])
      | BTime v \<Rightarrow> BTime (v @ [None])
      | BTs v \<Rightarrow> BTs (v @ [None])
      | BTsTz v \<Rightarrow> BTsTz (v @ [None]))"

text \<open>
  The coercion table of \<open>append\<close>: the first matching pair of builder and cell appends a value,
  any other pair appends a null. The widening of a signed integer is sign extension.
\<close>

definition append_cell :: "'x foreign \<Rightarrow> 'x ColBuilder \<Rightarrow> 'x Cell \<Rightarrow> 'x ColBuilder" where
  "append_cell F b cell =
     (case b of
        BBool v \<Rightarrow> (case cell of CBool x \<Rightarrow> BBool (v @ [Some x]) | _ \<Rightarrow> append_null b)
      | BI16 v \<Rightarrow> (case cell of CI16 x \<Rightarrow> BI16 (v @ [Some x]) | _ \<Rightarrow> append_null b)
      | BI32 v \<Rightarrow>
          (case cell of
             CI32 x \<Rightarrow> BI32 (v @ [Some x])
           | CI16 x \<Rightarrow> BI32 (v @ [Some (signed x)])
           | _ \<Rightarrow> append_null b)
      | BI64 v \<Rightarrow>
          (case cell of
             CI64 x \<Rightarrow> BI64 (v @ [Some x])
           | CI32 x \<Rightarrow> BI64 (v @ [Some (signed x)])
           | CI16 x \<Rightarrow> BI64 (v @ [Some (signed x)])
           | _ \<Rightarrow> append_null b)
      | BU32 v \<Rightarrow> (case cell of CU32 x \<Rightarrow> BU32 (v @ [Some x]) | _ \<Rightarrow> append_null b)
      | BF32 v \<Rightarrow> (case cell of CF32 x \<Rightarrow> BF32 (v @ [Some x]) | _ \<Rightarrow> append_null b)
      | BF64 v \<Rightarrow>
          (case cell of
             CF64 x \<Rightarrow> BF64 (v @ [Some x])
           | CF32 x \<Rightarrow> BF64 (v @ [Some (f64_of_f32 F x)])
           | _ \<Rightarrow> append_null b)
      | BUtf8 v \<Rightarrow> BUtf8 (v @ [Some (cell_to_utf8 F cell)])
      | BBin v \<Rightarrow> (case cell of CBytes x \<Rightarrow> BBin (v @ [Some x]) | _ \<Rightarrow> append_null b)
      | BDate v \<Rightarrow>
          (case cell of
             CDate d \<Rightarrow> BDate (v @ [Some (num_days_from_ce F d - UNIX_EPOCH_DAYS)])
           | _ \<Rightarrow> append_null b)
      | BTime v \<Rightarrow>
          (case cell of
             CTime t \<Rightarrow>
               BTime (v @ [Some (ucast (num_seconds_from_midnight F t) * 1000000
                                 + ucast (nanosecond F t div 1000))])
           | _ \<Rightarrow> append_null b)
      | BTs v \<Rightarrow>
          (case cell of CTimestamp t \<Rightarrow> BTs (v @ [Some (timestamp_micros F t)])
           | _ \<Rightarrow> append_null b)
      | BTsTz v \<Rightarrow>
          (case cell of CTimestampTz t \<Rightarrow> BTsTz (v @ [Some (timestamptz_micros F t)])
           | _ \<Rightarrow> append_null b))"

definition colbuilder_append :: "'x foreign \<Rightarrow> 'x ColBuilder \<Rightarrow> 'x Cell option \<Rightarrow> 'x ColBuilder" where
  "colbuilder_append F b value =
     (case value of
        None \<Rightarrow> append_null b
      | Some cell \<Rightarrow>
          (case cell of CNull \<Rightarrow> append_null b | _ \<Rightarrow> append_cell F b cell))"

text \<open>\<open>finish\<close>: the type and the null positions of the finished array.\<close>

fun finish_type :: "'x ColBuilder \<Rightarrow> DataType" where
  "finish_type (BBool v) = DBoolean"
| "finish_type (BI16 v) = DInt16"
| "finish_type (BI32 v) = DInt32"
| "finish_type (BI64 v) = DInt64"
| "finish_type (BU32 v) = DUInt32"
| "finish_type (BF32 v) = DFloat32"
| "finish_type (BF64 v) = DFloat64"
| "finish_type (BUtf8 v) = DUtf8"
| "finish_type (BBin v) = DBinary"
| "finish_type (BDate v) = DDate32"
| "finish_type (BTime v) = DTime64 Microsecond"
| "finish_type (BTs v) = DTimestamp Microsecond None"
| "finish_type (BTsTz v) = DTimestamp Microsecond (Some ''UTC'')"

fun col_nulls :: "'x ColBuilder \<Rightarrow> bool list" where
  "col_nulls (BBool v) = map Option.is_none v"
| "col_nulls (BI16 v) = map Option.is_none v"
| "col_nulls (BI32 v) = map Option.is_none v"
| "col_nulls (BI64 v) = map Option.is_none v"
| "col_nulls (BU32 v) = map Option.is_none v"
| "col_nulls (BF32 v) = map Option.is_none v"
| "col_nulls (BF64 v) = map Option.is_none v"
| "col_nulls (BUtf8 v) = map Option.is_none v"
| "col_nulls (BBin v) = map Option.is_none v"
| "col_nulls (BDate v) = map Option.is_none v"
| "col_nulls (BTime v) = map Option.is_none v"
| "col_nulls (BTs v) = map Option.is_none v"
| "col_nulls (BTsTz v) = map Option.is_none v"

section \<open>Building a batch\<close>

text \<open>One row: its arity is checked, then its op and every value are appended.\<close>

fun append_rows ::
  "'x foreign \<Rightarrow> 'x CdcRow list \<Rightarrow> string option list \<times> 'x ColBuilder list
     \<Rightarrow> ArrowError + string option list \<times> 'x ColBuilder list" where
  "append_rows F [] (ops, bs) = Inr (ops, bs)"
| "append_rows F (row # rows) (ops, bs) =
     (if length (row_values row) \<noteq> length bs
      then Inl (InvalidArgumentError
             (''postgres_cdc: row has '' @ show_nat (length (row_values row)) @ '' values for ''
              @ show_nat (length bs) @ '' data columns''))
      else append_rows F rows
             (ops @ [Some (gs_op_for (row_op row))],
              map2 (colbuilder_append F) bs (row_values row)))"

definition rows_to_record_batch ::
  "'x foreign \<Rightarrow> (Schema \<Rightarrow> 'x ColBuilder list \<Rightarrow> ArrowError + 'batch)
     \<Rightarrow> Schema \<Rightarrow> 'x CdcRow list \<Rightarrow> ArrowError + 'batch" where
  "rows_to_record_batch F try_new schema rows =
     res_bind (collect_results (\<lambda>f. colbuilder_new (data_type f)) (tl schema)) (\<lambda>builders.
     res_bind (append_rows F rows ([], builders)) (\<lambda>(ops, bs).
     try_new schema (BUtf8 ops # bs)))"

section \<open>Lemmas\<close>

lemma colbuilder_new_type: "colbuilder_new dt = Inr b \<Longrightarrow> finish_type b = dt \<and> col_nulls b = []"
  by (auto simp: colbuilder_new_def split: DataType.splits if_splits)

text \<open>Discovery only chooses types that the builders support.\<close>

lemma arrow_type_for_supported:
  "\<exists>b :: 'x ColBuilder. colbuilder_new (arrow_type_for from_oid oid) = Inr b"
  by (cases "from_oid oid") (auto simp: arrow_type_for_def colbuilder_new_def)

lemma append_null_type [simp]: "finish_type (append_null b) = finish_type b"
  by (cases b) (auto simp: append_null_def)

lemma append_null_nulls [simp]: "col_nulls (append_null b) = col_nulls b @ [True]"
  by (cases b) (auto simp: append_null_def)

lemma append_cell_type [simp]: "finish_type (append_cell F b c) = finish_type b"
  by (cases b; cases c) (simp_all add: append_cell_def append_null_def)

lemma append_cell_length [simp]: "length (col_nulls (append_cell F b c)) = Suc (length (col_nulls b))"
  by (cases b; cases c) (simp_all add: append_cell_def append_null_def)

lemma colbuilder_append_type [simp]: "finish_type (colbuilder_append F b v) = finish_type b"
  by (auto simp: colbuilder_append_def split: option.splits Cell.splits)

lemma colbuilder_append_length [simp]:
  "length (col_nulls (colbuilder_append F b v)) = Suc (length (col_nulls b))"
  by (auto simp: colbuilder_append_def split: option.splits Cell.splits)

lemma append_rows_Inr:
  assumes "\<forall>row \<in> set rows. length (row_values row) = length bs"
    and "\<forall>b \<in> set bs. length (col_nulls b) = n"
  shows "\<exists>bs'. append_rows F rows (ops, bs)
            = Inr (ops @ map (\<lambda>row. Some (gs_op_for (row_op row))) rows, bs') \<and>
          map finish_type bs' = map finish_type bs \<and>
          (\<forall>b \<in> set bs'. length (col_nulls b) = n + length rows)"
  using assms
proof (induction rows arbitrary: ops bs n)
  case Nil
  then show ?case by auto
next
  case (Cons row rows)
  let ?bs = "map2 (colbuilder_append F) bs (row_values row)"
  have len: "length (row_values row) = length bs" using Cons.prems by simp
  have types: "map finish_type ?bs = map finish_type bs"
    using len by (intro nth_equalityI) auto
  have "\<forall>b \<in> set ?bs. length (col_nulls b) = Suc n"
    using Cons.prems(2) by (auto dest!: set_zip_leftD)
  then have "\<exists>bs'. append_rows F rows (ops @ [Some (gs_op_for (row_op row))], ?bs)
            = Inr ((ops @ [Some (gs_op_for (row_op row))])
                   @ map (\<lambda>row. Some (gs_op_for (row_op row))) rows, bs') \<and>
          map finish_type bs' = map finish_type ?bs \<and>
          (\<forall>b \<in> set bs'. length (col_nulls b) = Suc n + length rows)"
    using Cons.prems(1) len by (intro Cons.IH) auto
  then show ?case using len types by simp
qed

lemma append_rows_Inl:
  assumes "row \<in> set rows" and "length (row_values row) \<noteq> length bs"
  shows "\<exists>msg. append_rows F rows (ops, bs) = Inl (InvalidArgumentError msg)"
  using assms
proof (induction rows arbitrary: ops bs)
  case Nil
  then show ?case by simp
next
  case (Cons r rows)
  show ?case
  proof (cases "length (row_values r) = length bs")
    case True
    with Cons.prems have "row \<in> set rows" by auto
    then show ?thesis using True Cons.IH Cons.prems(2) by simp
  qed simp
qed

lemma output_fields_shape:
  "output_fields from_oid cs = Inr fs \<Longrightarrow>
   map field_name fs = map dc_name cs \<and>
   map data_type fs = map (\<lambda>c. arrow_type_for from_oid (type_oid c)) cs \<and>
   STREAMLING_COLUMN_NAME_OP \<notin> set (map field_name fs) \<and> (\<forall>f \<in> set fs. nullable f)"
  by (induction cs arbitrary: fs) (auto simp: outcome split: if_splits)

lemma build_output_schema_shape:
  assumes "build_output_schema from_oid cs = Inr schema"
  shows "map field_name schema = STREAMLING_COLUMN_NAME_OP # map dc_name cs"
    and "map data_type schema = DUtf8 # map (\<lambda>c. arrow_type_for from_oid (type_oid c)) cs"
    and "STREAMLING_COLUMN_NAME_OP \<notin> set (map dc_name cs)" and "cs \<noteq> []"
    and "map nullable schema = False # map (\<lambda>_. True) cs"
proof -
  obtain fs where fs: "output_fields from_oid cs = Inr fs" and ne: "cs \<noteq> []"
    and schema: "schema = \<lparr>field_name = STREAMLING_COLUMN_NAME_OP, data_type = DUtf8,
                   nullable = False\<rparr> # fs"
    using assms by (auto simp: build_output_schema_def outcome split: if_splits)
  note shape = output_fields_shape [OF fs]
  then have len: "length fs = length cs" by (metis length_map)
  show "map field_name schema = STREAMLING_COLUMN_NAME_OP # map dc_name cs"
    and "map data_type schema = DUtf8 # map (\<lambda>c. arrow_type_for from_oid (type_oid c)) cs"
    and "cs \<noteq> []"
    using shape schema ne by auto
  show "STREAMLING_COLUMN_NAME_OP \<notin> set (map dc_name cs)"
    using shape by metis
  have "map nullable fs = map (\<lambda>_. True) cs"
    using shape len by (intro nth_equalityI) auto
  then show "map nullable schema = False # map (\<lambda>_. True) cs"
    using schema by simp
qed

lemma schema_builders:
  assumes "build_output_schema from_oid cs = Inr schema"
  shows "\<exists>bs :: 'x ColBuilder list.
      collect_results (\<lambda>f. colbuilder_new (data_type f)) (tl schema) = Inr bs \<and>
      map finish_type bs = map data_type (tl schema) \<and> (\<forall>b \<in> set bs. col_nulls b = [])"
proof -
  have types: "map data_type (tl schema) = map (\<lambda>c. arrow_type_for from_oid (type_oid c)) cs"
    using build_output_schema_shape(2) [OF assms] by (metis list.sel(3) map_tl)
  have "\<exists>b :: 'x ColBuilder. colbuilder_new (data_type f) = Inr b" if "f \<in> set (tl schema)" for f
  proof -
    have "data_type f \<in> set (map data_type (tl schema))" using that by simp
    then show ?thesis using arrow_type_for_supported unfolding types by fastforce
  qed
  then obtain g :: "Field \<Rightarrow> 'x ColBuilder"
    where g: "\<And>f. f \<in> set (tl schema) \<Longrightarrow> colbuilder_new (data_type f) = Inr (g f)"
    by metis
  then have "collect_results (\<lambda>f. colbuilder_new (data_type f)) (tl schema) = Inr (map g (tl schema))"
    by (rule collect_results_total)
  moreover have "map finish_type (map g (tl schema)) = map data_type (tl schema)"
    using g colbuilder_new_type by fastforce
  moreover have "\<forall>b \<in> set (map g (tl schema)). col_nulls b = []"
    using g colbuilder_new_type by fastforce
  ultimately show ?thesis by blast
qed

section \<open>Properties\<close>

text \<open>
  The cell variant that replication decodes for a column of a type; a type outside the table
  decodes to any variant.
\<close>

definition decodes_as :: "PgType option \<Rightarrow> 'x Cell \<Rightarrow> bool" where
  "decodes_as t cell =
     (case t of
        Some PgBOOL \<Rightarrow> is_CBool cell
      | Some PgINT2 \<Rightarrow> is_CI16 cell
      | Some PgINT4 \<Rightarrow> is_CI32 cell
      | Some PgINT8 \<Rightarrow> is_CI64 cell
      | Some PgOID \<Rightarrow> is_CU32 cell
      | Some PgFLOAT4 \<Rightarrow> is_CF32 cell
      | Some PgFLOAT8 \<Rightarrow> is_CF64 cell
      | Some PgBYTEA \<Rightarrow> is_CBytes cell
      | Some PgDATE \<Rightarrow> is_CDate cell
      | Some PgTIME \<Rightarrow> is_CTime cell
      | Some PgTIMESTAMP \<Rightarrow> is_CTimestamp cell
      | Some PgTIMESTAMPTZ \<Rightarrow> is_CTimestampTz cell
      | _ \<Rightarrow> cell \<noteq> CNull)"

text \<open>
  C7: the type table of schema discovery agrees with the coercion table of the column builders: for
  every Postgres type, the builder chosen for its column exists, and appending a cell of the
  variant decoded for that type stores a value, never a null.
\<close>

theorem discovery_agrees_with_builders:
  assumes "decodes_as (from_oid oid) cell"
  shows "\<exists>b. colbuilder_new (arrow_type_for from_oid oid) = Inr b \<and>
             col_nulls (colbuilder_append F b (Some cell)) = [False]"
proof (cases "from_oid oid")
  case None
  with assms show ?thesis
    by (cases cell) (simp_all add: decodes_as_def arrow_type_for_def colbuilder_new_def
        colbuilder_append_def append_cell_def)
next
  case (Some t)
  with assms show ?thesis
    by (cases t; cases cell) (simp_all add: decodes_as_def arrow_type_for_def colbuilder_new_def
        colbuilder_append_def append_cell_def)
qed

text \<open>A concrete instance of the parameters, for the witnesses: foreign values are their text.\<close>

definition text_foreign :: "string foreign" where
  "text_foreign =
     \<lparr>f32_json = JFloat, f64_json = JFloat, f64_of_f32 = (\<lambda>x. x), numeric_to_string = (\<lambda>x. x),
      date_to_string = (\<lambda>x. x), time_to_string = (\<lambda>x. x), timetz_to_string = (\<lambda>x. x),
      timestamp_to_string = (\<lambda>x. x), timestamptz_to_rfc3339 = (\<lambda>x. x),
      uuid_to_string = (\<lambda>x. x), base64_encode = (\<lambda>bs. map (\<lambda>_. CHR ''A'') bs),
      json_to_string = (\<lambda>_. ''json''), num_days_from_ce = (\<lambda>_. 719163),
      num_seconds_from_midnight = (\<lambda>_. 1), nanosecond = (\<lambda>_. 500000),
      timestamp_micros = (\<lambda>_. 7), timestamptz_micros = (\<lambda>_. 7)\<rparr>"

theorem discovery_agrees_with_builders_witness:
  "\<exists>b. colbuilder_new (arrow_type_for (\<lambda>oid. if oid = 20 then Some PgINT8 else None) 20) = Inr b \<and>
       col_nulls (colbuilder_append text_foreign b (Some (CI64 5))) = [False]"
  by (rule discovery_agrees_with_builders) (simp add: decodes_as_def)

text \<open>
  for a schema that discovery built and rows that carry one value per data column, batch
  construction never fails before the batch constructor itself, and hands it one column per field:
  every column has the type its field declares and one entry per row, and the op column holds the
  streamling encoding of each row's operation.
\<close>

theorem rows_to_record_batch_well_typed:
  fixes F :: "'x foreign"
  assumes schema: "build_output_schema from_oid cs = Inr schema"
    and arity: "\<forall>row \<in> set rows. length (row_values row) = length cs"
  shows "\<exists>cols. rows_to_record_batch F try_new schema rows = try_new schema cols \<and>
           map finish_type cols = map data_type schema \<and>
           (\<forall>c \<in> set cols. length (col_nulls c) = length rows) \<and>
           hd cols = BUtf8 (map (\<lambda>row. Some (gs_op_for (row_op row))) rows)"
proof -
  note shape = build_output_schema_shape [OF schema]
  obtain bs :: "'x ColBuilder list"
    where bs: "collect_results (\<lambda>f. colbuilder_new (data_type f)) (tl schema) = Inr bs"
    and types: "map finish_type bs = map data_type (tl schema)"
    and empty: "\<forall>b \<in> set bs. col_nulls b = []"
    using schema_builders [OF schema] by blast
  have "length bs = length (tl schema)" using bs by (rule collect_results_length)
  moreover have "length schema = Suc (length cs)"
    using arg_cong [OF shape(1), of length] by simp
  ultimately have "\<forall>row \<in> set rows. length (row_values row) = length bs"
    using arity by simp
  then obtain bs' where app: "append_rows F rows ([], bs)
        = Inr (map (\<lambda>row. Some (gs_op_for (row_op row))) rows, bs')"
    and types': "map finish_type bs' = map finish_type bs"
    and len': "\<forall>b \<in> set bs'. length (col_nulls b) = length rows"
    using append_rows_Inr [of rows bs 0 F "[]"] empty by fastforce
  have "map finish_type (BUtf8 (map (\<lambda>row. Some (gs_op_for (row_op row))) rows) # bs')
      = map data_type schema"
    using types types' shape(2) by (cases schema) auto
  then show ?thesis
    using bs app len'
    by (intro exI [of _ "BUtf8 (map (\<lambda>row. Some (gs_op_for (row_op row))) rows) # bs'"])
      (simp add: rows_to_record_batch_def)
qed

definition witness_schema :: Schema where
  "witness_schema =
     [\<lparr>field_name = ''_gs_op'', data_type = DUtf8, nullable = False\<rparr>,
      \<lparr>field_name = ''id'', data_type = DInt64, nullable = True\<rparr>]"

theorem rows_to_record_batch_well_typed_witness:
  "\<exists>cols. rows_to_record_batch text_foreign (\<lambda>s c. Inr c) witness_schema
            [\<lparr>row_op = ''delete'', row_values = [Some (CI64 5)]\<rparr>] = Inr cols \<and>
          map finish_type cols = [DUtf8, DInt64]"
proof -
  have 1: "build_output_schema (\<lambda>oid. if oid = 20 then Some PgINT8 else None)
        [\<lparr>dc_name = ''id'', type_oid = 20\<rparr>] = Inr witness_schema"
    by (simp add: build_output_schema_def witness_schema_def STREAMLING_COLUMN_NAME_OP_def
        arrow_type_for_def)
  have 2: "\<forall>row \<in> set [\<lparr>row_op = ''delete'', row_values = [Some (CI64 5)]\<rparr>].
        length (row_values row) = length [\<lparr>dc_name = ''id'', type_oid = 20 :: u32\<rparr>]"
    by simp
  show ?thesis
    using rows_to_record_batch_well_typed [OF 1 2, of text_foreign "\<lambda>s c. Inr c"]
    by (auto simp: witness_schema_def)
qed

text \<open>
  a row whose number of values differs from the number of data columns is rejected with an
  argument error: no batch is built from it, and no column is silently shortened or padded.
\<close>

theorem rows_to_record_batch_rejects_arity:
  fixes F :: "'x foreign"
  assumes "build_output_schema from_oid cs = Inr schema"
    and "row \<in> set rows" and "length (row_values row) \<noteq> length cs"
  shows "\<exists>msg. rows_to_record_batch F try_new schema rows = Inl (InvalidArgumentError msg)"
proof -
  obtain bs :: "'x ColBuilder list"
    where bs: "collect_results (\<lambda>f. colbuilder_new (data_type f)) (tl schema) = Inr bs"
    using schema_builders [OF assms(1)] by blast
  have "length schema = Suc (length cs)"
    using arg_cong [OF build_output_schema_shape(1) [OF assms(1)], of length] by simp
  with collect_results_length [OF bs] have "length bs = length cs" by simp
  then obtain msg where "append_rows F rows ([], bs) = Inl (InvalidArgumentError msg)"
    using append_rows_Inl assms(2,3) by metis
  then show ?thesis using bs by (simp add: rows_to_record_batch_def)
qed

theorem rows_to_record_batch_rejects_arity_witness:
  "\<exists>msg. rows_to_record_batch text_foreign (\<lambda>s c. Inr c) witness_schema
            [\<lparr>row_op = ''insert'', row_values = []\<rparr>] = Inl (InvalidArgumentError msg)"
proof (rule rows_to_record_batch_rejects_arity)
  show "build_output_schema (\<lambda>oid. if oid = 20 then Some PgINT8 else None)
        [\<lparr>dc_name = ''id'', type_oid = 20\<rparr>] = Inr witness_schema"
    by (simp add: build_output_schema_def witness_schema_def STREAMLING_COLUMN_NAME_OP_def
        arrow_type_for_def)
qed auto

text \<open>\<open>Schema::index_of\<close>: the first field of a name.\<close>

fun index_of :: "Schema \<Rightarrow> string \<Rightarrow> nat option" where
  "index_of [] name = None"
| "index_of (f # fs) name = (if field_name f = name then Some 0 else map_option Suc (index_of fs name))"

lemma index_of_Some: "name \<in> field_name ` set schema \<Longrightarrow> \<exists>i. index_of schema name = Some i"
  by (induction schema) auto

end
