(* ===== verification/OrderedMaps.thy ===== *)
theory OrderedMaps
  imports Prelude
begin

text \<open>
  Rust's \<open>BTreeMap\<close> and \<open>HashMap\<close> as the components use them.

  A \<open>BTreeMap\<close> is the list of its entries in key order, so that iterating over it, its
  \<open>range\<close> queries and \<open>split_off\<close> are list operations. A \<open>HashMap\<close> is the list of its
  entries in some iteration order, which the source never relies on. Both provide the laws of the
  locale \<open>keyed_map\<close>.
\<close>

section \<open>The interface of a map\<close>

locale keyed_map =
  fixes km_get :: "'m \<Rightarrow> 'k \<Rightarrow> 'v option"
    and km_put :: "'k \<Rightarrow> 'v \<Rightarrow> 'm \<Rightarrow> 'm"
    and km_drop :: "'k \<Rightarrow> 'm \<Rightarrow> 'm"
    and km_ok :: "'m \<Rightarrow> bool"
  assumes get_put: "km_ok m \<Longrightarrow> km_get (km_put k v m) = (km_get m)(k \<mapsto> v)"
    and get_drop: "km_ok m \<Longrightarrow> km_get (km_drop k m) = (km_get m)(k := None)"
    and ok_put: "km_ok m \<Longrightarrow> km_ok (km_put k v m)"
    and ok_drop: "km_ok m \<Longrightarrow> km_ok (km_drop k m)"
begin

text \<open>Storing a sequence of entries: the last entry for a key wins.\<close>

lemma get_fold_put:
  "km_ok m \<Longrightarrow>
   km_ok (fold (\<lambda>(k, v). km_put k v) es m) \<and>
   km_get (fold (\<lambda>(k, v). km_put k v) es m) = km_get m ++ map_of (rev es)"
proof (induction es arbitrary: m)
  case Nil
  then show ?case by simp
next
  case (Cons e es)
  obtain k v where e: "e = (k, v)" by (cases e)
  have "km_ok (km_put k v m)" using Cons.prems by (rule ok_put)
  with Cons.IH [of "km_put k v m"] Cons.prems e show ?case
    by (auto simp: get_put fun_eq_iff map_add_def split: option.splits)
qed

lemma get_fold_put_distinct:
  assumes "km_ok m" and "distinct (map fst es)"
  shows "km_get (fold (\<lambda>(k, v). km_put k v) es m) = km_get m ++ map_of es"
proof -
  have "map_of (rev es) = map_of es"
    using assms(2) by (subst map_of_inject_set) (simp_all flip: rev_map)
  with get_fold_put [OF assms(1)] show ?thesis by simp
qed

lemma put_put: "km_ok m \<Longrightarrow> km_get (km_put k v (km_put k w m)) = km_get (km_put k v m)"
  by (simp add: get_put ok_put)

lemma put_drop: "km_ok m \<Longrightarrow> km_get (km_drop k (km_put k v m)) = km_get (km_drop k m)"
  by (simp add: get_put get_drop ok_put)

end

section \<open>BTreeMap\<close>

type_synonym ('k, 'v) btree_map = "('k \<times> 'v) list"

definition bt_ok :: "('k :: linorder, 'v) btree_map \<Rightarrow> bool" where
  "bt_ok m \<longleftrightarrow> sorted_wrt (<) (map fst m)"

abbreviation (input) bt_get :: "('k, 'v) btree_map \<Rightarrow> 'k \<Rightarrow> 'v option" where
  "bt_get \<equiv> map_of"

fun bt_insert :: "'k :: linorder \<Rightarrow> 'v \<Rightarrow> ('k, 'v) btree_map \<Rightarrow> ('k, 'v) btree_map" where
  "bt_insert k v [] = [(k, v)]"
| "bt_insert k v ((k', v') # m) =
     (if k < k' then (k, v) # (k', v') # m
      else if k = k' then (k, v) # m
      else (k', v') # bt_insert k v m)"

definition bt_remove :: "'k \<Rightarrow> ('k, 'v) btree_map \<Rightarrow> ('k, 'v) btree_map" where
  "bt_remove k m = filter (\<lambda>e. fst e \<noteq> k) m"

text \<open>\<open>split_off(&k)\<close> returns the entries whose key is at least \<open>k\<close>.\<close>

definition bt_split_off :: "'k :: linorder \<Rightarrow> ('k, 'v) btree_map \<Rightarrow> ('k, 'v) btree_map" where
  "bt_split_off k m = filter (\<lambda>e. k \<le> fst e) m"

text \<open>\<open>range(..=k).next_back()\<close>: the entry with the greatest key that is at most \<open>k\<close>.\<close>

definition bt_last_upto :: "'k :: linorder \<Rightarrow> ('k, 'v) btree_map \<Rightarrow> ('k \<times> 'v) option" where
  "bt_last_upto k m =
     (case filter (\<lambda>e. fst e \<le> k) m of [] \<Rightarrow> None | e # es \<Rightarrow> Some (last (e # es)))"

definition bt_retain :: "('k \<Rightarrow> bool) \<Rightarrow> ('k, 'v) btree_map \<Rightarrow> ('k, 'v) btree_map" where
  "bt_retain p m = filter (\<lambda>e. p (fst e)) m"

lemma fst_set_bt_insert [simp]: "fst ` set (bt_insert k v m) = insert k (fst ` set m)"
  by (induction k v m rule: bt_insert.induct) auto

lemma set_bt_insert_subset: "set (bt_insert k v m) \<subseteq> insert (k, v) (set m)"
  by (induction k v m rule: bt_insert.induct) auto

lemma bt_ok_insert [simp, intro]: "bt_ok m \<Longrightarrow> bt_ok (bt_insert k v m)"
  unfolding bt_ok_def
proof (induction k v m rule: bt_insert.induct)
  case (2 k v k' v' m)
  then show ?case
    using fst_set_bt_insert [of k v m] by auto
qed simp

lemma bt_get_insert [simp]: "bt_ok m \<Longrightarrow> bt_get (bt_insert k v m) = (bt_get m)(k \<mapsto> v)"
  unfolding bt_ok_def
proof (induction k v m rule: bt_insert.induct)
  case (2 k v k' v' m)
  then show ?case by (auto simp: fun_eq_iff)
qed simp

lemma bt_ok_filter: "bt_ok m \<Longrightarrow> bt_ok (filter P m)"
  unfolding bt_ok_def by (rule sorted_wrt_fst_filter)

lemma bt_ok_remove [simp, intro]: "bt_ok m \<Longrightarrow> bt_ok (bt_remove k m)"
  by (simp add: bt_remove_def bt_ok_filter)

lemma bt_ok_split_off [simp, intro]: "bt_ok m \<Longrightarrow> bt_ok (bt_split_off k m)"
  by (simp add: bt_split_off_def bt_ok_filter)

lemma bt_ok_retain [simp, intro]: "bt_ok m \<Longrightarrow> bt_ok (bt_retain p m)"
  by (simp add: bt_retain_def bt_ok_filter)

lemma bt_ok_Nil [simp]: "bt_ok []"
  by (simp add: bt_ok_def)

lemma bt_ok_distinct: "bt_ok m \<Longrightarrow> distinct (map fst m)"
  unfolding bt_ok_def by (simp add: strict_sorted_iff)

lemma bt_get_filter_fst: "bt_get (filter (\<lambda>e. p (fst e)) m) k = (if p k then bt_get m k else None)"
  by (induction m) auto

lemma bt_get_remove [simp]: "bt_get (bt_remove k m) = (bt_get m)(k := None)"
  unfolding bt_remove_def by (auto simp: fun_eq_iff bt_get_filter_fst [where p = "\<lambda>x. x \<noteq> k"])

lemma bt_get_split_off [simp]:
  "bt_get (bt_split_off k m) j = (if k \<le> j then bt_get m j else None)"
  unfolding bt_split_off_def by (rule bt_get_filter_fst)

lemma bt_get_retain [simp]: "bt_get (bt_retain p m) j = (if p j then bt_get m j else None)"
  unfolding bt_retain_def by (rule bt_get_filter_fst)

interpretation bt: keyed_map bt_get bt_insert bt_remove bt_ok
  by unfold_locales simp_all

lemma last_of_sorted_greatest:
  fixes es :: "('k :: linorder \<times> 'v) list"
  assumes "sorted_wrt (<) (map fst es)" and "e \<in> set es"
  shows "fst e \<le> fst (last es)"
  using assms
proof (induction es)
  case Nil
  then show ?case by simp
next
  case (Cons x es)
  show ?case
  proof (cases "es = []")
    case True
    with Cons.prems show ?thesis by simp
  next
    case False
    then have "fst x < fst (last es)" using Cons.prems by simp
    then have "fst x \<le> fst (last es)" by (rule less_imp_le)
    with Cons False show ?thesis by auto
  qed
qed

text \<open>The range query returns an entry of the map, and no other entry in the range is later.\<close>

lemma bt_last_upto_Some:
  assumes ok: "bt_ok m" and r: "bt_last_upto k m = Some (j, v)"
  shows "bt_get m j = Some v" and "j \<le> k"
    and "i \<in> dom (bt_get m) \<Longrightarrow> i \<le> k \<Longrightarrow> i \<le> j"
proof -
  let ?es = "filter (\<lambda>e. fst e \<le> k) m"
  have ne: "?es \<noteq> []" and l: "last ?es = (j, v)"
    using r by (auto simp: bt_last_upto_def split: list.splits)
  have mem: "(j, v) \<in> set ?es"
    using ne l last_in_set by metis
  then show "bt_get m j = Some v" and "j \<le> k"
    using ok by (auto simp: bt_ok_distinct)
  assume "i \<in> dom (bt_get m)" and "i \<le> k"
  then obtain w where "(i, w) \<in> set ?es"
    by (auto dest: map_of_SomeD)
  moreover have "sorted_wrt (<) (map fst ?es)"
    using ok unfolding bt_ok_def by (rule sorted_wrt_fst_filter)
  ultimately show "i \<le> j"
    using last_of_sorted_greatest [of ?es "(i, w)"] l by simp
qed

lemma bt_last_upto_None:
  "bt_last_upto k m = None \<longleftrightarrow> (\<forall>i \<in> dom (bt_get m). \<not> i \<le> k)"
proof -
  have "bt_last_upto k m = None \<longleftrightarrow> (\<forall>e \<in> set m. \<not> fst e \<le> k)"
    unfolding bt_last_upto_def
    by (cases "filter (\<lambda>e. fst e \<le> k) m") (auto simp: filter_empty_conv filter_eq_Cons_iff)
  then show ?thesis
    by (simp add: dom_map_of_conv_image_fst)
qed

lemma bt_last_upto_eqI:
  assumes ok: "bt_ok m" and g: "bt_get m j = Some v" and le: "j \<le> k"
    and great: "\<And>i. i \<in> dom (bt_get m) \<Longrightarrow> i \<le> k \<Longrightarrow> i \<le> j"
  shows "bt_last_upto k m = Some (j, v)"
proof (cases "bt_last_upto k m")
  case None
  with g le show ?thesis by (auto simp: bt_last_upto_None)
next
  case (Some e)
  obtain i w where e: "e = (i, w)" by (cases e)
  note s = bt_last_upto_Some [OF ok Some [unfolded e]]
  have "i \<le> j" using s(1,2) by (intro great) auto
  moreover have "j \<le> i" using g le by (intro s(3)) auto
  ultimately have "i = j" by simp
  with s(1) g e Some show ?thesis by simp
qed

lemma bt_get_eqI:
  assumes "bt_ok m" and "bt_ok n" and "bt_get m = bt_get n"
  shows "m = n"
proof -
  have "set m = set n"
    using assms map_of_inject_set [of m n] bt_ok_distinct by blast
  then have "set (map fst m) = set (map fst n)" by simp
  then have keys: "map fst m = map fst n"
    using assms(1,2) unfolding bt_ok_def by (intro strict_sorted_equal)
  show ?thesis
  proof (rule nth_equalityI)
    show "length m = length n" using keys by (metis length_map)
    fix i assume i: "i < length m"
    have "bt_get m (fst (m ! i)) = Some (snd (m ! i))"
      using assms(1) i by (simp add: bt_ok_distinct map_of_eq_Some_iff)
    moreover have "i < length n" using keys i by (metis length_map)
    moreover have "bt_get n (fst (n ! i)) = Some (snd (n ! i))"
      using assms(2) calculation(2) by (simp add: bt_ok_distinct map_of_eq_Some_iff)
    moreover have "fst (m ! i) = fst (n ! i)"
      using keys i calculation(2) by (metis nth_map)
    ultimately show "m ! i = n ! i"
      using assms(3) by (metis option.inject prod_eq_iff)
  qed
qed

text \<open>Inserting the entries of a map in key order rebuilds it.\<close>

lemma bt_insert_last: "\<forall>e \<in> set m. fst e < k \<Longrightarrow> bt_insert k v m = m @ [(k, v)]"
  by (induction k v m rule: bt_insert.induct) (auto simp: not_less_iff_gr_or_eq)

lemma bt_insert_replace_last:
  "\<forall>e \<in> set m. fst e < k \<Longrightarrow> bt_insert k v (m @ [(k, w)]) = m @ [(k, v)]"
  by (induction m) (auto simp: not_less_iff_gr_or_eq)

lemma bt_rebuild_append:
  "bt_ok (m0 @ m) \<Longrightarrow> fold (\<lambda>(k, v). bt_insert k v) m m0 = m0 @ m"
proof (induction m arbitrary: m0)
  case Nil
  then show ?case by simp
next
  case (Cons e m)
  obtain k v where e: "e = (k, v)" by (cases e)
  have "\<forall>x \<in> set m0. fst x < k"
    using Cons.prems e by (auto simp: bt_ok_def sorted_wrt_append)
  with Cons.IH [of "m0 @ [e]"] Cons.prems e show ?case by (simp add: bt_insert_last)
qed

lemma bt_rebuild: "bt_ok m \<Longrightarrow> fold (\<lambda>(k, v). bt_insert k v) m [] = m"
  using bt_rebuild_append [of "[]" m] by simp

section \<open>HashMap\<close>

type_synonym ('k, 'v) hash_map = "('k \<times> 'v) list"

definition hm_ok :: "('k, 'v) hash_map \<Rightarrow> bool" where
  "hm_ok m \<longleftrightarrow> distinct (map fst m)"

abbreviation (input) hm_get :: "('k, 'v) hash_map \<Rightarrow> 'k \<Rightarrow> 'v option" where
  "hm_get \<equiv> map_of"

abbreviation (input) hm_insert :: "'k \<Rightarrow> 'v \<Rightarrow> ('k, 'v) hash_map \<Rightarrow> ('k, 'v) hash_map" where
  "hm_insert \<equiv> AList.update"

abbreviation (input) hm_remove :: "'k \<Rightarrow> ('k, 'v) hash_map \<Rightarrow> ('k, 'v) hash_map" where
  "hm_remove \<equiv> AList.delete"

lemma hm_ok_Nil [simp]: "hm_ok []"
  by (simp add: hm_ok_def)

lemma hm_ok_insert [simp, intro]: "hm_ok m \<Longrightarrow> hm_ok (hm_insert k v m)"
  by (simp add: hm_ok_def distinct_update)

lemma hm_ok_remove [simp, intro]: "hm_ok m \<Longrightarrow> hm_ok (hm_remove k m)"
  by (simp add: hm_ok_def distinct_delete)

interpretation hm: keyed_map hm_get hm_insert hm_remove hm_ok
  by unfold_locales (simp_all add: update_conv' delete_conv')

lemmas hm_get_simps [simp] = update_conv' delete_conv'

lemma hm_insert_fresh: "k \<notin> fst ` set m \<Longrightarrow> hm_insert k v m = m @ [(k, v)]"
  by (induction m) auto

lemma hm_rebuild_append:
  "hm_ok (m0 @ m) \<Longrightarrow> fold (\<lambda>(k, v). hm_insert k v) m m0 = m0 @ m"
proof (induction m arbitrary: m0)
  case Nil
  then show ?case by simp
next
  case (Cons e m)
  obtain k v where e: "e = (k, v)" by (cases e)
  have "k \<notin> fst ` set m0"
    using Cons.prems e by (auto simp: hm_ok_def)
  with Cons.IH [of "m0 @ [e]"] Cons.prems e show ?case by (simp add: hm_insert_fresh)
qed

lemma hm_rebuild: "hm_ok m \<Longrightarrow> fold (\<lambda>(k, v). hm_insert k v) m [] = m"
  using hm_rebuild_append [of "[]" m] by simp

end
