(* ===== verification/Ledger.thy ===== *)
theory Ledger
  imports OrderedMaps
begin

text \<open>
  The deferred-acknowledgement bookkeeping of \<open>src/src/postgres_cdc/ledger.rs\<close>.

  \<open>AckLedger\<close> counts the rows a source has delivered, arms an acknowledgement at the count where
  its last row was delivered, snapshots the count for a checkpoint epoch and, when that epoch is
  final, hands back the acknowledgements armed at or before the snapshot. \<open>SharedAck\<close> splits
  one acknowledgement over the sources that a write fed. Counters are 64-bit words that wrap, as
  they do in the release profile.

  The locale \<open>ack_releaser\<close> is the contract the checkpointing source relies on. The
  specification \<open>spec_ledger\<close> keeps every armed unit with an unbounded position and releases by
  filtering; the ledger refines it as long as the row counter does not overflow.
\<close>

section \<open>The contract of a releasing ledger\<close>

locale ack_releaser =
  fixes deliver :: "u64 \<Rightarrow> 'l \<Rightarrow> 'l"
    and arm :: "'a \<Rightarrow> 'l \<Rightarrow> 'l"
    and mark :: "u64 \<Rightarrow> 'l \<Rightarrow> 'l"
    and settle :: "u64 \<Rightarrow> 'l \<Rightarrow> 'a list \<times> 'l"
    and outstanding :: "'l \<Rightarrow> 'a list"
    and good :: "'l \<Rightarrow> bool"
    and room :: "u64 \<Rightarrow> 'l \<Rightarrow> bool"
  assumes deliver_outstanding: "outstanding (deliver n l) = outstanding l"
    and arm_outstanding: "outstanding (arm a l) = outstanding l @ [a]"
    and mark_outstanding: "outstanding (mark e l) = outstanding l"
    and settle_outstanding: "settle e l = (rs, l') \<Longrightarrow> rs @ outstanding l' = outstanding l"
    and settle_after_mark: "good l \<Longrightarrow> settle e (mark e l) = (rs, l') \<Longrightarrow> outstanding l' = []"
    and good_deliver: "good l \<Longrightarrow> room n l \<Longrightarrow> good (deliver n l)"
    and good_arm: "good l \<Longrightarrow> good (arm a l)"
    and good_mark: "good l \<Longrightarrow> good (mark e l)"
    and good_settle: "good l \<Longrightarrow> settle e l = (rs, l') \<Longrightarrow> good l'"
begin

lemma arm_all_outstanding: "outstanding (fold arm as l) = outstanding l @ as"
  by (induction as arbitrary: l) (simp_all add: arm_outstanding)

lemma arm_all_good: "good l \<Longrightarrow> good (fold arm as l)"
  by (induction as arbitrary: l) (simp_all add: good_arm)

text \<open>A checkpoint taken and finalized right after a batch releases everything owed so far.\<close>

lemma checkpoint_releases_all:
  assumes "good l" and "room n l" and "settle e (mark e (fold arm as (deliver n l))) = (rs, l')"
  shows "rs = outstanding l @ as"
proof -
  let ?m = "fold arm as (deliver n l)"
  have "good ?m" using assms(1,2) by (intro arm_all_good good_deliver)
  then have "outstanding l' = []" using assms(3) by (rule settle_after_mark)
  moreover have "rs @ outstanding l' = outstanding (mark e ?m)"
    using assms(3) by (rule settle_outstanding)
  ultimately show ?thesis
    by (simp add: mark_outstanding arm_all_outstanding deliver_outstanding)
qed

text \<open>Nothing is released that was not owed, and in the order it was armed.\<close>

lemma settle_prefix: "settle e l = (rs, l') \<Longrightarrow> rs = take (length rs) (outstanding l)"
  using settle_outstanding [of e l rs l'] by (metis append_eq_conv_conj)

end

section \<open>AckLedger\<close>

record 'a AckLedger =
  emitted :: u64
  pending :: "(u64 \<times> 'a) list"
  markers :: "(u64, u64) btree_map"

definition ledger_new :: "'a AckLedger" where
  "ledger_new = \<lparr>emitted = 0, pending = [], markers = []\<rparr>"

definition rows_delivered :: "u64 \<Rightarrow> 'a AckLedger \<Rightarrow> 'a AckLedger" where
  "rows_delivered n l = l\<lparr>emitted := emitted l + n\<rparr>"

definition unit_completed :: "'a \<Rightarrow> 'a AckLedger \<Rightarrow> 'a AckLedger" where
  "unit_completed ack l = l\<lparr>pending := pending l @ [(emitted l, ack)]\<rparr>"

definition marker :: "u64 \<Rightarrow> 'a AckLedger \<Rightarrow> 'a AckLedger" where
  "marker epoch l = l\<lparr>markers := bt_insert epoch (emitted l) (markers l)\<rparr>"

text \<open>The loop of \<open>finalize\<close>: pop the front while it was armed at or before the boundary.\<close>

fun release_upto :: "u64 \<Rightarrow> (u64 \<times> 'a) list \<Rightarrow> 'a list \<times> (u64 \<times> 'a) list" where
  "release_upto boundary [] = ([], [])"
| "release_upto boundary ((armed_at, ack) # q) =
     (if armed_at > boundary then ([], (armed_at, ack) # q)
      else (let (released, q') = release_upto boundary q in (ack # released, q')))"

definition finalize :: "u64 \<Rightarrow> 'a AckLedger \<Rightarrow> 'a list \<times> 'a AckLedger" where
  "finalize epoch l =
     (case bt_get (markers l) epoch of
        None \<Rightarrow> ([], l)
      | Some boundary \<Rightarrow>
          (let (released, q) = release_upto boundary (pending l) in
           (released, l\<lparr>pending := q, markers := bt_split_off (epoch + 1) (markers l)\<rparr>)))"

lemmas ledger_defs = ledger_new_def rows_delivered_def unit_completed_def marker_def finalize_def

lemma release_upto_eq:
  "release_upto b q =
     (map snd (takeWhile (\<lambda>p. fst p \<le> b) q), dropWhile (\<lambda>p. fst p \<le> b) q)"
  by (induction b q rule: release_upto.induct) (auto simp: not_less)

subsection \<open>Well-formedness\<close>

text \<open>
  Units are armed in order, no unit and no marker is ahead of the delivery count, and the markers
  are a map.
\<close>

definition ledger_ok :: "'a AckLedger \<Rightarrow> bool" where
  "ledger_ok l \<longleftrightarrow>
     sorted (map fst (pending l)) \<and>
     (\<forall>p \<in> set (pending l). fst p \<le> emitted l) \<and>
     (\<forall>p \<in> set (markers l). snd p \<le> emitted l) \<and>
     bt_ok (markers l)"

text \<open>Delivering \<open>n\<close> more rows does not overflow the counter.\<close>

definition ledger_room :: "u64 \<Rightarrow> 'a AckLedger \<Rightarrow> bool" where
  "ledger_room n l \<longleftrightarrow> unat (emitted l) + unat n < 2 ^ 64"

lemma ledger_ok_new [simp]: "ledger_ok ledger_new"
  by (simp add: ledger_ok_def ledger_new_def)

lemma ledger_room_le: "ledger_room n l \<Longrightarrow> emitted l \<le> emitted l + n"
  by (simp add: ledger_room_def word_le_nat_alt unat_word_ariths)

lemma ledger_ok_rows_delivered:
  "ledger_ok l \<Longrightarrow> ledger_room n l \<Longrightarrow> ledger_ok (rows_delivered n l)"
  using ledger_room_le [of n l] by (force simp: ledger_ok_def rows_delivered_def)

lemma ledger_ok_unit_completed: "ledger_ok l \<Longrightarrow> ledger_ok (unit_completed a l)"
  by (auto simp: ledger_ok_def unit_completed_def sorted_append)

lemma ledger_ok_marker: "ledger_ok l \<Longrightarrow> ledger_ok (marker e l)"
  using set_bt_insert_subset [of e "emitted l" "markers l"]
  by (auto simp: ledger_ok_def marker_def)

lemma sorted_fst_dropWhile: "sorted (map fst xs) \<Longrightarrow> sorted (map fst (dropWhile P xs))"
  by (induction xs) auto

lemma ledger_ok_finalize: "ledger_ok l \<Longrightarrow> finalize e l = (rs, l') \<Longrightarrow> ledger_ok l'"
  by (fastforce simp: ledger_ok_def finalize_def release_upto_eq sorted_fst_dropWhile
      bt_split_off_def bt_ok_filter dest: set_dropWhileD split: option.splits)

interpretation acks: ack_releaser
  rows_delivered unit_completed marker finalize "\<lambda>l. map snd (pending l)" ledger_ok ledger_room
proof (unfold_locales, goal_cases)
  case (4 e l rs l')
  then show ?case
    by (auto simp: finalize_def release_upto_eq takeWhile_dropWhile_id
        simp flip: map_append split: option.splits)
next
  case (5 l e rs l')
  then have "\<forall>p \<in> set (pending l). fst p \<le> emitted l" by (simp add: ledger_ok_def)
  moreover have "bt_get (markers (marker e l)) e = Some (emitted l)"
    using 5 by (simp add: marker_def ledger_ok_def)
  ultimately show ?case
    using 5 by (auto simp: finalize_def release_upto_eq marker_def dropWhile_eq_Nil_conv)
qed (simp_all add: rows_delivered_def unit_completed_def marker_def ledger_ok_rows_delivered
    ledger_ok_unit_completed ledger_ok_marker [unfolded marker_def] ledger_ok_finalize
    ledger_ok_unit_completed [unfolded unit_completed_def]
    ledger_ok_rows_delivered [unfolded rows_delivered_def])

subsection \<open>Sequences of operations\<close>

datatype 'a ledger_op = Deliver u64 | Complete 'a | Mark u64 | Finalize u64

fun ledger_step :: "'a ledger_op \<Rightarrow> 'a AckLedger \<Rightarrow> 'a list \<times> 'a AckLedger" where
  "ledger_step (Deliver n) l = ([], rows_delivered n l)"
| "ledger_step (Complete a) l = ([], unit_completed a l)"
| "ledger_step (Mark e) l = ([], marker e l)"
| "ledger_step (Finalize e) l = finalize e l"

fun ledger_run :: "'a ledger_op list \<Rightarrow> 'a AckLedger \<Rightarrow> 'a list \<times> 'a AckLedger" where
  "ledger_run [] l = ([], l)"
| "ledger_run (x # xs) l =
     (let (rs, l') = ledger_step x l; (rs', l'') = ledger_run xs l' in (rs @ rs', l''))"

text \<open>The acknowledgements a sequence of operations arms, in order.\<close>

fun armed_by :: "'a ledger_op list \<Rightarrow> 'a list" where
  "armed_by [] = []"
| "armed_by (Complete a # xs) = a # armed_by xs"
| "armed_by (_ # xs) = armed_by xs"

lemma ledger_step_outstanding:
  "ledger_step x l = (rs, l') \<Longrightarrow> rs @ map snd (pending l') = map snd (pending l) @ armed_by [x]"
  by (cases x) (auto simp: rows_delivered_def unit_completed_def marker_def
      dest: acks.settle_outstanding)

lemma ledger_run_outstanding:
  "ledger_run xs l = (rs, l') \<Longrightarrow> rs @ map snd (pending l') = map snd (pending l) @ armed_by xs"
proof (induction xs arbitrary: l rs l')
  case Nil
  then show ?case by simp
next
  case (Cons x xs)
  from Cons.prems obtain r1 l1 r2 where 1: "ledger_step x l = (r1, l1)"
    and 2: "ledger_run xs l1 = (r2, l')" and rs: "rs = r1 @ r2"
    by (auto split: prod.splits)
  have "r1 @ map snd (pending l1) @ armed_by xs = map snd (pending l) @ armed_by [x] @ armed_by xs"
    using ledger_step_outstanding [OF 1] by (simp flip: append_assoc)
  moreover have "armed_by [x] @ armed_by xs = armed_by (x # xs)" by (cases x) auto
  ultimately show ?case
    using Cons.IH [OF 2] rs by simp
qed

subsection \<open>The specification and its refinement\<close>

record 'a spec_ledger =
  sp_position :: nat
  sp_armed :: "(nat \<times> 'a) list"
  sp_snapshots :: "u64 \<rightharpoonup> nat"

definition spec_new :: "'a spec_ledger" where
  "spec_new = \<lparr>sp_position = 0, sp_armed = [], sp_snapshots = Map.empty\<rparr>"

text \<open>
  Finalizing an epoch releases every armed unit whose position is covered by the snapshot of that
  epoch and forgets the snapshots up to it.
\<close>

fun spec_step :: "'a ledger_op \<Rightarrow> 'a spec_ledger \<Rightarrow> 'a list \<times> 'a spec_ledger" where
  "spec_step (Deliver n) s = ([], s\<lparr>sp_position := sp_position s + unat n\<rparr>)"
| "spec_step (Complete a) s = ([], s\<lparr>sp_armed := sp_armed s @ [(sp_position s, a)]\<rparr>)"
| "spec_step (Mark e) s = ([], s\<lparr>sp_snapshots := (sp_snapshots s)(e \<mapsto> sp_position s)\<rparr>)"
| "spec_step (Finalize e) s =
     (case sp_snapshots s e of
        None \<Rightarrow> ([], s)
      | Some b \<Rightarrow>
          (map snd (filter (\<lambda>p. fst p \<le> b) (sp_armed s)),
           s\<lparr>sp_armed := filter (\<lambda>p. \<not> fst p \<le> b) (sp_armed s),
             sp_snapshots := (\<lambda>k. if e < k then sp_snapshots s k else None)\<rparr>))"

fun spec_run :: "'a ledger_op list \<Rightarrow> 'a spec_ledger \<Rightarrow> 'a list \<times> 'a spec_ledger" where
  "spec_run [] s = ([], s)"
| "spec_run (x # xs) s =
     (let (rs, s') = spec_step x s; (rs', s'') = spec_run xs s' in (rs @ rs', s''))"

fun rows_of :: "'a ledger_op list \<Rightarrow> nat" where
  "rows_of [] = 0"
| "rows_of (Deliver n # xs) = unat n + rows_of xs"
| "rows_of (_ # xs) = rows_of xs"

definition ledger_abs :: "'a AckLedger \<Rightarrow> 'a spec_ledger" where
  "ledger_abs l =
     \<lparr>sp_position = unat (emitted l),
      sp_armed = map (\<lambda>(k, a). (unat k, a)) (pending l),
      sp_snapshots = map_option unat \<circ> bt_get (markers l)\<rparr>"

lemma word_Suc_le_iff:
  assumes "e \<noteq> - 1"
  shows "e + 1 \<le> k \<longleftrightarrow> e < (k :: u64)"
proof -
  have "1 + e \<noteq> 0" using assms by (metis add.commute add_eq_0_iff)
  then have "unat (e + 1) = Suc (unat e)" by (metis unatSuc add.commute)
  then show ?thesis by (simp add: word_le_nat_alt word_less_nat_alt Suc_le_eq)
qed

lemma ledger_step_refines:
  assumes ok: "ledger_ok l" and room: "unat (emitted l) + rows_of [x] < 2 ^ 64"
    and fin: "x \<noteq> Finalize (- 1)"
  shows "spec_step x (ledger_abs l) = apsnd ledger_abs (ledger_step x l)"
proof (cases x)
  case (Deliver n)
  then show ?thesis
    using room by (simp add: ledger_abs_def rows_delivered_def unat_word_ariths)
next
  case (Complete a)
  then show ?thesis by (simp add: ledger_abs_def unit_completed_def)
next
  case (Mark e)
  then show ?thesis
    using ok by (simp add: ledger_abs_def marker_def ledger_ok_def fun_eq_iff)
next
  case (Finalize e)
  show ?thesis
  proof (cases "bt_get (markers l) e")
    case None
    with Finalize show ?thesis by (simp add: ledger_abs_def finalize_def)
  next
    case (Some b)
    have srt: "sorted (map fst (pending l))" using ok by (simp add: ledger_ok_def)
    have keep: "bt_get (bt_split_off (e + 1) (markers l)) k
        = (if e < k then bt_get (markers l) k else None)" for k
      using fin Finalize by (simp add: word_Suc_le_iff)
    have unat_le: "unat k \<le> unat b \<longleftrightarrow> k \<le> b" for k
      by (simp add: word_le_nat_alt)
    show ?thesis
      using Finalize Some
      by (simp add: ledger_abs_def finalize_def release_upto_eq keep [unfolded bt_get_split_off]
          fun_eq_iff filter_map comp_def case_prod_beta unat_le
          takeWhile_eq_filter_sorted [OF srt] dropWhile_eq_filter_sorted [OF srt])
  qed
qed

lemma ledger_step_ok:
  assumes "ledger_ok l" and "unat (emitted l) + rows_of [x] < 2 ^ 64"
    and "ledger_step x l = (rs, l')"
  shows "ledger_ok l'" and "unat (emitted l') = unat (emitted l) + rows_of [x]"
proof -
  have "ledger_ok l' \<and> unat (emitted l') = unat (emitted l) + rows_of [x]"
  proof (cases x)
    case (Deliver n)
    with assms have "l' = rows_delivered n l" and "ledger_room n l"
      by (simp_all add: ledger_room_def)
    then show ?thesis
      using assms(1) Deliver acks.good_deliver [of l n]
      by (simp add: rows_delivered_def ledger_room_def unat_word_ariths)
  next
    case (Finalize e)
    with assms(1,3) show ?thesis
      using acks.good_settle [of l e rs l'] by (auto simp: finalize_def split: option.splits prod.splits)
  qed (use assms acks.good_arm [of l] acks.good_mark [of l] in
      \<open>auto simp: unit_completed_def marker_def\<close>)
  then show "ledger_ok l'" and "unat (emitted l') = unat (emitted l) + rows_of [x]"
    by simp_all
qed

lemma ledger_run_refines:
  assumes "ledger_ok l" and "unat (emitted l) + rows_of xs < 2 ^ 64"
    and "Finalize (- 1) \<notin> set xs"
  shows "spec_run xs (ledger_abs l) = apsnd ledger_abs (ledger_run xs l)"
  using assms
proof (induction xs arbitrary: l)
  case Nil
  then show ?case by simp
next
  case (Cons x xs)
  obtain rs l1 where step: "ledger_step x l = (rs, l1)" by (cases "ledger_step x l")
  have rows: "rows_of (x # xs) = rows_of [x] + rows_of xs" by (cases x) auto
  note ok = ledger_step_ok [OF Cons.prems(1) _ step]
  have "spec_step x (ledger_abs l) = (rs, ledger_abs l1)"
    using Cons.prems rows ledger_step_refines [of l x] step by auto
  moreover have "spec_run xs (ledger_abs l1) = apsnd ledger_abs (ledger_run xs l1)"
    using Cons.prems rows ok by (intro Cons.IH) auto
  ultimately show ?case
    by (simp add: step split: prod.splits)
qed

lemma ledger_run_ok:
  assumes "ledger_ok l" and "unat (emitted l) + rows_of xs < 2 ^ 64"
  shows "ledger_ok (snd (ledger_run xs l))"
  using assms
proof (induction xs arbitrary: l)
  case Nil
  then show ?case by simp
next
  case (Cons x xs)
  obtain rs l1 where step: "ledger_step x l = (rs, l1)" by (cases "ledger_step x l")
  have rows: "rows_of (x # xs) = rows_of [x] + rows_of xs" by (cases x) auto
  note ok = ledger_step_ok [OF Cons.prems(1) _ step]
  have "ledger_ok (snd (ledger_run xs l1))"
    using Cons.prems rows ok by (intro Cons.IH) auto
  then show ?case by (simp add: step case_prod_beta)
qed

lemma ledger_run_append:
  "ledger_run (xs @ ys) l =
     (fst (ledger_run xs l) @ fst (ledger_run ys (snd (ledger_run xs l))),
      snd (ledger_run ys (snd (ledger_run xs l))))"
  by (induction xs arbitrary: l) (auto simp: case_prod_beta)

section \<open>SharedAck\<close>

type_synonym SourceId = u64

record 'w SharedAckInner =
  etl_ack :: "'w option"
  sub_pending :: "SourceId set"

text \<open>The list returned beside the state holds the acknowledgements sent.\<close>

definition fire_if_done :: "'w SharedAckInner \<Rightarrow> 'w list \<times> 'w SharedAckInner" where
  "fire_if_done inner =
     (if sub_pending inner = {}
      then (case etl_ack inner of
              None \<Rightarrow> ([], inner)
            | Some ack \<Rightarrow> ([ack], inner\<lparr>etl_ack := None\<rparr>))
      else ([], inner))"

definition shared_new :: "'w \<Rightarrow> SourceId set \<Rightarrow> 'w list \<times> 'w SharedAckInner" where
  "shared_new ack subscribers = fire_if_done \<lparr>etl_ack = Some ack, sub_pending = subscribers\<rparr>"

definition release :: "SourceId \<Rightarrow> 'w SharedAckInner \<Rightarrow> 'w list \<times> 'w SharedAckInner" where
  "release source inner = fire_if_done (inner\<lparr>sub_pending := sub_pending inner - {source}\<rparr>)"

fun release_all :: "SourceId list \<Rightarrow> 'w SharedAckInner \<Rightarrow> 'w list \<times> 'w SharedAckInner" where
  "release_all [] inner = ([], inner)"
| "release_all (s # ss) inner =
     (let (fs, i1) = release s inner; (fs', i2) = release_all ss i1 in (fs @ fs', i2))"

lemma release_all_fired:
  "etl_ack inner = None \<Longrightarrow> fst (release_all ss inner) = []"
  by (induction ss arbitrary: inner)
    (auto simp: release_def fire_if_done_def split: prod.splits option.splits)

lemma release_all_pending:
  "etl_ack inner = Some a \<Longrightarrow> sub_pending inner \<noteq> {} \<Longrightarrow>
   fst (release_all ss inner) = (if sub_pending inner \<subseteq> set ss then [a] else [])"
proof (induction ss arbitrary: inner)
  case Nil
  then show ?case by simp
next
  case (Cons s ss)
  let ?p = "sub_pending inner - {s}"
  show ?case
  proof (cases "?p = {}")
    case True
    then have "sub_pending inner \<subseteq> set (s # ss)" by auto
    moreover have "release s inner = ([a], inner\<lparr>sub_pending := {}, etl_ack := None\<rparr>)"
      using True Cons.prems by (simp add: release_def fire_if_done_def)
    ultimately show ?thesis
      using release_all_fired [of "inner\<lparr>sub_pending := {}, etl_ack := None\<rparr>" ss]
      by (simp add: case_prod_beta)
  next
    case False
    have sub: "?p \<subseteq> set ss \<longleftrightarrow> sub_pending inner \<subseteq> set (s # ss)" by auto
    have "release s inner = ([], inner\<lparr>sub_pending := ?p\<rparr>)"
      using False by (simp add: release_def fire_if_done_def)
    then show ?thesis
      using Cons.IH [of "inner\<lparr>sub_pending := ?p\<rparr>"] Cons.prems False sub
      by (simp split: prod.splits)
  qed
qed

section \<open>Properties\<close>

text \<open>
  C3: for every sequence of operations on a fresh ledger whose delivered rows fit the 64-bit
  counter and that never finalizes the largest epoch, whose successor wraps, the acknowledgements \<open>finalize\<close> pops from the front of the queue are exactly those
  the unbounded specification selects: every armed unit at or before the snapshot of the finalized
  epoch, in arming order, and nothing else.
\<close>

theorem ledger_refines_spec:
  assumes "rows_of ops < 2 ^ 64" and "Finalize (- 1) \<notin> set ops"
  shows "fst (ledger_run ops ledger_new) = fst (spec_run ops spec_new)"
proof -
  have "ledger_abs (ledger_new :: 'a AckLedger) = spec_new"
    by (simp add: ledger_abs_def ledger_new_def spec_new_def fun_eq_iff)
  moreover have "spec_run ops (ledger_abs ledger_new) = apsnd ledger_abs (ledger_run ops ledger_new)"
    using assms by (intro ledger_run_refines) (simp_all, simp add: ledger_new_def)
  ultimately show ?thesis by simp
qed

text \<open>The largest epoch has no successor: finalizing it keeps all markers, which a later finalizer then finds.\<close>

lemma largest_epoch_keeps_markers:
  "fst (ledger_run [Mark (- 1), Deliver 1, Complete (1 :: nat), Mark 5, Finalize (- 1), Finalize 5] ledger_new) = [1]"
  "fst (spec_run [Mark (- 1), Deliver 1, Complete (1 :: nat), Mark 5, Finalize (- 1), Finalize 5] spec_new) = []"
  by code_simp+

theorem ledger_refines_spec_witness:
  "fst (ledger_run [Deliver 3, Complete (1 :: nat), Mark 10, Deliver 2, Complete 2, Finalize 10]
          ledger_new) = [1]
   \<and> fst (spec_run [Deliver 3, Complete (1 :: nat), Mark 10, Deliver 2, Complete 2, Finalize 10]
          spec_new) = [1]"
  using ledger_refines_spec
    [of "[Deliver 3, Complete (1 :: nat), Mark 10, Deliver 2, Complete 2, Finalize 10]"]
  by (simp add: spec_new_def)

text \<open>
  no acknowledgement is lost, duplicated or reordered by the ledger: whatever the operations,
  the acknowledgements released so far followed by those still pending are the acknowledgements
  armed, in arming order.
\<close>

theorem ledger_conserves_acks:
  "fst (ledger_run ops ledger_new) @ map snd (pending (snd (ledger_run ops ledger_new)))
   = armed_by ops"
  using ledger_run_outstanding [of ops ledger_new] by (simp add: ledger_new_def)

text \<open>
  C4: every acknowledgement is eventually released: after any history whose rows fit the counter, a
  checkpoint marker followed by its finalizer releases all acknowledgements armed so far, and leaves
  none pending.
\<close>

theorem checkpoint_settles_everything:
  assumes "rows_of ops < 2 ^ 64"
  shows "\<exists>l'. ledger_run (ops @ [Mark e, Finalize e]) ledger_new = (armed_by ops, l') \<and> pending l' = []"
proof -
  let ?l = "snd (ledger_run ops ledger_new)"
  obtain rs l' where fin: "finalize e (marker e ?l) = (rs, l')" by (cases "finalize e (marker e ?l)")
  have "ledger_ok ?l"
    using assms by (intro ledger_run_ok) (simp_all, simp add: ledger_new_def)
  then have none: "map snd (pending l') = []" using fin by (rule acks.settle_after_mark)
  have run: "ledger_run (ops @ [Mark e, Finalize e]) ledger_new
      = (fst (ledger_run ops ledger_new) @ rs, l')"
    using fin by (simp add: ledger_run_append)
  have "armed_by (ops @ [Mark e, Finalize e]) = armed_by ops"
    by (induction ops rule: armed_by.induct) auto
  with ledger_run_outstanding [OF run] none have "fst (ledger_run ops ledger_new) @ rs = armed_by ops"
    by (simp add: ledger_new_def)
  with run none show ?thesis by simp
qed

theorem checkpoint_settles_everything_witness:
  "fst (ledger_run ([Deliver 3, Complete (1 :: nat), Deliver 2, Complete 2] @ [Mark 7, Finalize 7])
     ledger_new) = [1, 2]"
  using checkpoint_settles_everything [of "[Deliver 3, Complete (1 :: nat), Deliver 2, Complete 2]" 7]
  by fastforce

text \<open>
  the acknowledgement shared by the subscribers of one write is sent exactly once, and only
  when every subscriber has released its slice, whatever the order of the releases and whatever
  unknown or repeated sources release it; with no subscriber it is sent at construction.
\<close>

theorem shared_ack_exactly_once:
  "fst (shared_new ack subs) @ fst (release_all rs (snd (shared_new ack subs)))
   = (if subs \<subseteq> set rs then [ack] else [])"
proof (cases "subs = {}")
  case True
  then show ?thesis
    by (simp add: shared_new_def fire_if_done_def release_all_fired)
next
  case False
  then show ?thesis
    using release_all_pending [of "\<lparr>etl_ack = Some ack, sub_pending = subs\<rparr>" ack rs]
    by (simp add: shared_new_def fire_if_done_def)
qed

end
