(* ===== verification/Bridge.thy ===== *)
theory Bridge
  imports CdcArrow Ledger
begin

text \<open>
  The bridge of \<open>src/src/postgres_cdc/bridge.rs\<close>: replication events become rows aligned to a
  source's output columns, and a write is fanned out to the subscribers of its tables with one
  acknowledgement shared between them.

  Events, row images and table schemas belong to the replication library. The model has the
  variants the source matches on; of a table schema it has the names, which is all the source reads.
\<close>

section \<open>Replication events\<close>

record ReplicatedTableSchema =
  rts_schema :: string
  rts_name :: string
  column_names :: "string list"
  identity_column_names :: "string list"

datatype 'x OldTableRow = OldFull "'x Cell list" | OldKey "'x Cell list"

datatype 'x UpdatedTableRow = UpdatedFull "'x Cell list" | UpdatedPartial "'x Cell list" "nat list"

datatype 'x Event =
    Begin
  | Commit
  | Insert ReplicatedTableSchema "'x Cell list"
  | Update ReplicatedTableSchema "'x UpdatedTableRow" "'x OldTableRow option"
  | Delete ReplicatedTableSchema "'x OldTableRow option"
  | Truncate "ReplicatedTableSchema list"
  | Relation ReplicatedTableSchema
  | Unsupported

section \<open>Row conversion\<close>

record RowConverter =
  rc_table :: string
  rc_col_idx :: "(string, nat) hash_map"
  rc_n_cols :: nat
  rc_emit_update_before_row :: bool

definition table_label :: "ReplicatedTableSchema \<Rightarrow> string" where
  "table_label s = rts_schema s @ ''.'' @ rts_name s"

text \<open>The map from names to positions is collected in order, so a repeated name keeps its last.\<close>

definition row_converter_new :: "string \<Rightarrow> string list \<Rightarrow> bool \<Rightarrow> RowConverter" where
  "row_converter_new table data_columns emit =
     \<lparr>rc_table = table,
      rc_col_idx = fold (\<lambda>(name, i). hm_insert name i) (zip data_columns [0..<length data_columns]) [],
      rc_n_cols = length data_columns,
      rc_emit_update_before_row = emit\<rparr>"

definition matches_table :: "RowConverter \<Rightarrow> ReplicatedTableSchema \<Rightarrow> bool" where
  "matches_table c s \<longleftrightarrow> table_label s = rc_table c"

definition place_cell ::
  "RowConverter \<Rightarrow> string \<Rightarrow> 'x Cell \<Rightarrow> 'x Cell option list \<Rightarrow> 'x Cell option list" where
  "place_cell c col cell out =
     (case hm_get (rc_col_idx c) col of None \<Rightarrow> out | Some i \<Rightarrow> out[i := Some cell])"

text \<open>The merge loop of \<open>aligned\<close> over the replicated columns, their values and the missing indexes.\<close>

fun aligned_loop ::
  "RowConverter \<Rightarrow> string list \<Rightarrow> nat \<Rightarrow> 'x Cell list \<Rightarrow> nat list
     \<Rightarrow> 'x Cell option list \<Rightarrow> 'x Cell option list" where
  "aligned_loop c [] idx vals missing out = out"
| "aligned_loop c (col # cols) idx vals missing out =
     (if missing \<noteq> [] \<and> hd missing = idx
      then aligned_loop c cols (Suc idx) vals (tl missing) out
      else (case vals of
              [] \<Rightarrow> out
            | cell # vals' \<Rightarrow>
                aligned_loop c cols (Suc idx) vals' missing (place_cell c col cell out)))"

definition aligned ::
  "RowConverter \<Rightarrow> ReplicatedTableSchema \<Rightarrow> 'x Cell list \<Rightarrow> nat list \<Rightarrow> 'x Cell option list" where
  "aligned c s values missing =
     aligned_loop c (column_names s) 0 values missing (replicate (rc_n_cols c) None)"

definition aligned_old ::
  "RowConverter \<Rightarrow> ReplicatedTableSchema \<Rightarrow> 'x OldTableRow \<Rightarrow> 'x Cell option list" where
  "aligned_old c s old =
     (case old of
        OldFull row \<Rightarrow> aligned c s row []
      | OldKey row \<Rightarrow>
          fold (\<lambda>(col, cell). place_cell c col cell) (zip (identity_column_names s) row)
            (replicate (rc_n_cols c) None))"

definition update_values ::
  "RowConverter \<Rightarrow> ReplicatedTableSchema \<Rightarrow> 'x UpdatedTableRow \<Rightarrow> 'x Cell option list" where
  "update_values c s upd =
     (case upd of
        UpdatedFull row \<Rightarrow> aligned c s row []
      | UpdatedPartial vals missing \<Rightarrow> aligned c s vals missing)"

text \<open>The rows pushed for one event; log lines are not modelled.\<close>

fun convert_event :: "RowConverter \<Rightarrow> 'x Event \<Rightarrow> 'x CdcRow list" where
  "convert_event c Begin = []"
| "convert_event c Commit = []"
| "convert_event c (Insert s row) =
     (if matches_table c s then [\<lparr>row_op = ''insert'', row_values = aligned c s row []\<rparr>] else [])"
| "convert_event c (Update s upd old) =
     (if matches_table c s
      then (if rc_emit_update_before_row c
            then (case old of
                    Some (OldFull row) \<Rightarrow>
                      [\<lparr>row_op = ''delete'', row_values = aligned_old c s (OldFull row)\<rparr>]
                  | _ \<Rightarrow> [])
            else [])
           @ [\<lparr>row_op = ''update'', row_values = update_values c s upd\<rparr>]
      else [])"
| "convert_event c (Delete s old) =
     (if matches_table c s
      then (case old of
              None \<Rightarrow> []
            | Some img \<Rightarrow> [\<lparr>row_op = ''delete'', row_values = aligned_old c s img\<rparr>])
      else [])"
| "convert_event c (Truncate ts) = []"
| "convert_event c (Relation s) = []"
| "convert_event c Unsupported = []"

fun convert_loop :: "RowConverter \<Rightarrow> 'x Event list \<Rightarrow> 'x CdcRow list \<Rightarrow> 'x CdcRow list" where
  "convert_loop c [] rows = rows"
| "convert_loop c (e # es) rows = convert_loop c es (rows @ convert_event c e)"

definition convert_events :: "RowConverter \<Rightarrow> 'x Event list \<Rightarrow> 'x CdcRow list" where
  "convert_events c events = convert_loop c events []"

definition convert_copy_rows ::
  "RowConverter \<Rightarrow> ReplicatedTableSchema \<Rightarrow> 'x Cell list list \<Rightarrow> 'x CdcRow list" where
  "convert_copy_rows c s table_rows =
     (if \<not> matches_table c s then []
      else map (\<lambda>row. \<lparr>row_op = ''copy'', row_values = aligned c s row []\<rparr>) table_rows)"

section \<open>Fan-out\<close>

record Subscriber =
  sub_source_id :: SourceId
  sub_table_label :: string
  sub_converter :: RowConverter

text \<open>
  A destination call constructs the shared acknowledgement over the subscribers that got rows, then
  sends one unit to each of them. The result has the acknowledgements sent at once, the shared
  state, and the sends in order; the channels themselves are part of the source's model.
\<close>

record ('w, 'r) fan_out_result =
  fo_fired :: "'w list"
  fo_shared :: "'w SharedAckInner"
  fo_sends :: "(SourceId \<times> 'r list) list"

definition fan_out :: "(SourceId \<times> 'r list) list \<Rightarrow> 'w \<Rightarrow> ('w, 'r) fan_out_result" where
  "fan_out per_sub async_result =
     (let (fired, shared) = shared_new async_result (set (map fst per_sub)) in
      \<lparr>fo_fired = fired, fo_shared = shared, fo_sends = per_sub\<rparr>)"

text \<open>The tables already warned about are a set; the result lists the warnings now issued.\<close>

definition warn_unconsumed :: "string \<Rightarrow> string set \<Rightarrow> string list \<times> string set" where
  "warn_unconsumed label warned = (if label \<in> warned then [] else [label], insert label warned)"

fun warn_all :: "string list \<Rightarrow> string set \<Rightarrow> string list \<times> string set" where
  "warn_all [] warned = ([], warned)"
| "warn_all (l # ls) warned =
     (let (w, warned1) = warn_unconsumed l warned; (ws, warned2) = warn_all ls warned1
      in (w @ ws, warned2))"

text \<open>The labels of the data events; the source collects them in a set, so each occurs once.\<close>

fun event_label :: "'x Event \<Rightarrow> string option" where
  "event_label (Insert s row) = Some (table_label s)"
| "event_label (Update s upd old) = Some (table_label s)"
| "event_label (Delete s old) = Some (table_label s)"
| "event_label _ = None"

definition data_event_tables :: "'x Event list \<Rightarrow> string list" where
  "data_event_tables events = remdups (List.map_filter event_label events)"

definition write_table_rows ::
  "Subscriber list \<Rightarrow> string set \<Rightarrow> ReplicatedTableSchema \<Rightarrow> 'x Cell list list \<Rightarrow> 'w
     \<Rightarrow> ('w, 'x CdcRow) fan_out_result \<times> string list \<times> string set" where
  "write_table_rows subs warned s table_rows async_result =
     (let label = table_label s;
          per_sub = filter (\<lambda>(i, rows). rows \<noteq> [])
            (map (\<lambda>sub. (sub_source_id sub, convert_copy_rows (sub_converter sub) s table_rows))
               (filter (\<lambda>sub. sub_table_label sub = label) subs));
          (ws, warned') = (if \<exists>sub \<in> set subs. sub_table_label sub = label then ([], warned)
                           else warn_unconsumed label warned)
      in (fan_out per_sub async_result, ws, warned'))"

definition write_events ::
  "Subscriber list \<Rightarrow> string set \<Rightarrow> 'x Event list \<Rightarrow> 'w
     \<Rightarrow> ('w, 'x CdcRow) fan_out_result \<times> string list \<times> string set" where
  "write_events subs warned events async_result =
     (let per_sub = filter (\<lambda>(i, rows). rows \<noteq> [])
            (map (\<lambda>sub. (sub_source_id sub, convert_events (sub_converter sub) events)) subs);
          (ws, warned') = warn_all
            (filter (\<lambda>l. l \<notin> set (map sub_table_label subs)) (data_event_tables events)) warned
      in (fan_out per_sub async_result, ws, warned'))"

text \<open>Nothing is dropped for a copy: the call reports success at once.\<close>

definition drop_table_for_copy :: "ReplicatedTableSchema \<Rightarrow> 'w \<Rightarrow> 'w list" where
  "drop_table_for_copy s async_result = [async_result]"

section \<open>Lemmas\<close>

text \<open>The columns whose values an image carries: all but the missing positions.\<close>

fun kept_columns :: "string list \<Rightarrow> nat \<Rightarrow> nat list \<Rightarrow> string list" where
  "kept_columns [] idx missing = []"
| "kept_columns (col # cols) idx missing =
     (if idx \<in> set missing then kept_columns cols (Suc idx) missing
      else col # kept_columns cols (Suc idx) missing)"

lemma kept_columns_none [simp]: "kept_columns cols idx [] = cols"
  by (induction cols arbitrary: idx) auto

lemma kept_columns_past: "m < idx \<Longrightarrow> kept_columns cols idx (m # ms) = kept_columns cols idx ms"
  by (induction cols arbitrary: idx) auto

definition col_index :: "string list \<Rightarrow> string \<Rightarrow> nat option" where
  "col_index cols name = map_of (zip cols [0..<length cols]) name"

lemma rc_col_idx_new:
  assumes "distinct cols"
  shows "hm_get (rc_col_idx (row_converter_new t cols e)) = col_index cols"
proof -
  have "distinct (map fst (zip cols [0..<length cols]))" using assms by simp
  from hm.get_fold_put_distinct [OF hm_ok_Nil this] show ?thesis
    by (simp add: row_converter_new_def col_index_def fun_eq_iff)
qed

lemma col_index_Some:
  assumes "distinct cols"
  shows "col_index cols name = Some i \<longleftrightarrow> i < length cols \<and> cols ! i = name"
  using assms by (auto simp: col_index_def map_of_zip_nth in_set_zip map_of_eq_Some_iff)

lemma place_cell_length [simp]: "length (place_cell c col cell out) = length out"
  by (simp add: place_cell_def split: option.splits)

lemma fold_place_cell_length [simp]:
  "length (fold (\<lambda>(col, cell). place_cell c col cell) es out) = length out"
  by (induction es arbitrary: out) (auto split: prod.splits)

text \<open>The merge loop places the kept columns' values one after the other.\<close>

lemma aligned_loop_eq_fold:
  assumes "sorted_wrt (<) missing" and "\<forall>m \<in> set missing. idx \<le> m"
  shows "aligned_loop c cols idx vals missing out =
         fold (\<lambda>(col, cell). place_cell c col cell) (zip (kept_columns cols idx missing) vals) out"
  using assms
proof (induction c cols idx vals missing out rule: aligned_loop.induct)
  case (1 c idx vals missing out)
  then show ?case by simp
next
  case (2 c col cols idx vals missing out)
  show ?case
  proof (cases "missing \<noteq> [] \<and> hd missing = idx")
    case True
    then obtain ms where ms: "missing = idx # ms" by (cases missing) auto
    with "2.prems" have "\<forall>m \<in> set ms. Suc idx \<le> m" and "sorted_wrt (<) ms" by auto
    with "2.IH"(1) True ms show ?thesis by (simp add: kept_columns_past)
  next
    case False
    have "idx \<notin> set missing"
      using False "2.prems" by (cases missing) auto
    moreover have "\<forall>m \<in> set missing. Suc idx \<le> m"
      using "2.prems"(2) calculation by (metis le_eq_less_or_eq Suc_le_eq)
    ultimately show ?thesis
      using False "2.IH"(2) "2.prems"(1) by (cases vals) auto
  qed
qed

lemma aligned_length [simp]: "length (aligned c s vals missing) = rc_n_cols c"
proof -
  have "length (aligned_loop c cols idx vals missing out) = length out" for cols idx out
    by (induction c cols idx vals missing out rule: aligned_loop.induct)
      (auto split: list.splits)
  then show ?thesis by (simp add: aligned_def)
qed

lemma aligned_old_length [simp]: "length (aligned_old c s old) = rc_n_cols c"
  by (cases old) (simp_all add: aligned_old_def)

lemma update_values_length [simp]: "length (update_values c s u) = rc_n_cols c"
  by (cases u) (simp_all add: update_values_def)

text \<open>Placing cells by name on an empty row: each output column holds the last cell of its name.\<close>

lemma fold_place_cell_nth:
  assumes "distinct cols" and "i < length cols" and "length out = length cols"
  shows "fold (\<lambda>(col, cell). place_cell (row_converter_new t cols e) col cell) es out ! i
         = (case map_of (rev es) (cols ! i) of None \<Rightarrow> out ! i | Some cell \<Rightarrow> Some cell)"
  using assms(3)
proof (induction es arbitrary: out)
  case Nil
  then show ?case by simp
next
  case (Cons x es)
  obtain col cell where x: "x = (col, cell)" by (cases x)
  let ?out = "place_cell (row_converter_new t cols e) col cell out"
  have nth: "?out ! i = (if cols ! i = col then Some cell else out ! i)"
  proof (cases "col_index cols col")
    case None
    then have "cols ! i \<noteq> col"
      using assms(1,2) col_index_Some [of cols col i] by auto
    with None assms(1) show ?thesis by (simp add: place_cell_def rc_col_idx_new)
  next
    case (Some j)
    then have "j < length cols" and "cols ! j = col"
      using assms(1) by (simp_all add: col_index_Some)
    with Some assms Cons.prems show ?thesis
      by (auto simp: place_cell_def rc_col_idx_new nth_list_update nth_eq_iff_index_eq)
  qed
  have "length ?out = length cols" using Cons.prems by simp
  from Cons.IH [OF this] nth x show ?case
    by (auto simp: map_add_def split: option.splits)
qed

lemma convert_loop_eq: "convert_loop c es rows = rows @ concat (map (convert_event c) es)"
  by (induction es arbitrary: rows) auto

lemma convert_events_eq: "convert_events c es = concat (map (convert_event c) es)"
  by (simp add: convert_events_def convert_loop_eq)

lemma convert_event_arity:
  assumes "row \<in> set (convert_event c e)"
  shows "length (row_values row) = rc_n_cols c"
proof (cases e)
  case (Update s upd old)
  then show ?thesis
    using assms
    by (cases "matches_table c s"; cases "rc_emit_update_before_row c"; cases old)
      (auto split: OldTableRow.split_asm)
next
  case (Delete s old)
  then show ?thesis
    using assms by (cases "matches_table c s"; cases old) auto
next
  case (Insert s row)
  then show ?thesis
    using assms by (cases "matches_table c s") auto
qed (use assms in simp_all)

lemma convert_events_arity: "row \<in> set (convert_events c es) \<Longrightarrow> length (row_values row) = rc_n_cols c"
  by (auto simp: convert_events_eq dest: convert_event_arity)

lemma convert_copy_rows_arity:
  "row \<in> set (convert_copy_rows c s rs) \<Longrightarrow> length (row_values row) = rc_n_cols c"
  by (auto simp: convert_copy_rows_def split: if_splits)

lemma convert_events_none:
  "(\<And>e. e \<in> set es \<Longrightarrow> event_label e \<noteq> Some (rc_table c)) \<Longrightarrow> convert_events c es = []"
proof (induction es)
  case Nil
  then show ?case by (simp add: convert_events_eq)
next
  case (Cons e es)
  have "convert_event c e = []"
    using Cons.prems [of e] by (cases e) (auto simp: matches_table_def)
  with Cons show ?case by (simp add: convert_events_eq)
qed

lemma warn_all_spec:
  "distinct ls \<Longrightarrow> warn_all ls warned = (filter (\<lambda>l. l \<notin> warned) ls, warned \<union> set ls)"
proof (induction ls arbitrary: warned)
  case Nil
  then show ?case by simp
next
  case (Cons l ls)
  have "filter (\<lambda>x. x \<notin> insert l warned) ls = filter (\<lambda>x. x \<notin> warned) ls"
    using Cons.prems by (intro filter_cong) auto
  with Cons show ?case by (simp add: warn_unconsumed_def)
qed

section \<open>Properties\<close>

text \<open>
  alignment is by column name. For distinct output columns and missing indexes in ascending
  order, the aligned row has exactly one entry per output column, and it is the value the image
  carries for the column of that name: absent when the column is not replicated, is listed as
  missing or has no value left. The merge of values and missing indexes never shifts a value to
  another column.
\<close>

theorem aligned_by_name:
  assumes "distinct cols" and "sorted_wrt (<) missing"
  shows "aligned (row_converter_new t cols emit) s vals missing =
         map (map_of (rev (zip (kept_columns (column_names s) 0 missing) vals))) cols"
proof (rule nth_equalityI)
  let ?c = "row_converter_new t cols emit"
  show "length (aligned ?c s vals missing)
      = length (map (map_of (rev (zip (kept_columns (column_names s) 0 missing) vals))) cols)"
    by (simp add: row_converter_new_def)
  fix i assume "i < length (aligned ?c s vals missing)"
  then have i: "i < length cols" by (simp add: row_converter_new_def)
  have "aligned ?c s vals missing =
      fold (\<lambda>(col, cell). place_cell ?c col cell)
        (zip (kept_columns (column_names s) 0 missing) vals) (replicate (length cols) None)"
    using assms(2) unfolding aligned_def
    by (subst aligned_loop_eq_fold) (simp_all add: row_converter_new_def)
  with fold_place_cell_nth [OF assms(1) i, of "replicate (length cols) None" t emit
      "zip (kept_columns (column_names s) 0 missing) vals"] i
  show "aligned ?c s vals missing ! i
      = map (map_of (rev (zip (kept_columns (column_names s) 0 missing) vals))) cols ! i"
    by (simp split: option.splits)
qed

definition users_schema :: ReplicatedTableSchema where
  "users_schema =
     \<lparr>rts_schema = ''public'', rts_name = ''users'', column_names = [''id'', ''name'', ''bio''],
      identity_column_names = [''id'']\<rparr>"

theorem aligned_by_name_witness:
  "aligned (row_converter_new ''public.users'' [''bio'', ''id''] False) users_schema
     [CI64 7, CString ''x''] [1] = [Some (CString ''x''), Some (CI64 7 :: nat Cell)]"
  by (subst aligned_by_name) (simp_all add: users_schema_def)

text \<open>
  converting a batch of events is order-preserving and local: the rows are the rows of the data
  events of the converter's own table, in event order, events of other tables and the transaction
  markers, truncates and schema messages contribute nothing, and every row has one value per
  output column.
\<close>

theorem convert_events_own_table:
  "convert_events c es
     = concat (map (convert_event c) (filter (\<lambda>e. event_label e = Some (rc_table c)) es)) \<and>
   list_all (\<lambda>row. length (row_values row) = rc_n_cols c) (convert_events c es)"
proof
  have none: "convert_event c e = []" if "event_label e \<noteq> Some (rc_table c)" for e
    using that by (cases e) (auto simp: matches_table_def)
  show "convert_events c es
     = concat (map (convert_event c) (filter (\<lambda>e. event_label e = Some (rc_table c)) es))"
    by (induction es) (auto simp: convert_events_eq none)
  show "list_all (\<lambda>row. length (row_values row) = rc_n_cols c) (convert_events c es)"
    by (auto simp: list_all_iff dest: convert_events_arity)
qed

text \<open>
  an event write waits for exactly the subscribers it fed. One unit with rows is sent to each
  subscriber whose table has rows in the batch, the shared acknowledgement is pending on exactly
  those sources, and it is sent at once when no subscriber has rows.
\<close>

theorem write_events_shares_ack:
  "let (r, ws, warned') = write_events subs warned events ack;
       fed = filter (\<lambda>sub. convert_events (sub_converter sub) events \<noteq> []) subs
   in fo_sends r = map (\<lambda>sub. (sub_source_id sub, convert_events (sub_converter sub) events)) fed \<and>
      sub_pending (fo_shared r) = sub_source_id ` set fed \<and>
      fo_fired r = (if fed = [] then [ack] else []) \<and>
      etl_ack (fo_shared r) = (if fed = [] then None else Some ack)"
proof -
  let ?fed = "filter (\<lambda>sub. convert_events (sub_converter sub) events \<noteq> []) subs"
  have per: "filter (\<lambda>(i, rows). rows \<noteq> [])
       (map (\<lambda>sub. (sub_source_id sub, convert_events (sub_converter sub) events)) subs)
     = map (\<lambda>sub. (sub_source_id sub, convert_events (sub_converter sub) events)) ?fed"
    by (simp add: filter_map comp_def)
  have "set (map fst (map (\<lambda>sub. (sub_source_id sub, convert_events (sub_converter sub) events)) ?fed))
     = sub_source_id ` set ?fed"
    by (simp add: image_image)
  then show ?thesis
    by (cases "?fed = []")
      (simp_all add: write_events_def Let_def per fan_out_def shared_new_def fire_if_done_def
        image_image filter_empty_conv split: prod.splits)
qed

text \<open>A sequence of event writes: the warnings issued and the tables warned about so far.\<close>

fun warnings_of :: "Subscriber list \<Rightarrow> 'x Event list list \<Rightarrow> string set \<Rightarrow> string list" where
  "warnings_of subs [] warned = []"
| "warnings_of subs (es # ess) warned =
     (let (r, ws, warned') = write_events subs warned es () in ws @ warnings_of subs ess warned')"

text \<open>
  over any sequence of event writes, a table without a subscriber is warned about at most once,
  and a table that has a subscriber never.
\<close>

theorem warned_at_most_once:
  "distinct (warnings_of subs ess warned) \<and>
   set (warnings_of subs ess warned) \<inter> (warned \<union> set (map sub_table_label subs)) = {}"
proof (induction ess arbitrary: warned)
  case Nil
  then show ?case by simp
next
  case (Cons es ess)
  let ?ls = "filter (\<lambda>l. l \<notin> set (map sub_table_label subs)) (data_event_tables es)"
  have "distinct ?ls" by (simp add: data_event_tables_def)
  then obtain r where "write_events subs warned es () =
      (r, filter (\<lambda>l. l \<notin> warned) ?ls, warned \<union> set ?ls)"
    by (simp add: write_events_def Let_def warn_all_spec del: set_filter)
  then have "warnings_of subs (es # ess) warned =
      filter (\<lambda>l. l \<notin> warned) ?ls @ warnings_of subs ess (warned \<union> set ?ls)"
    by simp
  moreover have "distinct (data_event_tables es)" by (simp add: data_event_tables_def)
  ultimately show ?case
    using Cons.IH [of "warned \<union> set ?ls"] by (auto simp del: warnings_of.simps)
qed

text \<open>
  What is relied on of Arrow's batch constructor: columns of the declared types and of one length, without a
  null where the field does not allow it, make a batch.
\<close>

definition constructor_lawful :: "(Schema \<Rightarrow> 'x ColBuilder list \<Rightarrow> ArrowError + 'batch) \<Rightarrow> bool" where
  "constructor_lawful try_new \<longleftrightarrow>
     (\<forall>schema cols n.
        cols \<noteq> [] \<and> map finish_type cols = map data_type schema \<and>
        (\<forall>c \<in> set cols. length (col_nulls c) = n) \<and>
        (\<forall>(f, c) \<in> set (zip schema cols). \<not> nullable f \<longrightarrow> True \<notin> set (col_nulls c)) \<longrightarrow>
        (\<exists>batch. try_new schema cols = Inr batch))"

lemma output_fields_nullable: "output_fields from_oid cs = Inr fs \<Longrightarrow> f \<in> set fs \<Longrightarrow> nullable f"
  by (induction cs arbitrary: fs) (auto simp: outcome split: if_splits)

lemma build_output_schema_nullable: "build_output_schema from_oid cs = Inr schema \<Longrightarrow> f \<in> set (tl schema) \<Longrightarrow> nullable f"
  by (auto simp: build_output_schema_def outcome split: if_splits dest: output_fields_nullable)

text \<open>The rows a converter makes, of replicated events or of a copied table.\<close>

definition converted_row :: "RowConverter \<Rightarrow> 'x CdcRow \<Rightarrow> bool" where
  "converted_row c row \<longleftrightarrow>
     (\<exists>events. row \<in> set (convert_events c events)) \<or> (\<exists>s table_rows. row \<in> set (convert_copy_rows c s table_rows))"

lemma converted_row_arity: "converted_row c row \<Longrightarrow> length (row_values row) = rc_n_cols c"
  using convert_events_arity convert_copy_rows_arity by (fastforce simp: converted_row_def)

text \<open>
  C6: the rows a source's converter produces always fit the schema discovered for the source. For a
  schema built from the discovered columns and the converter built from the schema's data fields, any rows
  that the converter made of replicated events and of copied tables, in any mixture, become a batch: one
  column for each field, of the declared type, with one entry for each row, the first the rows' operations.
\<close>

theorem converted_rows_fit_schema:
  fixes F :: "'x foreign"
  assumes "build_output_schema from_oid cs = Inr schema" and "constructor_lawful try_new"
    and "\<forall>row \<in> set rows. converted_row (row_converter_new t (map field_name (tl schema)) emit) row"
  shows "\<exists>cols batch. rows_to_record_batch F try_new schema rows = Inr batch \<and> try_new schema cols = Inr batch \<and>
           map finish_type cols = map data_type schema \<and> (\<forall>c \<in> set cols. length (col_nulls c) = length rows) \<and>
           hd cols = BUtf8 (map (\<lambda>row. Some (gs_op_for (row_op row))) rows)"
proof -
  let ?c = "row_converter_new t (map field_name (tl schema)) emit"
  have len: "length schema = Suc (length cs)"
    using arg_cong [OF build_output_schema_shape(1) [OF assms(1)], of length] by simp
  then have "rc_n_cols ?c = length cs" by (simp add: row_converter_new_def)
  then have arity: "\<forall>row \<in> set rows. length (row_values row) = length cs"
    using assms(3) by (metis converted_row_arity)
  obtain cols where cols: "rows_to_record_batch F try_new schema rows = try_new schema cols"
    "map finish_type cols = map data_type schema" "\<forall>c \<in> set cols. length (col_nulls c) = length rows"
    "hd cols = BUtf8 (map (\<lambda>row. Some (gs_op_for (row_op row))) rows)"
    using rows_to_record_batch_well_typed [OF assms(1) arity, of F try_new] by blast
  have "cols \<noteq> []" using arg_cong [OF cols(2), of length] len by auto
  moreover have "True \<notin> set (col_nulls c)" if "(f, c) \<in> set (zip schema cols)" "\<not> nullable f" for f c
  proof -
    from len obtain op fs where schema: "schema = op # fs" by (cases schema) auto
    from \<open>cols \<noteq> []\<close> obtain first rest where split: "cols = first # rest" by (cases cols) auto
    have "f \<notin> set fs" using build_output_schema_nullable [OF assms(1), of f] that(2) schema by auto
    then have "c = first" using that(1) schema split by (auto dest: set_zip_leftD)
    then show ?thesis using cols(4) split by auto
  qed
  ultimately obtain batch where "try_new schema cols = Inr batch"
    using assms(2) cols(2,3) unfolding constructor_lawful_def by (metis (no_types, lifting) case_prodI2)
  with cols show ?thesis by auto
qed

theorem converted_rows_fit_schema_witness:
  "\<exists>cols. rows_to_record_batch text_foreign (\<lambda>s c. Inr c) witness_schema
       (convert_copy_rows (row_converter_new ''public.users'' (map field_name (tl witness_schema)) True) users_schema [[CI64 7]] @
        convert_events (row_converter_new ''public.users'' (map field_name (tl witness_schema)) True)
          [Begin, Insert users_schema [CI64 1], Delete users_schema (Some (OldKey [CI64 1]))])
     = Inr cols \<and> map finish_type cols = [DUtf8, DInt64]"
proof -
  have schema: "build_output_schema (\<lambda>oid. if oid = 20 then Some PgINT8 else None)
        [\<lparr>dc_name = ''id'', type_oid = 20\<rparr>] = Inr witness_schema"
    by (simp add: build_output_schema_def witness_schema_def STREAMLING_COLUMN_NAME_OP_def
        arrow_type_for_def)
  have lawful: "constructor_lawful (\<lambda>s c. Inr c)" by (simp add: constructor_lawful_def)
  let ?c = "row_converter_new ''public.users'' (map field_name (tl witness_schema)) True"
  let ?rows = "convert_copy_rows ?c users_schema [[CI64 7]] @
    convert_events ?c [Begin, Insert users_schema [CI64 1], Delete users_schema (Some (OldKey [CI64 1]))]"
  have "\<forall>row \<in> set ?rows. converted_row ?c row" by (auto simp: converted_row_def)
  from converted_rows_fit_schema [OF schema lawful this, of text_foreign]
  obtain cols where "rows_to_record_batch text_foreign (\<lambda>s c. Inr c) witness_schema ?rows = Inr cols"
    and "map finish_type cols = map data_type witness_schema" by auto
  moreover have "map data_type witness_schema = [DUtf8, DInt64]"
    by (simp add: witness_schema_def)
  ultimately show ?thesis by metis
qed

end
