(* ===== verification/CdcSource.thy ===== *)
theory CdcSource
  imports Bridge
begin

text \<open>
  The running state of a \<open>postgres_cdc_source\<close> (\<open>src/src/postgres_cdc/source.rs\<close>): the
  receiving end of its unit channel with the partly emitted unit, and its ledger.

  The channel is a queue of units. A call of \<open>generate_batch\<close> that waits for its first unit is
  modelled from the moment the wait ends, so \<open>rx\<close> holds the units that are in the channel then:
  none after a timeout or a close. The row type is a variable, and batch construction is the
  parameter \<open>build\<close>, which \<open>generate_batch\<close> instantiates with \<open>rows_to_record_batch\<close>.
\<close>

section \<open>State\<close>

record ('a, 'r) WriteUnit =
  unit_rows :: "'r list"
  unit_ack :: 'a

record ('a, 'r) RecvState =
  rx :: "('a, 'r) WriteUnit list"
  carry :: "('a, 'r) WriteUnit option"

record ('a, 'r) RunningState =
  recv :: "('a, 'r) RecvState"
  ledger :: "'a AckLedger"

definition running_new :: "('a, 'r) RunningState" where
  "running_new = \<lparr>recv = \<lparr>rx = [], carry = None\<rparr>, ledger = ledger_new\<rparr>"

section \<open>Draining the channel\<close>

text \<open>Moves rows out of a unit up to the batch size; true when the unit is exhausted.\<close>

definition take_from ::
  "('a, 'r) WriteUnit \<Rightarrow> 'r list \<Rightarrow> nat \<Rightarrow> bool \<times> ('a, 'r) WriteUnit \<times> 'r list" where
  "take_from u rows batch_size =
     (let n = min (batch_size - length rows) (length (unit_rows u));
          u' = u\<lparr>unit_rows := drop n (unit_rows u)\<rparr>
      in (unit_rows u' = [], u', rows @ take n (unit_rows u)))"

text \<open>A received unit is either completed or carried over.\<close>

definition absorb ::
  "nat \<Rightarrow> ('a, 'r) WriteUnit \<Rightarrow> 'r list \<Rightarrow> 'a list
     \<Rightarrow> 'r list \<times> 'a list \<times> ('a, 'r) WriteUnit option" where
  "absorb batch_size u rows completed =
     (let (finished, u', rows') = take_from u rows batch_size in
      if finished then (rows', completed @ [unit_ack u], None) else (rows', completed, Some u'))"

text \<open>The \<open>try_recv\<close> loop.\<close>

fun drain ::
  "nat \<Rightarrow> ('a, 'r) WriteUnit list \<Rightarrow> 'r list \<Rightarrow> 'a list \<Rightarrow> ('a, 'r) WriteUnit option
     \<Rightarrow> 'r list \<times> 'a list \<times> ('a, 'r) RecvState" where
  "drain batch_size [] rows completed c = (rows, completed, \<lparr>rx = [], carry = c\<rparr>)"
| "drain batch_size (u # q) rows completed c =
     (if length rows < batch_size \<and> c = None
      then (let (rows', completed', c') = absorb batch_size u rows completed
            in drain batch_size q rows' completed' c')
      else (rows, completed, \<lparr>rx = u # q, carry = c\<rparr>))"

text \<open>The three phases: the carried unit, the first receive, and the loop.\<close>

definition collect_units ::
  "nat \<Rightarrow> ('a, 'r) RecvState \<Rightarrow> 'r list \<times> 'a list \<times> ('a, 'r) RecvState" where
  "collect_units batch_size r =
     (let (rows1, done1, c1) =
            (case carry r of None \<Rightarrow> ([], [], None) | Some u \<Rightarrow> absorb batch_size u [] []);
          (rows2, done2, c2, q2) =
            (if rows1 = [] \<and> c1 = None
             then (case rx r of
                     [] \<Rightarrow> (rows1, done1, c1, [])
                   | u # q \<Rightarrow>
                       (let (rows', done', c') = absorb batch_size u rows1 done1
                        in (rows', done', c', q)))
             else (rows1, done1, c1, rx r))
      in drain batch_size q2 rows2 done2 c2)"

section \<open>Operations\<close>

text \<open>
  \<open>generate_batch\<close>: \<open>Inr None\<close> is the empty batch. The batch is built before the ledger is touched;
  a failed build drops the carried unit and the completed acknowledgements.
\<close>

definition generate_batch_with ::
  "('r list \<Rightarrow> PluginError + 'batch) \<Rightarrow> nat \<Rightarrow> ('a, 'r) RunningState
     \<Rightarrow> (PluginError + 'batch option) \<times> ('a, 'r) RunningState" where
  "generate_batch_with build batch_size s =
     (let (rows, completed, r) = collect_units batch_size (recv s) in
      if rows = []
      then (Inr None, s\<lparr>recv := r, ledger := fold unit_completed completed (ledger s)\<rparr>)
      else (case build rows of
              Inr batch \<Rightarrow>
                (Inr (Some batch),
                 s\<lparr>recv := r,
                   ledger := fold unit_completed completed
                     (rows_delivered (of_nat (length rows)) (ledger s))\<rparr>)
            | Inl e \<Rightarrow> (Inl e, s\<lparr>recv := r\<lparr>carry := None\<rparr>\<rparr>)))"

text \<open>The blocking task either panics or returns what the batch construction returns.\<close>

definition build_blocking ::
  "bool \<Rightarrow> 'x foreign \<Rightarrow> (Schema \<Rightarrow> 'x ColBuilder list \<Rightarrow> ArrowError + 'batch) \<Rightarrow> Schema
     \<Rightarrow> 'x CdcRow list \<Rightarrow> PluginError + 'batch" where
  "build_blocking panicked F try_new schema rows =
     (if panicked then Inl (Internal ''blocking task panicked'')
      else map_err ArrowFailure (rows_to_record_batch F try_new schema rows))"

definition generate_batch ::
  "bool \<Rightarrow> 'x foreign \<Rightarrow> (Schema \<Rightarrow> 'x ColBuilder list \<Rightarrow> ArrowError + 'batch) \<Rightarrow> Schema \<Rightarrow> nat
     \<Rightarrow> ('a, 'x CdcRow) RunningState
     \<Rightarrow> (PluginError + 'batch option) \<times> ('a, 'x CdcRow) RunningState" where
  "generate_batch panicked F try_new schema batch_size s =
     generate_batch_with (build_blocking panicked F try_new schema) batch_size s"

definition process_checkpoint_marker :: "u64 \<Rightarrow> ('a, 'r) RunningState \<Rightarrow> ('a, 'r) RunningState" where
  "process_checkpoint_marker epoch s = s\<lparr>ledger := marker epoch (ledger s)\<rparr>"

text \<open>The finalizer returns the handles it releases; releasing them is the caller's next step.\<close>

definition process_checkpoint_finalizer ::
  "u64 \<Rightarrow> ('a, 'r) RunningState \<Rightarrow> 'a list \<times> ('a, 'r) RunningState" where
  "process_checkpoint_finalizer epoch s =
     (let (released, l) = finalize epoch (ledger s) in (released, s\<lparr>ledger := l\<rparr>))"

section \<open>What a drain does\<close>

text \<open>The units a source holds, in delivery order, and their rows.\<close>

definition held :: "('a, 'r) RecvState \<Rightarrow> ('a, 'r) WriteUnit list" where
  "held r = (case carry r of None \<Rightarrow> [] | Some u \<Rightarrow> [u]) @ rx r"

definition rows_held :: "('a, 'r) WriteUnit list \<Rightarrow> 'r list" where
  "rows_held us = concat (map unit_rows us)"

lemma rows_held_simps [simp]:
  "rows_held [] = []"
  "rows_held (u # us) = unit_rows u @ rows_held us"
  "rows_held (us @ vs) = rows_held us @ rows_held vs"
  by (simp_all add: rows_held_def)

text \<open>
  \<open>splits us done rows us'\<close>: the units \<open>us\<close> were split into the completed ones, whose
  acknowledgements are \<open>done\<close>, and the units still held; the rows taken are exactly the rows that
  left.
\<close>

definition splits ::
  "('a, 'r) WriteUnit list \<Rightarrow> 'a list \<Rightarrow> 'r list \<Rightarrow> ('a, 'r) WriteUnit list \<Rightarrow> bool" where
  "splits us completed rows us' \<longleftrightarrow>
     map unit_ack us = completed @ map unit_ack us' \<and>
     rows_held us = rows @ rows_held us' \<and>
     (\<forall>u' \<in> set us'. \<exists>u \<in> set us. unit_ack u = unit_ack u' \<and> set (unit_rows u') \<subseteq> set (unit_rows u))"

lemma splits_refl [simp]: "splits us [] [] us"
  by (auto simp: splits_def)

lemma splits_prefix: "splits us d r us' \<Longrightarrow> splits (us @ q) d r (us' @ q)"
  by (auto simp: splits_def)

lemma splits_trans:
  assumes "splits us d r us'" and "splits us' d' r' us''"
  shows "splits us (d @ d') (r @ r') us''"
proof -
  have "\<exists>u \<in> set us. unit_ack u = unit_ack v \<and> set (unit_rows v) \<subseteq> set (unit_rows u)"
    if "v \<in> set us''" for v
  proof -
    obtain u' where "u' \<in> set us'" "unit_ack u' = unit_ack v" "set (unit_rows v) \<subseteq> set (unit_rows u')"
      using assms(2) \<open>v \<in> set us''\<close> unfolding splits_def by blast
    moreover from \<open>u' \<in> set us'\<close> obtain u where "u \<in> set us" "unit_ack u = unit_ack u'"
      "set (unit_rows u') \<subseteq> set (unit_rows u)"
      using assms(1) unfolding splits_def by blast
    ultimately show ?thesis by (metis subset_trans)
  qed
  then show ?thesis using assms by (simp add: splits_def)
qed

lemma absorb_splits:
  assumes "absorb bs u rows completed = (rows', completed', c)"
  shows "\<exists>d r. completed' = completed @ d \<and> rows' = rows @ r \<and>
           splits [u] d r (case c of None \<Rightarrow> [] | Some v \<Rightarrow> [v])"
proof -
  let ?n = "min (bs - length rows) (length (unit_rows u))"
  show ?thesis
  proof (cases "drop ?n (unit_rows u) = []")
    case True
    with assms have "completed' = completed @ [unit_ack u] \<and> rows' = rows @ take ?n (unit_rows u)
        \<and> c = None"
      by (simp add: absorb_def take_from_def Let_def)
    moreover have "take ?n (unit_rows u) = unit_rows u"
      using True by (metis append_Nil2 append_take_drop_id)
    ultimately show ?thesis by (auto simp: splits_def)
  next
    case False
    with assms have "completed' = completed \<and> rows' = rows @ take ?n (unit_rows u) \<and>
        c = Some (u\<lparr>unit_rows := drop ?n (unit_rows u)\<rparr>)"
      by (simp add: absorb_def take_from_def Let_def)
    then show ?thesis
      by (auto simp: splits_def dest: in_set_dropD)
  qed
qed

lemma drain_splits:
  assumes "drain bs q rows completed c = (rows', completed', r')"
  shows "\<exists>d r. completed' = completed @ d \<and> rows' = rows @ r \<and>
           splits (held \<lparr>rx = q, carry = c\<rparr>) d r (held r')"
  using assms
proof (induction bs q rows completed c arbitrary: rows' completed' r' rule: drain.induct)
  case (1 bs rows completed c)
  then show ?case by auto
next
  case (2 bs u q rows completed c)
  show ?case
  proof (cases "length rows < bs \<and> c = None")
    case True
    obtain rows1 done1 c1 where a: "absorb bs u rows completed = (rows1, done1, c1)"
      by (cases "absorb bs u rows completed") auto
    with 2(2) True have dr: "drain bs q rows1 done1 c1 = (rows', completed', r')" by simp
    obtain d2 r2 where 2: "completed' = done1 @ d2" "rows' = rows1 @ r2"
      "splits (held \<lparr>rx = q, carry = c1\<rparr>) d2 r2 (held r')"
      using "2.IH" [OF True a [symmetric] refl refl dr] by blast
    obtain d1 r1 where 1: "done1 = completed @ d1" "rows1 = rows @ r1"
      "splits [u] d1 r1 (case c1 of None \<Rightarrow> [] | Some v \<Rightarrow> [v])"
      using absorb_splits [OF a] by blast
    from splits_prefix [OF 1(3), of q] have "splits (held \<lparr>rx = u # q, carry = c\<rparr>) d1 r1
        (held \<lparr>rx = q, carry = c1\<rparr>)"
      using True by (simp add: held_def)
    from splits_trans [OF this 2(3)] 1 2 show ?thesis by force
  next
    case False
    with 2(2) show ?thesis by auto
  qed
qed

text \<open>The phases of a call: the carried unit, at most one unit that was waited for, the loop.\<close>

lemma collect_units_phases:
  assumes "collect_units bs r = (rows, completed, r')"
  obtains rows1 done1 c1 rows2 done2 c2 q2 where
    "(carry r = None \<and> rows1 = [] \<and> done1 = [] \<and> c1 = None) \<or>
     (\<exists>u. carry r = Some u \<and> absorb bs u [] [] = (rows1, done1, c1))"
    "(rows2 = rows1 \<and> done2 = done1 \<and> c2 = c1 \<and> q2 = rx r) \<or>
     (\<exists>u. rows1 = [] \<and> c1 = None \<and> rx r = u # q2 \<and> absorb bs u rows1 done1 = (rows2, done2, c2))"
    "drain bs q2 rows2 done2 c2 = (rows, completed, r')"
proof -
  obtain rows1 done1 c1 where p1:
    "(case carry r of None \<Rightarrow> ([], [], None) | Some u \<Rightarrow> absorb bs u [] []) = (rows1, done1, c1)"
    by (metis prod_cases3)
  obtain rows2 done2 c2 q2 where p2:
    "(if rows1 = [] \<and> c1 = None
      then (case rx r of [] \<Rightarrow> (rows1, done1, c1, [])
            | u # q \<Rightarrow> (let (rows', done', c') = absorb bs u rows1 done1 in (rows', done', c', q)))
      else (rows1, done1, c1, rx r)) = (rows2, done2, c2, q2)"
    by (metis prod_cases4)
  show ?thesis
  proof (rule that)
    show "(carry r = None \<and> rows1 = [] \<and> done1 = [] \<and> c1 = None) \<or>
      (\<exists>u. carry r = Some u \<and> absorb bs u [] [] = (rows1, done1, c1))"
      using p1 by (cases "carry r") auto
    show "(rows2 = rows1 \<and> done2 = done1 \<and> c2 = c1 \<and> q2 = rx r) \<or>
      (\<exists>u. rows1 = [] \<and> c1 = None \<and> rx r = u # q2 \<and> absorb bs u rows1 done1 = (rows2, done2, c2))"
      using p2 by (cases "rx r") (auto split: if_splits prod.splits)
    show "drain bs q2 rows2 done2 c2 = (rows, completed, r')"
      using assms p1 p2 by (simp add: collect_units_def)
  qed
qed

text \<open>
  A call takes rows from the front of what the source holds: it completes a prefix of the units,
  keeps the others in order, and every row that leaves is in the batch.
\<close>

lemma collect_units_splits:
  assumes "collect_units bs r = (rows, completed, r')"
  shows "splits (held r) completed rows (held r')"
  using assms
proof (rule collect_units_phases)
  fix rows1 done1 c1 rows2 done2 c2 q2
  assume p1: "(carry r = None \<and> rows1 = [] \<and> done1 = [] \<and> c1 = None) \<or>
      (\<exists>u. carry r = Some u \<and> absorb bs u [] [] = (rows1, done1, c1))"
    and p2: "(rows2 = rows1 \<and> done2 = done1 \<and> c2 = c1 \<and> q2 = rx r) \<or>
      (\<exists>u. rows1 = [] \<and> c1 = None \<and> rx r = u # q2 \<and> absorb bs u rows1 done1 = (rows2, done2, c2))"
    and p3: "drain bs q2 rows2 done2 c2 = (rows, completed, r')"
  have s1: "splits (held r) done1 rows1 (held \<lparr>rx = rx r, carry = c1\<rparr>)"
    using p1
  proof (elim disjE conjE exE)
    fix u assume u: "carry r = Some u" and a: "absorb bs u [] [] = (rows1, done1, c1)"
    have "splits [u] done1 rows1 (case c1 of None \<Rightarrow> [] | Some v \<Rightarrow> [v])"
      using absorb_splits [OF a] by auto
    from splits_prefix [OF this, of "rx r"] u show ?thesis by (simp add: held_def)
  qed (simp add: held_def)
  have s2: "splits (held r) done2 rows2 (held \<lparr>rx = q2, carry = c2\<rparr>)"
    using p2
  proof (elim disjE conjE exE)
    fix u assume u: "c1 = None" "rx r = u # q2" and a: "absorb bs u rows1 done1 = (rows2, done2, c2)"
    obtain d x where d: "done2 = done1 @ d" "rows2 = rows1 @ x"
      "splits [u] d x (case c2 of None \<Rightarrow> [] | Some v \<Rightarrow> [v])"
      using absorb_splits [OF a] by blast
    from splits_prefix [OF d(3), of q2] u
    have "splits (held \<lparr>rx = rx r, carry = c1\<rparr>) d x (held \<lparr>rx = q2, carry = c2\<rparr>)"
      by (simp add: held_def)
    from splits_trans [OF s1 this] d show ?thesis by simp
  qed (use s1 in simp)
  obtain d x where "completed = done2 @ d" "rows = rows2 @ x"
    "splits (held \<lparr>rx = q2, carry = c2\<rparr>) d x (held r')"
    using drain_splits [OF p3] by blast
  with splits_trans [OF s2] show ?thesis by simp
qed

lemma absorb_bound:
  "absorb bs u rows completed = (rows', completed', c) \<Longrightarrow> length rows \<le> bs \<Longrightarrow> length rows' \<le> bs"
  by (auto simp: absorb_def take_from_def Let_def split: if_splits)

lemma drain_bound:
  "drain bs q rows completed c = (rows', completed', r') \<Longrightarrow> length rows \<le> bs \<Longrightarrow> length rows' \<le> bs"
proof (induction bs q rows completed c arbitrary: rows' completed' r' rule: drain.induct)
  case (2 bs u q rows completed c)
  show ?case
  proof (cases "length rows < bs \<and> c = None")
    case True
    obtain rows1 done1 c1 where a: "absorb bs u rows completed = (rows1, done1, c1)"
      by (cases "absorb bs u rows completed") auto
    with "2.prems" True have "drain bs q rows1 done1 c1 = (rows', completed', r')" by simp
    from "2.IH" [OF True a [symmetric] refl refl this] absorb_bound [OF a] "2.prems"(2)
    show ?thesis by simp
  next
    case False
    with "2.prems" show ?thesis by auto
  qed
qed auto

lemma collect_units_bound:
  assumes "collect_units bs r = (rows, completed, r')"
  shows "length rows \<le> bs"
  using assms by (rule collect_units_phases) (auto dest!: drain_bound absorb_bound)

text \<open>The units left in the channel are untouched.\<close>

lemma drain_suffix: "drain bs q rows completed c = (rows', completed', r') \<Longrightarrow> \<exists>xs. q = xs @ rx r'"
proof (induction bs q rows completed c arbitrary: rows' completed' r' rule: drain.induct)
  case (2 bs u q rows completed c)
  show ?case
  proof (cases "length rows < bs \<and> c = None")
    case True
    obtain rows1 done1 c1 where a: "absorb bs u rows completed = (rows1, done1, c1)"
      by (cases "absorb bs u rows completed") auto
    with "2.prems" True have "drain bs q rows1 done1 c1 = (rows', completed', r')" by simp
    from "2.IH" [OF True a [symmetric] refl refl this] show ?thesis by (metis append_Cons)
  next
    case False
    with "2.prems" show ?thesis by auto
  qed
qed auto

lemma collect_units_suffix:
  assumes "collect_units bs r = (rows, completed, r')"
  shows "\<exists>xs. held r = xs @ rx r'"
  using assms
proof (rule collect_units_phases)
  fix rows1 done1 c1 rows2 done2 c2 q2
  assume p2: "(rows2 = rows1 \<and> done2 = done1 \<and> c2 = c1 \<and> q2 = rx r) \<or>
      (\<exists>u. rows1 = [] \<and> c1 = None \<and> rx r = u # q2 \<and> absorb bs u rows1 done1 = (rows2, done2, c2))"
    and p3: "drain bs q2 rows2 done2 c2 = (rows, completed, r')"
  obtain xs where "q2 = xs @ rx r'" using drain_suffix [OF p3] by blast
  moreover have "\<exists>ys. rx r = ys @ q2" using p2 by (metis append_Cons append_Nil)
  ultimately show ?thesis unfolding held_def by (metis append.assoc)
qed

text \<open>The loop stops only when a row was taken or nothing is left.\<close>

lemma absorb_carry: "absorb bs u rows d = (rows', d', Some v) \<Longrightarrow> length rows < bs \<Longrightarrow> rows' \<noteq> []"
  by (auto simp: absorb_def take_from_def Let_def split: if_splits)

lemma drain_stops:
  "drain bs q rows d c = (rows', d', r') \<Longrightarrow> 0 < bs \<Longrightarrow> c = None \<or> rows \<noteq> [] \<Longrightarrow>
   rows' \<noteq> [] \<or> held r' = []"
proof (induction bs q rows d c arbitrary: rows' d' r' rule: drain.induct)
  case (2 bs u q rows d c)
  show ?case
  proof (cases "length rows < bs \<and> c = None")
    case True
    obtain rows1 d1 c1 where a: "absorb bs u rows d = (rows1, d1, c1)"
      by (cases "absorb bs u rows d") auto
    with "2.prems"(1) True have dr: "drain bs q rows1 d1 c1 = (rows', d', r')" by simp
    have "c1 = None \<or> rows1 \<noteq> []"
      using absorb_carry [of bs u rows d rows1 d1] a True by (cases c1) blast+
    from "2.IH" [OF True a [symmetric] refl refl dr "2.prems"(2) this] show ?thesis .
  next
    case False
    with "2.prems" show ?thesis by auto
  qed
qed (auto simp: held_def)

lemma collect_units_stops:
  assumes "0 < bs" and "collect_units bs r = (rows, completed, r')"
  shows "rows \<noteq> [] \<or> held r' = []"
  using assms(2)
proof (rule collect_units_phases)
  fix rows1 done1 c1 rows2 done2 c2 q2
  assume p1: "(carry r = None \<and> rows1 = [] \<and> done1 = [] \<and> c1 = None) \<or>
      (\<exists>u. carry r = Some u \<and> absorb bs u [] [] = (rows1, done1, c1))"
    and p2: "(rows2 = rows1 \<and> done2 = done1 \<and> c2 = c1 \<and> q2 = rx r) \<or>
      (\<exists>u. rows1 = [] \<and> c1 = None \<and> rx r = u # q2 \<and> absorb bs u rows1 done1 = (rows2, done2, c2))"
    and p3: "drain bs q2 rows2 done2 c2 = (rows, completed, r')"
  have "c1 = None \<or> rows1 \<noteq> []"
    using p1 absorb_carry [of bs _ "[]" "[]" rows1 done1] assms(1) by (cases c1) auto
  then have "c2 = None \<or> rows2 \<noteq> []"
    using p2 absorb_carry [of bs _ "[]" done1 rows2 done2] assms(1) by (cases c2) auto
  with drain_stops [OF p3 assms(1)] show ?thesis by blast
qed

lemma fold_unit_completed [simp]:
  "emitted (fold unit_completed cs l) = emitted l"
  "markers (fold unit_completed cs l) = markers l"
  "pending (fold unit_completed cs l) = pending l @ map (\<lambda>a. (emitted l, a)) cs"
  by (induction cs arbitrary: l) (simp_all add: unit_completed_def)

section \<open>Properties\<close>

text \<open>
  one call takes rows from the front of the channel, in order, and no more than the batch size:
  the rows of the units held before the call are the batch followed by the rows still held, the
  acknowledgements of the units it exhausted come first, and no unit is skipped or split twice.
\<close>

theorem collect_units_fifo:
  "let (rows, completed, r') = collect_units bs r
   in rows_held (held r) = rows @ rows_held (held r') \<and>
      map unit_ack (held r) = completed @ map unit_ack (held r') \<and>
      length rows \<le> bs"
  using collect_units_splits [of bs r] collect_units_bound [of bs r]
  by (auto simp: splits_def split: prod.splits)

text \<open>
  C5: a call that has rows to deliver delivers some: with a positive batch size the batch is empty
  only when the source holds no row at all, so row-less units in front never hide waiting rows.
\<close>

theorem collect_units_progress:
  assumes "0 < bs" and "rows_held (held r) \<noteq> []"
  shows "fst (collect_units bs r) \<noteq> []"
proof -
  obtain rows completed r' where c: "collect_units bs r = (rows, completed, r')"
    by (metis prod_cases3)
  have "rows_held (held r) = rows @ rows_held (held r')"
    using collect_units_splits [OF c] by (simp add: splits_def)
  with collect_units_stops [OF assms(1) c] assms(2) c show ?thesis by auto
qed

theorem collect_units_progress_witness:
  "fst (collect_units 2
     \<lparr>rx = [\<lparr>unit_rows = [], unit_ack = 1 :: nat\<rparr>, \<lparr>unit_rows = [7 :: nat, 8, 9], unit_ack = 2\<rparr>],
      carry = None\<rparr>) \<noteq> []"
  by (rule collect_units_progress) (simp_all add: held_def)

text \<open>
  a batch that cannot be built is never acknowledged. When batch construction fails, the ledger
  is exactly what it was before the call, so neither the rows nor the units they exhausted count as
  delivered, and the partly drained unit is dropped so that it cannot be acknowledged later.
\<close>

theorem failed_build_acks_nothing:
  assumes "generate_batch panicked F try_new schema bs s = (Inl e, s')"
  shows "ledger s' = ledger s \<and> carry (recv s') = None \<and>
         (\<exists>lost. held (recv s) = lost @ held (recv s'))"
proof -
  obtain rows completed r where c: "collect_units bs (recv s) = (rows, completed, r)"
    by (metis prod_cases3)
  with assms have "s' = s\<lparr>recv := r\<lparr>carry := None\<rparr>\<rparr>"
    by (auto simp: generate_batch_def generate_batch_with_def split: if_splits sum.splits)
  with collect_units_suffix [OF c] show ?thesis by (simp add: held_def)
qed

definition one_unit_state :: "(nat, string CdcRow) RunningState" where
  "one_unit_state =
     running_new\<lparr>recv := \<lparr>rx = [\<lparr>unit_rows = [\<lparr>row_op = ''insert'', row_values = []\<rparr>],
                               unit_ack = 1\<rparr>], carry = None\<rparr>\<rparr>"

theorem failed_build_acks_nothing_witness:
  "\<exists>e s'. generate_batch False text_foreign (\<lambda>sc c. Inr c) witness_schema 10 one_unit_state = (Inl e, s')
     \<and> ledger s' = ledger_new \<and> carry (recv s') = None"
proof -
  obtain e where run: "generate_batch False text_foreign (\<lambda>sc c. Inr c) witness_schema 10 one_unit_state
      = (Inl e, one_unit_state\<lparr>recv := \<lparr>rx = [], carry = None\<rparr>\<rparr>)"
    by (simp add: generate_batch_def generate_batch_with_def one_unit_state_def running_new_def
        collect_units_def absorb_def take_from_def build_blocking_def rows_to_record_batch_def
        witness_schema_def colbuilder_new_def)
  with failed_build_acks_nothing [OF run] show ?thesis
    by (auto simp: one_unit_state_def running_new_def)
qed

end
