(* ===== verification/CdcSystem.thy ===== *)
theory CdcSystem
  imports CdcSource
begin

text \<open>
  One slot-sharing group at work: the replication library writes, the destination fans each write
  out to the sources' channels, the host pulls batches from the sources and drives their
  checkpoints, and acknowledgements flow back to the library. The steps of
  \<open>bridge.rs\<close>, \<open>source.rs\<close> and \<open>ledger.rs\<close> interleave freely.

  Rows carry the number of the write they came from, so that a delivered row can be attributed.
  The shared acknowledgements live in a store indexed by write number, because the handles of the
  sources alias them. The fields \<open>sent\<close>, \<open>delivered\<close> and \<open>durable\<close> only record history: the
  units of a write, the rows handed to the host, and the number of rows covered by the finalized
  checkpoints of a source.
\<close>

section \<open>The system\<close>

type_synonym 'r tagged_row = "nat \<times> 'r"

record 'r cdc_sys =
  shared_acks :: "nat \<Rightarrow> nat SharedAckInner"
  next_write :: nat
  unsent :: "nat \<Rightarrow> (SourceId \<times> 'r tagged_row list) list"
  running_of :: "SourceId \<Rightarrow> (nat \<times> SourceId, 'r tagged_row) RunningState"
  rx_closed :: "SourceId \<Rightarrow> bool"
  etl_acked :: "nat list"
  sent :: "nat \<Rightarrow> (SourceId \<times> 'r tagged_row list) list"
  delivered :: "SourceId \<Rightarrow> 'r tagged_row list"
  durable :: "SourceId \<Rightarrow> nat"

definition sys_init :: "'r cdc_sys" where
  "sys_init =
     \<lparr>shared_acks = (\<lambda>_. \<lparr>etl_ack = None, sub_pending = {}\<rparr>), next_write = 0,
      unsent = (\<lambda>_. []), running_of = (\<lambda>_. running_new), rx_closed = (\<lambda>_. False),
      etl_acked = [], sent = (\<lambda>_. []), delivered = (\<lambda>_. []), durable = (\<lambda>_. 0)\<rparr>"

text \<open>The finalizer's loop: every released handle releases its slice of the shared acknowledgement.\<close>

fun release_handles ::
  "(nat \<times> SourceId) list \<Rightarrow> (nat \<Rightarrow> nat SharedAckInner) \<Rightarrow> nat list \<times> (nat \<Rightarrow> nat SharedAckInner)" where
  "release_handles [] acks = ([], acks)"
| "release_handles ((w, s) # hs) acks =
     (let (fs, inner) = release s (acks w); (fs', acks') = release_handles hs (acks(w := inner))
      in (fs @ fs', acks'))"

text \<open>The rows a call hands to the host: those of a batch that was built.\<close>

definition rows_returned ::
  "(PluginError + 'batch option) \<Rightarrow> nat \<Rightarrow> ('a, 'r) RunningState \<Rightarrow> 'r list" where
  "rows_returned res bs run =
     (case res of Inr (Some _) \<Rightarrow> fst (collect_units bs (recv run)) | _ \<Rightarrow> [])"

definition push_unit ::
  "('a, 'r) WriteUnit \<Rightarrow> ('a, 'r) RunningState \<Rightarrow> ('a, 'r) RunningState" where
  "push_unit u run = run\<lparr>recv := (recv run)\<lparr>rx := rx (recv run) @ [u]\<rparr>\<rparr>"

text \<open>
  The steps. A write creates its shared acknowledgement and its pending sends; each send waits for
  room in the source's bounded channel, or is lost when the receiver is closed; \<open>bs\<close> is the batch
  size and \<open>cap\<close> the channel capacity.
\<close>

inductive cdc_step :: "nat \<Rightarrow> nat \<Rightarrow> 'r cdc_sys \<Rightarrow> 'r cdc_sys \<Rightarrow> bool" for bs cap where
  start_write:
    "distinct (map fst per_sub) \<Longrightarrow>
     w = next_write st \<Longrightarrow>
     r = fan_out (map (\<lambda>(s, rows). (s, map (Pair w) rows)) per_sub) w \<Longrightarrow>
     cdc_step bs cap st
       (st\<lparr>next_write := Suc w, shared_acks := (shared_acks st)(w := fo_shared r),
           etl_acked := etl_acked st @ fo_fired r,
           unsent := (unsent st)(w := fo_sends r), sent := (sent st)(w := fo_sends r)\<rparr>)"
| send_unit:
    "unsent st w = (s, rows) # rest \<Longrightarrow> \<not> rx_closed st s \<Longrightarrow>
     length (rx (recv (running_of st s))) < cap \<Longrightarrow>
     cdc_step bs cap st
       (st\<lparr>unsent := (unsent st)(w := rest),
           running_of := (running_of st)
             (s := push_unit \<lparr>unit_rows = rows, unit_ack = (w, s)\<rparr> (running_of st s))\<rparr>)"
| lose_unit:
    "unsent st w = (s, rows) # rest \<Longrightarrow> rx_closed st s \<Longrightarrow>
     cdc_step bs cap st (st\<lparr>unsent := (unsent st)(w := rest)\<rparr>)"
| pull_batch:
    "generate_batch_with (build :: 'r tagged_row list \<Rightarrow> PluginError + unit) bs (running_of st s)
       = (res, run') \<Longrightarrow>
     cdc_step bs cap st
       (st\<lparr>running_of := (running_of st)(s := run'),
           delivered := (delivered st)
             (s := delivered st s @ rows_returned res bs (running_of st s))\<rparr>)"
| take_marker:
    "cdc_step bs cap st
       (st\<lparr>running_of := (running_of st)(s := process_checkpoint_marker e (running_of st s))\<rparr>)"
| finalize_epoch:
    "process_checkpoint_finalizer e (running_of st s) = (released, run') \<Longrightarrow>
     release_handles released (shared_acks st) = (fired, acks') \<Longrightarrow>
     covered = (case bt_get (markers (ledger (running_of st s))) e of None \<Rightarrow> 0 | Some b \<Rightarrow> unat b) \<Longrightarrow>
     cdc_step bs cap st
       (st\<lparr>running_of := (running_of st)(s := run'), shared_acks := acks',
           etl_acked := etl_acked st @ fired,
           durable := (durable st)(s := max (durable st s) covered)\<rparr>)"
| close_rx:
    "cdc_step bs cap st (st\<lparr>rx_closed := (rx_closed st)(s := True)\<rparr>)"

inductive cdc_reachable :: "nat \<Rightarrow> nat \<Rightarrow> 'r cdc_sys \<Rightarrow> bool" for bs cap where
  start: "cdc_reachable bs cap sys_init"
| step: "cdc_reachable bs cap st \<Longrightarrow> cdc_step bs cap st st' \<Longrightarrow> cdc_reachable bs cap st'"

section \<open>The invariant\<close>

definition tagged :: "nat \<Rightarrow> 'r tagged_row list \<Rightarrow> 'r tagged_row list" where
  "tagged w rows = filter (\<lambda>r. fst r = w) rows"

lemma tagged_simps [simp]:
  "tagged w [] = []"
  "tagged w (xs @ ys) = tagged w xs @ tagged w ys"
  by (simp_all add: tagged_def)

lemma tagged_none: "(\<And>r. r \<in> set xs \<Longrightarrow> fst r \<noteq> w) \<Longrightarrow> tagged w xs = []"
  by (auto simp: tagged_def filter_empty_conv)

lemma tagged_all: "(\<And>r. r \<in> set xs \<Longrightarrow> fst r = w) \<Longrightarrow> tagged w xs = xs"
  by (auto simp: tagged_def filter_id_conv)

text \<open>The acknowledgements a source still owes: armed in its ledger or attached to a held unit.\<close>

definition owed :: "(nat \<times> SourceId, 'r) RunningState \<Rightarrow> (nat \<times> SourceId) list" where
  "owed run = map snd (pending (ledger run)) @ map unit_ack (held (recv run))"

text \<open>Each part of the invariant concerns one source \<open>s\<close>, with \<open>out\<close> what it has delivered.\<close>

definition owed_ok :: "'r cdc_sys \<Rightarrow> SourceId \<Rightarrow> bool" where
  "owed_ok st s \<longleftrightarrow>
     distinct (owed (running_of st s)) \<and>
     (\<forall>h \<in> set (owed (running_of st s)).
        snd h = s \<and> fst h < next_write st \<and> s \<in> sub_pending (shared_acks st (fst h)) \<and>
        s \<notin> fst ` set (unsent st (fst h)))"

definition units_ok :: "'r cdc_sys \<Rightarrow> SourceId \<Rightarrow> bool" where
  "units_ok st s \<longleftrightarrow>
     (\<forall>u \<in> set (held (recv (running_of st s))).
        (\<forall>r \<in> set (unit_rows u). fst r = fst (unit_ack u)) \<and>
        map_of (sent st (fst (unit_ack u))) s =
          Some (tagged (fst (unit_ack u)) (delivered st s) @
                tagged (fst (unit_ack u)) (rows_held (held (recv (running_of st s))))))"

definition armed_ok :: "'r cdc_sys \<Rightarrow> SourceId \<Rightarrow> bool" where
  "armed_ok st s \<longleftrightarrow>
     (\<forall>(p, h) \<in> set (pending (ledger (running_of st s))).
        unat p \<le> length (delivered st s) \<and>
        map_of (sent st (fst h)) s = Some (tagged (fst h) (delivered st s)) \<and>
        tagged (fst h) (take (unat p) (delivered st s)) = tagged (fst h) (delivered st s))"

definition unsent_ok :: "'r cdc_sys \<Rightarrow> SourceId \<Rightarrow> bool" where
  "unsent_ok st s \<longleftrightarrow>
     (\<forall>w rows. (s, rows) \<in> set (unsent st w) \<longrightarrow>
        w < next_write st \<and> s \<in> sub_pending (shared_acks st w) \<and>
        map_of (sent st w) s = Some rows \<and> tagged w (delivered st s) = [] \<and>
        (\<forall>r \<in> set rows. fst r = w))"

definition settled_ok :: "'r cdc_sys \<Rightarrow> SourceId \<Rightarrow> bool" where
  "settled_ok st s \<longleftrightarrow>
     (\<forall>w rows. w < next_write st \<longrightarrow> map_of (sent st w) s = Some rows \<longrightarrow>
        s \<notin> sub_pending (shared_acks st w) \<longrightarrow>
        tagged w (delivered st s) = rows \<and>
        tagged w (take (durable st s) (delivered st s)) = rows)"

definition counter_ok :: "'r cdc_sys \<Rightarrow> SourceId \<Rightarrow> bool" where
  "counter_ok st s \<longleftrightarrow>
     emitted (ledger (running_of st s)) = of_nat (length (delivered st s)) \<and>
     (\<forall>m \<in> set (markers (ledger (running_of st s))). unat (snd m) \<le> length (delivered st s)) \<and>
     (\<forall>r \<in> set (delivered st s). fst r < next_write st)"

definition acks_ok :: "'r cdc_sys \<Rightarrow> bool" where
  "acks_ok st \<longleftrightarrow>
     distinct (etl_acked st) \<and>
     (\<forall>w \<in> set (etl_acked st).
        w < next_write st \<and> etl_ack (shared_acks st w) = None \<and> sub_pending (shared_acks st w) = {}) \<and>
     (\<forall>w a. etl_ack (shared_acks st w) = Some a \<longrightarrow> a = w) \<and>
     (\<forall>w. distinct (map fst (unsent st w)) \<and> distinct (map fst (sent st w)))"

definition src_ok :: "'r cdc_sys \<Rightarrow> SourceId \<Rightarrow> bool" where
  "src_ok st s \<longleftrightarrow>
     owed_ok st s \<and> units_ok st s \<and> armed_ok st s \<and> unsent_ok st s \<and> settled_ok st s \<and>
     counter_ok st s"

lemmas src_parts = owed_ok_def units_ok_def armed_ok_def unsent_ok_def settled_ok_def counter_ok_def

lemma src_okI [intro?]:
  "owed_ok st s \<Longrightarrow> units_ok st s \<Longrightarrow> armed_ok st s \<Longrightarrow> unsent_ok st s \<Longrightarrow> settled_ok st s \<Longrightarrow>
   counter_ok st s \<Longrightarrow> src_ok st s"
  by (simp add: src_ok_def)

lemma src_ok_init: "src_ok sys_init s"
  by (simp add: src_ok_def src_parts sys_init_def running_new_def owed_def held_def ledger_new_def)

lemma acks_ok_init: "acks_ok sys_init"
  by (simp add: acks_ok_def sys_init_def)

text \<open>
  A source's invariant depends on its own state, on the unsent units and pending slices that concern
  it, and on the writes made so far.
\<close>

lemma src_ok_frame:
  assumes "src_ok st s"
    and "running_of st' s = running_of st s" and "delivered st' s = delivered st s"
    and "durable st' s = durable st s" and "next_write st' = next_write st"
    and "sent st' = sent st"
    and "\<And>w. s \<in> sub_pending (shared_acks st' w) \<longleftrightarrow> s \<in> sub_pending (shared_acks st w)"
    and "\<And>w rows. (s, rows) \<in> set (unsent st' w) \<longleftrightarrow> (s, rows) \<in> set (unsent st w)"
  shows "src_ok st' s"
proof -
  have "s \<in> fst ` set (unsent st' w) \<longleftrightarrow> s \<in> fst ` set (unsent st w)" for w
    using assms(8) by (force simp: image_iff)
  then show ?thesis
    using assms unfolding src_ok_def src_parts by simp
qed

lemma src_ok_unsent_mono:
  assumes ok: "src_ok st s" and sub: "\<And>v. set (f v) \<subseteq> set (unsent st v)"
  shows "src_ok (st\<lparr>unsent := f\<rparr>) s"
proof -
  have "s \<notin> fst ` set (f v)" if "s \<notin> fst ` set (unsent st v)" for v
    using that sub [of v] by auto
  moreover have "(s, rows) \<in> set (unsent st v)" if "(s, rows) \<in> set (f v)" for v rows
    using that sub [of v] by auto
  ultimately show ?thesis
    using ok by (simp add: src_ok_def src_parts) blast
qed

subsection \<open>Writing and sending\<close>

lemma fan_out_simps [simp]:
  "fo_sends (fan_out p w) = p"
  "sub_pending (fo_shared (fan_out p w)) = fst ` set p"
  "fo_fired (fan_out p w) = (if p = [] then [w] else [])"
  "etl_ack (fo_shared (fan_out p w)) = (if p = [] then None else Some w)"
  by (simp_all add: fan_out_def shared_new_def fire_if_done_def split: prod.splits)

lemma start_write_src_ok:
  assumes ok: "src_ok st s" and dist: "distinct (map fst p)"
    and tags: "\<And>x rows. (x, rows) \<in> set p \<Longrightarrow> \<forall>r \<in> set rows. fst r = next_write st"
  shows "src_ok (st\<lparr>next_write := Suc (next_write st),
           shared_acks := (shared_acks st)(next_write st := fo_shared (fan_out p (next_write st))),
           etl_acked := a, unsent := (unsent st)(next_write st := p),
           sent := (sent st)(next_write st := p)\<rparr>) s" (is "src_ok ?st' s")
proof
  have own: "owed_ok st s" and un: "units_ok st s" and ar: "armed_ok st s" and us: "unsent_ok st s"
    and se: "settled_ok st s" and co: "counter_ok st s"
    using ok by (simp_all add: src_ok_def)
  have old: "fst h \<noteq> next_write st" if "h \<in> set (owed (running_of st s))" for h
    using own that by (auto simp: owed_ok_def)
  show "owed_ok ?st' s"
    using own old by (simp add: owed_ok_def less_SucI)
  have "fst (unit_ack u) \<noteq> next_write st" if "u \<in> set (held (recv (running_of st s)))" for u
    using that by (intro old) (simp add: owed_def)
  then show "units_ok ?st' s"
    using un by (simp add: units_ok_def)
  have "fst (snd p) \<noteq> next_write st" if "p \<in> set (pending (ledger (running_of st s)))" for p
    using that by (intro old) (simp add: owed_def)
  then show "armed_ok ?st' s"
    using ar by (auto simp: armed_ok_def)
  have "tagged (next_write st) (delivered st s) = []"
    using co by (intro tagged_none) (auto simp: counter_ok_def)
  then show "unsent_ok ?st' s"
    unfolding unsent_ok_def
  proof (intro allI impI)
    fix w rows assume m: "(s, rows) \<in> set (unsent ?st' w)"
      and t: "tagged (next_write st) (delivered st s) = []"
    show "w < next_write ?st' \<and> s \<in> sub_pending (shared_acks ?st' w) \<and>
        map_of (sent ?st' w) s = Some rows \<and> tagged w (delivered ?st' s) = [] \<and>
        (\<forall>r \<in> set rows. fst r = w)"
    proof (cases "w = next_write st")
      case True
      with m t dist tags [of s rows] show ?thesis by (force simp: image_iff)
    next
      case False
      with m us show ?thesis by (fastforce simp: unsent_ok_def less_Suc_eq)
    qed
  qed
  show "settled_ok ?st' s"
    using se by (auto simp: settled_ok_def less_Suc_eq dest: map_of_SomeD)
      (metis fst_conv image_eqI map_of_SomeD)+
  show "counter_ok ?st' s"
    using co by (auto simp: counter_ok_def less_Suc_eq)
qed

lemma row_of_held:
  assumes "src_ok st s" and "r \<in> set (rows_held (held (recv (running_of st s))))"
  obtains u where "u \<in> set (held (recv (running_of st s)))" and "fst r = fst (unit_ack u)"
    and "unit_ack u \<in> set (owed (running_of st s))"
  using assms by (fastforce simp: src_ok_def units_ok_def rows_held_def owed_def)

lemma send_unit_src_ok:
  assumes ok: "src_ok st s" and q: "unsent st w = (s, rows) # rest"
    and dist: "distinct (map fst (unsent st w))"
  shows "src_ok (st\<lparr>unsent := (unsent st)(w := rest),
           running_of := (running_of st)
             (s := push_unit \<lparr>unit_rows = rows, unit_ack = (w, s)\<rparr> (running_of st s))\<rparr>) s"
    (is "src_ok ?st' s")
proof
  let ?u = "\<lparr>unit_rows = rows, unit_ack = (w, s)\<rparr>"
  let ?us = "held (recv (running_of st s))"
  have own: "owed_ok st s" and un: "units_ok st s" and ar: "armed_ok st s" and us: "unsent_ok st s"
    and se: "settled_ok st s" and co: "counter_ok st s"
    using ok by (simp_all add: src_ok_def)
  have new: "w < next_write st" "s \<in> sub_pending (shared_acks st w)"
    "map_of (sent st w) s = Some rows" "tagged w (delivered st s) = []" "\<forall>r \<in> set rows. fst r = w"
  proof -
    have "(s, rows) \<in> set (unsent st w)" using q by simp
    with us show "w < next_write st" "s \<in> sub_pending (shared_acks st w)"
      "map_of (sent st w) s = Some rows" "tagged w (delivered st s) = []" "\<forall>r \<in> set rows. fst r = w"
      unfolding unsent_ok_def by blast+
  qed
  have held': "held (recv (running_of ?st' s)) = ?us @ [?u]"
    by (simp add: push_unit_def held_def)
  have other: "fst h \<noteq> w" if "h \<in> set (owed (running_of st s))" for h
    using own that q by (force simp: owed_ok_def)
  have rest: "s \<notin> fst ` set rest" using dist q by simp
  have owed': "owed (running_of ?st' s) = owed (running_of st s) @ [(w, s)]"
    by (simp add: owed_def push_unit_def held_def)
  have "s \<notin> fst ` set (unsent ?st' (fst h))" if "h \<in> set (owed (running_of st s))" for h
    using own other [OF that] that by (simp add: owed_ok_def)
  moreover have "(w, s) \<notin> set (owed (running_of st s))" using other by fastforce
  ultimately show "owed_ok ?st' s"
    unfolding owed_ok_def owed' using own new(1,2) rest by (auto simp: owed_ok_def)
  have none: "tagged w (rows_held ?us) = []"
  proof (rule tagged_none)
    fix r assume "r \<in> set (rows_held ?us)"
    then show "fst r \<noteq> w" using row_of_held [OF ok] other by metis
  qed
  have "tagged v rows = []" if "v \<noteq> w" for v
    using new(5) that by (intro tagged_none) auto
  moreover have "fst (unit_ack u) \<noteq> w" if "u \<in> set ?us" for u
    using that by (intro other) (simp add: owed_def)
  ultimately show "units_ok ?st' s"
    unfolding units_ok_def held' using un new none by (simp add: units_ok_def tagged_all)
  show "armed_ok ?st' s"
    using ar by (simp add: armed_ok_def push_unit_def)
  show "unsent_ok ?st' s"
    using us rest by (force simp: unsent_ok_def)
  show "settled_ok ?st' s"
    using se by (simp add: settled_ok_def)
  show "counter_ok ?st' s"
    using co by (simp add: counter_ok_def push_unit_def)
qed

subsection \<open>Pulling a batch\<close>

text \<open>
  Rows leave the front of the units a source holds. They are tagged with the writes of those units,
  which are neither armed nor settled nor unsent.
\<close>

lemma owed_split:
  assumes "splits (held (recv (running_of st s))) completed rows us'"
  shows "owed (running_of st s) = map snd (pending (ledger (running_of st s))) @ completed
           @ map unit_ack us'"
  using assms by (simp add: owed_def splits_def)

lemma pull_ok_src_ok:
  assumes ok: "src_ok st s"
    and sp: "splits (held (recv (running_of st s))) completed rows (held r')"
    and len: "length (delivered st s @ rows) < 2 ^ 64"
  shows "src_ok (st\<lparr>running_of := (running_of st)(s := (running_of st s)
             \<lparr>recv := r', ledger := fold unit_completed completed
                (rows_delivered (of_nat (length rows)) (ledger (running_of st s)))\<rparr>),
           delivered := (delivered st)(s := delivered st s @ rows)\<rparr>) s" (is "src_ok ?st' s")
proof
  let ?run = "running_of st s" and ?out = "delivered st s"
  have own: "owed_ok st s" and un: "units_ok st s" and ar: "armed_ok st s" and us: "unsent_ok st s"
    and se: "settled_ok st s" and co: "counter_ok st s"
    using ok by (simp_all add: src_ok_def)
  have rh: "rows_held (held (recv ?run)) = rows @ rows_held (held r')"
    using sp by (simp add: splits_def)
  have row: "\<exists>u \<in> set (held (recv ?run)). fst r = fst (unit_ack u) \<and> unit_ack u \<in> set (owed ?run)"
    if "r \<in> set rows" for r
    using row_of_held [OF ok, of r] that rh by auto
  have owed_eq: "owed (running_of ?st' s) = owed ?run"
    unfolding owed_split [OF sp] by (simp add: owed_def rows_delivered_def comp_def)
  show "owed_ok ?st' s"
    using own unfolding owed_ok_def owed_eq by simp
  show "units_ok ?st' s"
    unfolding units_ok_def
  proof (clarify, intro conjI)
    fix u assume "u \<in> set (held (recv (running_of ?st' s)))"
    then have u: "u \<in> set (held r')" by simp
    then obtain v where v: "v \<in> set (held (recv ?run))" "unit_ack v = unit_ack u"
      "set (unit_rows u) \<subseteq> set (unit_rows v)"
      using sp by (auto simp: splits_def)
    with un show "\<forall>r \<in> set (unit_rows u). fst r = fst (unit_ack u)"
      by (fastforce simp: units_ok_def)
    from un v(1,2) rh show "map_of (sent ?st' (fst (unit_ack u))) s =
        Some (tagged (fst (unit_ack u)) (delivered ?st' s) @
              tagged (fst (unit_ack u)) (rows_held (held (recv (running_of ?st' s)))))"
      by (fastforce simp: units_ok_def)
  qed
  have fresh: "tagged w rows = []" if "(w, s) \<notin> unit_ack ` set (held (recv ?run))" for w
  proof (rule tagged_none)
    fix r assume "r \<in> set rows"
    then obtain u where "u \<in> set (held (recv ?run))" "fst r = fst (unit_ack u)"
      "unit_ack u \<in> set (owed ?run)"
      using row by blast
    with own that show "fst r \<noteq> w"
      by (metis (mono_tags, lifting) image_eqI owed_ok_def prod.collapse)
  qed
  have dist: "distinct (owed ?run)" using own by (simp add: owed_ok_def)
  have emit: "emitted (ledger (running_of ?st' s)) = of_nat (length (?out @ rows))"
    using co by (simp add: counter_ok_def rows_delivered_def)
  have uemit: "unat (emitted (ledger (running_of ?st' s))) = length (?out @ rows)"
    unfolding emit using len by (simp add: unat_of_nat del: of_nat_add length_append)
  have armed_old: "tagged (fst h) rows = []" if "(p, h) \<in> set (pending (ledger ?run))" for p h
  proof (rule fresh)
    have "h \<in> set (owed ?run)" using that by (force simp: owed_def)
    then have "h = (fst h, s)" using own by (metis owed_ok_def prod.collapse)
    moreover have "h \<notin> unit_ack ` set (held (recv ?run))"
      using dist that by (force simp: owed_def)
    ultimately show "(fst h, s) \<notin> unit_ack ` set (held (recv ?run))" by simp
  qed
  have armed_new: "map_of (sent st (fst h)) s = Some (tagged (fst h) (?out @ rows))"
    if h: "h \<in> set completed" for h
  proof -
    have "h \<in> unit_ack ` set (held (recv ?run))"
      using sp h by (metis Un_iff image_set set_append splits_def)
    then obtain u where u: "u \<in> set (held (recv ?run))" "unit_ack u = h" by auto
    have "tagged (fst h) (rows_held (held r')) = []"
    proof (rule tagged_none)
      fix r assume r: "r \<in> set (rows_held (held r'))"
      then obtain v where v: "v \<in> set (held r')" "r \<in> set (unit_rows v)"
        by (auto simp: rows_held_def)
      then obtain v' where v': "v' \<in> set (held (recv ?run))" "unit_ack v' = unit_ack v"
        "r \<in> set (unit_rows v')"
        using sp by (fastforce simp: splits_def)
      have "unit_ack v \<noteq> h"
        using dist h v(1) unfolding owed_split [OF sp] by auto
      moreover have "snd (unit_ack v) = snd h"
        using own v' u by (metis (no_types, lifting) UnCI image_eqI image_set owed_def owed_ok_def set_append)
      moreover have "fst r = fst (unit_ack v)"
        using un v' by (auto simp: units_ok_def)
      ultimately show "fst r \<noteq> fst h" by (metis prod.expand)
    qed
    moreover have "map_of (sent st (fst h)) s = Some (tagged (fst h) ?out @
        tagged (fst h) (rows @ rows_held (held r')))"
      using un u rh by (auto simp: units_ok_def)
    ultimately show ?thesis by simp
  qed
  have pend: "pending (ledger (running_of ?st' s)) = pending (ledger ?run)
      @ map (\<lambda>a. (emitted (ledger (running_of ?st' s)), a)) completed"
    by (simp add: rows_delivered_def)
  show "armed_ok ?st' s"
    unfolding armed_ok_def pend
  proof (rule ballI)
    fix x assume "x \<in> set (pending (ledger ?run) @
        map (\<lambda>a. (emitted (ledger (running_of ?st' s)), a)) completed)"
    then obtain p w s' where [simp]: "x = (p, (w, s'))" and
      x: "(p, (w, s')) \<in> set (pending (ledger ?run) @
        map (\<lambda>a. (emitted (ledger (running_of ?st' s)), a)) completed)"
      by (metis surj_pair)
    show "case x of (p, h) \<Rightarrow> unat p \<le> length (delivered ?st' s) \<and>
        map_of (sent ?st' (fst h)) s = Some (tagged (fst h) (delivered ?st' s)) \<and>
        tagged (fst h) (take (unat p) (delivered ?st' s)) = tagged (fst h) (delivered ?st' s)"
    proof (cases "(p, (w, s')) \<in> set (pending (ledger ?run))")
      case True
      with ar armed_old [OF True] show ?thesis by (fastforce simp: armed_ok_def)
    next
      case False
      with x have "(w, s') \<in> set completed" and p: "p = emitted (ledger (running_of ?st' s))"
        by auto
      with armed_new [of "(w, s')"] uemit show ?thesis by (simp add: p del: fold_unit_completed)
    qed
  qed
  show "unsent_ok ?st' s"
    unfolding unsent_ok_def
  proof (intro allI impI)
    fix w rws assume w: "(s, rws) \<in> set (unsent ?st' w)"
    have "(w, s) \<notin> unit_ack ` set (held (recv ?run))"
      using own w by (force simp: owed_ok_def owed_def)
    with fresh [OF this] us w show "w < next_write ?st' \<and> s \<in> sub_pending (shared_acks ?st' w) \<and>
        map_of (sent ?st' w) s = Some rws \<and> tagged w (delivered ?st' s) = [] \<and>
        (\<forall>r \<in> set rws. fst r = w)"
      by (simp add: unsent_ok_def)
  qed
  show "settled_ok ?st' s"
    unfolding settled_ok_def
  proof (intro allI impI)
    fix w rws assume w: "w < next_write ?st'" "map_of (sent ?st' w) s = Some rws"
      "s \<notin> sub_pending (shared_acks ?st' w)"
    have "(w, s) \<notin> unit_ack ` set (held (recv ?run))"
      using own w(3) by (force simp: owed_ok_def owed_def)
    from fresh [OF this] have no: "tagged w rows = []" .
    have t: "tagged w ?out = rws" "tagged w (take (durable st s) ?out) = rws"
      using se w by (auto simp: settled_ok_def)
    moreover have "tagged w (take n rows) = []" for n
      using no by (auto simp: tagged_def filter_empty_conv dest: in_set_takeD)
    ultimately show "tagged w (delivered ?st' s) = rws \<and>
        tagged w (take (durable ?st' s) (delivered ?st' s)) = rws"
      using no by simp
  qed
  have "fst r < next_write st" if "r \<in> set rows" for r
    using row [OF that] own by (auto simp: owed_ok_def)
  with co emit show "counter_ok ?st' s"
    by (fastforce simp: counter_ok_def rows_delivered_def)
qed

text \<open>A failed build forgets a prefix of the held units and touches nothing else.\<close>

lemma drop_units_src_ok:
  assumes ok: "src_ok st s" and held: "held (recv (running_of st s)) = xs @ held r'"
  shows "src_ok (st\<lparr>running_of := (running_of st)(s := (running_of st s)\<lparr>recv := r'\<rparr>)\<rparr>) s"
    (is "src_ok ?st' s")
proof
  have own: "owed_ok st s" and un: "units_ok st s" and ar: "armed_ok st s" and us: "unsent_ok st s"
    and se: "settled_ok st s" and co: "counter_ok st s"
    using ok by (simp_all add: src_ok_def)
  show "owed_ok ?st' s"
    using own held by (auto simp: owed_ok_def owed_def)
  have "tagged (fst (unit_ack u)) (rows_held xs) = []" if "u \<in> set (held r')" for u
  proof (rule tagged_none)
    fix r assume "r \<in> set (rows_held xs)"
    then obtain v where v: "v \<in> set xs" "r \<in> set (unit_rows v)"
      by (auto simp: rows_held_def)
    have "unit_ack v \<noteq> unit_ack u" "snd (unit_ack v) = snd (unit_ack u)"
      using own held v(1) that by (auto simp: owed_ok_def owed_def)
    moreover have "fst r = fst (unit_ack v)" using un held v by (auto simp: units_ok_def)
    ultimately show "fst r \<noteq> fst (unit_ack u)" by (metis prod.expand)
  qed
  then show "units_ok ?st' s"
    using un held by (simp add: units_ok_def)
  show "armed_ok ?st' s" using ar by (simp add: armed_ok_def)
  show "unsent_ok ?st' s" using us by (simp add: unsent_ok_def)
  show "settled_ok ?st' s" using se by (simp add: settled_ok_def)
  show "counter_ok ?st' s" using co by (simp add: counter_ok_def)
qed

lemma pull_batch_src_ok:
  fixes build :: "'r tagged_row list \<Rightarrow> PluginError + unit"
  assumes ok: "src_ok st s"
    and gen: "generate_batch_with build bs (running_of st s) = (res, run')"
    and len: "length (delivered st s @ rows_returned res bs (running_of st s)) < 2 ^ 64"
  shows "src_ok (st\<lparr>running_of := (running_of st)(s := run'),
           delivered := (delivered st)
             (s := delivered st s @ rows_returned res bs (running_of st s))\<rparr>) s"
proof -
  let ?run = "running_of st s"
  obtain rows completed r' where c: "collect_units bs (recv ?run) = (rows, completed, r')"
    by (metis prod_cases3)
  note sp = collect_units_splits [OF c]
  consider "rows = []" | batch where "rows \<noteq> []" "build rows = Inr batch"
    | e where "rows \<noteq> []" "build rows = Inl e"
    by (metis sum.exhaust)
  then show ?thesis
  proof cases
    case 1
    then have "res = Inr None"
      and "run' = ?run\<lparr>recv := r', ledger := fold unit_completed completed (ledger ?run)\<rparr>"
      using gen c by (auto simp: generate_batch_with_def)
    with pull_ok_src_ok [OF ok sp] len 1 show ?thesis
      by (simp add: rows_returned_def rows_delivered_def)
  next
    case 2
    then have "res = Inr (Some batch)"
      and "run' = ?run\<lparr>recv := r', ledger := fold unit_completed completed
             (rows_delivered (of_nat (length rows)) (ledger ?run))\<rparr>"
      using gen c by (auto simp: generate_batch_with_def)
    with pull_ok_src_ok [OF ok sp] len c show ?thesis
      by (simp add: rows_returned_def)
  next
    case 3
    then have "res = Inl e" and "run' = ?run\<lparr>recv := r'\<lparr>carry := None\<rparr>\<rparr>"
      using gen c by (auto simp: generate_batch_with_def)
    moreover obtain xs where "held (recv ?run) = xs @ held (r'\<lparr>carry := None\<rparr>)"
      using collect_units_suffix [OF c] by (auto simp: held_def)
    ultimately show ?thesis
      using drop_units_src_ok [OF ok] by (simp add: rows_returned_def fun_upd_idem)
  qed
qed

subsection \<open>Checkpoints\<close>

lemma take_marker_src_ok:
  assumes "src_ok st s"
  shows "src_ok (st\<lparr>running_of := (running_of st)
           (s := process_checkpoint_marker e (running_of st s))\<rparr>) s"
proof -
  let ?l = "ledger (running_of st s)"
  have "unat (emitted ?l) \<le> length (delivered st s)"
    using assms by (simp add: src_ok_def counter_ok_def unat_of_nat)
  then have "\<forall>m \<in> set (bt_insert e (emitted ?l) (markers ?l)). unat (snd m) \<le> length (delivered st s)"
    using assms set_bt_insert_subset [of e "emitted ?l" "markers ?l"]
    by (fastforce simp: src_ok_def counter_ok_def)
  then show ?thesis
    using assms
    by (simp add: src_ok_def src_parts process_checkpoint_marker_def marker_def owed_def)
qed

lemma tagged_take_mono:
  assumes "tagged w (take n out) = tagged w out" and "n \<le> m"
  shows "tagged w (take m out) = tagged w out"
proof -
  have "tagged w (drop n out) = []"
    using assms(1) by (metis append_take_drop_id append_self_conv tagged_simps(2))
  then have "tagged w (drop m out) = []"
    using assms(2) set_drop_subset_set_drop [of n m out] by (auto simp: tagged_def filter_empty_conv)
  then show ?thesis by (metis append_take_drop_id append_self_conv tagged_simps(2))
qed

lemma release_handles_pending:
  "release_handles hs acks = (fs, acks') \<Longrightarrow>
   sub_pending (acks' w) = sub_pending (acks w) - {s. (w, s) \<in> set hs}"
proof (induction hs acks arbitrary: fs acks' rule: release_handles.induct)
  case (2 v s hs acks)
  obtain fs1 inner where r: "release s (acks v) = (fs1, inner)" by (cases "release s (acks v)")
  obtain fs2 acks2 where rs: "release_handles hs (acks(v := inner)) = (fs2, acks2)"
    by (cases "release_handles hs (acks(v := inner))")
  have "sub_pending inner = sub_pending (acks v) - {s}"
    using r by (auto simp: release_def fire_if_done_def split: if_splits option.splits)
  with "2.IH" [OF r [symmetric] refl rs] "2.prems" r rs show ?case by auto
qed simp

text \<open>Acknowledgements already sent are consumed and complete; the others are their own write's.\<close>

definition fired_ok :: "nat list \<Rightarrow> (nat \<Rightarrow> nat SharedAckInner) \<Rightarrow> bool" where
  "fired_ok fired acks \<longleftrightarrow>
     distinct fired \<and>
     (\<forall>w \<in> set fired. etl_ack (acks w) = None \<and> sub_pending (acks w) = {}) \<and>
     (\<forall>w a. etl_ack (acks w) = Some a \<longrightarrow> a = w)"

lemma release_fired_ok:
  assumes "fired_ok fired acks" and "release s (acks w) = (fs, inner)"
  shows "fired_ok (fired @ fs) (acks(w := inner))" and "set fs \<subseteq> {w}"
  using assms
  by (auto simp: fired_ok_def release_def fire_if_done_def split: if_splits option.splits)
    (metis option.distinct(1))

lemma release_handles_fired_ok:
  "fired_ok fired acks \<Longrightarrow> release_handles hs acks = (fs, acks') \<Longrightarrow>
   fired_ok (fired @ fs) acks' \<and> set fs \<subseteq> fst ` set hs"
proof (induction hs acks arbitrary: fired fs acks' rule: release_handles.induct)
  case (2 v s hs acks)
  obtain fs1 inner where r: "release s (acks v) = (fs1, inner)" by (cases "release s (acks v)")
  obtain fs2 acks2 where rs: "release_handles hs (acks(v := inner)) = (fs2, acks2)"
    by (cases "release_handles hs (acks(v := inner))")
  note one = release_fired_ok [OF "2.prems"(1) r]
  from "2.IH" [OF r [symmetric] refl one(1) rs] one(2) "2.prems"(2) r rs show ?case by auto
qed simp

lemma finalizer_split:
  assumes "process_checkpoint_finalizer e run = (released, run')"
  obtains A where "pending (ledger run) = A @ pending (ledger run')" and "released = map snd A"
    and "recv run' = recv run" and "emitted (ledger run') = emitted (ledger run)"
    and "set (markers (ledger run')) \<subseteq> set (markers (ledger run))"
    and "\<And>p. p \<in> set A \<Longrightarrow> \<exists>b. bt_get (markers (ledger run)) e = Some b \<and> fst p \<le> b"
proof (cases "bt_get (markers (ledger run)) e")
  case None
  with assms show ?thesis
    by (intro that [of "[]"]) (auto simp: process_checkpoint_finalizer_def finalize_def)
next
  case (Some b)
  with assms show ?thesis
    by (intro that [of "takeWhile (\<lambda>p. fst p \<le> b) (pending (ledger run))"])
      (auto simp: process_checkpoint_finalizer_def finalize_def release_upto_eq bt_split_off_def
        dest: set_takeWhileD)
qed

lemma finalize_epoch_src_ok:
  assumes ok: "src_ok st s"
    and fin: "process_checkpoint_finalizer e (running_of st s) = (released, run')"
    and rel: "release_handles released (shared_acks st) = (fired, acks')"
    and cov: "covered = (case bt_get (markers (ledger (running_of st s))) e of
                           None \<Rightarrow> 0 | Some b \<Rightarrow> unat b)"
  shows "src_ok (st\<lparr>running_of := (running_of st)(s := run'), shared_acks := acks',
           etl_acked := etl_acked st @ fired,
           durable := (durable st)(s := max (durable st s) covered)\<rparr>) s" (is "src_ok ?st' s")
proof
  let ?run = "running_of st s" and ?out = "delivered st s"
  have own: "owed_ok st s" and un: "units_ok st s" and ar: "armed_ok st s" and us: "unsent_ok st s"
    and se: "settled_ok st s" and co: "counter_ok st s"
    using ok by (simp_all add: src_ok_def)
  obtain A where A: "pending (ledger ?run) = A @ pending (ledger run')" "released = map snd A"
    "recv run' = recv ?run" "emitted (ledger run') = emitted (ledger ?run)"
    "set (markers (ledger run')) \<subseteq> set (markers (ledger ?run))"
    "\<And>p. p \<in> set A \<Longrightarrow> \<exists>b. bt_get (markers (ledger ?run)) e = Some b \<and> fst p \<le> b"
    using finalizer_split [OF fin] by metis
  have owed: "owed ?run = released @ owed run'"
    using A(1-3) by (simp add: owed_def)
  have pend: "s \<in> sub_pending (acks' w) \<longleftrightarrow>
      s \<in> sub_pending (shared_acks st w) \<and> (w, s) \<notin> set released" for w
    using release_handles_pending [OF rel] by auto
  have "s \<in> sub_pending (acks' (fst h))" if "h \<in> set (owed run')" for h
  proof -
    have "h \<notin> set released" "snd h = s" "s \<in> sub_pending (shared_acks st (fst h))"
      using own that by (auto simp: owed_ok_def owed)
    then show ?thesis unfolding pend by (metis prod.collapse)
  qed
  then show "owed_ok ?st' s"
    using own by (simp add: owed_ok_def owed)
  show "units_ok ?st' s" using un A(3) by (simp add: units_ok_def)
  show "armed_ok ?st' s" using ar A(1) by (auto simp: armed_ok_def)
  have "(w, s) \<notin> set released" if "(s, rows) \<in> set (unsent st w)" for w rows
    using own that by (force simp: owed_ok_def owed)
  then show "unsent_ok ?st' s" using us by (auto simp: unsent_ok_def pend)
  show "settled_ok ?st' s"
    unfolding settled_ok_def
  proof (intro allI impI)
    fix w rows assume w: "w < next_write ?st'" "map_of (sent ?st' w) s = Some rows"
      "s \<notin> sub_pending (shared_acks ?st' w)"
    have "\<exists>n \<le> max (durable st s) covered. tagged w (take n ?out) = tagged w ?out \<and> tagged w ?out = rows"
    proof (cases "(w, s) \<in> set released")
      case True
      then obtain p where p: "(p, (w, s)) \<in> set A" using A(2) by auto
      with A(6) [OF p] cov have "unat p \<le> covered" by (auto simp: word_le_nat_alt)
      moreover have "(p, (w, s)) \<in> set (pending (ledger ?run))" using p A(1) by simp
      then have "tagged w (take (unat p) ?out) = tagged w ?out" "tagged w ?out = rows"
        using ar w(2) by (auto simp: armed_ok_def)
      ultimately show ?thesis by (metis max.coboundedI2)
    next
      case False
      with w se show ?thesis by (intro exI [of _ "durable st s"]) (auto simp: settled_ok_def pend)
    qed
    then show "tagged w (delivered ?st' s) = rows \<and>
        tagged w (take (durable ?st' s) (delivered ?st' s)) = rows"
      using tagged_take_mono by fastforce
  qed
  show "counter_ok ?st' s" using co A(4,5) by (auto simp: counter_ok_def)
qed

section \<open>Reachable states\<close>

definition sys_ok :: "'r cdc_sys \<Rightarrow> bool" where
  "sys_ok st \<longleftrightarrow> acks_ok st \<and> (\<forall>s. src_ok st s)"

lemma delivered_mono:
  "cdc_step bs cap st st' \<Longrightarrow> length (delivered st s) \<le> length (delivered st' s)"
  by (induction rule: cdc_step.induct) auto

lemma acks_ok_fired: "acks_ok st \<Longrightarrow> fired_ok (etl_acked st) (shared_acks st)"
  by (simp add: acks_ok_def fired_ok_def)

lemma cdc_step_sys_ok:
  assumes "cdc_step bs cap st st'" and "sys_ok st" and "\<And>s. length (delivered st' s) < 2 ^ 64"
  shows "sys_ok st'"
  using assms
proof (induction rule: cdc_step.induct)
  case (start_write per_sub w st r)
  let ?p = "map (\<lambda>(s, rows). (s, map (Pair w) rows)) per_sub"
  have "distinct (map fst ?p)"
    using start_write.hyps(1) by (simp add: comp_def case_prod_beta)
  moreover have "\<forall>r \<in> set rows. fst r = next_write st" if "(x, rows) \<in> set ?p" for x rows
    using that start_write.hyps(2) by auto
  moreover have "acks_ok (st\<lparr>next_write := Suc w,
      shared_acks := (shared_acks st)(w := fo_shared (fan_out ?p w)),
      etl_acked := etl_acked st @ fo_fired (fan_out ?p w),
      unsent := (unsent st)(w := ?p), sent := (sent st)(w := ?p)\<rparr>)"
    using start_write.prems(1) start_write.hyps(2) calculation(1)
    by (auto simp: sys_ok_def acks_ok_def less_Suc_eq)
  ultimately show ?case
    using start_write.prems(1) start_write.hyps(2,3) start_write_src_ok [of st _ ?p]
    by (simp add: sys_ok_def)
next
  case (send_unit st w s rows rest)
  have dist: "distinct (map fst (unsent st w))"
    using send_unit.prems(1) by (simp add: sys_ok_def acks_ok_def)
  let ?st' = "st\<lparr>unsent := (unsent st)(w := rest), running_of := (running_of st)
      (s := push_unit \<lparr>unit_rows = rows, unit_ack = (w, s)\<rparr> (running_of st s))\<rparr>"
  have "src_ok ?st' x" for x
  proof (cases "x = s")
    case True
    with send_unit_src_ok [OF _ send_unit.hyps(1) dist] send_unit.prems(1) show ?thesis
      by (simp add: sys_ok_def)
  next
    case False
    have "src_ok st x" using send_unit.prems(1) by (simp add: sys_ok_def)
    then show ?thesis
      by (rule src_ok_frame) (use False send_unit.hyps(1) in auto)
  qed
  moreover have "acks_ok ?st'"
    using send_unit.prems(1) dist send_unit.hyps(1) by (auto simp: sys_ok_def acks_ok_def)
  ultimately show ?case by (simp add: sys_ok_def)
next
  case (lose_unit st w s rows rest)
  have "set (((unsent st)(w := rest)) v) \<subseteq> set (unsent st v)" for v
    using lose_unit.hyps(1) by auto
  moreover have "acks_ok (st\<lparr>unsent := (unsent st)(w := rest)\<rparr>)"
    using lose_unit.prems(1) lose_unit.hyps(1)
    by (auto simp: sys_ok_def acks_ok_def) (metis distinct.simps(2) list.simps(9))
  ultimately show ?case
    using lose_unit.prems(1) by (simp add: sys_ok_def src_ok_unsent_mono)
next
  case (pull_batch build st s res run')
  let ?st' = "st\<lparr>running_of := (running_of st)(s := run'), delivered := (delivered st)
      (s := delivered st s @ rows_returned res bs (running_of st s))\<rparr>"
  have "src_ok ?st' x" for x
  proof (cases "x = s")
    case True
    have "src_ok st s" using pull_batch.prems(1) by (simp add: sys_ok_def)
    moreover have "length (delivered st s @ rows_returned res bs (running_of st s)) < 2 ^ 64"
      using pull_batch.prems(2) [of s] by simp
    ultimately show ?thesis
      using True pull_batch_src_ok [OF _ pull_batch.hyps] by simp
  next
    case False
    have "src_ok st x" using pull_batch.prems(1) by (simp add: sys_ok_def)
    then show ?thesis by (rule src_ok_frame) (use False in auto)
  qed
  with pull_batch.prems(1) show ?case by (simp add: sys_ok_def acks_ok_def)
next
  case (take_marker st s e)
  let ?st' = "st\<lparr>running_of := (running_of st)(s := process_checkpoint_marker e (running_of st s))\<rparr>"
  have "src_ok ?st' x" for x
    using take_marker.prems(1) take_marker_src_ok [of st s e] src_ok_frame [of st x ?st']
    by (cases "x = s") (simp_all add: sys_ok_def)
  with take_marker.prems(1) show ?case by (simp add: sys_ok_def acks_ok_def)
next
  case (finalize_epoch e st s released run' fired acks' covered)
  let ?st' = "st\<lparr>running_of := (running_of st)(s := run'), shared_acks := acks',
      etl_acked := etl_acked st @ fired, durable := (durable st)(s := max (durable st s) covered)\<rparr>"
  have ok: "src_ok st s" "acks_ok st" using finalize_epoch.prems(1) by (simp_all add: sys_ok_def)
  have owed: "snd h = s \<and> fst h < next_write st" if "h \<in> set released" for h
  proof (rule finalizer_split [OF finalize_epoch.hyps(1)])
    fix A assume "pending (ledger (running_of st s)) = A @ pending (ledger run')" "released = map snd A"
    with that have "h \<in> set (owed (running_of st s))" by (auto simp: owed_def)
    with ok(1) show ?thesis by (simp add: src_ok_def owed_ok_def)
  qed
  have "src_ok ?st' x" for x
  proof (cases "x = s")
    case True
    with finalize_epoch_src_ok [OF ok(1) finalize_epoch.hyps] show ?thesis by simp
  next
    case False
    then have "x \<in> sub_pending (acks' w) \<longleftrightarrow> x \<in> sub_pending (shared_acks st w)" for w
      using release_handles_pending [OF finalize_epoch.hyps(2), of w] owed by auto
    moreover have "src_ok st x" using finalize_epoch.prems(1) by (simp add: sys_ok_def)
    ultimately show ?thesis using False by (intro src_ok_frame [of st x ?st']) simp_all
  qed
  moreover have "acks_ok ?st'"
  proof -
    note f = release_handles_fired_ok [OF acks_ok_fired [OF ok(2)] finalize_epoch.hyps(2)]
    have "w < next_write st" if "w \<in> set (etl_acked st @ fired)" for w
      using that f owed ok(2) by (auto simp: acks_ok_def)
    then show ?thesis using f ok(2) by (simp add: acks_ok_def fired_ok_def)
  qed
  ultimately show ?case by (simp add: sys_ok_def)
next
  case (close_rx st s)
  then show ?case
    using src_ok_frame [of st _ "st\<lparr>rx_closed := (rx_closed st)(s := True)\<rparr>"]
    by (simp add: sys_ok_def acks_ok_def)
qed

lemma reachable_sys_ok:
  "cdc_reachable bs cap st \<Longrightarrow> (\<And>s. length (delivered st s) < 2 ^ 64) \<Longrightarrow> sys_ok st"
proof (induction rule: cdc_reachable.induct)
  case start
  then show ?case by (simp add: sys_ok_def src_ok_init acks_ok_init)
next
  case (step st st')
  have "length (delivered st s) < 2 ^ 64" for s
    using delivered_mono [OF step.hyps(2), of s] step.prems [of s] by linarith
  then have "sys_ok st" by (rule step.IH)
  with step.hyps(2) step.prems show ?case by (blast intro: cdc_step_sys_ok)
qed

section \<open>Properties\<close>

text \<open>
  C1: at-least-once delivery. In every reachable state of a slot-sharing group, whatever the
  interleaving of writes, sends, batch pulls (failed ones included), markers, finalizers and
  closed channels, once the replication library has been told that a write is durable, every
  source the write fed has handed all of that write's rows to the host, completely and in order,
  and within the part of its output that finalized checkpoints cover. So the confirmed position
  never passes a row that a crash could still lose.
\<close>

theorem acked_writes_are_durable:
  assumes "cdc_reachable bs cap st" and "\<And>s. length (delivered st s) < 2 ^ 64"
    and "w \<in> set (etl_acked st)" and "(s, rows) \<in> set (sent st w)"
  shows "tagged w (take (durable st s) (delivered st s)) = rows"
proof -
  have "sys_ok st" using assms(1,2) by (rule reachable_sys_ok)
  then have ok: "acks_ok st" "settled_ok st s" by (simp_all add: sys_ok_def src_ok_def)
  have "w < next_write st" "sub_pending (shared_acks st w) = {}"
    using ok(1) assms(3) by (auto simp: acks_ok_def)
  moreover have "map_of (sent st w) s = Some rows"
    using ok(1) assms(4) by (simp add: acks_ok_def)
  ultimately show ?thesis using ok(2) by (auto simp: settled_ok_def)
qed

text \<open>One write of one row to source 1: written, sent, pulled, marked and finalized.\<close>

lemma acked_write_reachable:
  "\<exists>st :: unit cdc_sys. cdc_reachable 10 8 st \<and> etl_acked st = [0] \<and>
     sent st 0 = [(1, [(0, ())])] \<and> (\<forall>s. length (delivered st s) < 2 ^ 64)"
proof -
  obtain st1 :: "unit cdc_sys" where r1: "cdc_reachable 10 8 st1"
    and 1: "unsent st1 0 = [(1, [(0, ())])]" "sent st1 0 = [(1, [(0, ())])]"
      "shared_acks st1 0 = \<lparr>etl_ack = Some 0, sub_pending = {1}\<rparr>" "etl_acked st1 = []"
      "running_of st1 = (\<lambda>_. running_new)" "delivered st1 = (\<lambda>_. [])" "rx_closed st1 = (\<lambda>_. False)"
    by (rule that [OF cdc_reachable.step [OF cdc_reachable.start
          cdc_step.start_write [of "[(1, [()])]", OF _ refl refl]]])
      (simp_all add: sys_init_def fan_out_def shared_new_def fire_if_done_def)
  let ?u = "\<lparr>unit_rows = [(0, ())], unit_ack = (0 :: nat, 1 :: SourceId)\<rparr>"
  obtain st2 where r2: "cdc_reachable 10 8 st2"
    and 2: "sent st2 0 = [(1, [(0, ())])]" "etl_acked st2 = []" "delivered st2 = (\<lambda>_. [])"
      "shared_acks st2 0 = \<lparr>etl_ack = Some 0, sub_pending = {1}\<rparr>"
      "running_of st2 1 = push_unit ?u running_new"
    by (rule that [OF cdc_reachable.step [OF r1 cdc_step.send_unit [OF 1(1)]]])
      (simp_all add: 1 running_new_def)
  let ?l = "\<lparr>emitted = 1, pending = [(1, (0 :: nat, 1 :: SourceId))], markers = []\<rparr>"
  let ?none = "\<lparr>rx = [], carry = None\<rparr>"
  have gen: "generate_batch_with (\<lambda>_. Inr ()) 10 (running_of st2 1)
      = (Inr (Some ()), \<lparr>recv = ?none, ledger = ?l\<rparr>)"
    and ret: "rows_returned (Inr (Some ())) 10 (running_of st2 1) = [(0, ())]"
    by (simp_all add: 2 push_unit_def running_new_def generate_batch_with_def collect_units_def
        absorb_def take_from_def ledger_new_def rows_delivered_def unit_completed_def rows_returned_def)
  obtain st3 where r3: "cdc_reachable 10 8 st3"
    and 3: "sent st3 0 = [(1, [(0, ())])]" "etl_acked st3 = []"
      "delivered st3 = (\<lambda>_. [])(1 := [(0, ())])"
      "shared_acks st3 0 = \<lparr>etl_ack = Some 0, sub_pending = {1}\<rparr>"
      "running_of st3 1 = \<lparr>recv = ?none, ledger = ?l\<rparr>"
    by (rule that [OF cdc_reachable.step [OF r2 cdc_step.pull_batch [OF gen]]])
      (simp_all only: ret, simp_all add: 2)
  obtain st4 where r4: "cdc_reachable 10 8 st4"
    and 4: "sent st4 0 = [(1, [(0, ())])]" "etl_acked st4 = []"
      "delivered st4 = (\<lambda>_. [])(1 := [(0, ())])"
      "shared_acks st4 0 = \<lparr>etl_ack = Some 0, sub_pending = {1}\<rparr>"
      "running_of st4 1 = \<lparr>recv = ?none, ledger = ?l\<lparr>markers := [(7, 1)]\<rparr>\<rparr>"
    by (rule that [OF cdc_reachable.step [OF r3 cdc_step.take_marker [of _ _ _ 1 7]]])
      (simp_all add: 3 process_checkpoint_marker_def marker_def)
  have fin: "process_checkpoint_finalizer 7 (running_of st4 1)
      = ([(0, 1)], \<lparr>recv = ?none, ledger = \<lparr>emitted = 1, pending = [], markers = []\<rparr>\<rparr>)"
    by (simp add: 4 process_checkpoint_finalizer_def finalize_def bt_split_off_def)
  obtain acks' where rel: "release_handles [(0, 1)] (shared_acks st4) = ([0], acks')"
    by (simp add: 4 release_def fire_if_done_def)
  obtain st5 where r5: "cdc_reachable 10 8 st5" and 5: "sent st5 0 = [(1, [(0, ())])]"
      "etl_acked st5 = [0]" "delivered st5 = (\<lambda>_. [])(1 := [(0, ())])"
    by (rule that [OF cdc_reachable.step [OF r4 cdc_step.finalize_epoch [OF fin rel refl]]])
      (simp_all add: 4)
  then show ?thesis by (intro exI [of _ st5]) simp
qed

theorem acked_writes_are_durable_witness:
  "\<exists>st :: unit cdc_sys. cdc_reachable 10 8 st \<and> 0 \<in> set (etl_acked st) \<and>
     tagged 0 (take (durable st 1) (delivered st 1)) = [(0, ())]"
proof -
  obtain st :: "unit cdc_sys" where st: "cdc_reachable 10 8 st" "etl_acked st = [0]"
    "sent st 0 = [(1, [(0, ())])]" "\<And>s. length (delivered st s) < 2 ^ 64"
    using acked_write_reachable by blast
  then have "tagged 0 (take (durable st 1) (delivered st 1)) = [(0, ())]"
    by (intro acked_writes_are_durable [of 10 8]) simp_all
  with st show ?thesis by auto
qed

text \<open>
  C2: each write is acknowledged to the replication library at most once, and only after every
  source it fed has released its slice.
\<close>

theorem writes_acked_once:
  assumes "cdc_reachable bs cap st" and "\<And>s. length (delivered st s) < 2 ^ 64"
  shows "distinct (etl_acked st) \<and> (\<forall>w \<in> set (etl_acked st). sub_pending (shared_acks st w) = {})"
  using reachable_sys_ok [OF assms] by (simp add: sys_ok_def acks_ok_def)

theorem writes_acked_once_witness:
  "\<exists>st :: unit cdc_sys. cdc_reachable 10 8 st \<and> etl_acked st = [0] \<and>
     sub_pending (shared_acks st 0) = {}"
proof -
  obtain st :: "unit cdc_sys" where st: "cdc_reachable 10 8 st" "etl_acked st = [0]"
    "\<And>s. length (delivered st s) < 2 ^ 64"
    using acked_write_reachable by blast
  with writes_acked_once [of 10 8 st] show ?thesis by auto
qed

end
