(* ===== verification/Store.thy ===== *)
theory Store
  imports OrderedMaps
begin

text \<open>
  The replication metadata store of \<open>src/src/postgres_cdc/store.rs\<close>: a cache of table states,
  versioned table schemas, destination metadata and replication checkpoints that is written through
  to the host's state backend as one aggregate value.

  Table states, snapshot identifiers, column types, replication masks and destination metadata are
  values of the replication library. The model leaves their types open and takes the library's
  operations on them as the record \<open>etl_api\<close>; \<open>etl_laws\<close> says what the source relies on: that
  constructors keep what they are given and accessors return it. The state backend is a type
  variable with its two operations; \<open>backend_laws\<close> says that a value put is the value got.
\<close>

section \<open>What the library and the backend provide\<close>

type_synonym TableId = u32

datatype WorkerType = Apply | TableSync TableId

record 'ty ColumnSchema =
  cs_name :: string
  cs_typ :: 'ty
  cs_modifier :: "32 word"
  cs_ordinal_position :: "32 word"
  cs_primary_key_ordinal_position :: "32 word option"
  cs_nullable :: bool
  cs_default_expression :: "string option"

record ('sn, 'ty) TableSchema =
  ts_id :: TableId
  ts_schema :: string
  ts_name :: string
  ts_snapshot_id :: 'sn
  ts_column_schemas :: "'ty ColumnSchema list"

datatype ('sn, 'mk) DestinationTableSchema =
    Creating 'sn 'mk
  | Applying 'sn 'mk 'sn 'mk
  | Applied 'sn 'mk

datatype TableStateOperation = PrepareForCopy TableId | ResetForResync | DeleteTable TableId

record ('ts, 'sn, 'ty, 'mk, 'md, 'xe) etl_api =
  should_store :: "'ts \<Rightarrow> bool"
  state_Init :: 'ts
  commit_lsn :: "'sn \<Rightarrow> u64"
  message_lsn :: "'sn \<Rightarrow> u64"
  snapshot_new :: "u64 \<Rightarrow> u64 \<Rightarrow> 'sn"
  ty_oid :: "'ty \<Rightarrow> u32"
  type_from_oid :: "u32 \<Rightarrow> 'ty option"
  type_TEXT :: 'ty
  column_new :: "string \<Rightarrow> 'ty \<Rightarrow> 32 word \<Rightarrow> 32 word \<Rightarrow> bool \<Rightarrow> 32 word option \<Rightarrow> string option
                   \<Rightarrow> 'ty ColumnSchema"
  table_schema_new :: "TableId \<Rightarrow> string \<Rightarrow> string \<Rightarrow> 'ty ColumnSchema list \<Rightarrow> 'sn
                         \<Rightarrow> ('sn, 'ty) TableSchema"
  mask_to_bytes :: "'mk \<Rightarrow> u8 list"
  mask_from_bytes :: "u8 list \<Rightarrow> 'mk"
  md_table_id :: "'md \<Rightarrow> string"
  md_table_schema :: "'md \<Rightarrow> ('sn, 'mk) DestinationTableSchema"
  new_creating :: "string \<Rightarrow> 'sn \<Rightarrow> 'mk \<Rightarrow> 'md"
  new_applied :: "string \<Rightarrow> 'sn \<Rightarrow> 'mk \<Rightarrow> 'md"
  with_schema_change :: "'md \<Rightarrow> 'sn \<Rightarrow> 'mk \<Rightarrow> 'xe + 'md"

section \<open>State\<close>

type_synonym PersistedSnapshotId = "u64 \<times> u64"

record 'ts PersistedTableStateEntry =
  pe_table_id :: u32
  pe_current :: 'ts
  pe_history :: "'ts list"

record PersistedColumn =
  pc_name :: string
  pc_type_oid :: u32
  pc_modifier :: "32 word"
  pc_ordinal_position :: "32 word"
  pc_primary_key_ordinal_position :: "32 word option"
  pc_nullable :: bool
  pc_default_expression :: "string option"

record PersistedTableSchema =
  ps_table_id :: u32
  ps_schema :: string
  ps_name :: string
  ps_snapshot_id :: PersistedSnapshotId
  ps_columns :: "PersistedColumn list"

datatype PersistedDestinationSchema =
    PCreating PersistedSnapshotId "u8 list"
  | PApplying PersistedSnapshotId "u8 list" PersistedSnapshotId "u8 list"
  | PApplied PersistedSnapshotId "u8 list"

record PersistedDestinationMetadata =
  pd_table_id :: u32
  pd_destination_table_id :: string
  pd_schema :: PersistedDestinationSchema

record 'ts PersistedEtlState =
  p_table_states :: "'ts PersistedTableStateEntry list"
  p_table_schemas :: "PersistedTableSchema list"
  p_destination_tables_metadata :: "PersistedDestinationMetadata list"
  p_replication_checkpoints :: "(u32 option \<times> u64) list"

record ('ts, 'sn, 'ty, 'md) Inner =
  table_states :: "(TableId, 'ts) btree_map"
  table_state_history :: "(TableId, 'ts list) hash_map"
  table_schemas :: "(TableId, ('sn, ('sn, 'ty) TableSchema) btree_map) btree_map"
  destination_tables_metadata :: "(TableId, 'md) btree_map"
  replication_checkpoints :: "(WorkerType, u64) hash_map"

definition inner_default :: "('ts, 'sn, 'ty, 'md) Inner" where
  "inner_default =
     \<lparr>table_states = [], table_state_history = [], table_schemas = [],
      destination_tables_metadata = [], replication_checkpoints = []\<rparr>"

definition persisted_default :: "'ts PersistedEtlState" where
  "persisted_default =
     \<lparr>p_table_states = [], p_table_schemas = [], p_destination_tables_metadata = [],
      p_replication_checkpoints = []\<rparr>"

text \<open>Errors: the backend failed, no state to roll back to, or an error of the library.\<close>

datatype ('be, 'xe) EtlError = IoError 'be | StateRollbackError | Foreign 'xe

record ('ts, 'b, 'be) state_backend =
  put_kv :: "string \<Rightarrow> 'ts PersistedEtlState \<Rightarrow> 'b \<Rightarrow> ('be + unit) \<times> 'b"
  get_kv :: "string \<Rightarrow> 'b \<Rightarrow> 'be + 'ts PersistedEtlState option"
  set_prefix :: "string \<Rightarrow> 'b \<Rightarrow> 'b"

record ('ts, 'sn, 'ty, 'md, 'b) StreamlingStore =
  inner :: "('ts, 'sn, 'ty, 'md) Inner"
  backend :: 'b
  key :: string

section \<open>Persisted form\<close>

definition persist_snapshot_id :: "('ts, 'sn, 'ty, 'mk, 'md, 'xe) etl_api \<Rightarrow> 'sn \<Rightarrow> PersistedSnapshotId"
  where "persist_snapshot_id A s = (commit_lsn A s, message_lsn A s)"

definition restore_snapshot_id :: "('ts, 'sn, 'ty, 'mk, 'md, 'xe) etl_api \<Rightarrow> PersistedSnapshotId \<Rightarrow> 'sn"
  where "restore_snapshot_id A p = snapshot_new A (fst p) (snd p)"

text \<open>History and current state without the states that must not be stored; the last one left is current.\<close>

definition storable_states ::
  "('ts, 'sn, 'ty, 'mk, 'md, 'xe) etl_api \<Rightarrow> ('ts, 'sn, 'ty, 'md) Inner \<Rightarrow> TableId \<Rightarrow> 'ts \<Rightarrow> 'ts list" where
  "storable_states A i t current =
     filter (should_store A)
       ((case hm_get (table_state_history i) t of None \<Rightarrow> [] | Some h \<Rightarrow> h) @ [current])"

fun persist_states ::
  "('ts, 'sn, 'ty, 'mk, 'md, 'xe) etl_api \<Rightarrow> ('ts, 'sn, 'ty, 'md) Inner \<Rightarrow> (TableId \<times> 'ts) list
     \<Rightarrow> 'ts PersistedTableStateEntry list" where
  "persist_states A i [] = []"
| "persist_states A i ((t, current) # es) =
     (let storable = storable_states A i t current in
      if storable = [] then persist_states A i es
      else \<lparr>pe_table_id = t, pe_current = last storable, pe_history = butlast storable\<rparr>
             # persist_states A i es)"

definition persist_column ::
  "('ts, 'sn, 'ty, 'mk, 'md, 'xe) etl_api \<Rightarrow> 'ty ColumnSchema \<Rightarrow> PersistedColumn" where
  "persist_column A c =
     \<lparr>pc_name = cs_name c, pc_type_oid = ty_oid A (cs_typ c), pc_modifier = cs_modifier c,
      pc_ordinal_position = cs_ordinal_position c,
      pc_primary_key_ordinal_position = cs_primary_key_ordinal_position c,
      pc_nullable = cs_nullable c, pc_default_expression = cs_default_expression c\<rparr>"

definition persist_schema ::
  "('ts, 'sn, 'ty, 'mk, 'md, 'xe) etl_api \<Rightarrow> ('sn, 'ty) TableSchema \<Rightarrow> PersistedTableSchema" where
  "persist_schema A s =
     \<lparr>ps_table_id = ts_id s, ps_schema = ts_schema s, ps_name = ts_name s,
      ps_snapshot_id = persist_snapshot_id A (ts_snapshot_id s),
      ps_columns = map (persist_column A) (ts_column_schemas s)\<rparr>"

definition persist_metadata ::
  "('ts, 'sn, 'ty, 'mk, 'md, 'xe) etl_api \<Rightarrow> TableId \<times> 'md \<Rightarrow> PersistedDestinationMetadata" where
  "persist_metadata A e =
     \<lparr>pd_table_id = fst e, pd_destination_table_id = md_table_id A (snd e),
      pd_schema =
        (case md_table_schema A (snd e) of
           Creating s k \<Rightarrow> PCreating (persist_snapshot_id A s) (mask_to_bytes A k)
         | Applying s k ps pk \<Rightarrow>
             PApplying (persist_snapshot_id A s) (mask_to_bytes A k)
               (persist_snapshot_id A ps) (mask_to_bytes A pk)
         | Applied s k \<Rightarrow> PApplied (persist_snapshot_id A s) (mask_to_bytes A k))\<rparr>"

definition persist_worker :: "WorkerType \<Rightarrow> u32 option" where
  "persist_worker w = (case w of Apply \<Rightarrow> None | TableSync t \<Rightarrow> Some t)"

definition restore_worker :: "u32 option \<Rightarrow> WorkerType" where
  "restore_worker x = (case x of None \<Rightarrow> Apply | Some t \<Rightarrow> TableSync t)"

definition to_persisted ::
  "('ts, 'sn, 'ty, 'mk, 'md, 'xe) etl_api \<Rightarrow> ('ts, 'sn, 'ty, 'md) Inner \<Rightarrow> 'ts PersistedEtlState" where
  "to_persisted A i =
     \<lparr>p_table_states = persist_states A i (table_states i),
      p_table_schemas =
        map (persist_schema A) (concat (map (map snd) (map snd (table_schemas i)))),
      p_destination_tables_metadata =
        map (persist_metadata A) (destination_tables_metadata i),
      p_replication_checkpoints =
        map (\<lambda>(w, lsn). (persist_worker w, lsn)) (replication_checkpoints i)\<rparr>"

definition restore_state ::
  "'ts PersistedTableStateEntry \<Rightarrow> ('ts, 'sn, 'ty, 'md) Inner \<Rightarrow> ('ts, 'sn, 'ty, 'md) Inner" where
  "restore_state e i =
     i\<lparr>table_states := bt_insert (pe_table_id e) (pe_current e) (table_states i),
       table_state_history :=
         (if pe_history e = [] then table_state_history i
          else hm_insert (pe_table_id e) (pe_history e) (table_state_history i))\<rparr>"

definition restore_column ::
  "('ts, 'sn, 'ty, 'mk, 'md, 'xe) etl_api \<Rightarrow> PersistedColumn \<Rightarrow> 'ty ColumnSchema" where
  "restore_column A c =
     column_new A (pc_name c)
       (case type_from_oid A (pc_type_oid c) of None \<Rightarrow> type_TEXT A | Some t \<Rightarrow> t)
       (pc_modifier c) (pc_ordinal_position c) (pc_nullable c)
       (pc_primary_key_ordinal_position c) (pc_default_expression c)"

definition restore_schema ::
  "('ts, 'sn, 'ty, 'mk, 'md, 'xe) etl_api \<Rightarrow> PersistedTableSchema \<Rightarrow> ('sn, 'ty) TableSchema" where
  "restore_schema A p =
     table_schema_new A (ps_table_id p) (ps_schema p) (ps_name p)
       (map (restore_column A) (ps_columns p)) (restore_snapshot_id A (ps_snapshot_id p))"

text \<open>\<open>entry(table_id).or_default().insert(snapshot_id, schema)\<close>.\<close>

definition put_schema ::
  "TableId \<Rightarrow> 'sn :: linorder \<Rightarrow> ('sn, 'ty) TableSchema
     \<Rightarrow> (TableId, ('sn, ('sn, 'ty) TableSchema) btree_map) btree_map
     \<Rightarrow> (TableId, ('sn, ('sn, 'ty) TableSchema) btree_map) btree_map" where
  "put_schema t sn s m =
     bt_insert t (bt_insert sn s (case bt_get m t of None \<Rightarrow> [] | Some v \<Rightarrow> v)) m"

definition restore_metadata ::
  "('ts, 'sn, 'ty, 'mk, 'md, 'xe) etl_api \<Rightarrow> PersistedDestinationMetadata \<Rightarrow> 'xe + 'md" where
  "restore_metadata A p =
     (case pd_schema p of
        PCreating s k \<Rightarrow>
          Inr (new_creating A (pd_destination_table_id p) (restore_snapshot_id A s) (mask_from_bytes A k))
      | PApplying s k ps pk \<Rightarrow>
          with_schema_change A
            (new_applied A (pd_destination_table_id p) (restore_snapshot_id A ps) (mask_from_bytes A pk))
            (restore_snapshot_id A s) (mask_from_bytes A k)
      | PApplied s k \<Rightarrow>
          Inr (new_applied A (pd_destination_table_id p) (restore_snapshot_id A s) (mask_from_bytes A k)))"

fun restore_all_metadata ::
  "('ts, 'sn, 'ty, 'mk, 'md, 'xe) etl_api \<Rightarrow> PersistedDestinationMetadata list
     \<Rightarrow> (TableId, 'md) btree_map \<Rightarrow> 'xe + (TableId, 'md) btree_map" where
  "restore_all_metadata A [] m = Inr m"
| "restore_all_metadata A (p # ps) m =
     res_bind (restore_metadata A p) (\<lambda>d. restore_all_metadata A ps (bt_insert (pd_table_id p) d m))"

definition from_persisted ::
  "('ts, 'sn :: linorder, 'ty, 'mk, 'md, 'xe) etl_api \<Rightarrow> 'ts PersistedEtlState
     \<Rightarrow> ('be, 'xe) EtlError + ('ts, 'sn, 'ty, 'md) Inner" where
  "from_persisted A p =
     (let i1 = fold restore_state (p_table_states p) inner_default;
          schemas = fold
            (\<lambda>q. put_schema (ps_table_id q) (restore_snapshot_id A (ps_snapshot_id q)) (restore_schema A q))
            (p_table_schemas p) (table_schemas i1)
      in res_bind (map_err Foreign
           (restore_all_metadata A (p_destination_tables_metadata p) (destination_tables_metadata i1)))
         (\<lambda>meta. Inr (i1\<lparr>table_schemas := schemas, destination_tables_metadata := meta,
            replication_checkpoints :=
              fold (\<lambda>(x, lsn). hm_insert (restore_worker x) lsn) (p_replication_checkpoints p)
                (replication_checkpoints i1)\<rparr>)))"

section \<open>Write-through\<close>

type_synonym ('t, 'ts, 'sn, 'ty, 'md, 'e) change =
  "('ts, 'sn, 'ty, 'md) Inner \<Rightarrow> 'e + ('t \<times> ('ts, 'sn, 'ty, 'md) Inner)"

definition STATE_KEY_PREFIX :: string where
  "STATE_KEY_PREFIX = ''postgres_cdc_source''"

definition store_new ::
  "('ts, 'b, 'be) state_backend \<Rightarrow> 'b \<Rightarrow> string \<Rightarrow> ('ts, 'sn, 'ty, 'md, 'b) StreamlingStore" where
  "store_new B b slot_name =
     \<lparr>inner = inner_default, backend = set_prefix B STATE_KEY_PREFIX b, key = slot_name\<rparr>"

definition mutate ::
  "('ts, 'sn, 'ty, 'mk, 'md, 'xe) etl_api \<Rightarrow> ('ts, 'b, 'be) state_backend
     \<Rightarrow> ('t, 'ts, 'sn, 'ty, 'md, ('be, 'xe) EtlError) change
     \<Rightarrow> ('ts, 'sn, 'ty, 'md, 'b) StreamlingStore
     \<Rightarrow> (('be, 'xe) EtlError + 't) \<times> ('ts, 'sn, 'ty, 'md, 'b) StreamlingStore" where
  "mutate A B f st =
     (case f (inner st) of
        Inl e \<Rightarrow> (Inl e, st)
      | Inr (result, updated) \<Rightarrow>
          (case put_kv B (key st) (to_persisted A updated) (backend st) of
             (Inl be, b) \<Rightarrow> (Inl (IoError be), st\<lparr>backend := b\<rparr>)
           | (Inr _, b) \<Rightarrow> (Inr result, st\<lparr>backend := b, inner := updated\<rparr>)))"

definition hydrate ::
  "('ts, 'sn :: linorder, 'ty, 'mk, 'md, 'xe) etl_api \<Rightarrow> ('ts, 'b, 'be) state_backend
     \<Rightarrow> ('ts, 'sn, 'ty, 'md, 'b) StreamlingStore
     \<Rightarrow> (('be, 'xe) EtlError + unit) \<times> ('ts, 'sn, 'ty, 'md, 'b) StreamlingStore" where
  "hydrate A B st =
     (case get_kv B (key st) (backend st) of
        Inl be \<Rightarrow> (Inl (IoError be), st)
      | Inr v \<Rightarrow>
          (case from_persisted A (case v of None \<Rightarrow> persisted_default | Some p \<Rightarrow> p) of
             Inl e \<Rightarrow> (Inl e, st)
           | Inr i \<Rightarrow> (Inr (), st\<lparr>inner := i\<rparr>)))"

section \<open>Operations\<close>

text \<open>
  Reads are of the cache. Each writing operation is the change it hands to \<open>mutate\<close>; the
  operation itself is \<open>mutate\<close> of that change.
\<close>

definition get_table_state :: "TableId \<Rightarrow> ('ts, 'sn, 'ty, 'md, 'b) StreamlingStore \<Rightarrow> 'ts option" where
  "get_table_state t st = bt_get (table_states (inner st)) t"

definition get_table_states :: "('ts, 'sn, 'ty, 'md, 'b) StreamlingStore \<Rightarrow> (TableId, 'ts) btree_map" where
  "get_table_states st = table_states (inner st)"

text \<open>The three \<open>load\<close> operations hydrate and return a count.\<close>

definition load_with ::
  "(('ts, 'sn, 'ty, 'md) Inner \<Rightarrow> nat)
     \<Rightarrow> ('ts, 'sn :: linorder, 'ty, 'mk, 'md, 'xe) etl_api \<Rightarrow> ('ts, 'b, 'be) state_backend
     \<Rightarrow> ('ts, 'sn, 'ty, 'md, 'b) StreamlingStore
     \<Rightarrow> (('be, 'xe) EtlError + nat) \<times> ('ts, 'sn, 'ty, 'md, 'b) StreamlingStore" where
  "load_with count A B st =
     (case hydrate A B st of
        (Inl e, st') \<Rightarrow> (Inl e, st')
      | (Inr _, st') \<Rightarrow> (Inr (count (inner st')), st'))"

definition load_table_states where
  "load_table_states = load_with (\<lambda>i. length (table_states i))"

definition load_destination_tables_metadata where
  "load_destination_tables_metadata = load_with (\<lambda>i. length (destination_tables_metadata i))"

definition load_table_schemas where
  "load_table_schemas = load_with (\<lambda>i. sum_list (map length (map snd (table_schemas i))))"

text \<open>One update: the current state, if any, is pushed on the history.\<close>

definition set_state ::
  "TableId \<Rightarrow> 'ts \<Rightarrow> ('ts, 'sn, 'ty, 'md) Inner \<Rightarrow> ('ts, 'sn, 'ty, 'md) Inner" where
  "set_state t s i =
     i\<lparr>table_state_history :=
         (case bt_get (table_states i) t of
            None \<Rightarrow> table_state_history i
          | Some c \<Rightarrow>
              hm_insert t ((case hm_get (table_state_history i) t of None \<Rightarrow> [] | Some h \<Rightarrow> h) @ [c])
                (table_state_history i)),
       table_states := bt_insert t s (table_states i)\<rparr>"

definition update_table_states ::
  "(TableId \<times> 'ts) list \<Rightarrow> (unit, 'ts, 'sn, 'ty, 'md, ('be, 'xe) EtlError) change" where
  "update_table_states updates i = Inr ((), fold (\<lambda>(t, s). set_state t s) updates i)"

definition rollback_table_state ::
  "TableId \<Rightarrow> ('ts, 'ts, 'sn, 'ty, 'md, ('be, 'xe) EtlError) change" where
  "rollback_table_state t i =
     (case hm_get (table_state_history i) t of
        None \<Rightarrow> Inl StateRollbackError
      | Some h \<Rightarrow>
          (if h = [] then Inl StateRollbackError
           else Inr (last h,
             i\<lparr>table_state_history := hm_insert t (butlast h) (table_state_history i),
               table_states := bt_insert t (last h) (table_states i)\<rparr>)))"

definition get_replication_checkpoint ::
  "WorkerType \<Rightarrow> ('ts, 'sn, 'ty, 'md, 'b) StreamlingStore \<Rightarrow> u64 option" where
  "get_replication_checkpoint w st = hm_get (replication_checkpoints (inner st)) w"

definition upsert_replication_checkpoint ::
  "WorkerType \<Rightarrow> u64 \<Rightarrow> (u64, 'ts, 'sn, 'ty, 'md, ('be, 'xe) EtlError) change" where
  "upsert_replication_checkpoint w lsn i =
     (let stored = (case hm_get (replication_checkpoints i) w of
                      None \<Rightarrow> lsn
                    | Some old \<Rightarrow> if lsn > old then lsn else old)
      in Inr (stored, i\<lparr>replication_checkpoints := hm_insert w stored (replication_checkpoints i)\<rparr>))"

definition delete_replication_checkpoint ::
  "WorkerType \<Rightarrow> (unit, 'ts, 'sn, 'ty, 'md, ('be, 'xe) EtlError) change" where
  "delete_replication_checkpoint w i =
     Inr ((), i\<lparr>replication_checkpoints := hm_remove w (replication_checkpoints i)\<rparr>)"

definition get_destination_table_metadata ::
  "TableId \<Rightarrow> ('ts, 'sn, 'ty, 'md, 'b) StreamlingStore \<Rightarrow> 'md option" where
  "get_destination_table_metadata t st = bt_get (destination_tables_metadata (inner st)) t"

definition store_destination_table_metadata ::
  "TableId \<Rightarrow> 'md \<Rightarrow> (unit, 'ts, 'sn, 'ty, 'md, ('be, 'xe) EtlError) change" where
  "store_destination_table_metadata t m i =
     Inr ((), i\<lparr>destination_tables_metadata := bt_insert t m (destination_tables_metadata i)\<rparr>)"

definition schema_at ::
  "TableId \<Rightarrow> 'sn :: linorder \<Rightarrow> ('ts, 'sn, 'ty, 'md) Inner \<Rightarrow> ('sn, 'ty) TableSchema option" where
  "schema_at t sn i =
     (case bt_get (table_schemas i) t of
        None \<Rightarrow> None
      | Some snapshots \<Rightarrow> map_option snd (bt_last_upto sn snapshots))"

definition get_table_schema ::
  "TableId \<Rightarrow> 'sn :: linorder \<Rightarrow> ('ts, 'sn, 'ty, 'md, 'b) StreamlingStore \<Rightarrow> ('sn, 'ty) TableSchema option" where
  "get_table_schema t sn st = schema_at t sn (inner st)"

definition get_table_schemas ::
  "('ts, 'sn, 'ty, 'md, 'b) StreamlingStore \<Rightarrow> ('sn, 'ty) TableSchema list" where
  "get_table_schemas st = concat (map (map snd) (map snd (table_schemas (inner st))))"

definition store_table_schema ::
  "('sn :: linorder, 'ty) TableSchema
     \<Rightarrow> (('sn, 'ty) TableSchema, 'ts, 'sn, 'ty, 'md, ('be, 'xe) EtlError) change" where
  "store_table_schema s i =
     Inr (s, i\<lparr>table_schemas := put_schema (ts_id s) (ts_snapshot_id s) s (table_schemas i)\<rparr>)"

text \<open>The snapshots of one table after pruning: nothing changes without a boundary or a version at it.\<close>

definition prune_snapshots ::
  "'sn :: linorder option \<Rightarrow> ('sn, 's) btree_map \<Rightarrow> ('sn, 's) btree_map" where
  "prune_snapshots retention snapshots =
     (case retention of
        None \<Rightarrow> snapshots
      | Some r \<Rightarrow>
          (case bt_last_upto r snapshots of
             None \<Rightarrow> snapshots
           | Some (retained, _) \<Rightarrow> bt_retain (\<lambda>s. s \<ge> retained) snapshots))"

fun prune_loop ::
  "(TableId, 'sn :: linorder) btree_map \<Rightarrow> (TableId, ('sn, 's) btree_map) btree_map \<Rightarrow> u64
     \<Rightarrow> u64 \<times> (TableId, ('sn, 's) btree_map) btree_map" where
  "prune_loop rs [] removed = (removed, [])"
| "prune_loop rs ((t, snapshots) # m) removed =
     (let snapshots' = prune_snapshots (bt_get rs t) snapshots;
          (n, m') = prune_loop rs m (removed + of_nat (length snapshots - length snapshots'))
      in (n, (t, snapshots') # m'))"

definition prune_table_schemas ::
  "(TableId, 'sn :: linorder) btree_map \<Rightarrow> (u64, 'ts, 'sn, 'ty, 'md, ('be, 'xe) EtlError) change" where
  "prune_table_schemas rs i =
     (let (removed, m) = prune_loop rs (table_schemas i) 0 in Inr (removed, i\<lparr>table_schemas := m\<rparr>))"

fun apply_table_state_operation ::
  "('ts, 'sn, 'ty, 'mk, 'md, 'xe) etl_api \<Rightarrow> TableStateOperation
     \<Rightarrow> (nat, 'ts, 'sn, 'ty, 'md, ('be, 'xe) EtlError) change" where
  "apply_table_state_operation A (PrepareForCopy t) i =
     Inr (0, i\<lparr>table_schemas := bt_remove t (table_schemas i),
               destination_tables_metadata := bt_remove t (destination_tables_metadata i),
               replication_checkpoints := hm_remove (TableSync t) (replication_checkpoints i)\<rparr>)"
| "apply_table_state_operation A ResetForResync i =
     (let ids = map fst (table_states i);
          i' = fold (\<lambda>t. set_state t (state_Init A)) ids i
      in Inr (length ids,
              i'\<lparr>replication_checkpoints := hm_remove Apply (replication_checkpoints i')\<rparr>))"
| "apply_table_state_operation A (DeleteTable t) i =
     Inr (if bt_get (table_states i) t = None then 0 else 1,
          i\<lparr>table_states := bt_remove t (table_states i),
            table_state_history := hm_remove t (table_state_history i),
            table_schemas := bt_remove t (table_schemas i),
            destination_tables_metadata := bt_remove t (destination_tables_metadata i),
            replication_checkpoints := hm_remove (TableSync t) (replication_checkpoints i)\<rparr>)"

section \<open>What the source relies on\<close>

definition etl_laws :: "('ts, 'sn, 'ty, 'mk, 'md, 'xe) etl_api \<Rightarrow> bool" where
  "etl_laws A \<longleftrightarrow>
     (\<forall>s. snapshot_new A (commit_lsn A s) (message_lsn A s) = s) \<and>
     (\<forall>k. mask_from_bytes A (mask_to_bytes A k) = k) \<and>
     (\<forall>n ty m o' nu pk d. column_new A n ty m o' nu pk d =
        \<lparr>cs_name = n, cs_typ = ty, cs_modifier = m, cs_ordinal_position = o',
         cs_primary_key_ordinal_position = pk, cs_nullable = nu, cs_default_expression = d\<rparr>) \<and>
     (\<forall>t sc n cols sn. table_schema_new A t sc n cols sn =
        \<lparr>ts_id = t, ts_schema = sc, ts_name = n, ts_snapshot_id = sn, ts_column_schemas = cols\<rparr>) \<and>
     (\<forall>m s k. md_table_schema A m = Creating s k \<longrightarrow> new_creating A (md_table_id A m) s k = m) \<and>
     (\<forall>m s k. md_table_schema A m = Applied s k \<longrightarrow> new_applied A (md_table_id A m) s k = m) \<and>
     (\<forall>m s k ps pk. md_table_schema A m = Applying s k ps pk \<longrightarrow>
        with_schema_change A (new_applied A (md_table_id A m) ps pk) s k = Inr m)"

definition backend_laws :: "('ts, 'b, 'be) state_backend \<Rightarrow> bool" where
  "backend_laws B \<longleftrightarrow> (\<forall>k v b b'. put_kv B k v b = (Inr (), b') \<longrightarrow> get_kv B k b' = Inr (Some v))"

text \<open>
  What a restart makes of the schema versions: only the identifier of a column's type is stored, and an
  identifier that the library does not know is read as text. Everything else is kept.
\<close>

definition restored_type :: "('ts, 'sn, 'ty, 'mk, 'md, 'xe) etl_api \<Rightarrow> 'ty \<Rightarrow> 'ty" where
  "restored_type A ty = (case type_from_oid A (ty_oid A ty) of None \<Rightarrow> type_TEXT A | Some ty' \<Rightarrow> ty')"

definition restored_schema ::
  "('ts, 'sn, 'ty, 'mk, 'md, 'xe) etl_api \<Rightarrow> ('sn, 'ty) TableSchema \<Rightarrow> ('sn, 'ty) TableSchema" where
  "restored_schema A s =
     s\<lparr>ts_column_schemas := map (\<lambda>c. c\<lparr>cs_typ := restored_type A (cs_typ c)\<rparr>) (ts_column_schemas s)\<rparr>"

definition restored_versions ::
  "('ts, 'sn, 'ty, 'mk, 'md, 'xe) etl_api \<Rightarrow> ('sn, ('sn, 'ty) TableSchema) btree_map \<Rightarrow> ('sn, ('sn, 'ty) TableSchema) btree_map" where
  "restored_versions A v = map (\<lambda>(sn, s). (sn, restored_schema A s)) v"

definition restored_schemas ::
  "('ts, 'sn, 'ty, 'mk, 'md, 'xe) etl_api \<Rightarrow> (TableId, ('sn, ('sn, 'ty) TableSchema) btree_map) btree_map
     \<Rightarrow> (TableId, ('sn, ('sn, 'ty) TableSchema) btree_map) btree_map" where
  "restored_schemas A m = map (\<lambda>(t, v). (t, restored_versions A v)) m"

text \<open>Types that the library knows are restored as they were.\<close>

lemma restored_schema_known:
  assumes "\<And>c. c \<in> set (ts_column_schemas s) \<Longrightarrow> type_from_oid A (ty_oid A (cs_typ c)) = Some (cs_typ c)"
  shows "restored_schema A s = s"
proof -
  have "map (\<lambda>c. c\<lparr>cs_typ := restored_type A (cs_typ c)\<rparr>) (ts_column_schemas s) = ts_column_schemas s"
    using assms by (intro map_idI) (simp add: restored_type_def)
  then show ?thesis by (simp add: restored_schema_def)
qed

section \<open>The invariant of the cache\<close>

definition versions_ok :: "TableId \<Rightarrow> ('sn :: linorder, ('sn, 'ty) TableSchema) btree_map \<Rightarrow> bool" where
  "versions_ok t v \<longleftrightarrow>
     v \<noteq> [] \<and> bt_ok v \<and>
     list_all (\<lambda>(sn, s). ts_id s = t \<and> ts_snapshot_id s = sn) v"

definition inner_ok :: "('ts, 'sn :: linorder, 'ty, 'md) Inner \<Rightarrow> bool" where
  "inner_ok i \<longleftrightarrow>
     bt_ok (table_states i) \<and> hm_ok (table_state_history i) \<and> bt_ok (table_schemas i) \<and>
     bt_ok (destination_tables_metadata i) \<and> hm_ok (replication_checkpoints i) \<and>
     list_all (\<lambda>(t, v). versions_ok t v) (table_schemas i)"

lemma inner_ok_default [simp]: "inner_ok inner_default"
  by (simp add: inner_ok_def inner_default_def)

lemma restore_persist_schema:
  assumes "etl_laws A"
  shows "restore_schema A (persist_schema A s) = restored_schema A s"
proof -
  have "restore_column A (persist_column A c) = c\<lparr>cs_typ := restored_type A (cs_typ c)\<rparr>" for c
    using assms by (simp add: etl_laws_def restore_column_def persist_column_def restored_type_def)
  then have "map (restore_column A \<circ> persist_column A) (ts_column_schemas s) =
      map (\<lambda>c. c\<lparr>cs_typ := restored_type A (cs_typ c)\<rparr>) (ts_column_schemas s)"
    by simp
  with assms show ?thesis
    by (simp add: restore_schema_def restored_schema_def persist_schema_def restore_snapshot_id_def
        persist_snapshot_id_def etl_laws_def)
qed

lemma restore_persist_metadata:
  assumes "etl_laws A"
  shows "restore_metadata A (persist_metadata A (t, m)) = Inr m"
  using assms
  by (cases "md_table_schema A m")
    (simp_all add: restore_metadata_def persist_metadata_def etl_laws_def
      restore_snapshot_id_def persist_snapshot_id_def)

lemma restore_all_metadata_eq:
  assumes "etl_laws A"
  shows "restore_all_metadata A (map (persist_metadata A) es) m
         = Inr (fold (\<lambda>(k, v). bt_insert k v) es m)"
proof (induction es arbitrary: m)
  case Nil
  then show ?case by simp
next
  case (Cons e es)
  obtain t d where e: "e = (t, d)" by (cases e)
  have "pd_table_id (persist_metadata A (t, d)) = t" by (simp add: persist_metadata_def)
  with Cons.IH e restore_persist_metadata [OF assms] show ?case by simp
qed

lemma restore_persist_worker [simp]: "restore_worker (persist_worker w) = w"
  by (cases w) (simp_all add: restore_worker_def persist_worker_def)

subsection \<open>Restoring what was persisted\<close>

abbreviation (input) put_restored where
  "put_restored A \<equiv> \<lambda>q. put_schema (ps_table_id q) (restore_snapshot_id A (ps_snapshot_id q)) (restore_schema A q)"

text \<open>The versions of one table, in order, behind the tables before it.\<close>

lemma fold_put_versions:
  assumes "\<forall>e \<in> set m. fst e < t" and "v0 \<noteq> []" and "bt_ok (v0 @ v)" and "etl_laws A"
    and "list_all (\<lambda>(sn, s). ts_id s = t \<and> ts_snapshot_id s = sn) v"
  shows "fold (put_restored A) (map (persist_schema A) (map snd v)) (m @ [(t, v0)]) = m @ [(t, v0 @ restored_versions A v)]"
  using assms(2,3,5)
proof (induction v arbitrary: v0)
  case Nil
  then show ?case by (simp add: restored_versions_def)
next
  case (Cons e v)
  obtain sn s where e: "e = (sn, s)" by (cases e)
  have known: "ts_id s = t" "ts_snapshot_id s = sn"
    using Cons.prems(3) e by auto
  have sn: "restore_snapshot_id A (ps_snapshot_id (persist_schema A s)) = sn"
    using assms(4) known by (simp add: persist_schema_def restore_snapshot_id_def
        persist_snapshot_id_def etl_laws_def)
  have id: "ps_table_id (persist_schema A s) = t" using known by (simp add: persist_schema_def)
  have later: "\<forall>x \<in> set v0. fst x < sn"
    using Cons.prems(2) e by (auto simp: bt_ok_def sorted_wrt_append)
  have "bt_get m t = None" using assms(1) by (force simp: map_of_eq_None_iff)
  then have "bt_get (m @ [(t, v0)]) t = Some v0" by (simp add: map_add_def)
  then have "put_schema t sn (restored_schema A s) (m @ [(t, v0)]) = m @ [(t, v0 @ [(sn, restored_schema A s)])]"
    by (simp add: put_schema_def bt_insert_last [OF later] bt_insert_replace_last [OF assms(1)])
  moreover have "fold (put_restored A) (map (persist_schema A) (map snd v)) (m @ [(t, v0 @ [(sn, restored_schema A s)])])
      = m @ [(t, (v0 @ [(sn, restored_schema A s)]) @ restored_versions A v)]"
    using Cons.prems e by (intro Cons.IH) (auto simp: bt_ok_def)
  ultimately show ?case
    using e id sn restore_persist_schema [OF assms(4)] by (simp add: restored_versions_def)
qed

lemma fold_put_table:
  assumes "\<forall>e \<in> set m. fst e < t" and "versions_ok t v" and "etl_laws A"
  shows "fold (put_restored A) (map (persist_schema A) (map snd v)) m = m @ [(t, restored_versions A v)]"
proof -
  obtain sn s v' where v: "v = (sn, s) # v'"
    using assms(2) by (cases v) (auto simp: versions_ok_def)
  have known: "ts_id s = t" "ts_snapshot_id s = sn"
    using assms(2) v by (auto simp: versions_ok_def)
  have "restore_snapshot_id A (ps_snapshot_id (persist_schema A s)) = sn"
    using assms(3) known by (simp add: persist_schema_def restore_snapshot_id_def
        persist_snapshot_id_def etl_laws_def)
  moreover have "ps_table_id (persist_schema A s) = t" using known by (simp add: persist_schema_def)
  moreover have "bt_get m t = None" using assms(1) by (force simp: map_of_eq_None_iff)
  ultimately have "put_restored A (persist_schema A s) m = m @ [(t, [(sn, restored_schema A s)])]"
    using restore_persist_schema [OF assms(3)]
    by (simp add: put_schema_def bt_insert_last [OF assms(1)])
  moreover have "fold (put_restored A) (map (persist_schema A) (map snd v')) (m @ [(t, [(sn, restored_schema A s)])])
      = m @ [(t, [(sn, restored_schema A s)] @ restored_versions A v')]"
    using assms v by (intro fold_put_versions) (auto simp: versions_ok_def bt_ok_def)
  ultimately show ?thesis using v by (simp add: restored_versions_def)
qed

lemma fold_put_tables:
  assumes "etl_laws A" and "bt_ok (m0 @ m)" and "list_all (\<lambda>(t, v). versions_ok t v) m"
  shows "fold (put_restored A) (map (persist_schema A) (concat (map (map snd) (map snd m)))) m0 = m0 @ restored_schemas A m"
  using assms(2,3)
proof (induction m arbitrary: m0)
  case Nil
  then show ?case by (simp add: restored_schemas_def)
next
  case (Cons e m)
  obtain t v where e: "e = (t, v)" by (cases e)
  have "\<forall>x \<in> set m0. fst x < t"
    using Cons.prems(1) e by (auto simp: bt_ok_def sorted_wrt_append)
  then have "fold (put_restored A) (map (persist_schema A) (map snd v)) m0 = m0 @ [(t, restored_versions A v)]"
    using Cons.prems(2) e assms(1) by (intro fold_put_table) auto
  with Cons.IH [of "m0 @ [(t, restored_versions A v)]"] Cons.prems e show ?case
    by (simp add: bt_ok_def restored_schemas_def)
qed

text \<open>The states of one table that survive a restart.\<close>

definition surviving :: "('ts, 'sn, 'ty, 'mk, 'md, 'xe) etl_api \<Rightarrow> ('ts, 'sn, 'ty, 'md) Inner \<Rightarrow> TableId \<Rightarrow> 'ts list" where
  "surviving A i t =
     (case bt_get (table_states i) t of None \<Rightarrow> [] | Some c \<Rightarrow> storable_states A i t c)"

lemma fold_restore_state:
  "table_states (fold restore_state ps i) =
     fold (\<lambda>(k, v). bt_insert k v) (map (\<lambda>p. (pe_table_id p, pe_current p)) ps) (table_states i)"
  "table_state_history (fold restore_state ps i) =
     fold (\<lambda>(k, v). hm_insert k v)
       (map (\<lambda>p. (pe_table_id p, pe_history p)) (filter (\<lambda>p. pe_history p \<noteq> []) ps))
       (table_state_history i)"
  "table_schemas (fold restore_state ps i) = table_schemas i"
  "destination_tables_metadata (fold restore_state ps i) = destination_tables_metadata i"
  "replication_checkpoints (fold restore_state ps i) = replication_checkpoints i"
  by (induction ps arbitrary: i) (simp_all add: restore_state_def)

lemma persist_states_ids: "pe_table_id ` set (persist_states A i es) \<subseteq> fst ` set es"
proof (induction es)
  case (Cons e es)
  obtain t c where "e = (t, c)" by (cases e)
  with Cons show ?case by (cases "storable_states A i t c = []") (auto simp: Let_def)
qed simp

lemma persist_states_distinct:
  "distinct (map fst es) \<Longrightarrow> distinct (map pe_table_id (persist_states A i es))"
proof (induction A i es rule: persist_states.induct)
  case (2 A i t c es)
  then show ?case using persist_states_ids [of A i es] by (auto simp: Let_def)
qed simp

lemma persist_states_lookup:
  assumes "distinct (map fst es)" and "p \<in> set (persist_states A i es)"
  shows "\<exists>c. map_of es (pe_table_id p) = Some c \<and> storable_states A i (pe_table_id p) c \<noteq> [] \<and>
           pe_current p = last (storable_states A i (pe_table_id p) c) \<and>
           pe_history p = butlast (storable_states A i (pe_table_id p) c)"
  using assms
proof (induction A i es rule: persist_states.induct)
  case (1 A i)
  then show ?case by simp
next
  case (2 A i t c es)
  show ?case
  proof (cases "p \<in> set (persist_states A i es)")
    case True
    then have "pe_table_id p \<in> fst ` set es" using persist_states_ids by blast
    with 2 True show ?thesis by (auto simp: Let_def split: if_splits)
  next
    case False
    with "2.prems"(2) have "storable_states A i t c \<noteq> []" and
      "p = \<lparr>pe_table_id = t, pe_current = last (storable_states A i t c),
            pe_history = butlast (storable_states A i t c)\<rparr>"
      by (auto simp: Let_def split: if_splits)
    then show ?thesis by simp
  qed
qed

lemma persist_states_complete:
  "map_of es t = Some c \<Longrightarrow> storable_states A i t c \<noteq> [] \<Longrightarrow>
   \<lparr>pe_table_id = t, pe_current = last (storable_states A i t c),
    pe_history = butlast (storable_states A i t c)\<rparr> \<in> set (persist_states A i es)"
  by (induction A i es rule: persist_states.induct) (auto simp: Let_def split: if_splits)

lemma map_of_persist_states:
  assumes "distinct (map fst es)"
  shows "map_of (map (\<lambda>p. (pe_table_id p, f p)) (filter P (persist_states A i es))) t =
     (case map_of es t of None \<Rightarrow> None
      | Some c \<Rightarrow>
          (let v = storable_states A i t c;
               p = \<lparr>pe_table_id = t, pe_current = last v, pe_history = butlast v\<rparr>
           in if v \<noteq> [] \<and> P p then Some (f p) else None))"
    (is "map_of ?l t = ?r")
proof (rule option_eq_SomeI)
  fix x
  have d: "distinct (map fst ?l)"
    using persist_states_distinct [OF assms, of A i]
    by (simp add: comp_def distinct_map inj_on_def)
  show "map_of ?l t = Some x \<longleftrightarrow> ?r = Some x"
  proof
    assume "map_of ?l t = Some x"
    then obtain p where p: "p \<in> set (persist_states A i es)" "P p" "pe_table_id p = t" "x = f p"
      by (auto dest!: map_of_SomeD)
    obtain c where c: "map_of es t = Some c" "storable_states A i t c \<noteq> []"
        "pe_current p = last (storable_states A i t c)" "pe_history p = butlast (storable_states A i t c)"
      using persist_states_lookup [OF assms p(1)] p(3) by auto
    then have "p = \<lparr>pe_table_id = t, pe_current = last (storable_states A i t c),
        pe_history = butlast (storable_states A i t c)\<rparr>" using p(3) by simp
    with c p show "?r = Some x" by (simp add: Let_def)
  next
    assume r: "?r = Some x"
    then obtain c where c: "map_of es t = Some c" "storable_states A i t c \<noteq> []"
      by (auto simp: Let_def split: option.splits if_splits)
    let ?p = "\<lparr>pe_table_id = t, pe_current = last (storable_states A i t c),
        pe_history = butlast (storable_states A i t c)\<rparr>"
    have "P ?p" and x: "x = f ?p" using r c by (auto simp: Let_def split: if_splits)
    then have "(t, x) \<in> set ?l" using persist_states_complete [OF c] by force
    with d show "map_of ?l t = Some x" by (rule map_of_is_SomeI)
  qed
qed

lemma restored_states:
  fixes A :: "('ts, 'sn :: linorder, 'ty, 'mk, 'md, 'xe) etl_api" and i :: "('ts, 'sn, 'ty, 'md) Inner"
  assumes "inner_ok i"
  defines "i' \<equiv> fold restore_state (persist_states A i (table_states i)) inner_default"
  shows "bt_get (table_states i') t = (if surviving A i t = [] then None else Some (last (surviving A i t)))"
    and "hm_get (table_state_history i') t =
           (if length (surviving A i t) \<le> 1 then None else Some (butlast (surviving A i t)))"
    and "bt_ok (table_states i')" and "hm_ok (table_state_history i')"
proof -
  let ?ps = "persist_states A i (table_states i)"
  have d: "distinct (map fst (table_states i))"
    using assms(1) by (simp add: inner_ok_def bt_ok_distinct)
  have d1: "distinct (map fst (map (\<lambda>p. (pe_table_id p, f p)) (filter P ?ps)))" for f P
    using persist_states_distinct [OF d, of A i] by (simp add: comp_def distinct_map inj_on_def)
  note defs = i'_def fold_restore_state inner_default_def
  show "bt_get (table_states i') t = (if surviving A i t = [] then None else Some (last (surviving A i t)))"
    using bt.get_fold_put_distinct [OF bt_ok_Nil d1 [of pe_current "\<lambda>_. True"]]
      map_of_persist_states [OF d, of pe_current "\<lambda>_. True" A i t]
    by (simp add: defs surviving_def Let_def split: option.splits)
  have short: "butlast xs \<noteq> [] \<longleftrightarrow> \<not> length xs \<le> 1" for xs :: "'x list"
    by (cases xs) auto
  show "hm_get (table_state_history i') t =
           (if length (surviving A i t) \<le> 1 then None else Some (butlast (surviving A i t)))"
    using hm.get_fold_put_distinct [OF hm_ok_Nil d1 [of pe_history "\<lambda>p. pe_history p \<noteq> []"]]
      map_of_persist_states [OF d, of pe_history "\<lambda>p. pe_history p \<noteq> []" A i t]
    by (auto simp: defs surviving_def Let_def short split: option.splits)
  show "bt_ok (table_states i')"
    by (simp add: defs bt.get_fold_put del: fold_map)
  show "hm_ok (table_state_history i')"
    by (simp add: defs hm.get_fold_put del: fold_map)
qed

lemma restore_checkpoints_eq:
  "fold (\<lambda>(x, lsn). hm_insert (restore_worker x) lsn) (map (\<lambda>(w, lsn). (persist_worker w, lsn)) m) m0
   = fold (\<lambda>(k, v). hm_insert k v) m m0"
  by (induction m arbitrary: m0) (auto split: prod.splits)

lemma from_to_persisted:
  assumes "etl_laws A" and "inner_ok i"
  shows "\<exists>states history. (from_persisted A (to_persisted A i) :: ('be, _) EtlError + _)
           = Inr (i\<lparr>table_states := states, table_state_history := history, table_schemas := restored_schemas A (table_schemas i)\<rparr>) \<and>
         bt_ok states \<and> hm_ok history \<and>
         (\<forall>t. bt_get states t = (if surviving A i t = [] then None else Some (last (surviving A i t)))) \<and>
         (\<forall>t. hm_get history t =
            (if length (surviving A i t) \<le> 1 then None else Some (butlast (surviving A i t))))"
proof -
  let ?i = "fold restore_state (persist_states A i (table_states i)) inner_default"
  note ok = assms(2) [unfolded inner_ok_def]
  have schemas: "fold (put_restored A) (p_table_schemas (to_persisted A i)) [] = restored_schemas A (table_schemas i)"
    using fold_put_tables [OF assms(1), of "[]" "table_schemas i"] ok by (simp add: to_persisted_def)
  have meta: "restore_all_metadata A (p_destination_tables_metadata (to_persisted A i)) []
      = Inr (destination_tables_metadata i)"
    using ok by (simp add: to_persisted_def restore_all_metadata_eq [OF assms(1)]
        bt_rebuild [of "destination_tables_metadata i"])
  have chk: "fold (\<lambda>(x, lsn). hm_insert (restore_worker x) lsn)
      (p_replication_checkpoints (to_persisted A i)) [] = replication_checkpoints i"
    using ok by (simp add: to_persisted_def restore_checkpoints_eq hm_rebuild [of "replication_checkpoints i"])
  have "(from_persisted A (to_persisted A i) :: ('be, _) EtlError + _)
      = Inr (i\<lparr>table_states := table_states ?i, table_state_history := table_state_history ?i,
          table_schemas := restored_schemas A (table_schemas i)\<rparr>)"
    using schemas meta chk
    by (simp add: from_persisted_def fold_restore_state inner_default_def)
      (simp add: to_persisted_def fold_restore_state)
  with restored_states [OF assms(2)] show ?thesis by blast
qed

section \<open>Sequences of operations\<close>

datatype ('ts, 'sn, 'ty, 'md) store_op =
    UpdateStates "(TableId \<times> 'ts) list"
  | Rollback TableId
  | Upsert WorkerType u64
  | DeleteCheckpoint WorkerType
  | StoreMetadata TableId 'md
  | StoreSchema "('sn, 'ty) TableSchema"
  | Prune "(TableId, 'sn) btree_map"
  | Operate TableStateOperation

text \<open>The cache an operation asks for; its result is left out.\<close>

fun store_change ::
  "('ts, 'sn :: linorder, 'ty, 'mk, 'md, 'xe) etl_api \<Rightarrow> ('ts, 'sn, 'ty, 'md) store_op
     \<Rightarrow> (unit, 'ts, 'sn, 'ty, 'md, ('be, 'xe) EtlError) change" where
  "store_change A (UpdateStates us) i = update_table_states us i"
| "store_change A (Rollback t) i = map_sum id (apfst (\<lambda>_. ())) (rollback_table_state t i)"
| "store_change A (Upsert w lsn) i = map_sum id (apfst (\<lambda>_. ())) (upsert_replication_checkpoint w lsn i)"
| "store_change A (DeleteCheckpoint w) i = delete_replication_checkpoint w i"
| "store_change A (StoreMetadata t m) i = store_destination_table_metadata t m i"
| "store_change A (StoreSchema s) i = map_sum id (apfst (\<lambda>_. ())) (store_table_schema s i)"
| "store_change A (Prune rs) i = map_sum id (apfst (\<lambda>_. ())) (prune_table_schemas rs i)"
| "store_change A (Operate x) i = map_sum id (apfst (\<lambda>_. ())) (apply_table_state_operation A x i)"

definition store_step ::
  "('ts, 'sn :: linorder, 'ty, 'mk, 'md, 'xe) etl_api \<Rightarrow> ('ts, 'b, 'be) state_backend
     \<Rightarrow> ('ts, 'sn, 'ty, 'md) store_op \<Rightarrow> ('ts, 'sn, 'ty, 'md, 'b) StreamlingStore
     \<Rightarrow> (('be, 'xe) EtlError + unit) \<times> ('ts, 'sn, 'ty, 'md, 'b) StreamlingStore" where
  "store_step A B op st = mutate A B (store_change A op) st"

definition store_run ::
  "('ts, 'sn :: linorder, 'ty, 'mk, 'md, 'xe) etl_api \<Rightarrow> ('ts, 'b, 'be) state_backend
     \<Rightarrow> ('ts, 'sn, 'ty, 'md) store_op list \<Rightarrow> ('ts, 'sn, 'ty, 'md, 'b) StreamlingStore
     \<Rightarrow> ('ts, 'sn, 'ty, 'md, 'b) StreamlingStore" where
  "store_run A B ops st = fold (\<lambda>op st. snd (store_step A B op st)) ops st"

text \<open>What happens to a store: a write, a load of the persisted state, or a restart that loses the cache.\<close>

datatype ('ts, 'sn, 'ty, 'md) store_event = Write "('ts, 'sn, 'ty, 'md) store_op" | Load | Restart

fun store_event_step ::
  "('ts, 'sn :: linorder, 'ty, 'mk, 'md, 'xe) etl_api \<Rightarrow> ('ts, 'b, 'be) state_backend
     \<Rightarrow> ('ts, 'sn, 'ty, 'md) store_event \<Rightarrow> ('ts, 'sn, 'ty, 'md, 'b) StreamlingStore
     \<Rightarrow> ('ts, 'sn, 'ty, 'md, 'b) StreamlingStore" where
  "store_event_step A B (Write op) st = snd (store_step A B op st)"
| "store_event_step A B Load st = snd (hydrate A B st)"
| "store_event_step A B Restart st = st\<lparr>inner := inner_default\<rparr>"

definition store_history ::
  "('ts, 'sn :: linorder, 'ty, 'mk, 'md, 'xe) etl_api \<Rightarrow> ('ts, 'b, 'be) state_backend
     \<Rightarrow> ('ts, 'sn, 'ty, 'md) store_event list \<Rightarrow> ('ts, 'sn, 'ty, 'md, 'b) StreamlingStore
     \<Rightarrow> ('ts, 'sn, 'ty, 'md, 'b) StreamlingStore" where
  "store_history A B events st = fold (store_event_step A B) events st"

text \<open>A mutation either commits a change whose persisted form was put, or leaves the cache alone.\<close>

lemma mutate_cases:
  assumes "mutate A B f st = (r, st')"
  shows "key st' = key st \<and>
    (case r of
       Inl e \<Rightarrow> inner st' = inner st
     | Inr x \<Rightarrow> f (inner st) = Inr (x, inner st') \<and>
         put_kv B (key st) (to_persisted A (inner st')) (backend st) = (Inr (), backend st'))"
  using assms by (auto simp: mutate_def split: sum.splits prod.splits)

lemma inner_ok_set_state [intro]: "inner_ok i \<Longrightarrow> inner_ok (set_state t s i)"
  by (auto simp: inner_ok_def set_state_def split: option.splits)

lemma inner_ok_fold_set_state:
  "inner_ok i \<Longrightarrow> inner_ok (fold (\<lambda>x. set_state (f x) (g x)) xs i)"
  by (induction xs arbitrary: i) auto

lemma versions_ok_insert:
  assumes "v = [] \<or> versions_ok (ts_id s) v"
  shows "versions_ok (ts_id s) (bt_insert (ts_snapshot_id s) s v)"
proof -
  let ?w = "bt_insert (ts_snapshot_id s) s v"
  have "?w \<noteq> []" using fst_set_bt_insert [of "ts_snapshot_id s" s v] by fastforce
  moreover have "bt_ok ?w" using assms(1) by (auto simp: versions_ok_def)
  moreover have "ts_id x = ts_id s \<and> ts_snapshot_id x = sn" if "(sn, x) \<in> set ?w" for sn x
  proof -
    have "(sn, x) = (ts_snapshot_id s, s) \<or> (sn, x) \<in> set v"
      using that set_bt_insert_subset [of "ts_snapshot_id s" s v] by auto
    then show ?thesis using assms by (auto simp: versions_ok_def list_all_iff)
  qed
  ultimately show ?thesis by (auto simp: versions_ok_def list_all_iff)
qed

lemma put_schema_versions:
  assumes "bt_ok m" and "list_all (\<lambda>(t, v). versions_ok t v) m"
  shows "list_all (\<lambda>(t, v). versions_ok t v) (put_schema (ts_id s) (ts_snapshot_id s) s m)"
proof -
  let ?old = "case bt_get m (ts_id s) of None \<Rightarrow> [] | Some v \<Rightarrow> v"
  have "?old = [] \<or> versions_ok (ts_id s) ?old"
    using assms(1,2) by (auto simp: list_all_iff split: option.splits dest: map_of_SomeD)
  then have "versions_ok (ts_id s) (bt_insert (ts_snapshot_id s) s ?old)" by (rule versions_ok_insert)
  then show ?thesis
    using set_bt_insert_subset [of "ts_id s" "bt_insert (ts_snapshot_id s) s ?old" m] assms(2)
    by (fastforce simp: put_schema_def list_all_iff)
qed

lemma prune_loop_eq:
  "snd (prune_loop rs m n) = map (\<lambda>(t, v). (t, prune_snapshots (bt_get rs t) v)) m"
  by (induction rs m n rule: prune_loop.induct) (simp_all add: case_prod_beta Let_def)

lemma versions_ok_prune:
  assumes "versions_ok t v"
  shows "versions_ok t (prune_snapshots r v)"
proof (cases "\<exists>k e. r = Some k \<and> bt_last_upto k v = Some e")
  case True
  then obtain k j s where r: "r = Some k" "bt_last_upto k v = Some (j, s)" by auto
  then have "bt_get v j = Some s"
    using assms by (intro bt_last_upto_Some) (auto simp: versions_ok_def)
  then have "bt_retain (\<lambda>x. x \<ge> j) v \<noteq> []"
    by (force simp: bt_retain_def filter_empty_conv dest!: map_of_SomeD)
  with assms r show ?thesis
    by (auto simp: versions_ok_def prune_snapshots_def list_all_iff bt_retain_def [of _ v] bt_ok_filter)
next
  case False
  then show ?thesis using assms by (auto simp: prune_snapshots_def split: option.splits)
qed

lemma inner_ok_change:
  assumes "inner_ok i" and "store_change A op i = Inr (x, i')"
  shows "inner_ok i'"
proof (cases op)
  case (UpdateStates us)
  with assms show ?thesis
    using inner_ok_fold_set_state [of i fst snd us]
    by (auto simp: update_table_states_def case_prod_unfold)
next
  case (StoreSchema s)
  with assms show ?thesis
    using put_schema_versions [of "table_schemas i" s]
    by (auto simp: store_table_schema_def inner_ok_def put_schema_def)
next
  case (Prune rs)
  with assms(2) have "i' = i\<lparr>table_schemas := snd (prune_loop rs (table_schemas i) 0)\<rparr>"
    by (auto simp: prune_table_schemas_def case_prod_beta)
  with assms(1) show ?thesis
    by (auto simp: inner_ok_def prune_loop_eq list_all_iff versions_ok_prune bt_ok_def comp_def
        case_prod_beta)
next
  case (Operate x)
  have "inner_ok (fold (\<lambda>t. set_state t (state_Init A)) (map fst (table_states i)) i)"
    using inner_ok_fold_set_state [OF assms(1), of "\<lambda>t. t" "\<lambda>_. state_Init A"] by simp
  with assms Operate show ?thesis
    by (cases x) (auto simp: inner_ok_def Let_def bt_remove_def bt_ok_filter list_all_iff)
qed (use assms in \<open>auto simp: inner_ok_def rollback_table_state_def upsert_replication_checkpoint_def
    delete_replication_checkpoint_def store_destination_table_metadata_def Let_def split: option.splits if_splits\<close>)

lemma inner_ok_step:
  assumes "inner_ok (inner st)"
  shows "inner_ok (inner (snd (store_step A B op st)))"
proof -
  obtain r st' where step: "mutate A B (store_change A op) st = (r, st')"
    by (cases "mutate A B (store_change A op) st")
  from mutate_cases [OF step] assms show ?thesis
    by (cases r) (auto simp: store_step_def step intro: inner_ok_change)
qed

text \<open>Whatever is in the backend, the cache that is loaded from it is well formed.\<close>

lemma put_restored_ok:
  assumes "etl_laws A" and "bt_ok m" and "list_all (\<lambda>(t, v). versions_ok t v) m"
  shows "bt_ok (put_restored A q m) \<and> list_all (\<lambda>(t, v). versions_ok t v) (put_restored A q m)"
proof -
  have "ps_table_id q = ts_id (restore_schema A q)" "restore_snapshot_id A (ps_snapshot_id q) = ts_snapshot_id (restore_schema A q)"
    using assms(1) by (simp_all add: etl_laws_def restore_schema_def)
  with put_schema_versions [OF assms(2,3), of "restore_schema A q"] assms(2) show ?thesis by (simp add: put_schema_def)
qed

lemma fold_put_restored_ok:
  "etl_laws A \<Longrightarrow> bt_ok m \<Longrightarrow> list_all (\<lambda>(t, v). versions_ok t v) m \<Longrightarrow>
   bt_ok (fold (put_restored A) qs m) \<and> list_all (\<lambda>(t, v). versions_ok t v) (fold (put_restored A) qs m)"
proof (induction qs arbitrary: m)
  case (Cons q qs)
  from put_restored_ok [OF Cons.prems, of q] Cons.IH [OF Cons.prems(1)] show ?case by simp
qed simp

lemma restore_all_metadata_ok: "restore_all_metadata A ps m = Inr m' \<Longrightarrow> bt_ok m \<Longrightarrow> bt_ok m'"
  by (induction ps arbitrary: m) (auto simp: outcome)

lemma fold_insert_ok:
  "bt_ok bm \<Longrightarrow> bt_ok (fold (\<lambda>(k, v). bt_insert k v) es bm)"
  "hm_ok hm \<Longrightarrow> hm_ok (fold (\<lambda>(k, v). hm_insert k v) es' hm)"
  by (induction es arbitrary: bm, auto, induction es' arbitrary: hm, auto)

lemma from_persisted_ok:
  assumes "etl_laws A" and "from_persisted A p = Inr i"
  shows "inner_ok i"
proof -
  have checkpoints: "hm_ok m \<Longrightarrow> hm_ok (fold (\<lambda>(x, lsn). hm_insert (restore_worker x) lsn) cs m)" for m cs
    by (induction cs arbitrary: m) auto
  show ?thesis
    using assms(2) fold_put_restored_ok [OF assms(1), of "[]" "p_table_schemas p"]
      restore_all_metadata_ok [of A "p_destination_tables_metadata p" "[]"]
    by (auto simp: from_persisted_def inner_ok_def fold_restore_state inner_default_def outcome Let_def fold_insert_ok checkpoints)
qed

lemma inner_ok_event:
  assumes "etl_laws A" and "inner_ok (inner st)"
  shows "inner_ok (inner (store_event_step A B event st))"
proof (cases event)
  case Load
  with assms show ?thesis by (auto simp: hydrate_def split: sum.split intro: from_persisted_ok)
qed (use assms inner_ok_step in auto)

lemma inner_ok_history:
  "etl_laws A \<Longrightarrow> inner_ok (inner st) \<Longrightarrow> inner_ok (inner (store_history A B events st))"
  unfolding store_history_def by (induction events arbitrary: st) (auto intro: inner_ok_event)

subsection \<open>Checkpoints, pruning and rollback\<close>

definition forgets :: "WorkerType \<Rightarrow> ('ts, 'sn, 'ty, 'md) store_op \<Rightarrow> bool" where
  "forgets w op \<longleftrightarrow>
     op = DeleteCheckpoint w \<or> (op = Operate ResetForResync \<and> w = Apply) \<or>
     (\<exists>t. w = TableSync t \<and> (op = Operate (PrepareForCopy t) \<or> op = Operate (DeleteTable t)))"

lemma fold_set_state_checkpoints:
  "replication_checkpoints (fold (\<lambda>x. set_state (f x) (g x)) xs i) = replication_checkpoints i"
  by (induction xs arbitrary: i) (simp_all add: set_state_def)

lemma change_keeps_checkpoint:
  assumes "\<not> forgets w op" and "store_change A op i = Inr (x, i')"
    and "hm_get (replication_checkpoints i) w = Some a"
  shows "\<exists>b \<ge> a. hm_get (replication_checkpoints i') w = Some b"
proof (cases op)
  case (UpdateStates us)
  with assms show ?thesis
    using fold_set_state_checkpoints [of fst snd us i]
    by (auto simp: update_table_states_def case_prod_unfold)
next
  case (Operate y)
  with assms show ?thesis
    using fold_set_state_checkpoints [of "\<lambda>t. t" "\<lambda>_. state_Init A" "map fst (table_states i)" i]
    by (cases y) (auto simp: forgets_def Let_def)
qed (use assms in \<open>auto simp: rollback_table_state_def upsert_replication_checkpoint_def forgets_def
    delete_replication_checkpoint_def store_destination_table_metadata_def store_table_schema_def
    prune_table_schemas_def Let_def split: option.splits if_splits prod.splits\<close>)

lemma run_keeps_checkpoint:
  assumes "\<forall>op \<in> set ops. \<not> forgets w op" and "get_replication_checkpoint w st = Some a"
  shows "\<exists>b \<ge> a. get_replication_checkpoint w (store_run A B ops st) = Some b"
  using assms
proof (induction ops arbitrary: st a)
  case Nil
  then show ?case by (auto simp: store_run_def)
next
  case (Cons op ops)
  obtain r st' where step: "mutate A B (store_change A op) st = (r, st')"
    by (cases "mutate A B (store_change A op) st")
  have "\<exists>b \<ge> a. get_replication_checkpoint w st' = Some b"
    using mutate_cases [OF step] Cons.prems change_keeps_checkpoint [of w op A "inner st"]
    by (cases r) (auto simp: get_replication_checkpoint_def)
  then obtain b where "a \<le> b" and "get_replication_checkpoint w st' = Some b" by blast
  with Cons.IH [of st' b] Cons.prems step show ?case
    by (fastforce simp: store_run_def store_step_def)
qed

lemma bt_last_upto_retain:
  assumes "bt_ok v" and "bt_last_upto r v = Some (j, s)" and "r \<le> sn"
  shows "bt_last_upto sn (bt_retain (\<lambda>x. x \<ge> j) v) = bt_last_upto sn v"
proof -
  note j = bt_last_upto_Some [OF assms(1,2)]
  have "j \<le> sn" using j(2) assms(3) by (rule order_trans)
  then obtain k x where k: "bt_last_upto sn v = Some (k, x)"
    using j(1) bt_last_upto_None [of sn v] by (cases "bt_last_upto sn v") auto
  note k' = bt_last_upto_Some [OF assms(1) k]
  have "j \<le> k" using j(1) \<open>j \<le> sn\<close> by (intro k'(3)) auto
  have "bt_last_upto sn (bt_retain (\<lambda>x. x \<ge> j) v) = Some (k, x)"
    using assms(1) k'(1,2) \<open>j \<le> k\<close> by (intro bt_last_upto_eqI) (auto intro!: k'(3) split: if_splits)
  with k show ?thesis by simp
qed

lemma prune_snapshots_lookup:
  assumes "bt_ok v" and "case ret of None \<Rightarrow> True | Some r \<Rightarrow> r \<le> sn"
  shows "bt_last_upto sn (prune_snapshots ret v) = bt_last_upto sn v"
  using assms bt_last_upto_retain [OF assms(1)]
  by (auto simp: prune_snapshots_def split: option.splits)

definition version_count :: "('ts, 'sn, 'ty, 'md) Inner \<Rightarrow> nat" where
  "version_count i = sum_list (map length (map snd (table_schemas i)))"

lemma length_prune_snapshots: "length (prune_snapshots r v) \<le> length v"
  by (auto simp: prune_snapshots_def bt_retain_def split: option.splits)

lemma prune_loop_count:
  "fst (prune_loop rs m n) + of_nat (sum_list (map length (map snd (snd (prune_loop rs m n)))))
   = n + of_nat (sum_list (map length (map snd m)))"
proof (induction rs m n rule: prune_loop.induct)
  case (2 rs t v m n)
  have "of_nat (length v - length (prune_snapshots (map_of rs t) v))
      + of_nat (length (prune_snapshots (map_of rs t) v)) = (of_nat (length v) :: u64)"
    using length_prune_snapshots [of "map_of rs t" v] by (simp flip: of_nat_add)
  with 2 show ?case by (simp add: case_prod_beta Let_def algebra_simps)
qed simp

lemma bt_get_map_snd: "bt_get (map (\<lambda>(k, v). (k, f k v)) m) k = map_option (f k) (bt_get m k)"
  by (induction m) auto

definition state_history :: "('ts, 'sn, 'ty, 'md) Inner \<Rightarrow> TableId \<Rightarrow> 'ts list" where
  "state_history i t = (case hm_get (table_state_history i) t of None \<Rightarrow> [] | Some h \<Rightarrow> h)"

section \<open>Properties\<close>

text \<open>A concrete library and backend, for the witnesses.\<close>

definition sample_api ::
  "(nat, u64, u32, u8 list, string \<times> (u64, u8 list) DestinationTableSchema, unit) etl_api" where
  "sample_api =
     \<lparr>should_store = (\<lambda>s. s \<noteq> 9), state_Init = 0, commit_lsn = id, message_lsn = id,
      snapshot_new = (\<lambda>c m. c), ty_oid = id, type_from_oid = Some, type_TEXT = 25,
      column_new = (\<lambda>n ty m p nu pk d.
        \<lparr>cs_name = n, cs_typ = ty, cs_modifier = m, cs_ordinal_position = p,
         cs_primary_key_ordinal_position = pk, cs_nullable = nu, cs_default_expression = d\<rparr>),
      table_schema_new = (\<lambda>t sc n cols sn.
        \<lparr>ts_id = t, ts_schema = sc, ts_name = n, ts_snapshot_id = sn, ts_column_schemas = cols\<rparr>),
      mask_to_bytes = id, mask_from_bytes = id, md_table_id = fst, md_table_schema = snd,
      new_creating = (\<lambda>n s k. (n, Creating s k)), new_applied = (\<lambda>n s k. (n, Applied s k)),
      with_schema_change = (\<lambda>m s k.
        (case snd m of Applied ps pk \<Rightarrow> Inr (fst m, Applying s k ps pk) | _ \<Rightarrow> Inl ()))\<rparr>"

definition sample_backend ::
  "(nat, string \<times> (string \<rightharpoonup> nat PersistedEtlState), unit) state_backend" where
  "sample_backend =
     \<lparr>put_kv = (\<lambda>k v b. (Inr (), (fst b, (snd b)(fst b @ k \<mapsto> v)))),
      get_kv = (\<lambda>k b. Inr (snd b (fst b @ k))), set_prefix = (\<lambda>p b. (p, snd b))\<rparr>"

lemma sample_laws [simp]: "etl_laws sample_api" "backend_laws sample_backend"
  by (auto simp: etl_laws_def backend_laws_def sample_api_def sample_backend_def)

text \<open>
  C8: a restart resumes from what was committed. After any history of writes, loads and restarts, failed
  ones included, and one write that succeeded, a fresh cache hydrated from the backend succeeds and
  holds the same destination metadata and checkpoints as the lost one, and the same schema versions up to
  column types that the library does not know by their identifier, which are read as text; of every
  table's states it holds those that may be stored, the last of them as the current one.
\<close>

theorem restart_restores_cache:
  fixes B :: "('ts, 'b, 'be) state_backend"
  assumes "etl_laws A" and "backend_laws B"
    and "store_step A B op (store_history A B events (store_new B b slot)) = (Inr (), st)"
  shows "\<exists>i. hydrate A B (st\<lparr>inner := inner_default\<rparr>) = (Inr (), st\<lparr>inner := i\<rparr>) \<and>
           table_schemas i = restored_schemas A (table_schemas (inner st)) \<and>
           destination_tables_metadata i = destination_tables_metadata (inner st) \<and>
           replication_checkpoints i = replication_checkpoints (inner st) \<and>
           (\<forall>t. bt_get (table_states i) t =
              (if surviving A (inner st) t = [] then None else Some (last (surviving A (inner st) t)))) \<and>
           (\<forall>t. hm_get (table_state_history i) t =
              (if length (surviving A (inner st) t) \<le> 1 then None
               else Some (butlast (surviving A (inner st) t))))"
proof -
  let ?st0 = "store_history A B events (store_new B b slot)"
  have ok0: "inner_ok (inner ?st0)"
    by (intro inner_ok_history assms(1)) (simp add: store_new_def)
  have ok: "inner_ok (inner st)"
    using inner_ok_step [OF ok0, of A B op] assms(3) by simp
  have put: "key st = key ?st0"
      "put_kv B (key ?st0) (to_persisted A (inner st)) (backend ?st0) = (Inr (), backend st)"
    using mutate_cases [OF assms(3) [unfolded store_step_def]] by simp_all
  then have get: "get_kv B (key st) (backend st) = Inr (Some (to_persisted A (inner st)))"
    using assms(2) by (simp add: backend_laws_def)
  then show ?thesis
    using from_to_persisted [where 'be = 'be, OF assms(1) ok] by (auto simp: hydrate_def)
qed

text \<open>The history writes, restarts and loads before the last write.\<close>

definition sample_history :: "(nat, u64, u32, string \<times> (u64, u8 list) DestinationTableSchema) store_event list" where
  "sample_history = [Write (UpdateStates [(1, 4), (1, 9)]), Write (Upsert Apply 7), Restart, Load]"

theorem restart_restores_cache_witness:
  "\<exists>st i. store_step sample_api sample_backend (Upsert Apply 3)
             (store_history sample_api sample_backend sample_history (store_new sample_backend ([], Map.empty) ''slot'')) = (Inr (), st) \<and>
        hydrate sample_api sample_backend (st\<lparr>inner := inner_default\<rparr>) = (Inr (), st\<lparr>inner := i\<rparr>) \<and>
        replication_checkpoints i = [(Apply, 7)] \<and> bt_get (table_states i) 1 = Some 4"
proof -
  let ?st = "store_history sample_api sample_backend sample_history (store_new sample_backend ([], Map.empty) ''slot'')"
  let ?st' = "snd (store_step sample_api sample_backend (Upsert Apply 3) ?st)"
  have step: "store_step sample_api sample_backend (Upsert Apply 3) ?st = (Inr (), ?st')"
    by (simp add: store_step_def mutate_def sample_backend_def upsert_replication_checkpoint_def Let_def)
  have inner: "inner ?st' = \<lparr>table_states = [(1, 4)], table_state_history = [], table_schemas = [],
      destination_tables_metadata = [], replication_checkpoints = [(Apply, 7)]\<rparr>"
    by (simp add: store_history_def sample_history_def store_step_def mutate_def sample_backend_def store_new_def hydrate_def
        inner_default_def upsert_replication_checkpoint_def update_table_states_def set_state_def sample_api_def
        to_persisted_def from_persisted_def storable_states_def restore_state_def persist_worker_def restore_worker_def)
  have "surviving sample_api (inner ?st') 1 = [4]"
    by (simp only: inner surviving_def storable_states_def) (simp add: sample_api_def)
  then show ?thesis
    using restart_restores_cache [OF sample_laws step] step inner by fastforce
qed

text \<open>
  C9: replication checkpoints never move back. Once an upsert has reported a position, the stored
  position is at least the one asked for and the one reported, whatever operations follow, failed
  ones included, until an operation that discards that worker's checkpoint.
\<close>

theorem checkpoint_never_regresses:
  assumes "mutate A B (upsert_replication_checkpoint w lsn) st = (Inr x, st1)"
    and "\<forall>op \<in> set ops. \<not> forgets w op"
  shows "\<exists>b. get_replication_checkpoint w (store_run A B ops st1) = Some b \<and> lsn \<le> x \<and> x \<le> b"
proof -
  from mutate_cases [OF assms(1)] have "inner st1 = (inner st)\<lparr>replication_checkpoints :=
        hm_insert w x (replication_checkpoints (inner st))\<rparr>" and "lsn \<le> x"
    by (auto simp: upsert_replication_checkpoint_def Let_def split: option.splits if_splits)
  then have "get_replication_checkpoint w st1 = Some x" and "lsn \<le> x"
    by (simp_all add: get_replication_checkpoint_def)
  with run_keeps_checkpoint [OF assms(2)] show ?thesis by blast
qed

theorem checkpoint_never_regresses_witness:
  "\<exists>b. get_replication_checkpoint Apply
         (store_run sample_api sample_backend [Upsert Apply 3, DeleteCheckpoint (TableSync 1)]
           (snd (mutate sample_api sample_backend (upsert_replication_checkpoint Apply 7)
             (store_new sample_backend ([], Map.empty) ''slot'')))) = Some b \<and> 7 \<le> b"
proof -
  let ?m = "mutate sample_api sample_backend (upsert_replication_checkpoint Apply 7)
             (store_new sample_backend ([], Map.empty) ''slot'')"
  have "?m = (Inr 7, snd ?m)"
    by (simp add: mutate_def sample_backend_def upsert_replication_checkpoint_def store_new_def
        inner_default_def)
  from checkpoint_never_regresses [OF this, of "[Upsert Apply 3, DeleteCheckpoint (TableSync 1)]"]
  show ?thesis by (auto simp: forgets_def)
qed

text \<open>
  pruning loses no schema a reader may still ask for. For every table without a retention
  boundary, and for every snapshot at or after the table's boundary, the newest schema version at
  the snapshot is the same before and after; the count returned is the number of versions removed.
\<close>

theorem prune_keeps_lookups:
  assumes "inner_ok i" and "prune_table_schemas rs i = Inr (n, i')"
  shows "(\<forall>t sn. (case bt_get rs t of None \<Rightarrow> True | Some r \<Rightarrow> r \<le> sn) \<longrightarrow>
            schema_at t sn i' = schema_at t sn i) \<and>
         n + of_nat (version_count i') = of_nat (version_count i)"
proof -
  have i': "i' = i\<lparr>table_schemas := snd (prune_loop rs (table_schemas i) 0)\<rparr>"
    and n: "n = fst (prune_loop rs (table_schemas i) 0)"
    using assms(2) by (auto simp: prune_table_schemas_def case_prod_beta)
  have "bt_ok v" if "bt_get (table_schemas i) t = Some v" for t v
    using assms(1) map_of_SomeD [OF that] by (auto simp: inner_ok_def list_all_iff versions_ok_def)
  then have "schema_at t sn i' = schema_at t sn i"
    if "case bt_get rs t of None \<Rightarrow> True | Some r \<Rightarrow> r \<le> sn" for t sn
    using that by (cases "bt_get (table_schemas i) t")
      (simp_all add: i' schema_at_def prune_loop_eq bt_get_map_snd prune_snapshots_lookup)
  moreover have "n + of_nat (version_count i') = of_nat (version_count i)"
    using prune_loop_count [of rs "table_schemas i" 0] by (simp add: n i' version_count_def)
  ultimately show ?thesis by blast
qed

text \<open>
  rolling a table back undoes its last update: it returns the state the update replaced, and the
  states and histories of all tables are what they were before the update.
\<close>

theorem rollback_undoes_update:
  assumes "inner_ok i" and "bt_get (table_states i) t = Some c"
    and "update_table_states [(t, s)] i = Inr ((), i1)"
  shows "\<exists>i2. rollback_table_state t i1 = Inr (c, i2) \<and> table_states i2 = table_states i \<and>
           state_history i2 = state_history i"
proof -
  let ?h = "state_history i t"
  have i1: "i1 = i\<lparr>table_state_history := hm_insert t (?h @ [c]) (table_state_history i),
      table_states := bt_insert t s (table_states i)\<rparr>"
    using assms(2,3) by (simp add: update_table_states_def set_state_def state_history_def)
  let ?i2 = "i1\<lparr>table_state_history := hm_insert t ?h (table_state_history i1),
      table_states := bt_insert t c (table_states i1)\<rparr>"
  have "rollback_table_state t i1 = Inr (c, ?i2)" by (simp add: rollback_table_state_def i1)
  moreover have "table_states ?i2 = table_states i"
    using assms(1,2) by (intro bt_get_eqI) (auto simp: i1 inner_ok_def)
  moreover have "state_history ?i2 = state_history i"
    by (auto simp: i1 fun_eq_iff state_history_def)
  ultimately show ?thesis by blast
qed

text \<open>Witnesses on a cache with one table in state 3 and three schema versions.\<close>

definition sample_schema :: "u64 \<Rightarrow> (u64, u32) TableSchema" where
  "sample_schema sn =
     \<lparr>ts_id = 1, ts_schema = ''public'', ts_name = ''users'', ts_snapshot_id = sn,
      ts_column_schemas = []\<rparr>"

definition sample_inner :: "(nat, u64, u32, string \<times> (u64, u8 list) DestinationTableSchema) Inner" where
  "sample_inner =
     \<lparr>table_states = [(1, 3)], table_state_history = [],
      table_schemas = [(1, [(10, sample_schema 10), (20, sample_schema 20), (30, sample_schema 30)])],
      destination_tables_metadata = [], replication_checkpoints = []\<rparr>"

lemma sample_inner_ok: "inner_ok sample_inner"
  by (simp add: inner_ok_def sample_inner_def versions_ok_def bt_ok_def hm_ok_def sample_schema_def)

theorem prune_keeps_lookups_witness:
  "\<exists>n i'. prune_table_schemas [(1, 25)] sample_inner = (Inr (n, i') :: (unit, unit) EtlError + _) \<and>
     schema_at 1 27 i' = schema_at 1 27 sample_inner \<and>
     n + of_nat (version_count i') = of_nat (version_count sample_inner)"
proof -
  obtain n i' where p: "prune_table_schemas [(1, 25)] sample_inner = (Inr (n, i') :: (unit, unit) EtlError + _)"
    by (cases "prune_loop [(1, 25)] (table_schemas sample_inner) 0")
      (auto simp: prune_table_schemas_def)
  moreover have "schema_at 1 27 i' = schema_at 1 27 sample_inner \<and>
      n + of_nat (version_count i') = of_nat (version_count sample_inner)"
    using prune_keeps_lookups [OF sample_inner_ok p] by (auto split: if_splits)
  ultimately show ?thesis by blast
qed

theorem rollback_undoes_update_witness:
  "\<exists>i1 i2. update_table_states [(1, 8)] sample_inner = (Inr ((), i1) :: (unit, unit) EtlError + _) \<and>
     rollback_table_state 1 i1 = (Inr (3, i2) :: (unit, unit) EtlError + _) \<and> table_states i2 = table_states sample_inner"
proof -
  obtain i1 where "update_table_states [(1, 8)] sample_inner = (Inr ((), i1) :: (unit, unit) EtlError + _)"
    by (simp add: update_table_states_def)
  moreover have "bt_get (table_states sample_inner) 1 = Some 3" by (simp add: sample_inner_def)
  ultimately show ?thesis
    using rollback_undoes_update [OF sample_inner_ok, of 1 3 8 i1] by blast
qed

end
