(* ===== verification/PluginOptions.thy ===== *)
theory PluginOptions
  imports OrderedMaps
begin

text \<open>
  Plugin options (\<open>src/src/utils/plugin_options.rs\<close>): the YAML options of a plugin with the
  environment variables that override them.

  The process environment is the argument \<open>env\<close>, \<open>None\<close> for a variable that is not set to
  text. A parser stands for the \<open>FromStr\<close> instance of the option's type and returns the text of
  its error. Log lines are not modelled.
\<close>

type_synonym environment = "string \<Rightarrow> string option"

record PluginOptions =
  po_options :: "(string, string) hash_map"
  po_env_prefix :: string
  po_plugin_name :: string

definition plugin_options_new :: "(string, string) hash_map \<Rightarrow> string \<Rightarrow> string \<Rightarrow> PluginOptions" where
  "plugin_options_new options plugin_name env_prefix =
     \<lparr>po_options = options, po_env_prefix = env_prefix, po_plugin_name = plugin_name\<rparr>"

definition env_key :: "PluginOptions \<Rightarrow> string \<Rightarrow> string" where
  "env_key o' k = po_env_prefix o' @ ''__'' @ to_uppercase k"

definition lookup :: "environment \<Rightarrow> PluginOptions \<Rightarrow> string \<Rightarrow> string option" where
  "lookup env o' k =
     (case env (env_key o' k) of Some v \<Rightarrow> Some v | None \<Rightarrow> hm_get (po_options o') k)"

definition filter_non_empty :: "string option \<Rightarrow> string option" where
  "filter_non_empty x = (case x of None \<Rightarrow> None | Some v \<Rightarrow> if v = [] then None else Some v)"

definition lookup_non_empty :: "environment \<Rightarrow> PluginOptions \<Rightarrow> string \<Rightarrow> string option" where
  "lookup_non_empty env o' k = filter_non_empty (lookup env o' k)"

definition env_non_empty :: "environment \<Rightarrow> PluginOptions \<Rightarrow> string \<Rightarrow> string option" where
  "env_non_empty env o' k = filter_non_empty (env (env_key o' k))"

definition get_option :: "environment \<Rightarrow> PluginOptions \<Rightarrow> string \<Rightarrow> PluginError + string" where
  "get_option env o' k =
     ok_or (Internal (po_plugin_name o' @ '': required option '' @ quoted k @ '' is not specified''))
       (filter_non_empty (lookup env o' k))"

definition get_or :: "environment \<Rightarrow> PluginOptions \<Rightarrow> string \<Rightarrow> string \<Rightarrow> string" where
  "get_or env o' k d = (case lookup env o' k of None \<Rightarrow> d | Some v \<Rightarrow> v)"

definition parse_value ::
  "(string \<Rightarrow> string + 'v) \<Rightarrow> PluginOptions \<Rightarrow> string \<Rightarrow> string \<Rightarrow> PluginError + 'v" where
  "parse_value parser o' what v =
     map_err (\<lambda>e. Internal (po_plugin_name o' @ '': invalid '' @ what @ '' '' @ quoted v @ '': '' @ e))
       (parser v)"

definition get_parsed ::
  "environment \<Rightarrow> (string \<Rightarrow> string + 'v) \<Rightarrow> PluginOptions \<Rightarrow> string \<Rightarrow> string \<Rightarrow> PluginError + 'v" where
  "get_parsed env parser o' k d = parse_value parser o' k (get_or env o' k d)"

definition get_parsed_or ::
  "environment \<Rightarrow> (string \<Rightarrow> string + 'v) \<Rightarrow> PluginOptions \<Rightarrow> string \<Rightarrow> 'v \<Rightarrow> PluginError + 'v" where
  "get_parsed_or env parser o' k d =
     (case lookup env o' k of None \<Rightarrow> Inr d | Some v \<Rightarrow> parse_value parser o' k v)"

definition get_env_only_secret :: "environment \<Rightarrow> PluginOptions \<Rightarrow> string \<Rightarrow> PluginError + string option" where
  "get_env_only_secret env o' k =
     (if hm_get (po_options o') k \<noteq> None
      then Inl (Internal (po_plugin_name o' @ '': '' @ quoted k
             @ '' must be set through the environment variable '' @ env_key o' k
             @ '', not in YAML (Streamling logs YAML options at startup)''))
      else Inr (filter_non_empty (env (env_key o' k))))"

definition get_secret :: "environment \<Rightarrow> PluginOptions \<Rightarrow> string \<Rightarrow> string option" where
  "get_secret env o' k =
     (case env (env_key o' k) of Some v \<Rightarrow> Some v | None \<Rightarrow> hm_get (po_options o') k)"

section \<open>Effective options\<close>

text \<open>
  The options with every key of \<open>ks\<close> that the environment sets written into them. Reading a key of
  \<open>ks\<close> from the effective options in an empty environment is reading it from the original ones.
\<close>

definition effective :: "environment \<Rightarrow> PluginOptions \<Rightarrow> string list \<Rightarrow> PluginOptions" where
  "effective env o' ks =
     o'\<lparr>po_options :=
         fold (\<lambda>k m. case env (env_key o' k) of None \<Rightarrow> m | Some v \<Rightarrow> hm_insert k v m) ks (po_options o')\<rparr>"

lemma effective_fold:
  "hm_get (fold (\<lambda>k m. case env (f k) of None \<Rightarrow> m | Some v \<Rightarrow> hm_insert k v m) ks m) k =
     (if k \<in> set ks \<and> env (f k) \<noteq> None then env (f k) else hm_get m k)"
  by (induction ks arbitrary: m) (auto split: option.splits)

lemma lookup_effective:
  "k \<in> set ks \<Longrightarrow> lookup (\<lambda>_. None) (effective env o' ks) k = lookup env o' k"
  by (auto simp: lookup_def effective_def effective_fold split: option.splits)

lemma effective_name [simp]: "po_plugin_name (effective env o' ks) = po_plugin_name o'"
  by (simp add: effective_def)

lemma parse_value_effective [simp]: "parse_value parser (effective env o' ks) = parse_value parser o'"
  by (simp add: fun_eq_iff parse_value_def)

lemma get_secret_lookup: "get_secret = lookup"
  by (simp add: fun_eq_iff get_secret_def lookup_def)

text \<open>Every reader but the environment-only ones depends on \<open>lookup\<close> alone.\<close>

lemma readers_effective:
  assumes "k \<in> set ks"
  shows "get_option (\<lambda>_. None) (effective env o' ks) k = get_option env o' k"
    and "get_or (\<lambda>_. None) (effective env o' ks) k d = get_or env o' k d"
    and "get_parsed_or (\<lambda>_. None) parser (effective env o' ks) k d' = get_parsed_or env parser o' k d'"
    and "get_parsed (\<lambda>_. None) parser (effective env o' ks) k d = get_parsed env parser o' k d"
    and "get_secret (\<lambda>_. None) (effective env o' ks) k = get_secret env o' k"
  using lookup_effective [OF assms, of env o']
  by (simp_all add: get_option_def get_or_def get_parsed_or_def get_parsed_def get_secret_lookup
      split: option.splits)

end
