(* ===== verification/CdcConfig.thy ===== *)
theory CdcConfig
  imports PluginOptions
begin

text \<open>
  Option parsing of the \<open>postgres_cdc_source\<close> (\<open>src/src/postgres_cdc/config.rs\<close>): the plugin
  options become a pipeline configuration and the source's own settings, the first invalid option
  in reading order being the error.

  Floating point thresholds are values of a type variable, with their parser, their defaults and
  their validation taken from the replication library through \<open>etl_config\<close>; the digest of the slot
  name is its field \<open>sha256\<close>. Configuration fields that are set to the library's defaults and
  never read by the source are left out.
\<close>

section \<open>Types\<close>

definition PLUGIN_NAME :: string where
  "PLUGIN_NAME = ''postgres_cdc_source''"

definition ENV_PREFIX :: string where
  "ENV_PREFIX = ''STREAMLING__PLUGIN__POSTGRES_CDC_SOURCE''"

definition DEFAULT_PORT :: nat where
  "DEFAULT_PORT = 5432"

record GroupIdentity =
  gi_host :: string
  gi_port :: nat
  gi_database :: string
  gi_username :: string
  gi_publication_name :: string

record TlsConfig =
  tls_trusted_root_certs :: string
  tls_enabled :: bool

record PgConnectionConfig =
  pg_host :: string
  pg_port :: nat
  pg_name :: string
  pg_username :: string
  pg_password :: "string option"
  pg_tls :: TlsConfig

record 'f MemoryBackpressureConfig =
  mb_activate_threshold :: 'f
  mb_resume_threshold :: 'f

record 'f PipelineConfig =
  pl_id :: u64
  pl_publication_name :: string
  pl_connection :: PgConnectionConfig
  pl_batch_max_fill_ms :: nat
  pl_batch_max_bytes :: nat
  pl_table_error_retry_delay_ms :: nat
  pl_table_error_retry_max_attempts :: nat
  pl_max_table_sync_workers :: nat
  pl_memory_refresh_interval_ms :: nat
  pl_memory_backpressure :: "'f MemoryBackpressureConfig option"
  pl_run_source_migrations :: bool

record SourceSettings =
  table_schema :: string
  table_name :: string
  slot_name :: string
  batch_size :: nat
  batch_interval_ms :: nat
  max_buffered_units :: nat
  auto_create_publication :: bool
  emit_update_before_row :: bool

record 'f ParsedConfig =
  pcf_pipeline :: "'f PipelineConfig"
  pcf_settings :: SourceSettings

record 'f etl_config =
  parse_f64 :: "string \<Rightarrow> string + 'f"
  DEFAULT_ACTIVATE_THRESHOLD :: 'f
  DEFAULT_RESUME_THRESHOLD :: 'f
  validate :: "'f MemoryBackpressureConfig \<Rightarrow> string + unit"
  sha256 :: "string \<Rightarrow> u8 list"

section \<open>Parsing\<close>

text \<open>\<open>u64::from_be_bytes\<close>.\<close>

definition from_be_bytes :: "u8 list \<Rightarrow> u64" where
  "from_be_bytes bs = fold (\<lambda>b acc. acc * 256 + ucast b) bs 0"

definition hash_slot_name :: "'f etl_config \<Rightarrow> string \<Rightarrow> u64" where
  "hash_slot_name C s = from_be_bytes (take 8 (sha256 C s))"

definition group_identity :: "'f ParsedConfig \<Rightarrow> GroupIdentity" where
  "group_identity p =
     (let c = pl_connection (pcf_pipeline p) in
      \<lparr>gi_host = pg_host c, gi_port = pg_port c, gi_database = pg_name c, gi_username = pg_username c,
       gi_publication_name = pl_publication_name (pcf_pipeline p)\<rparr>)"

definition connection :: "environment \<Rightarrow> PluginOptions \<Rightarrow> TlsConfig \<Rightarrow> PluginError + PgConnectionConfig" where
  "connection env o' tls =
     res_bind (get_option env o' ''host'') (\<lambda>host.
     res_bind (get_parsed_or env (parse_unsigned u16_max) o' ''port'' DEFAULT_PORT) (\<lambda>port.
     res_bind (get_option env o' ''database'') (\<lambda>name.
     res_bind (get_option env o' ''username'') (\<lambda>username.
     Inr \<lparr>pg_host = host, pg_port = port, pg_name = name, pg_username = username,
          pg_password = get_secret env o' ''password'', pg_tls = tls\<rparr>))))"

text \<open>\<open>splitn(2, '.')\<close> yields the text before the first dot and, when there is one, the rest.\<close>

definition parse_table :: "string \<Rightarrow> PluginError + string \<times> string" where
  "parse_table raw =
     (let err = Inl (Internal (PLUGIN_NAME @ '': invalid table '' @ quoted raw
                @ '' (expected '' @ quoted ''name'' @ '' or '' @ quoted ''schema.name'' @ '')'')) in
      case split_once CHR ''.'' raw of
        Some (first, name) \<Rightarrow>
          if first \<noteq> [] \<and> name \<noteq> [] \<and> CHR ''.'' \<notin> set name then Inr (first, name) else err
      | None \<Rightarrow> if raw \<noteq> [] then Inr (''public'', raw) else err)"

definition positive :: "nat \<Rightarrow> string \<Rightarrow> PluginError + nat" where
  "positive v k =
     (if v = 0 then Inl (Internal (PLUGIN_NAME @ '': '' @ k @ '' must be greater than 0'')) else Inr v)"

definition parse_memory_backpressure ::
  "'f etl_config \<Rightarrow> environment \<Rightarrow> PluginOptions \<Rightarrow> PluginError + 'f MemoryBackpressureConfig option" where
  "parse_memory_backpressure C env o' =
     res_bind (get_parsed_or env parse_bool o' ''memory_backpressure_enabled'' True) (\<lambda>enabled.
     if \<not> enabled then Inr None
     else
       res_bind (get_parsed_or env (parse_f64 C) o' ''memory_backpressure_activate_threshold''
                   (DEFAULT_ACTIVATE_THRESHOLD C)) (\<lambda>a.
       res_bind (get_parsed_or env (parse_f64 C) o' ''memory_backpressure_resume_threshold''
                   (DEFAULT_RESUME_THRESHOLD C)) (\<lambda>r.
       (let config = \<lparr>mb_activate_threshold = a, mb_resume_threshold = r\<rparr> in
        res_bind (map_err (\<lambda>e. Internal (PLUGIN_NAME @ '': invalid memory_backpressure config: '' @ e))
                    (validate C config)) (\<lambda>_.
        Inr (Some config))))))"

definition parse_pipeline ::
  "'f etl_config \<Rightarrow> environment \<Rightarrow> PluginOptions \<Rightarrow> u64 \<Rightarrow> PluginError + 'f PipelineConfig" where
  "parse_pipeline C env o' pipeline_id =
     res_bind (get_parsed_or env parse_bool o' ''tls_enabled'' False) (\<lambda>enabled.
     res_bind (connection env o'
                 \<lparr>tls_trusted_root_certs = get_or env o' ''trusted_root_certs'' [], tls_enabled = enabled\<rparr>) (\<lambda>conn.
     res_bind (get_option env o' ''publication_name'') (\<lambda>publication_name.
     res_bind (get_parsed_or env (parse_unsigned u64_max) o' ''batch_max_fill_ms'' 1000) (\<lambda>max_fill_ms.
     res_bind (get_parsed_or env (parse_unsigned u64_max) o' ''batch_max_bytes'' (8 * 1024 * 1024)) (\<lambda>max_bytes.
     res_bind (get_parsed_or env (parse_unsigned u16_max) o' ''max_table_sync_workers'' 4) (\<lambda>workers.
     res_bind (parse_memory_backpressure C env o') (\<lambda>mb.
     Inr \<lparr>pl_id = pipeline_id, pl_publication_name = publication_name, pl_connection = conn,
          pl_batch_max_fill_ms = max_fill_ms, pl_batch_max_bytes = max_bytes,
          pl_table_error_retry_delay_ms = 10000, pl_table_error_retry_max_attempts = 5,
          pl_max_table_sync_workers = workers, pl_memory_refresh_interval_ms = 100,
          pl_memory_backpressure = mb, pl_run_source_migrations = True\<rparr>)))))))"

definition parse_settings ::
  "environment \<Rightarrow> PluginOptions \<Rightarrow> string \<Rightarrow> string \<times> string \<Rightarrow> PluginError + SourceSettings" where
  "parse_settings env o' slot table =
     res_bind (get_parsed_or env (parse_unsigned u64_max) o' ''batch_size'' 1000) (\<lambda>n.
     res_bind (positive n ''batch_size'') (\<lambda>n.
     res_bind (get_parsed_or env (parse_unsigned u64_max) o' ''batch_interval_ms'' 100) (\<lambda>ms.
     res_bind (get_parsed_or env (parse_unsigned u64_max) o' ''max_buffered_units'' 8) (\<lambda>units.
     res_bind (positive units ''max_buffered_units'') (\<lambda>units.
     res_bind (get_parsed_or env parse_bool o' ''auto_create_publication'' True) (\<lambda>auto.
     res_bind (get_parsed_or env parse_bool o' ''emit_update_before_row'' False) (\<lambda>emit.
     Inr \<lparr>table_schema = fst table, table_name = snd table, slot_name = slot, batch_size = n,
          batch_interval_ms = ms, max_buffered_units = units, auto_create_publication = auto,
          emit_update_before_row = emit\<rparr>)))))))"

definition parse_options ::
  "'f etl_config \<Rightarrow> environment \<Rightarrow> PluginOptions \<Rightarrow> PluginError + 'f ParsedConfig" where
  "parse_options C env o' =
     res_bind (get_option env o' ''slot_name'') (\<lambda>slot.
     res_bind (parse_pipeline C env o' (hash_slot_name C slot)) (\<lambda>pipeline.
     res_bind (get_option env o' ''table'') (\<lambda>raw.
     res_bind (parse_table raw) (\<lambda>table.
     res_bind (parse_settings env o' slot table) (\<lambda>settings.
     Inr \<lparr>pcf_pipeline = pipeline, pcf_settings = settings\<rparr>)))))"

lemmas config_defs = parse_options_def parse_pipeline_def parse_settings_def
  parse_memory_backpressure_def connection_def

section \<open>Lemmas\<close>

definition option_keys :: "string list" where
  "option_keys =
     [''slot_name'', ''tls_enabled'', ''trusted_root_certs'', ''host'', ''port'', ''database'',
      ''username'', ''password'', ''publication_name'', ''batch_max_fill_ms'', ''batch_max_bytes'',
      ''max_table_sync_workers'', ''memory_backpressure_enabled'',
      ''memory_backpressure_activate_threshold'', ''memory_backpressure_resume_threshold'',
      ''table'', ''batch_size'', ''batch_interval_ms'', ''max_buffered_units'',
      ''auto_create_publication'', ''emit_update_before_row'']"

lemma parse_table_Inr:
  assumes "parse_table raw = Inr (s, n)"
  shows "s \<noteq> [] \<and> n \<noteq> [] \<and> CHR ''.'' \<notin> set s \<and> CHR ''.'' \<notin> set n \<and>
         (raw = s @ ''.'' @ n \<or> raw = n \<and> s = ''public'')"
proof (cases "split_once CHR ''.'' raw")
  case None
  with assms have "s = ''public''" and "n = raw" and "raw \<noteq> []"
    by (auto simp: parse_table_def Let_def split: if_splits)
  then show ?thesis using None by (auto simp: split_once_None_iff)
next
  case (Some p)
  then obtain a b where p: "p = (a, b)" by (cases p)
  with Some assms have "s = a \<and> n = b \<and> a \<noteq> [] \<and> b \<noteq> [] \<and> CHR ''.'' \<notin> set b"
    by (auto simp: parse_table_def Let_def split: if_splits)
  with Some p show ?thesis by (auto simp: split_once_Some_iff)
qed

lemma get_option_Inr: "get_option env o' k = Inr v \<Longrightarrow> v \<noteq> []"
  by (auto simp: get_option_def filter_non_empty_def ok_or_def split: option.splits if_splits)

lemma get_parsed_or_bound:
  "get_parsed_or env (parse_unsigned lim) o' k d = Inr n \<Longrightarrow> d \<le> lim \<Longrightarrow> n \<le> lim"
  by (auto simp: get_parsed_or_def parse_value_def outcome dest: parse_unsigned_bound split: option.splits)

lemma positive_Inr [outcome]: "positive v k = Inr n \<longleftrightarrow> n = v \<and> 0 < v"
  by (auto simp: positive_def)

section \<open>Properties\<close>

text \<open>
  an environment variable takes precedence over the YAML option, for every option of the source
  and in every error: parsing options in an environment is the same as parsing, in an empty
  environment, the options with the environment's values written into them.
\<close>

theorem parse_options_env_first:
  "parse_options C env o' = parse_options C (\<lambda>_. None) (effective env o' option_keys)"
  by (simp add: config_defs readers_effective option_keys_def cong: if_cong)

text \<open>
  C13: a configuration that parses is usable: batch size and channel capacity are positive and fit
  their types, the port is a 16-bit number, host, database, user, publication and slot are not
  empty, the table's schema and name are not empty and have no dot, so that their label splits back
  into them, and the pipeline id is the digest of the slot name.
\<close>

theorem parse_options_sound:
  assumes "parse_options C env o' = Inr p"
  shows "0 < batch_size (pcf_settings p) \<and> batch_size (pcf_settings p) < 2 ^ 64 \<and>
     0 < max_buffered_units (pcf_settings p) \<and> max_buffered_units (pcf_settings p) < 2 ^ 64 \<and>
     gi_port (group_identity p) < 2 ^ 16 \<and>
     gi_host (group_identity p) \<noteq> [] \<and> gi_database (group_identity p) \<noteq> [] \<and>
     gi_username (group_identity p) \<noteq> [] \<and> gi_publication_name (group_identity p) \<noteq> [] \<and>
     slot_name (pcf_settings p) \<noteq> [] \<and>
     split_once CHR ''.'' (table_schema (pcf_settings p) @ ''.'' @ table_name (pcf_settings p))
       = Some (table_schema (pcf_settings p), table_name (pcf_settings p)) \<and>
     table_schema (pcf_settings p) \<noteq> [] \<and> table_name (pcf_settings p) \<noteq> [] \<and>
     CHR ''.'' \<notin> set (table_name (pcf_settings p)) \<and>
     pl_id (pcf_pipeline p) = hash_slot_name C (slot_name (pcf_settings p))"
proof -
  obtain slot pipe raw tab set' where 1: "get_option env o' ''slot_name'' = Inr slot"
    and 2: "parse_pipeline C env o' (hash_slot_name C slot) = Inr pipe"
    and 3: "parse_table raw = Inr tab" and 4: "parse_settings env o' slot tab = Inr set'"
    and p: "p = \<lparr>pcf_pipeline = pipe, pcf_settings = set'\<rparr>"
    using assms by (auto simp: parse_options_def outcome)
  have pipe: "pl_id pipe = hash_slot_name C slot" "pl_publication_name pipe \<noteq> []"
      "pg_host (pl_connection pipe) \<noteq> []" "pg_name (pl_connection pipe) \<noteq> []"
      "pg_username (pl_connection pipe) \<noteq> []" "pg_port (pl_connection pipe) \<le> u16_max"
    using 2 by (auto simp: parse_pipeline_def connection_def outcome DEFAULT_PORT_def
        dest: get_option_Inr dest!: get_parsed_or_bound)
  have settings: "table_schema set' = fst tab" "table_name set' = snd tab" "slot_name set' = slot"
      "0 < batch_size set'" "batch_size set' \<le> u64_max"
      "0 < max_buffered_units set'" "max_buffered_units set' \<le> u64_max"
    using 4 by (auto simp: parse_settings_def outcome dest!: get_parsed_or_bound)
  have table: "fst tab \<noteq> []" "snd tab \<noteq> []" "CHR ''.'' \<notin> set (fst tab)" "CHR ''.'' \<notin> set (snd tab)"
    using parse_table_Inr [of raw "fst tab" "snd tab"] 3 by auto
  have "split_once CHR ''.'' (fst tab @ ''.'' @ snd tab) = Some (fst tab, snd tab)"
    using table by (simp add: split_once_Some_iff del: prod.collapse)
  then show ?thesis
    using p pipe settings table get_option_Inr [OF 1] by (auto simp: group_identity_def Let_def)
qed

text \<open>A complete set of required options, for the witness.\<close>

definition sample_etl_config :: "nat etl_config" where
  "sample_etl_config =
     \<lparr>parse_f64 = parse_unsigned 100, DEFAULT_ACTIVATE_THRESHOLD = 85, DEFAULT_RESUME_THRESHOLD = 75,
      validate = (\<lambda>c. if mb_resume_threshold c < mb_activate_threshold c then Inr () else Inl ''thresholds''),
      sha256 = (\<lambda>s. map (\<lambda>c. of_nat (of_char c)) s)\<rparr>"

definition sample_options :: PluginOptions where
  "sample_options =
     plugin_options_new
       [(''slot_name'', ''slot''), (''host'', ''db''), (''database'', ''app''), (''username'', ''repl''),
        (''publication_name'', ''pub''), (''table'', ''sales.orders''), (''batch_size'', ''500'')]
       PLUGIN_NAME ENV_PREFIX"

theorem parse_options_sound_witness:
  "\<exists>p. parse_options sample_etl_config (\<lambda>_. None) sample_options = Inr p \<and>
     0 < batch_size (pcf_settings p) \<and> table_schema (pcf_settings p) \<noteq> []"
proof -
  have "\<exists>p. parse_options sample_etl_config (\<lambda>_. None) sample_options = Inr p"
    by (simp add: config_defs sample_options_def plugin_options_new_def get_option_def get_parsed_or_def
        get_secret_def get_or_def lookup_def filter_non_empty_def parse_value_def parse_unsigned_def
        is_digit_def parse_table_def positive_def sample_etl_config_def Let_def)
  with parse_options_sound show ?thesis by blast
qed

end
