(* ===== verification/Pipeline.thy ===== *)
theory Pipeline
  imports Bridge CdcConfig
begin

text \<open>
  The registry of slot-sharing groups (\<open>src/src/postgres_cdc/pipeline.rs\<close>): sources register a
  table under a slot name, the first one to initialize starts the group's pipeline over all the
  registered tables, and the last one to leave shuts it down. Before the start the publication is
  created or extended.

  A group is shared by the registry and by the sources that hold it, so groups live in a store
  indexed by numbers, and the registry maps slot names to them. The database and the replication
  pipeline are outside: \<open>db_session\<close> has what the queries return, and \<open>etl_start\<close> is the outcome of
  starting. \<open>etl_starts\<close> and \<open>etl_shutdowns\<close> record the calls made.
\<close>

section \<open>Quoting\<close>

definition DQ :: char where
  "DQ = CHR 0x22"

definition double_quotes :: "string \<Rightarrow> string" where
  "double_quotes s = concat (map (\<lambda>c. if c = DQ then [DQ, DQ] else [c]) s)"

definition quote_ident :: "string \<Rightarrow> string" where
  "quote_ident name = DQ # double_quotes name @ [DQ]"

definition quote_table_label :: "string \<Rightarrow> string" where
  "quote_table_label label =
     (let (schema, name) = (case split_once CHR ''.'' label of None \<Rightarrow> (label, []) | Some p \<Rightarrow> p)
      in quote_ident schema @ ''.'' @ quote_ident name)"

text \<open>The tables of a statement: each after a blank, all but the first after a comma too.\<close>

fun push_tables :: "nat \<Rightarrow> string list \<Rightarrow> string \<Rightarrow> string" where
  "push_tables i [] sql = sql"
| "push_tables i (label # labels) sql =
     push_tables (Suc i) labels
       (sql @ (if i > 0 then '','' else []) @ '' '' @ quote_table_label label)"

section \<open>The publication\<close>

record db_session =
  db_connect :: "string + unit"
  db_puballtables :: "string + bool option"
  db_publication_tables :: "string + string list"
  db_execute :: "string \<Rightarrow> string + unit"

text \<open>The result, and the statement executed, if any.\<close>

definition ensure_publication ::
  "db_session \<Rightarrow> string \<Rightarrow> string list \<Rightarrow> (string + unit) \<times> string option" where
  "ensure_publication D publication_name tables =
     (case db_connect D of
        Inl e \<Rightarrow> (Inl (''postgres_cdc_source: auto-publication connect: '' @ e), None)
      | Inr _ \<Rightarrow>
     (case db_puballtables D of
        Inl e \<Rightarrow> (Inl (''postgres_cdc_source: auto-publication read: '' @ e), None)
      | Inr None \<Rightarrow>
          (let sql = push_tables 0 tables
                 (''CREATE PUBLICATION '' @ quote_ident publication_name @ '' FOR TABLE'') in
           (map_err (\<lambda>e. ''postgres_cdc_source: auto-publication create failed (the role needs ''
              @ ''CREATE privilege on the database, or create the publication manually): '' @ e)
              (db_execute D sql), Some sql))
      | Inr (Some True) \<Rightarrow> (Inr (), None)
      | Inr (Some False) \<Rightarrow>
          (case db_publication_tables D of
             Inl e \<Rightarrow> (Inl (''postgres_cdc_source: auto-publication read tables: '' @ e), None)
           | Inr have_tables \<Rightarrow>
               (let missing = filter (\<lambda>t. t \<notin> set have_tables) tables in
                if missing = [] then (Inr (), None)
                else
                  (let sql = push_tables 0 missing
                         (''ALTER PUBLICATION '' @ quote_ident publication_name @ '' ADD TABLE'') in
                   (map_err (\<lambda>e. ''postgres_cdc_source: auto-publication add-table failed (the role ''
                      @ ''needs ownership of the tables, or add them manually): '' @ e)
                      (db_execute D sql), Some sql))))))"

section \<open>Groups\<close>

record PendingSub =
  pend_source_id :: SourceId
  pend_table_label :: string
  pend_data_columns :: "string list"
  pend_emit_update_before_row :: bool
  pend_capacity :: nat

record TableSpec =
  spec_label :: string
  spec_data_columns :: "string list"
  spec_emit_update_before_row :: bool

record ('f, 'b) SharedPipeline =
  sp_slot_name :: string
  sp_identity :: GroupIdentity
  sp_pipeline_config :: "'f PipelineConfig option"
  sp_state_backend :: 'b
  sp_auto_create_publication :: bool
  sp_next_source_id :: SourceId
  sp_refcount :: nat
  sp_subs :: "PendingSub list"
  sp_started :: bool
  sp_shutdown :: bool
  sp_running :: bool

record ('f, 'b) groups =
  registry :: "(string, nat) hash_map"
  pipelines :: "nat \<Rightarrow> ('f, 'b) SharedPipeline"
  next_pipeline :: nat
  etl_starts :: "(nat \<times> Subscriber list) list"
  etl_shutdowns :: "nat list"

record Subscription =
  subscr_source_id :: SourceId
  subscr_shared :: nat

definition set_pipeline ::
  "nat \<Rightarrow> ('f, 'b) SharedPipeline \<Rightarrow> ('f, 'b) groups \<Rightarrow> ('f, 'b) groups" where
  "set_pipeline a sp W = W\<lparr>pipelines := (pipelines W)(a := sp)\<rparr>"

definition new_pipeline ::
  "string \<Rightarrow> 'f PipelineConfig \<Rightarrow> 'b \<Rightarrow> GroupIdentity \<Rightarrow> bool \<Rightarrow> ('f, 'b) SharedPipeline" where
  "new_pipeline slot pipeline state_backend identity auto =
     \<lparr>sp_slot_name = slot, sp_identity = identity, sp_pipeline_config = Some pipeline,
      sp_state_backend = state_backend, sp_auto_create_publication = auto, sp_next_source_id = 0,
      sp_refcount = 0, sp_subs = [], sp_started = False, sp_shutdown = False, sp_running = True\<rparr>"

text \<open>The group of a slot: the registered one when the identity matches, a new one otherwise.\<close>

definition find_group ::
  "string \<Rightarrow> 'f PipelineConfig \<Rightarrow> 'b \<Rightarrow> GroupIdentity \<Rightarrow> bool \<Rightarrow> ('f, 'b) groups
     \<Rightarrow> string + (nat \<times> ('f, 'b) groups)" where
  "find_group slot pipeline state_backend identity auto W =
     (case hm_get (registry W) slot of
        Some a \<Rightarrow>
          if sp_identity (pipelines W a) \<noteq> identity
          then Inl (''postgres_cdc_source: slot_name '' @ quoted slot @ '' is shared by sources with ''
                 @ ''different connection/publication; all must match'')
          else Inr (a, W)
      | None \<Rightarrow>
          (let a = next_pipeline W in
           Inr (a, (set_pipeline a (new_pipeline slot pipeline state_backend identity auto) W)
                     \<lparr>next_pipeline := Suc a, registry := hm_insert slot a (registry W)\<rparr>)))"

definition register ::
  "string \<Rightarrow> 'f PipelineConfig \<Rightarrow> 'b \<Rightarrow> GroupIdentity \<Rightarrow> TableSpec \<Rightarrow> nat \<Rightarrow> bool
     \<Rightarrow> ('f, 'b) groups \<Rightarrow> (string + Subscription) \<times> ('f, 'b) groups" where
  "register slot pipeline state_backend identity table capacity auto W =
     (case find_group slot pipeline state_backend identity auto W of
        Inl e \<Rightarrow> (Inl e, W)
      | Inr (a, W1) \<Rightarrow>
          (let sp = pipelines W1 a in
           if list_ex (\<lambda>s. pend_table_label s = spec_label table) (sp_subs sp)
           then (Inl (''postgres_cdc_source: table '' @ quoted (spec_label table)
                   @ '' is already registered in slot_name '' @ quoted slot), W1)
           else
             (let source_id = sp_next_source_id sp;
                  sub = \<lparr>pend_source_id = source_id, pend_table_label = spec_label table,
                         pend_data_columns = spec_data_columns table,
                         pend_emit_update_before_row = spec_emit_update_before_row table,
                         pend_capacity = capacity\<rparr>
              in (Inr \<lparr>subscr_source_id = source_id, subscr_shared = a\<rparr>,
                  set_pipeline a
                    (sp\<lparr>sp_next_source_id := source_id + 1, sp_refcount := sp_refcount sp + 1,
                        sp_subs := sp_subs sp @ [sub]\<rparr>) W1))))"

definition is_running :: "nat \<Rightarrow> ('f, 'b) groups \<Rightarrow> bool" where
  "is_running a W = sp_running (pipelines W a)"

definition subscriber_of :: "PendingSub \<Rightarrow> Subscriber" where
  "subscriber_of s =
     \<lparr>sub_source_id = pend_source_id s, sub_table_label = pend_table_label s,
      sub_converter = row_converter_new (pend_table_label s) (pend_data_columns s)
        (pend_emit_update_before_row s)\<rparr>"

text \<open>
  One atomic step. The source sets the flag under its lock and awaits the publication and the start of etl
  after releasing it; what other sources do in between does not change the outcome here, since a second
  call returns at the flag and the subscribers are those taken under the lock.
\<close>

definition ensure_started ::
  "db_session \<Rightarrow> (string + unit) \<Rightarrow> nat \<Rightarrow> ('f, 'b) groups \<Rightarrow> (string + unit) \<times> ('f, 'b) groups" where
  "ensure_started D etl_start a W =
     (let sp = pipelines W a in
      if sp_started sp then (Inr (), W)
      else
        (let subscribers = map subscriber_of (sp_subs sp) in
         case sp_pipeline_config sp of
           None \<Rightarrow> (Inl ''shared pipeline already consumed its config'',
                    set_pipeline a (sp\<lparr>sp_started := True\<rparr>) W)
         | Some config \<Rightarrow>
             (let W1 = set_pipeline a (sp\<lparr>sp_started := True, sp_pipeline_config := None\<rparr>) W in
              case (if sp_auto_create_publication sp
                    then fst (ensure_publication D (pl_publication_name config)
                           (map sub_table_label subscribers))
                    else Inr ()) of
                Inl e \<Rightarrow> (Inl e, W1)
              | Inr _ \<Rightarrow>
                  (case etl_start of
                     Inl e \<Rightarrow> (Inl (''etl pipeline start: '' @ e), W1)
                   | Inr _ \<Rightarrow>
                       (Inr (), (set_pipeline a
                          (sp\<lparr>sp_started := True, sp_pipeline_config := None, sp_shutdown := True\<rparr>) W)
                          \<lparr>etl_starts := etl_starts W @ [(a, subscribers)]\<rparr>)))))"

text \<open>The task that waits for the pipeline clears the running flag when it ends.\<close>

definition pipeline_ended :: "nat \<Rightarrow> ('f, 'b) groups \<Rightarrow> ('f, 'b) groups" where
  "pipeline_ended a W = set_pipeline a ((pipelines W a)\<lparr>sp_running := False\<rparr>) W"

definition deregister :: "nat \<Rightarrow> SourceId \<Rightarrow> ('f, 'b) groups \<Rightarrow> ('f, 'b) groups" where
  "deregister a source_id W =
     (let sp = pipelines W a; n = sp_refcount sp - 1 in
      if n = 0
      then (set_pipeline a (sp\<lparr>sp_refcount := n, sp_shutdown := False\<rparr>) W)
             \<lparr>etl_shutdowns := etl_shutdowns W @ (if sp_shutdown sp then [a] else []),
              registry := hm_remove (sp_slot_name sp) (registry W)\<rparr>
      else set_pipeline a (sp\<lparr>sp_refcount := n\<rparr>) W)"

section \<open>How the database reads the statements\<close>

text \<open>
  The lexical rule of quoted identifiers in PostgreSQL: two quotes stand for one, a single quote
  ends the identifier. \<open>lex_body\<close> reads the rest of an identifier after its opening quote.
\<close>

fun lex_body :: "string \<Rightarrow> (string \<times> string) option" where
  "lex_body [] = None"
| "lex_body (c # cs) =
     (if c = DQ
      then (case cs of
              [] \<Rightarrow> Some ([], [])
            | d # ds \<Rightarrow> if d = DQ then map_option (apfst ((#) DQ)) (lex_body ds) else Some ([], cs))
      else map_option (apfst ((#) c)) (lex_body cs))"

definition lex_ident :: "string \<Rightarrow> (string \<times> string) option" where
  "lex_ident s = (case s of [] \<Rightarrow> None | c # cs \<Rightarrow> if c = DQ then lex_body cs else None)"

definition lex_table :: "string \<Rightarrow> ((string \<times> string) \<times> string) option" where
  "lex_table s =
     (case lex_ident s of
        Some (schema, c # cs) \<Rightarrow>
          if c = CHR ''.'' then map_option (\<lambda>(name, r). ((schema, name), r)) (lex_ident cs) else None
      | _ \<Rightarrow> None)"

text \<open>A comma-separated list of tables that ends the statement; the fuel bounds their number.\<close>

fun lex_tables :: "nat \<Rightarrow> string \<Rightarrow> (string \<times> string) list option" where
  "lex_tables 0 s = None"
| "lex_tables (Suc n) [] = None"
| "lex_tables (Suc n) (c # cs) =
     (if c \<noteq> CHR '' '' then None
      else (case lex_table cs of
              None \<Rightarrow> None
            | Some (t, []) \<Rightarrow> Some [t]
            | Some (t, d # ds) \<Rightarrow>
                if d = CHR '','' then map_option ((#) t) (lex_tables n ds) else None))"

lemma lex_body_quoted:
  assumes "rest = [] \<or> hd rest \<noteq> DQ"
  shows "lex_body (double_quotes name @ DQ # rest) = Some (name, rest)"
proof (induction name)
  case Nil
  then show ?case using assms by (cases rest) (auto simp: double_quotes_def)
next
  case (Cons c name)
  then show ?case by (simp add: double_quotes_def)
qed

lemma lex_ident_quoted:
  "rest = [] \<or> hd rest \<noteq> DQ \<Longrightarrow> lex_ident (quote_ident name @ rest) = Some (name, rest)"
  by (simp add: lex_ident_def quote_ident_def lex_body_quoted)

lemma lex_table_quoted:
  assumes "split_once CHR ''.'' label = Some (schema, name)" and "rest = [] \<or> hd rest \<noteq> DQ"
  shows "lex_table (quote_table_label label @ rest) = Some ((schema, name), rest)"
  using assms by (simp add: lex_table_def quote_table_label_def lex_ident_quoted DQ_def)

lemma push_tables_eq:
  "push_tables i labels sql =
     sql @ concat (map (\<lambda>(j, l). (if j > 0 then '','' else []) @ '' '' @ quote_table_label l)
       (zip [i..<i + length labels] labels))"
proof (induction i labels sql rule: push_tables.induct)
  case (2 i l ls sql)
  have "[i..<i + length (l # ls)] = i # [Suc i..<Suc i + length ls]"
    by (simp add: upt_rec)
  with 2 show ?case by simp
qed simp

lemma push_tables_acc: "push_tables i labels sql = sql @ push_tables i labels []"
  by (simp add: push_tables_eq)

lemma push_tables_Suc:
  "labels \<noteq> [] \<Longrightarrow> push_tables (Suc i) labels [] = '','' @ push_tables 0 labels []"
proof (induction labels)
  case (Cons l ls)
  have "push_tables (Suc j) ls [] = push_tables (Suc k) ls []" for j k
  proof (induction ls arbitrary: j k)
    case (Cons x xs)
    then show ?case
      by (simp add: push_tables_acc [of "Suc (Suc _)" xs "_ # _"])
  qed simp
  then show ?case
    by (simp add: push_tables_acc [of "Suc _" ls "_ # _"])
qed simp

text \<open>The list the loop writes reads back as the tables, whatever quotes their names have.\<close>

lemma lex_tables_pushed:
  assumes "labels \<noteq> []" and "\<forall>l \<in> set labels. split_once CHR ''.'' l \<noteq> None" and "length labels \<le> n"
  shows "lex_tables n (push_tables 0 labels []) = Some (map (the \<circ> split_once CHR ''.'') labels)"
  using assms
proof (induction labels arbitrary: n)
  case Nil
  then show ?case by simp
next
  case (Cons l ls)
  obtain m where n: "n = Suc m" using Cons.prems(3) by (cases n) auto
  obtain schema name where l: "split_once CHR ''.'' l = Some (schema, name)"
    using Cons.prems(2) by auto
  have sql: "push_tables 0 (l # ls) [] = '' '' @ quote_table_label l @ push_tables (Suc 0) ls []"
    by (simp add: push_tables_acc [of "Suc 0" ls "_ # _"])
  show ?case
  proof (cases "ls = []")
    case True
    with n sql lex_table_quoted [OF l, of "[]"] l show ?thesis by simp
  next
    case False
    with push_tables_Suc [of ls 0] sql
    have sql': "push_tables 0 (l # ls) [] = '' '' @ quote_table_label l @ '','' @ push_tables 0 ls []"
      by simp
    have "lex_table (quote_table_label l @ '','' @ push_tables 0 ls []) =
        Some ((schema, name), '','' @ push_tables 0 ls [])"
      using l by (intro lex_table_quoted) (simp_all add: DQ_def)
    moreover have "lex_tables m (push_tables 0 ls []) = Some (map (the \<circ> split_once CHR ''.'') ls)"
      using Cons.prems False n by (intro Cons.IH) auto
    ultimately show ?thesis using n sql' l by simp
  qed
qed

section \<open>Reachable registries\<close>

definition groups_init :: "('f, 'b) SharedPipeline \<Rightarrow> ('f, 'b) groups" where
  "groups_init sp =
     \<lparr>registry = [], pipelines = (\<lambda>_. sp), next_pipeline = 0, etl_starts = [], etl_shutdowns = []\<rparr>"

text \<open>Sources only hold groups that were registered, so the other steps are about those.\<close>

inductive groups_step :: "('f, 'b) groups \<Rightarrow> ('f, 'b) groups \<Rightarrow> bool" where
  do_register: "groups_step W (snd (register slot cfg bk identity table capacity auto W))"
| do_start: "a < next_pipeline W \<Longrightarrow> groups_step W (snd (ensure_started D etl_start a W))"
| do_end: "a < next_pipeline W \<Longrightarrow> groups_step W (pipeline_ended a W)"
| do_deregister: "a < next_pipeline W \<Longrightarrow> groups_step W (deregister a source_id W)"

inductive groups_reachable :: "('f, 'b) groups \<Rightarrow> bool" where
  groups_start: "groups_reachable (groups_init sp)"
| groups_next: "groups_reachable W \<Longrightarrow> groups_step W W' \<Longrightarrow> groups_reachable W'"

text \<open>Sources of a group are numbered in registration order and replicate different tables.\<close>

definition group_ok :: "('f, 'b) SharedPipeline \<Rightarrow> bool" where
  "group_ok sp \<longleftrightarrow>
     map pend_source_id (sp_subs sp) = map of_nat [0..<length (sp_subs sp)] \<and>
     sp_next_source_id sp = of_nat (length (sp_subs sp)) \<and>
     distinct (map pend_table_label (sp_subs sp))"

definition starts_ok :: "('f, 'b) groups \<Rightarrow> bool" where
  "starts_ok W \<longleftrightarrow>
     distinct (map fst (etl_starts W)) \<and>
     (\<forall>(a, subs) \<in> set (etl_starts W).
        a < next_pipeline W \<and> sp_started (pipelines W a) \<and>
        (\<exists>n. subs = map subscriber_of (take n (sp_subs (pipelines W a)))))"

definition groups_ok :: "('f, 'b) groups \<Rightarrow> bool" where
  "groups_ok W \<longleftrightarrow>
     hm_ok (registry W) \<and>
     (\<forall>slot a. hm_get (registry W) slot = Some a \<longrightarrow>
        a < next_pipeline W \<and> sp_slot_name (pipelines W a) = slot) \<and>
     (\<forall>a < next_pipeline W. group_ok (pipelines W a)) \<and> starts_ok W"

lemma group_ok_new [simp]: "group_ok (new_pipeline slot cfg bk identity auto)"
  by (simp add: group_ok_def new_pipeline_def)

lemma groups_ok_init [simp]: "groups_ok (groups_init sp)"
  by (simp add: groups_ok_def groups_init_def starts_ok_def)

text \<open>Replacing a group by one with more subscribers keeps what was started.\<close>

lemma starts_ok_set_pipeline:
  assumes "starts_ok W" and "\<exists>more. sp_subs sp = sp_subs (pipelines W a) @ more"
    and "sp_started (pipelines W a) \<longrightarrow> sp_started sp"
  shows "starts_ok (set_pipeline a sp W)"
proof -
  obtain more where more: "sp_subs sp = sp_subs (pipelines W a) @ more" using assms(2) by blast
  have "\<exists>n. subs = map subscriber_of (take n (sp_subs (pipelines (set_pipeline a sp W) b)))"
    if mem: "(b, subs) \<in> set (etl_starts W)" for b subs
  proof -
    obtain n where n: "subs = map subscriber_of (take n (sp_subs (pipelines W b)))"
      using bspec [OF conjunct2 [OF assms(1) [unfolded starts_ok_def]] mem] by auto
    let ?m = "min n (length (sp_subs (pipelines W b)))"
    have "take ?m (sp_subs (pipelines (set_pipeline a sp W) b)) = take n (sp_subs (pipelines W b))"
      by (simp add: set_pipeline_def more min_def)
    with n have "subs = map subscriber_of (take ?m (sp_subs (pipelines (set_pipeline a sp W) b)))"
      by simp
    then show ?thesis by (rule exI)
  qed
  moreover have "b < next_pipeline W \<and> sp_started (pipelines (set_pipeline a sp W) b)"
    if "(b, subs) \<in> set (etl_starts W)" for b subs
    using assms(1,3) that by (auto simp: starts_ok_def set_pipeline_def)
  moreover have "etl_starts (set_pipeline a sp W) = etl_starts W"
    "next_pipeline (set_pipeline a sp W) = next_pipeline W" by (simp_all add: set_pipeline_def)
  moreover have "distinct (map fst (etl_starts W))" using assms(1) by (simp add: starts_ok_def)
  ultimately show ?thesis unfolding starts_ok_def by auto
qed

lemma groups_ok_set_pipeline:
  assumes "groups_ok W" and "group_ok sp" and "sp_slot_name sp = sp_slot_name (pipelines W a)"
    and "\<exists>more. sp_subs sp = sp_subs (pipelines W a) @ more"
    and "sp_started (pipelines W a) \<longrightarrow> sp_started sp"
  shows "groups_ok (set_pipeline a sp W)"
proof -
  have "starts_ok (set_pipeline a sp W)"
    using assms by (intro starts_ok_set_pipeline) (auto simp: groups_ok_def)
  moreover have "hm_ok (registry (set_pipeline a sp W))" using assms(1) by (simp add: groups_ok_def set_pipeline_def)
  ultimately show ?thesis
    using assms(1-3) by (auto simp: groups_ok_def set_pipeline_def)
qed

lemma groups_ok_find:
  assumes "groups_ok W" and "find_group slot cfg bk identity auto W = Inr (a, W1)"
  shows "groups_ok W1 \<and> a < next_pipeline W1 \<and> hm_get (registry W1) slot = Some a \<and>
         sp_identity (pipelines W1 a) = identity"
proof (cases "hm_get (registry W) slot")
  case None
  let ?sp = "new_pipeline slot cfg bk identity auto"
  have W1: "a = next_pipeline W" "W1 = (set_pipeline a ?sp W)\<lparr>next_pipeline := Suc a,
      registry := hm_insert slot a (registry W)\<rparr>"
    using assms(2) None by (auto simp: find_group_def Let_def)
  have "hm_ok (registry W)" and "\<forall>b subs. (b, subs) \<in> set (etl_starts W) \<longrightarrow> b < next_pipeline W"
    using assms(1) by (auto simp: groups_ok_def starts_ok_def)
  then have "starts_ok W1"
    using assms(1) unfolding W1 groups_ok_def starts_ok_def set_pipeline_def by fastforce
  moreover have "\<forall>s b. hm_get (registry W1) s = Some b \<longrightarrow>
      b < next_pipeline W1 \<and> sp_slot_name (pipelines W1 b) = s"
    using assms(1) unfolding W1 groups_ok_def
    by (auto simp: set_pipeline_def new_pipeline_def less_Suc_eq)
  moreover have "\<forall>b < next_pipeline W1. group_ok (pipelines W1 b)"
    using assms(1) unfolding W1 groups_ok_def by (auto simp: set_pipeline_def less_Suc_eq)
  moreover have "hm_ok (registry W1)" using \<open>hm_ok (registry W)\<close> by (simp add: W1)
  ultimately show ?thesis
    unfolding groups_ok_def by (simp add: W1 set_pipeline_def new_pipeline_def)
next
  case (Some b)
  with assms show ?thesis by (auto simp: find_group_def groups_ok_def split: if_splits)
qed

lemma groups_ok_register:
  assumes "groups_ok W"
  shows "groups_ok (snd (register slot cfg bk identity table capacity auto W))"
proof (cases "find_group slot cfg bk identity auto W")
  case (Inl e)
  with assms show ?thesis by (simp add: register_def)
next
  case (Inr r)
  obtain a W1 where r: "r = (a, W1)" by (cases r)
  note g = groups_ok_find [OF assms Inr [unfolded r]]
  let ?sp = "pipelines W1 a"
  have ok: "group_ok ?sp" using g by (simp add: groups_ok_def)
  show ?thesis
  proof (cases "list_ex (\<lambda>s. pend_table_label s = spec_label table) (sp_subs ?sp)")
    case True
    with Inr r g show ?thesis by (simp add: register_def Let_def)
  next
    case False
    then have "spec_label table \<notin> pend_table_label ` set (sp_subs ?sp)"
      by (auto simp: list_ex_iff)
    with False Inr r g ok show ?thesis
      by (simp add: register_def Let_def) (intro groups_ok_set_pipeline; simp add: group_ok_def)
  qed
qed

lemma groups_ok_start:
  assumes "groups_ok W" and "a < next_pipeline W"
  shows "groups_ok (snd (ensure_started D etl_start a W))"
proof -
  let ?sp = "pipelines W a"
  have ok: "group_ok ?sp" using assms by (simp add: groups_ok_def)
  have keep: "groups_ok (set_pipeline a (?sp\<lparr>sp_started := True, sp_pipeline_config := c, sp_shutdown := x\<rparr>) W)" for c x
    using assms ok by (intro groups_ok_set_pipeline) (auto simp: group_ok_def)
  have keep': "groups_ok (set_pipeline a (?sp\<lparr>sp_started := True, sp_pipeline_config := c\<rparr>) W)" for c
    using assms ok by (intro groups_ok_set_pipeline) (auto simp: group_ok_def)
  have keep'': "groups_ok (set_pipeline a (?sp\<lparr>sp_started := True\<rparr>) W)"
    using assms ok by (intro groups_ok_set_pipeline) (auto simp: group_ok_def)
  have log: "groups_ok ((set_pipeline a (?sp\<lparr>sp_started := True, sp_pipeline_config := None, sp_shutdown := True\<rparr>) W)
      \<lparr>etl_starts := etl_starts W @ [(a, map subscriber_of (sp_subs ?sp))]\<rparr>)" if "\<not> sp_started ?sp"
  proof -
    let ?W = "set_pipeline a (?sp\<lparr>sp_started := True, sp_pipeline_config := None, sp_shutdown := True\<rparr>) W"
    have "a \<notin> fst ` set (etl_starts W)"
      using assms(1) that by (fastforce simp: groups_ok_def starts_ok_def)
    moreover have "\<exists>n. map subscriber_of (sp_subs ?sp) = map subscriber_of (take n (sp_subs ?sp))"
      by (rule exI [of _ "length (sp_subs ?sp)"]) simp
    moreover have "starts_ok ?W" using keep [where c = None and x = True] by (simp add: groups_ok_def)
    ultimately have "starts_ok (?W\<lparr>etl_starts := etl_starts W @ [(a, map subscriber_of (sp_subs ?sp))]\<rparr>)"
      using assms(2) by (auto simp: starts_ok_def set_pipeline_def)
    with keep [where c = None and x = True] show ?thesis by (simp add: groups_ok_def)
  qed
  show ?thesis
    using assms(1) keep' keep'' log
    by (auto simp: ensure_started_def Let_def split: option.split sum.split)
qed

lemma groups_ok_deregister:
  assumes "groups_ok W" and "a < next_pipeline W"
  shows "groups_ok (deregister a i W)"
proof -
  let ?sp = "pipelines W a"
  have ok: "group_ok ?sp" using assms by (simp add: groups_ok_def)
  have 1: "groups_ok (set_pipeline a (?sp\<lparr>sp_refcount := n\<rparr>) W)" for n
    using assms ok by (intro groups_ok_set_pipeline) (auto simp: group_ok_def)
  have "groups_ok (set_pipeline a (?sp\<lparr>sp_refcount := n, sp_shutdown := False\<rparr>) W)" for n
    using assms ok by (intro groups_ok_set_pipeline) (auto simp: group_ok_def)
  then have "groups_ok ((set_pipeline a (?sp\<lparr>sp_refcount := n, sp_shutdown := False\<rparr>) W)
      \<lparr>etl_shutdowns := l, registry := hm_remove slot (registry W)\<rparr>)" for n l slot
    by (auto simp: groups_ok_def starts_ok_def set_pipeline_def split: if_splits)
  with 1 show ?thesis by (simp add: deregister_def Let_def)
qed

lemma groups_reachable_ok: "groups_reachable W \<Longrightarrow> groups_ok W"
proof (induction rule: groups_reachable.induct)
  case (groups_next W W')
  have "groups_ok (pipeline_ended a W)" if "a < next_pipeline W" for a
    unfolding pipeline_ended_def using groups_next.IH that
    by (intro groups_ok_set_pipeline) (auto simp: groups_ok_def group_ok_def)
  with groups_next show ?case
    by (auto elim!: groups_step.cases intro: groups_ok_register groups_ok_start groups_ok_deregister)
qed simp

section \<open>Properties\<close>

text \<open>Subscribers of a group differ in number as long as the source counter has not wrapped.\<close>

lemma group_subscribers_distinct:
  assumes "group_ok sp" and "n \<le> length (sp_subs sp)" and "n \<le> 2 ^ 64"
  defines "subs \<equiv> map subscriber_of (take n (sp_subs sp))"
  shows "distinct (map sub_source_id subs)" and "distinct (map sub_table_label subs)"
proof -
  have ids: "map sub_source_id subs = map of_nat [0..<n]"
    using assms by (simp add: group_ok_def subscriber_of_def comp_def subs_def flip: take_map)
      (simp add: take_map)
  have "inj_on (of_nat :: nat \<Rightarrow> SourceId) {0..<n}"
  proof (rule inj_onI)
    fix i j assume "i \<in> {0..<n}" "j \<in> {0..<n}" and eq: "(of_nat i :: SourceId) = of_nat j"
    then have "i < 2 ^ 64" "j < 2 ^ 64" using assms(3) by auto
    then have "unat (of_nat i :: SourceId) = i" "unat (of_nat j :: SourceId) = j"
      by (simp_all add: unat_of_nat)
    with eq show "i = j" by metis
  qed
  then show "distinct (map sub_source_id subs)" by (simp add: ids distinct_map)
  show "distinct (map sub_table_label subs)"
    using assms(1) by (simp add: subs_def subscriber_of_def comp_def group_ok_def distinct_take
        flip: take_map)
qed

text \<open>
  C10: however registrations, starts, failures and deregistrations interleave, the replication
  pipeline of a group is started at most once, and the subscribers it is started with have
  different source numbers and different tables, so one write feeds each source at most once.
\<close>

theorem group_starts_once:
  assumes "groups_reachable W"
  shows "distinct (map fst (etl_starts W)) \<and>
     (\<forall>(a, subs) \<in> set (etl_starts W). length subs \<le> 2 ^ 64 \<longrightarrow>
        distinct (map sub_source_id subs) \<and> distinct (map sub_table_label subs))"
proof -
  have ok: "groups_ok W" using assms by (rule groups_reachable_ok)
  have "distinct (map sub_source_id subs) \<and> distinct (map sub_table_label subs)"
    if mem: "(a, subs) \<in> set (etl_starts W)" and len: "length subs \<le> 2 ^ 64" for a subs
  proof -
    have "starts_ok W" using ok by (simp add: groups_ok_def)
    from bspec [OF conjunct2 [OF this [unfolded starts_ok_def]] mem] obtain n where
      a: "a < next_pipeline W" and n: "subs = map subscriber_of (take n (sp_subs (pipelines W a)))"
      by auto
    let ?m = "min n (length (sp_subs (pipelines W a)))"
    have "subs = map subscriber_of (take ?m (sp_subs (pipelines W a)))" and "?m \<le> 2 ^ 64"
      using n len by (simp_all add: min_def split: if_splits)
    with group_subscribers_distinct [of "pipelines W a" ?m] ok a show ?thesis
      by (simp add: groups_ok_def)
  qed
  then show ?thesis using ok by (auto simp: groups_ok_def starts_ok_def)
qed

text \<open>
  C11: a registration either joins the group or changes nothing. On success the slot's registered
  group has the identity asked for, did not have the table before, and has it now as its last
  subscriber under the number returned; on an error the registry and all groups are as before.
\<close>

theorem register_joins_or_changes_nothing:
  assumes "register slot cfg bk identity table capacity auto W = (r, W')"
  shows "case r of
       Inl e \<Rightarrow> W' = W
     | Inr sub \<Rightarrow>
         hm_get (registry W') slot = Some (subscr_shared sub) \<and>
         sp_identity (pipelines W' (subscr_shared sub)) = identity \<and>
         (\<exists>before s. sp_subs (pipelines W' (subscr_shared sub)) = before @ [s] \<and>
            (hm_get (registry W) slot = Some (subscr_shared sub) \<longrightarrow>
               before = sp_subs (pipelines W (subscr_shared sub))) \<and>
            pend_source_id s = subscr_source_id sub \<and> pend_table_label s = spec_label table \<and>
            spec_label table \<notin> pend_table_label ` set before)"
proof (cases "hm_get (registry W) slot")
  case None
  with assms show ?thesis
    by (auto simp: register_def find_group_def set_pipeline_def new_pipeline_def Let_def)
next
  case (Some a)
  show ?thesis
  proof (cases "sp_identity (pipelines W a) = identity")
    case False
    with Some assms show ?thesis by (auto simp: register_def find_group_def)
  next
    case True
    show ?thesis
    proof (cases "spec_label table \<in> pend_table_label ` set (sp_subs (pipelines W a))")
      case True
      then have "list_ex (\<lambda>s. pend_table_label s = spec_label table) (sp_subs (pipelines W a))"
        by (auto simp: list_ex_iff)
      with Some \<open>sp_identity (pipelines W a) = identity\<close> assms show ?thesis
        by (auto simp: register_def find_group_def)
    next
      case False
      then have "\<not> list_ex (\<lambda>s. pend_table_label s = spec_label table) (sp_subs (pipelines W a))"
        by (force simp: list_ex_iff)
      with False Some \<open>sp_identity (pipelines W a) = identity\<close> assms show ?thesis
        by (auto simp: register_def find_group_def set_pipeline_def Let_def)
    qed
  qed
qed

text \<open>The tables the publication does not cover yet.\<close>

definition uncovered :: "db_session \<Rightarrow> string list \<Rightarrow> string list" where
  "uncovered D tables =
     (case db_puballtables D of
        Inr None \<Rightarrow> tables
      | Inr (Some False) \<Rightarrow>
          (case db_publication_tables D of Inr h \<Rightarrow> filter (\<lambda>t. t \<notin> set h) tables | Inl _ \<Rightarrow> [])
      | _ \<Rightarrow> [])"

text \<open>
  C12: the statement sent to the database names exactly the tables the publication lacks. When the
  publication is ensured without error, no statement was sent if nothing was uncovered; otherwise
  one was, it starts with the command on the quoted publication, and the database reads the rest as
  the list of the uncovered tables, whatever quotes, dots or commas their names contain.
\<close>

theorem publication_statement_exact:
  assumes "ensure_publication D publication tables = (Inr (), stmt)" and "tables \<noteq> []"
    and "\<forall>l \<in> set tables. split_once CHR ''.'' l \<noteq> None"
  shows "(uncovered D tables = [] \<longrightarrow> stmt = None) \<and>
     (uncovered D tables \<noteq> [] \<longrightarrow>
        (\<exists>command list. stmt = Some (command @ list) \<and>
           (command = ''CREATE PUBLICATION '' @ quote_ident publication @ '' FOR TABLE'' \<or>
            command = ''ALTER PUBLICATION '' @ quote_ident publication @ '' ADD TABLE'') \<and>
           lex_tables (length tables) list
             = Some (map (the \<circ> split_once CHR ''.'') (uncovered D tables))))"
proof -
  let ?u = "uncovered D tables"
  have read: "lex_tables (length tables) (push_tables 0 ?u []) = Some (map (the \<circ> split_once CHR ''.'') ?u)"
    if "?u \<noteq> []"
  proof (rule lex_tables_pushed [OF that])
    have "set ?u \<subseteq> set tables \<and> length ?u \<le> length tables"
      by (auto simp: uncovered_def split: sum.split option.split bool.split)
    then show "\<forall>l \<in> set ?u. split_once CHR ''.'' l \<noteq> None" and "length ?u \<le> length tables"
      using assms(3) by auto
  qed
  have "(?u = [] \<and> stmt = None) \<or> (?u \<noteq> [] \<and> (\<exists>command. stmt = Some (push_tables 0 ?u command) \<and>
      (command = ''CREATE PUBLICATION '' @ quote_ident publication @ '' FOR TABLE'' \<or>
       command = ''ALTER PUBLICATION '' @ quote_ident publication @ '' ADD TABLE'')))"
    using assms(1,2)
    by (auto simp: ensure_publication_def uncovered_def Let_def
        split: sum.splits option.splits bool.splits if_splits)
  then show ?thesis
    using read push_tables_acc [of 0 ?u] by metis
qed

text \<open>Leaving a group several times.\<close>

definition leave_all :: "nat \<Rightarrow> SourceId list \<Rightarrow> ('f, 'b) groups \<Rightarrow> ('f, 'b) groups" where
  "leave_all a ids W = fold (deregister a) ids W"

lemma leave_some:
  "length ids < sp_refcount (pipelines W a) \<Longrightarrow>
   leave_all a ids W
     = set_pipeline a ((pipelines W a)\<lparr>sp_refcount := sp_refcount (pipelines W a) - length ids\<rparr>) W"
proof (induction ids arbitrary: W)
  case Nil
  then show ?case by (simp add: leave_all_def set_pipeline_def)
next
  case (Cons i ids)
  have "deregister a i W
      = set_pipeline a ((pipelines W a)\<lparr>sp_refcount := sp_refcount (pipelines W a) - 1\<rparr>) W"
    using Cons.prems by (simp add: deregister_def Let_def)
  moreover have "leave_all a ids (deregister a i W) = leave_all a (i # ids) W"
    by (simp add: leave_all_def)
  ultimately show ?case
    using Cons.IH [of "deregister a i W"] Cons.prems by (simp add: set_pipeline_def)
qed

text \<open>
  the pipeline outlives every source but the last. While fewer sources have left a running group
  than registered in it, the pipeline has not been told to shut down and the slot stays registered;
  when the last one leaves, the pipeline is shut down, once, and the slot is free again.
\<close>

theorem last_source_shuts_down:
  assumes "sp_shutdown (pipelines W a)" and "0 < sp_refcount (pipelines W a)"
    and "length ids \<le> sp_refcount (pipelines W a)"
  shows "if length ids < sp_refcount (pipelines W a)
     then etl_shutdowns (leave_all a ids W) = etl_shutdowns W \<and>
          registry (leave_all a ids W) = registry W
     else etl_shutdowns (leave_all a ids W) = etl_shutdowns W @ [a] \<and>
          hm_get (registry (leave_all a ids W)) (sp_slot_name (pipelines W a)) = None"
proof (cases "length ids < sp_refcount (pipelines W a)")
  case True
  with leave_some [OF True] show ?thesis by (simp add: set_pipeline_def)
next
  case False
  with assms obtain js i where ids: "ids = js @ [i]" and len: "length js < sp_refcount (pipelines W a)"
    by (cases ids rule: rev_cases) auto
  have "sp_refcount (pipelines W a) - length js = 1"
    using False assms(3) ids by simp
  moreover have "leave_all a ids W = deregister a i (leave_all a js W)"
    by (simp add: ids leave_all_def)
  ultimately show ?thesis
    using False assms(1) leave_some [OF len] by (simp add: deregister_def set_pipeline_def)
qed

subsection \<open>Witnesses\<close>

definition sample_pipeline_config :: "nat PipelineConfig" where
  "sample_pipeline_config =
     \<lparr>pl_id = 7, pl_publication_name = ''pub'',
      pl_connection = \<lparr>pg_host = ''db'', pg_port = 5432, pg_name = ''app'', pg_username = ''repl'',
        pg_password = None, pg_tls = \<lparr>tls_trusted_root_certs = [], tls_enabled = False\<rparr>\<rparr>,
      pl_batch_max_fill_ms = 1000, pl_batch_max_bytes = 8388608, pl_table_error_retry_delay_ms = 10000,
      pl_table_error_retry_max_attempts = 5, pl_max_table_sync_workers = 4,
      pl_memory_refresh_interval_ms = 100, pl_memory_backpressure = None,
      pl_run_source_migrations = True\<rparr>"

definition sample_identity :: GroupIdentity where
  "sample_identity =
     \<lparr>gi_host = ''db'', gi_port = 5432, gi_database = ''app'', gi_username = ''repl'',
      gi_publication_name = ''pub''\<rparr>"

definition sample_register ::
  "string \<Rightarrow> (nat, unit) groups \<Rightarrow> (string + Subscription) \<times> (nat, unit) groups" where
  "sample_register label =
     register ''slot'' sample_pipeline_config () sample_identity
       \<lparr>spec_label = label, spec_data_columns = [''id''], spec_emit_update_before_row = False\<rparr> 8 False"

definition sample_db :: db_session where
  "sample_db =
     \<lparr>db_connect = Inr (), db_puballtables = Inr (Some False),
      db_publication_tables = Inr [''public.users''], db_execute = (\<lambda>_. Inr ())\<rparr>"

definition sample_groups :: "(nat, unit) groups" where
  "sample_groups =
     snd (ensure_started sample_db (Inr ()) 0
       (snd (sample_register ''public.orders'' (snd (sample_register ''public.users''
         (groups_init (new_pipeline [] sample_pipeline_config () sample_identity False)))))))"

lemmas sample_defs = sample_groups_def sample_register_def register_def find_group_def groups_init_def
  set_pipeline_def new_pipeline_def ensure_started_def Let_def

lemma sample_groups_reachable: "groups_reachable sample_groups"
  unfolding sample_groups_def sample_register_def
  by (intro groups_next [OF _ do_start] groups_next [OF _ do_register] groups_start)
    (simp add: sample_defs)

theorem group_starts_once_witness:
  "distinct (map fst (etl_starts sample_groups)) \<and>
   distinct (map sub_table_label (snd (hd (etl_starts sample_groups)))) \<and>
   map (\<lambda>(a, subs). (a, map sub_source_id subs)) (etl_starts sample_groups) = [(0, [0, 1])]"
  using group_starts_once [OF sample_groups_reachable]
  by (auto simp: sample_defs subscriber_of_def sample_pipeline_config_def)

theorem register_joins_or_changes_nothing_witness:
  "\<exists>r W'. sample_register ''public.events'' sample_groups = (Inr r, W') \<and>
     sp_identity (pipelines W' (subscr_shared r)) = sample_identity"
proof -
  obtain r W' where "sample_register ''public.events'' sample_groups = (Inr r, W')"
    by (simp add: sample_defs sample_pipeline_config_def)
  with register_joins_or_changes_nothing [OF this [unfolded sample_register_def]] show ?thesis by auto
qed

theorem publication_statement_exact_witness:
  "\<exists>command list. snd (ensure_publication sample_db ''pub'' [''public.users'', ''sales.orders''])
       = Some (command @ list) \<and> lex_tables 2 list = Some [(''sales'', ''orders'')]"
proof -
  let ?e = "ensure_publication sample_db ''pub'' [''public.users'', ''sales.orders'']"
  have "?e = (Inr (), snd ?e)" by (simp add: ensure_publication_def sample_db_def Let_def)
  from publication_statement_exact [OF this] show ?thesis
    by (auto simp: uncovered_def sample_db_def numeral_2_eq_2)
qed

theorem last_source_shuts_down_witness:
  "etl_shutdowns (leave_all 0 [0, 1] sample_groups) = [0] \<and>
   hm_get (registry (leave_all 0 [0, 1] sample_groups)) ''slot'' = None"
proof -
  have "sp_shutdown (pipelines sample_groups 0)" "sp_refcount (pipelines sample_groups 0) = 2"
    "sp_slot_name (pipelines sample_groups 0) = ''slot''" "etl_shutdowns sample_groups = []"
    by (simp_all add: sample_defs sample_pipeline_config_def)
  with last_source_shuts_down [of sample_groups 0 "[0, 1]"] show ?thesis by simp
qed

end
