(* ===== verification/CdcPlugin.thy ===== *)
theory CdcPlugin
  imports Pipeline CdcSource
begin

text \<open>
  The life of a \<open>postgres_cdc_source\<close> as the host sees it (\<open>src/src/postgres_cdc/source.rs\<close>,
  with the column discovery of \<open>discovery.rs\<close>): construction parses the options, discovers the
  table and registers it in its group, initialization starts the group and creates the running
  state, termination closes the channel and leaves the group.

  The catalog query is the record \<open>catalog\<close>; rendering an error as text is the parameter
  \<open>show_error\<close>.
\<close>

section \<open>Discovery\<close>

record catalog =
  cat_runtime :: "string + unit"
  cat_connect :: "string + unit"
  cat_rows :: "string + (string \<times> 64 word) list"
  cat_panicked :: bool

definition discover_columns_blocking ::
  "catalog \<Rightarrow> string \<Rightarrow> string \<Rightarrow> string + DiscoveredColumn list" where
  "discover_columns_blocking K schema name =
     (if cat_panicked K then Inl ''postgres_cdc_source: schema discovery thread panicked''
      else
        res_bind (map_err (\<lambda>e. ''postgres_cdc_source: discovery runtime: '' @ e) (cat_runtime K)) (\<lambda>_.
        res_bind (map_err (\<lambda>e. ''postgres_cdc_source: schema discovery connect: '' @ e) (cat_connect K)) (\<lambda>_.
        res_bind (map_err (\<lambda>e. ''postgres_cdc_source: schema discovery query: '' @ e) (cat_rows K)) (\<lambda>rows.
        if rows = []
        then Inl (''postgres_cdc_source: table '' @ schema @ ''.'' @ name @ '' not found or has no columns'')
        else Inr (map (\<lambda>(n, oid). \<lparr>dc_name = n, type_oid = ucast oid\<rparr>) rows)))))"

section \<open>The plugin\<close>

record ('a, 'r) live_state =
  live_running :: "('a, 'r) RunningState"
  live_shared :: nat
  live_source_id :: SourceId

record ('f, 'a, 'r) PostgresCdcSource =
  src_schema :: Schema
  src_settings :: SourceSettings
  src_pending :: "('f ParsedConfig \<times> Subscription) option"
  src_state :: "('a, 'r) live_state option"
  src_running :: bool
  src_rx_closed :: bool

definition source_new ::
  "'f etl_config \<Rightarrow> (u32 \<Rightarrow> PgType option) \<Rightarrow> (PluginError \<Rightarrow> string) \<Rightarrow> catalog \<Rightarrow> 'b
     \<Rightarrow> environment \<Rightarrow> (string, string) hash_map \<Rightarrow> ('f, 'b) groups
     \<Rightarrow> (string + ('f, 'a, 'r) PostgresCdcSource) \<times> ('f, 'b) groups" where
  "source_new C types show_error K state_backend env options W =
     (case parse_options C env (plugin_options_new options PLUGIN_NAME ENV_PREFIX) of
        Inl e \<Rightarrow> (Inl (show_error e), W)
      | Inr parsed \<Rightarrow>
     (case discover_columns_blocking K (table_schema (pcf_settings parsed)) (table_name (pcf_settings parsed)) of
        Inl e \<Rightarrow> (Inl e, W)
      | Inr columns \<Rightarrow>
     (case build_output_schema types columns of
        Inl e \<Rightarrow> (Inl e, W)
      | Inr schema \<Rightarrow>
     (case register (slot_name (pcf_settings parsed)) (pcf_pipeline parsed) state_backend
             (group_identity parsed)
             \<lparr>spec_label = table_schema (pcf_settings parsed) @ ''.'' @ table_name (pcf_settings parsed),
              spec_data_columns = map field_name (tl schema),
              spec_emit_update_before_row = emit_update_before_row (pcf_settings parsed)\<rparr>
             (max_buffered_units (pcf_settings parsed))
             (auto_create_publication (pcf_settings parsed)) W of
        (Inl e, W') \<Rightarrow> (Inl e, W')
      | (Inr subscription, W') \<Rightarrow>
          (Inr \<lparr>src_schema = schema, src_settings = pcf_settings parsed,
                src_pending = Some (parsed, subscription), src_state = None, src_running = True,
                src_rx_closed = False\<rparr>, W')))))"

definition source_initialize ::
  "db_session \<Rightarrow> (string + unit) \<Rightarrow> ('f, 'a, 'r) PostgresCdcSource \<Rightarrow> ('f, 'b) groups
     \<Rightarrow> (PluginError + unit) \<times> ('f, 'a, 'r) PostgresCdcSource \<times> ('f, 'b) groups" where
  "source_initialize D etl_start src W =
     (case src_pending src of
        None \<Rightarrow>
          (Inl (Internal ''source already initialized (or a previous initialize failed)''), src, W)
      | Some (cfg, subscription) \<Rightarrow>
          (let src1 = src\<lparr>src_pending := None\<rparr> in
           case ensure_started D etl_start (subscr_shared subscription) W of
             (Inl e, W') \<Rightarrow> (Inl (Internal e), src1, W')
           | (Inr _, W') \<Rightarrow>
               (case src_state src1 of
                  Some _ \<Rightarrow> (Inl (Internal ''source already initialized''), src1, W')
                | None \<Rightarrow>
                    (Inr (),
                     src1\<lparr>src_state := Some \<lparr>live_running = running_new,
                        live_shared = subscr_shared subscription,
                        live_source_id = subscr_source_id subscription\<rparr>\<rparr>, W'))))"

definition source_state :: "('f, 'a, 'r) PostgresCdcSource \<Rightarrow> PluginError + ('a, 'r) live_state" where
  "source_state src = ok_or (Internal ''postgres_cdc_source not initialized'') (src_state src)"

definition source_is_running :: "('f, 'a, 'r) PostgresCdcSource \<Rightarrow> ('f, 'b) groups \<Rightarrow> bool" where
  "source_is_running src W =
     (case src_state src of
        Some st \<Rightarrow> is_running (live_shared st) W
      | None \<Rightarrow> src_running src)"

definition source_terminate ::
  "('f, 'a, 'r) PostgresCdcSource \<Rightarrow> ('f, 'b) groups \<Rightarrow> ('f, 'a, 'r) PostgresCdcSource \<times> ('f, 'b) groups" where
  "source_terminate src W =
     (case src_state src of
        Some st \<Rightarrow> (src\<lparr>src_rx_closed := True, src_running := False\<rparr>,
                     deregister (live_shared st) (live_source_id st) W)
      | None \<Rightarrow> (src\<lparr>src_running := False\<rparr>, W))"

section \<open>Properties\<close>

text \<open>The rows of a converter have one value for each of its columns.\<close>

lemma convert_events_width:
  "row \<in> set (convert_events (row_converter_new t cols e) events) \<Longrightarrow> length (row_values row) = length cols"
  by (drule convert_events_arity) (simp add: row_converter_new_def)

lemma register_Inl: "register slot cfg bk identity t cap auto W = (Inl e, W') \<Longrightarrow> W' = W"
  by (auto simp: register_def find_group_def set_pipeline_def new_pipeline_def Let_def
      split: option.splits if_splits)

lemma register_Inr:
  "register slot cfg bk identity t cap auto W = (Inr s, W') \<Longrightarrow>
   \<exists>sub \<in> set (sp_subs (pipelines W' (subscr_shared s))).
     pend_source_id sub = subscr_source_id s \<and> pend_table_label sub = spec_label t \<and>
     pend_data_columns sub = spec_data_columns t"
  by (auto simp: register_def find_group_def set_pipeline_def new_pipeline_def Let_def
      split: option.splits if_splits)

text \<open>
  a source that is constructed is wired to its own schema. When construction succeeds, the group
  has a subscriber under the source's number for the source's table, and every row that subscriber's
  converter makes from any events has exactly one value per data column of the source's schema, so
  batch construction never rejects it; when construction fails, no group has changed.
\<close>

theorem source_new_wires_schema:
  fixes W :: "('f, 'b) groups"
  assumes "source_new C types show_error K bk env options W
             = (r :: string + ('f, 'a, 'r) PostgresCdcSource, W')"
  shows "case r of
       Inl e \<Rightarrow> W' = W
     | Inr src \<Rightarrow>
         (\<exists>cfg subscription sub. src_pending src = Some (cfg, subscription) \<and>
            sub \<in> set (sp_subs (pipelines W' (subscr_shared subscription))) \<and>
            pend_source_id sub = subscr_source_id subscription \<and>
            pend_table_label sub = table_schema (src_settings src) @ ''.'' @ table_name (src_settings src) \<and>
            (\<forall>events :: 'x Event list. \<forall>row \<in> set (convert_events (sub_converter (subscriber_of sub)) events).
               length (row_values row) = length (tl (src_schema src))))"
proof (cases r)
  case (Inl e)
  with assms show ?thesis
    by (auto simp: source_new_def split: sum.splits prod.splits dest!: register_Inl)
next
  case (Inr src)
  with assms obtain parsed columns schema subscription where
    reg: "register (slot_name (pcf_settings parsed)) (pcf_pipeline parsed) bk (group_identity parsed)
      \<lparr>spec_label = table_schema (pcf_settings parsed) @ ''.'' @ table_name (pcf_settings parsed),
       spec_data_columns = map field_name (tl schema),
       spec_emit_update_before_row = emit_update_before_row (pcf_settings parsed)\<rparr>
      (max_buffered_units (pcf_settings parsed)) (auto_create_publication (pcf_settings parsed)) W
      = (Inr subscription, W')"
    and src: "src_schema src = schema" "src_settings src = pcf_settings parsed"
      "src_pending src = Some (parsed, subscription)"
    by (auto simp: source_new_def split: sum.splits prod.splits)
  from register_Inr [OF reg] obtain sub where
    sub: "sub \<in> set (sp_subs (pipelines W' (subscr_shared subscription)))"
      "pend_source_id sub = subscr_source_id subscription"
      "pend_table_label sub = table_schema (pcf_settings parsed) @ ''.'' @ table_name (pcf_settings parsed)"
      "pend_data_columns sub = map field_name (tl schema)"
    by auto
  have "length (row_values row) = length (tl schema)"
    if "row \<in> set (convert_events (sub_converter (subscriber_of sub)) events)"
    for row and events :: "'x Event list"
    using that sub(4) convert_events_width [of row "pend_table_label sub" "pend_data_columns sub"]
    by (simp add: subscriber_of_def)
  with Inr src sub show ?thesis by auto
qed

definition sample_catalog :: catalog where
  "sample_catalog =
     \<lparr>cat_runtime = Inr (), cat_connect = Inr (), cat_rows = Inr [(''id'', 20), (''name'', 25)],
      cat_panicked = False\<rparr>"

definition sample_new ::
  "(string + (nat, nat, nat) PostgresCdcSource) \<times> (nat, unit) groups" where
  "sample_new =
     source_new sample_etl_config (\<lambda>_. None) (\<lambda>_. []) sample_catalog () (\<lambda>_. None)
       (po_options sample_options)
       (groups_init (new_pipeline [] sample_pipeline_config () sample_identity False))"

lemma sample_new_Inr: "\<exists>src W'. sample_new = (Inr src, W')"
proof -
  have parsed: "\<exists>p. parse_options sample_etl_config (\<lambda>_. None)
      (plugin_options_new (po_options sample_options) PLUGIN_NAME ENV_PREFIX) = Inr p"
    by (simp add: config_defs sample_options_def plugin_options_new_def get_option_def get_parsed_or_def
        get_secret_def get_or_def lookup_def filter_non_empty_def parse_value_def parse_unsigned_def
        is_digit_def parse_table_def positive_def sample_etl_config_def Let_def)
  have "discover_columns_blocking sample_catalog sc n
      = Inr [\<lparr>dc_name = ''id'', type_oid = 20\<rparr>, \<lparr>dc_name = ''name'', type_oid = 25\<rparr>]" for sc n
    by (simp add: discover_columns_blocking_def sample_catalog_def)
  with parsed show ?thesis
    by (auto simp: sample_new_def source_new_def build_output_schema_def STREAMLING_COLUMN_NAME_OP_def
        register_def find_group_def groups_init_def set_pipeline_def new_pipeline_def Let_def)
qed

theorem source_new_wires_schema_witness:
  "\<exists>src W' cfg s. sample_new = (Inr src, W') \<and> src_pending src = Some (cfg, s) \<and>
     (\<exists>sub \<in> set (sp_subs (pipelines W' (subscr_shared s))). pend_source_id sub = subscr_source_id s)"
proof -
  obtain src W' where new: "sample_new = (Inr src, W')" using sample_new_Inr by blast
  from source_new_wires_schema [OF new [unfolded sample_new_def], where 'x = nat]
  have "\<exists>cfg s. src_pending src = Some (cfg, s) \<and>
      (\<exists>sub \<in> set (sp_subs (pipelines W' (subscr_shared s))). pend_source_id sub = subscr_source_id s)"
    by auto
  with new show ?thesis by blast
qed

text \<open>
  a source initializes at most once. Whatever the outcome of a first initialization, every later
  one fails and changes neither the source nor the groups, and a source whose first initialization
  failed stays uninitialized, so its operations keep reporting that.
\<close>

theorem source_initializes_once:
  assumes "source_initialize D etl_start src W = (r, src1, W1)"
  shows "(\<exists>e. source_initialize D' etl_start' src1 W2 = (Inl e, src1, W2)) \<and>
     (\<forall>e. r = Inl e \<longrightarrow> src_state src1 = src_state src)"
proof -
  have "src_pending src1 = None"
    using assms by (auto simp: source_initialize_def Let_def split: option.splits prod.splits sum.splits)
  moreover have "src_state src1 = src_state src" if "r = Inl e" for e
    using assms that by (auto simp: source_initialize_def Let_def split: option.splits prod.splits sum.splits)
  ultimately show ?thesis by (auto simp: source_initialize_def)
qed

theorem source_initializes_once_witness:
  "\<exists>src W r src1 W1. sample_new = (Inr src, W) \<and>
     source_initialize sample_db (Inr ()) src W = (r, src1, W1) \<and>
     (\<exists>e. source_initialize sample_db (Inr ()) src1 W1 = (Inl e, src1, W1))"
proof -
  obtain src W where "sample_new = (Inr src, W)" using sample_new_Inr by blast
  moreover obtain r src1 W1 where init: "source_initialize sample_db (Inr ()) src W = (r, src1, W1)"
    by (cases "source_initialize sample_db (Inr ()) src W")
  ultimately show ?thesis using source_initializes_once [OF init, of sample_db "Inr ()" W1] by blast
qed

end
