(* ===== verification/SqsSink.thy ===== *)
theory SqsSink
  imports PluginOptions "HOL-Library.Multiset"
begin

text \<open>
  The SQS sink (\<open>src/src/sinks/sqs/config.rs\<close>, \<open>src/src/sinks/sqs/sink.rs\<close>): option
  validation, packing of rows into message bodies, and sending in bounded requests with retries
  of the entries the queue reports as failed.

  The queue service is the record \<open>sqs_client\<close> over an arbitrary service state: building an entry
  and sending a request may fail, and a request that succeeds reports the entries it did not
  accept. Every answered request is logged as its entries with the reported failures; \<open>accepted\<close>
  reads off the log which bodies the queue has. Waiting between attempts is not modelled. Message
  lengths are natural numbers: they are lengths of texts in memory.
\<close>

section \<open>Configuration\<close>

definition DEFAULT_ROLE_SESSION_NAME :: string where
  "DEFAULT_ROLE_SESSION_NAME = ''streamling-sqs-sink''"

record AssumeRoleConfig =
  role_arn :: string
  external_id :: "string option"
  session_name :: string

record SqsSinkConfig =
  sqs_region :: "string option"
  sqs_endpoint_url :: "string option"
  sqs_assume_role :: "AssumeRoleConfig option"

definition sqs_invalid :: "string \<Rightarrow> PluginError" where
  "sqs_invalid reason = Internal (''sqs_sink: '' @ reason)"

definition region_from_queue_url :: "string \<Rightarrow> string option" where
  "region_from_queue_url url =
     (case split_at_text ''://'' url of
        None \<Rightarrow> None
      | Some (_, after) \<Rightarrow>
          (let second = (case split_at_text ''://'' after of None \<Rightarrow> after | Some (a, _) \<Rightarrow> a);
               host = (case split_once CHR ''/'' second of None \<Rightarrow> second | Some (a, _) \<Rightarrow> a)
           in case strip_prefix ''sqs.'' host of
                None \<Rightarrow> None
              | Some rest \<Rightarrow>
                  (case split_once CHR ''.'' rest of
                     None \<Rightarrow> None
                   | Some (region, domain) \<Rightarrow>
                       if domain = ''amazonaws.com'' \<or> domain = ''amazonaws.com.cn''
                       then Some region else None)))"

definition validate_role_arn :: "string \<Rightarrow> PluginError + unit" where
  "validate_role_arn arn =
     (let parts = splitn 6 CHR '':'' arn in
      if length parts = 6 \<and> parts ! 0 = ''arn'' \<and> strip_prefix ''aws'' (parts ! 1) \<noteq> None \<and>
         parts ! 2 = ''iam'' \<and> parts ! 3 = [] \<and> length (parts ! 4) = 12 \<and>
         list_all is_digit (parts ! 4) \<and> length (parts ! 5) > length ''role/'' \<and>
         strip_prefix ''role/'' (parts ! 5) \<noteq> None
      then Inr ()
      else Inl (sqs_invalid (''role_arn '' @ quoted arn
             @ '' is not an IAM role ARN (arn:aws:iam::<account-id>:role/<name>)'')))"

definition is_ascii_alphanumeric :: "char \<Rightarrow> bool" where
  "is_ascii_alphanumeric c \<longleftrightarrow>
     is_digit c \<or> (65 \<le> (of_char c :: nat) \<and> (of_char c :: nat) \<le> 90) \<or>
     (97 \<le> (of_char c :: nat) \<and> (of_char c :: nat) \<le> 122)"

definition is_sts_name_char :: "char \<Rightarrow> string \<Rightarrow> bool" where
  "is_sts_name_char c extra \<longleftrightarrow> is_ascii_alphanumeric c \<or> c \<in> set ''_+=,.@-'' \<or> c \<in> set extra"

definition validate_session_name :: "string \<Rightarrow> PluginError + unit" where
  "validate_session_name name =
     (if 2 \<le> length name \<and> length name \<le> 64 \<and> list_all (\<lambda>c. is_sts_name_char c []) name then Inr ()
      else Inl (sqs_invalid (''role_session_name '' @ quoted name
             @ '' must be 2-64 characters of letters, digits and _+=,.@-'')))"

definition validate_external_id :: "string \<Rightarrow> PluginError + unit" where
  "validate_external_id i =
     (if 2 \<le> length i \<and> length i \<le> 1224 \<and> list_all (\<lambda>c. is_sts_name_char c '':/'') i then Inr ()
      else Inl (sqs_invalid ''external_id must be 2-1224 characters of letters, digits and _+=,.@:/-''))"

definition parse_assume_role ::
  "environment \<Rightarrow> PluginOptions \<Rightarrow> PluginError + AssumeRoleConfig option" where
  "parse_assume_role env o' =
     (case lookup_non_empty env o' ''role_arn'' of
        None \<Rightarrow> Inr None
      | Some arn \<Rightarrow>
          res_bind (validate_role_arn arn) (\<lambda>_.
          (let external = env_non_empty env o' ''external_id'' in
           res_bind (case external of None \<Rightarrow> Inr () | Some i \<Rightarrow> validate_external_id i) (\<lambda>_.
           (let name = (case lookup_non_empty env o' ''role_session_name'' of
                          None \<Rightarrow> DEFAULT_ROLE_SESSION_NAME | Some n \<Rightarrow> n) in
            res_bind (validate_session_name name) (\<lambda>_.
            Inr (Some \<lparr>role_arn = arn, external_id = external, session_name = name\<rparr>)))))))"

definition sqs_from_options :: "environment \<Rightarrow> PluginOptions \<Rightarrow> PluginError + SqsSinkConfig" where
  "sqs_from_options env o' =
     (if (lookup_non_empty env o' ''access_key_id'' \<noteq> None)
           \<noteq> (lookup_non_empty env o' ''secret_access_key'' \<noteq> None)
      then Inl (sqs_invalid ''access_key_id and secret_access_key must be set together'')
      else
        res_bind (parse_assume_role env o') (\<lambda>role.
        Inr \<lparr>sqs_region =
               (case lookup_non_empty env o' ''region'' of
                  Some r \<Rightarrow> Some r
                | None \<Rightarrow>
                    (case lookup_non_empty env o' ''queue_url'' of
                       None \<Rightarrow> None | Some url \<Rightarrow> region_from_queue_url url)),
             sqs_endpoint_url = lookup_non_empty env o' ''endpoint_url'',
             sqs_assume_role = role\<rparr>))"

section \<open>Packing\<close>

definition SQS_MAX_BATCH_SIZE :: nat where
  "SQS_MAX_BATCH_SIZE = 10"

definition SQS_PARTIAL_FAILURE_MAX_RETRIES :: nat where
  "SQS_PARTIAL_FAILURE_MAX_RETRIES = 5"

definition SQS_MAX_PAYLOAD_BYTES :: nat where
  "SQS_MAX_PAYLOAD_BYTES = 1048576"

definition SQS_MIN_PAYLOAD_BYTES :: nat where
  "SQS_MIN_PAYLOAD_BYTES = 1024"

text \<open>
  The inner loop over the rows that are left: \<open>taken\<close> is true once a row has been taken; the result
  is the number of rows taken and the bytes of the body without its brackets.
\<close>

fun take_rows :: "nat \<Rightarrow> string list \<Rightarrow> bool \<Rightarrow> nat \<Rightarrow> nat \<times> nat" where
  "take_rows max_bytes [] taken content = (0, content)"
| "take_rows max_bytes (row # rows) taken content =
     (let cost = length row + (if taken then 1 else 0) in
      if taken \<and> 2 + content + cost > max_bytes then (0, content)
      else (let (n, c) = take_rows max_bytes rows True (content + cost) in (Suc n, c)))"

text \<open>The body: brackets around the rows with commas between them.\<close>

fun push_rows :: "nat \<Rightarrow> string list \<Rightarrow> string \<Rightarrow> string" where
  "push_rows i [] body = body"
| "push_rows i (row # rows) body = push_rows (Suc i) rows (body @ (if i > 0 then '','' else []) @ row)"

lemma take_rows_pos: "rows \<noteq> [] \<Longrightarrow> 0 < fst (take_rows max_bytes rows False 0)"
  by (cases rows) (auto simp: case_prod_beta Let_def)

function pack_loop :: "nat \<Rightarrow> string list \<Rightarrow> string list \<Rightarrow> PluginError + string list" where
  "pack_loop max_bytes [] bodies = Inr bodies"
| "pack_loop max_bytes (row # rows) bodies =
     (let (n, content) = take_rows max_bytes (row # rows) False 0 in
      if 2 + content > max_bytes
      then Inl (Internal (''sqs_sink: a single row is '' @ show_nat (length row)
             @ '' bytes, which exceeds the '' @ show_nat max_bytes
             @ '' byte SQS payload limit even as the only element of an array body''))
      else pack_loop max_bytes (drop n (row # rows))
             (bodies @ [push_rows 0 (take n (row # rows)) ''['' @ '']'']))"
  by pat_completeness auto

termination
proof (relation "measure (\<lambda>(_, rows, _). length rows)", goal_cases)
  case (2 max_bytes row rows bodies x n content)
  have "n = fst (take_rows max_bytes (row # rows) False 0)" using 2 by (metis fst_conv)
  then have "0 < n" using take_rows_pos [of "row # rows" max_bytes] by simp
  then show ?case by simp
qed simp

definition pack_array_bodies :: "string list \<Rightarrow> nat \<Rightarrow> PluginError + string list" where
  "pack_array_bodies rows max_bytes = pack_loop max_bytes rows []"

fun ensure_bodies_fit :: "string list \<Rightarrow> nat \<Rightarrow> PluginError + unit" where
  "ensure_bodies_fit [] max_bytes = Inr ()"
| "ensure_bodies_fit (body # bodies) max_bytes =
     (if length body > max_bytes
      then Inl (Internal (''sqs_sink: a single message is '' @ show_nat (length body)
             @ '' bytes, which exceeds the '' @ show_nat max_bytes
             @ '' byte SQS message limit; shrink the rows or lower the sink's batch_size''))
      else ensure_bodies_fit bodies max_bytes)"

text \<open>The loop of \<open>next_chunk_len\<close> over the first \<open>max_count\<close> bodies.\<close>

fun chunk_loop :: "nat \<Rightarrow> (nat \<times> string) list \<Rightarrow> nat \<Rightarrow> nat \<Rightarrow> nat" where
  "chunk_loop max_bytes [] sent taken = taken"
| "chunk_loop max_bytes ((i, body) # bs) sent taken =
     (if taken > 0 \<and> sent + length body > max_bytes then taken
      else chunk_loop max_bytes bs (sent + length body) (Suc taken))"

definition next_chunk_len :: "(nat \<times> string) list \<Rightarrow> nat \<Rightarrow> nat \<Rightarrow> nat" where
  "next_chunk_len bodies max_count max_bytes = max (chunk_loop max_bytes (take max_count bodies) 0 0) 1"

section \<open>Sending\<close>

record BatchResultErrorEntry =
  be_id :: string
  be_sender_fault :: bool
  be_message :: "string option"

type_synonym entry = "string \<times> string"

record 's sqs_client =
  build_entry :: "string \<Rightarrow> string \<Rightarrow> string option"
  send_message_batch :: "string \<Rightarrow> entry list \<Rightarrow> 's \<Rightarrow> (string + BatchResultErrorEntry list) \<times> 's"
  debug_list :: "string list \<Rightarrow> string"

type_synonym request_log = "(entry list \<times> BatchResultErrorEntry list) list"

text \<open>The entries of a request: numbered by their position; an entry that cannot be built stops it.\<close>

definition entry_id :: "nat \<Rightarrow> string" where
  "entry_id i = ''msg_'' @ show_nat i"

definition build_entries :: "'s sqs_client \<Rightarrow> (nat \<times> string) list \<Rightarrow> PluginError + entry list" where
  "build_entries C to_retry =
     collect_results
       (\<lambda>(i, (idx, body)).
          case build_entry C (entry_id i) body of
            None \<Rightarrow> Inr (entry_id i, body)
          | Some e \<Rightarrow> Inl (Internal (''failed to build SQS message entry: '' @ e)))
       (zip [0..<length to_retry] to_retry)"

text \<open>The position a failed identifier names, when it names one of the request's entries.\<close>

definition failed_index :: "nat \<Rightarrow> string \<Rightarrow> nat option" where
  "failed_index n i =
     (case strip_prefix ''msg_'' i of
        None \<Rightarrow> None
      | Some s \<Rightarrow>
          (case parse_unsigned u64_max s of
             Inl _ \<Rightarrow> None
           | Inr k \<Rightarrow> if k < n then Some k else None))"

fun map_failed ::
  "(nat \<times> string) list \<Rightarrow> BatchResultErrorEntry list \<Rightarrow> (nat \<times> string) list \<times> string list" where
  "map_failed to_retry [] = ([], [])"
| "map_failed to_retry (f # fs) =
     (let (again, unrecognized) = map_failed to_retry fs in
      case failed_index (length to_retry) (be_id f) of
        Some i \<Rightarrow> (to_retry ! i # again, unrecognized)
      | None \<Rightarrow> (again, (if be_id f = [] then ''(empty)'' else be_id f) # unrecognized))"

text \<open>
  The attempts: \<open>k\<close> of them are left, the last one being attempt number
  \<open>SQS_PARTIAL_FAILURE_MAX_RETRIES\<close>.
\<close>

fun send_attempts ::
  "'s sqs_client \<Rightarrow> string \<Rightarrow> nat \<Rightarrow> nat \<Rightarrow> (nat \<times> string) list \<Rightarrow> 's
     \<Rightarrow> (PluginError + nat \<times> (nat \<times> string) list) \<times> request_log \<times> 's" where
  "send_attempts C url chunk_len 0 to_retry st = (Inr (0, []), [], st)"
| "send_attempts C url chunk_len (Suc k) to_retry st =
     (case build_entries C to_retry of
        Inl e \<Rightarrow> (Inl e, [], st)
      | Inr entries \<Rightarrow>
     (case send_message_batch C url entries st of
        (Inl e, st') \<Rightarrow> (Inl (Internal (''failed to send message batch to SQS: '' @ e)), [], st')
      | (Inr failed, st') \<Rightarrow>
          if failed = [] then (Inr (chunk_len, []), [(entries, failed)], st')
          else if list_ex be_sender_fault failed
          then (Inl (Internal (''SQS batch send failed (sender fault) for '' @ show_nat (length failed)
                  @ '' messages: '' @ debug_list C (map (\<lambda>f. case be_message f of
                       None \<Rightarrow> ''unknown error'' | Some m \<Rightarrow> m) failed))),
                [(entries, failed)], st')
          else
            (let (again, unrecognized) = map_failed to_retry failed in
             if unrecognized \<noteq> []
             then (Inl (Internal (''SQS batch send: could not map failed entry IDs back to messages ''
                     @ ''(unrecognized IDs: '' @ debug_list C unrecognized @ ''). Possible data loss.'')),
                   [(entries, failed)], st')
             else if k = 0
             then (Inl (Internal (''SQS batch send failed for '' @ show_nat (length again)
                     @ '' messages after '' @ show_nat SQS_PARTIAL_FAILURE_MAX_RETRIES @ '' retries'')),
                   [(entries, failed)], st')
             else
               (let (r, log, st'') = send_attempts C url chunk_len k again st' in
                (r, (entries, failed) # log, st'')))))"

definition send_chunk_with_retry ::
  "'s sqs_client \<Rightarrow> string \<Rightarrow> (nat \<times> string) list \<Rightarrow> 's
     \<Rightarrow> (PluginError + nat \<times> (nat \<times> string) list) \<times> request_log \<times> 's" where
  "send_chunk_with_retry C url chunk st =
     send_attempts C url (length chunk) (Suc SQS_PARTIAL_FAILURE_MAX_RETRIES) chunk st"

lemma send_attempts_none_left:
  "send_attempts C url n k to_retry st = (Inr (sent, failed), log, st') \<Longrightarrow> failed = []"
  by (induction C url n k to_retry st arbitrary: log st' rule: send_attempts.induct)
    (auto simp: Let_def split: sum.splits prod.splits if_splits)

function send_loop ::
  "'s sqs_client \<Rightarrow> string \<Rightarrow> nat \<Rightarrow> (nat \<times> string) list \<Rightarrow> nat \<Rightarrow> 's
     \<Rightarrow> (PluginError + nat) \<times> request_log \<times> 's" where
  "send_loop C url max_bytes [] total_sent st = (Inr total_sent, [], st)"
| "send_loop C url max_bytes (b # bs) total_sent st =
     (let chunk_len = next_chunk_len (b # bs) SQS_MAX_BATCH_SIZE max_bytes in
      case send_chunk_with_retry C url (take chunk_len (b # bs)) st of
        (Inl e, log, st') \<Rightarrow> (Inl e, log, st')
      | (Inr (sent, failed), log, st') \<Rightarrow>
          (let (r, log', st'') =
                 send_loop C url max_bytes (drop chunk_len (b # bs) @ failed) (total_sent + sent) st'
           in (r, log @ log', st'')))"
  by pat_completeness auto

termination
proof (relation "measure (\<lambda>(_, _, _, to_send, _, _). length to_send)", goal_cases)
  case (2 C url max_bytes b bs total_sent st n r y ba sent failed log st')
  then have "send_chunk_with_retry C url (take n (b # bs)) st = (Inr (sent, failed), log, st')"
    by simp
  then have "failed = []"
    unfolding send_chunk_with_retry_def by (rule send_attempts_none_left)
  moreover have "0 < n" using 2 by (simp add: next_chunk_len_def)
  ultimately show ?case by simp
qed simp

definition send_messages ::
  "'s sqs_client \<Rightarrow> string \<Rightarrow> string list \<Rightarrow> nat \<Rightarrow> 's \<Rightarrow> (PluginError + nat) \<times> request_log \<times> 's" where
  "send_messages C url bodies max_bytes st =
     (case ensure_bodies_fit bodies max_bytes of
        Inl e \<Rightarrow> (Inl e, [], st)
      | Inr _ \<Rightarrow> send_loop C url max_bytes (zip [0..<length bodies] bodies) 0 st)"

section \<open>The sink\<close>

record SdkConfig =
  sdk_region :: "string option"
  sdk_credentials :: "(string \<times> string \<times> string option) option"
  sdk_assumed_role :: "AssumeRoleConfig option"

record SqsClientConfig =
  cc_region :: "string option"
  cc_endpoint_url :: "string option"
  cc_sdk :: SdkConfig

record SqsSink =
  sk_opts :: PluginOptions
  sk_config :: SqsSinkConfig
  sk_client :: "SqsClientConfig option"
  sk_queue_url :: "string option"
  sk_one_row_per_request :: "bool option"
  sk_max_message_bytes :: "nat option"
  sk_running :: bool

definition sqs_sink_new :: "environment \<Rightarrow> (string, string) hash_map \<Rightarrow> PluginError + SqsSink" where
  "sqs_sink_new env options =
     (let opts = plugin_options_new options ''sqs_sink'' ''STREAMLING__PLUGIN__SQS_SINK'' in
      res_bind (sqs_from_options env opts) (\<lambda>config.
      Inr \<lparr>sk_opts = opts, sk_config = config, sk_client = None, sk_queue_url = None,
           sk_one_row_per_request = None, sk_max_message_bytes = None, sk_running = True\<rparr>))"

text \<open>An attempt to assume a role: \<open>None\<close>, or whether the provider itself failed and the error's text.\<close>

type_synonym assume_outcome = "AssumeRoleConfig \<Rightarrow> (bool \<times> string) option"

definition assume_role_error :: "AssumeRoleConfig \<Rightarrow> bool \<times> string \<Rightarrow> PluginError" where
  "assume_role_error role e =
     Internal (''sqs_sink: could not assume role '' @ role_arn role @ '' with external ID ''
       @ (case external_id role of None \<Rightarrow> ''(none)'' | Some i \<Rightarrow> i) @ '': '' @ snd e @ ''.''
       @ (if fst e
          then '' The role's trust policy must allow this pipeline's AWS identity and that external ID.''
          else []))"

definition with_assumed_role ::
  "assume_outcome \<Rightarrow> SdkConfig \<Rightarrow> AssumeRoleConfig \<Rightarrow> PluginError + SdkConfig" where
  "with_assumed_role assume base role =
     (case assume role of
        Some e \<Rightarrow> Inl (assume_role_error role e)
      | None \<Rightarrow> Inr (base\<lparr>sdk_assumed_role := Some role\<rparr>))"

definition load_sdk_config ::
  "assume_outcome \<Rightarrow> string option \<Rightarrow> environment \<Rightarrow> SqsSinkConfig \<Rightarrow> PluginOptions \<Rightarrow> PluginError + SdkConfig" where
  "load_sdk_config assume host_region env config opts =
     (let secret = (\<lambda>k. filter_non_empty (get_secret env opts k));
          base = \<lparr>sdk_region = (case host_region of Some r \<Rightarrow> Some r | None \<Rightarrow> sqs_region config),
                  sdk_credentials =
                    (case (secret ''access_key_id'', secret ''secret_access_key'') of
                       (Some i, Some k) \<Rightarrow> Some (i, k, secret ''session_token'')
                     | _ \<Rightarrow> None),
                  sdk_assumed_role = None\<rparr>
      in case sqs_assume_role config of
           None \<Rightarrow> Inr base
         | Some role \<Rightarrow> with_assumed_role assume base role)"

definition sqs_initialize ::
  "assume_outcome \<Rightarrow> string option \<Rightarrow> environment \<Rightarrow> SqsSink \<Rightarrow> (PluginError + unit) \<times> SqsSink" where
  "sqs_initialize assume host_region env sink =
     (if sk_client sink \<noteq> None then (Inr (), sink)
      else
        case
          res_bind (get_option env (sk_opts sink) ''queue_url'') (\<lambda>url.
          res_bind (get_parsed_or env parse_bool (sk_opts sink) ''one_row_per_request'' True) (\<lambda>one.
          res_bind (get_parsed_or env (parse_unsigned u64_max) (sk_opts sink) ''max_message_bytes''
                      SQS_MAX_PAYLOAD_BYTES) (\<lambda>max_bytes.
          if \<not> (SQS_MIN_PAYLOAD_BYTES \<le> max_bytes \<and> max_bytes \<le> SQS_MAX_PAYLOAD_BYTES)
          then Inl (Internal (''sqs_sink: max_message_bytes is '' @ show_nat max_bytes @ '', outside the ''
                 @ show_nat SQS_MIN_PAYLOAD_BYTES @ ''..='' @ show_nat SQS_MAX_PAYLOAD_BYTES
                 @ '' byte range a queue's MaximumMessageSize attribute allows''))
          else
            res_bind (load_sdk_config assume host_region env (sk_config sink) (sk_opts sink)) (\<lambda>sdk.
            Inr (url, one, max_bytes, sdk)))))
        of
          Inl e \<Rightarrow> (Inl e, sink)
        | Inr (url, one, max_bytes, sdk) \<Rightarrow>
            (Inr (),
             sink\<lparr>sk_client :=
                    Some \<lparr>cc_region = (case sqs_region (sk_config sink) of Some r \<Rightarrow> Some r | None \<Rightarrow> sdk_region sdk),
                          cc_endpoint_url = sqs_endpoint_url (sk_config sink), cc_sdk = sdk\<rparr>,
                  sk_queue_url := Some url, sk_one_row_per_request := Some one,
                  sk_max_message_bytes := Some max_bytes\<rparr>))"

definition sqs_terminate :: "SqsSink \<Rightarrow> SqsSink" where
  "sqs_terminate sink = sink\<lparr>sk_running := False\<rparr>"

text \<open>
  Rows of a batch: \<open>to_json\<close> converts it to one text per row, \<open>utf8_error\<close> is the error of a row
  that is not text.
\<close>

record 'batch batch_json =
  num_rows :: "'batch \<Rightarrow> nat"
  to_json :: "'batch \<Rightarrow> string + string list"
  utf8_error :: "string \<Rightarrow> string option"

definition json_rows :: "'batch batch_json \<Rightarrow> 'batch \<Rightarrow> PluginError + string list" where
  "json_rows J batch =
     res_bind (map_err (\<lambda>e. Internal (''failed to convert batch to JSON: '' @ e)) (to_json J batch)) (\<lambda>rows.
     collect_results
       (\<lambda>row. case utf8_error J row of
                None \<Rightarrow> Inr row
              | Some e \<Rightarrow> Inl (Internal (''failed to convert row to UTF-8: '' @ e))) rows)"

text \<open>The bodies to send, with the queue and the limit; nothing when the batch has no rows.\<close>

definition sqs_bodies ::
  "'batch batch_json \<Rightarrow> SqsSink \<Rightarrow> 'batch \<Rightarrow> PluginError + (string \<times> string list \<times> nat) option" where
  "sqs_bodies J sink batch =
     res_bind (ok_or (Internal ''SQS client is not initialized'') (sk_client sink)) (\<lambda>_.
     res_bind (ok_or (Internal ''Queue URL is not initialized'') (sk_queue_url sink)) (\<lambda>url.
     res_bind (ok_or (Internal ''one_row_per_request is not initialized'') (sk_one_row_per_request sink)) (\<lambda>one.
     res_bind (ok_or (Internal ''max_message_bytes is not initialized'') (sk_max_message_bytes sink)) (\<lambda>max_bytes.
     res_bind (json_rows J batch) (\<lambda>rows.
     if rows = [] then Inr None
     else
       res_bind (if one then Inr rows else pack_array_bodies rows max_bytes) (\<lambda>bodies.
       Inr (Some (url, bodies, max_bytes))))))))"

definition sqs_process_batch ::
  "'s sqs_client \<Rightarrow> 'batch batch_json \<Rightarrow> SqsSink \<Rightarrow> 'batch \<Rightarrow> 's
     \<Rightarrow> (PluginError + unit) \<times> request_log \<times> 's" where
  "sqs_process_batch C J sink batch st =
     (if \<not> sk_running sink
      then (Inl (Internal ''SQS sink is not running, cannot process batch''), [], st)
      else if num_rows J batch = 0 then (Inr (), [], st)
      else
        case sqs_bodies J sink batch of
          Inl e \<Rightarrow> (Inl e, [], st)
        | Inr None \<Rightarrow> (Inr (), [], st)
        | Inr (Some (url, bodies, max_bytes)) \<Rightarrow>
            (case send_messages C url bodies max_bytes st of
               (Inl e, log, st') \<Rightarrow> (Inl e, log, st')
             | (Inr _, log, st') \<Rightarrow> (Inr (), log, st')))"

lemma sqs_bodies_Some:
  assumes "sqs_bodies J sink batch = Inr (Some (url, bodies, max_bytes))"
  shows "\<exists>one rows. sk_one_row_per_request sink = Some one \<and> sk_max_message_bytes sink = Some max_bytes \<and>
     json_rows J batch = Inr rows \<and> (if one then Inr rows else pack_array_bodies rows max_bytes) = Inr bodies"
proof -
  obtain one rows where 1: "sk_one_row_per_request sink = Some one" "sk_max_message_bytes sink = Some max_bytes"
      "json_rows J batch = Inr rows"
      "res_bind (if one then Inr rows else pack_array_bodies rows max_bytes) (\<lambda>bodies.
         Inr (Some (url, bodies, max_bytes))) = Inr (Some (url, bodies, max_bytes))"
    using assms by (auto simp: sqs_bodies_def res_bind_Inr_iff ok_or_Inr_iff split: if_split_asm)
  then show ?thesis by (cases one) (auto simp: res_bind_Inr_iff)
qed

section \<open>Lemmas\<close>

subsection \<open>Packing\<close>

definition array_body :: "string list \<Rightarrow> string" where
  "array_body rows = ''['' @ join_with '','' rows @ '']''"

lemma push_rows_eq:
  "push_rows i rows body = body @ (if rows = [] then [] else (if i > 0 then '','' else []) @ join_with '','' rows)"
  by (induction i rows body rule: push_rows.induct) (auto simp: neq_Nil_conv)

lemma length_join: "length (join_with '','' rows) = sum_list (map length rows) + (length rows - 1)"
proof (induction rows)
  case (Cons r rs)
  then show ?case by (cases rs) auto
qed simp

lemma take_rows_spec:
  assumes "take_rows max_bytes rows taken content = (n, c)"
  shows "n \<le> length rows \<and>
         c = content + sum_list (map length (take n rows)) + (if taken then n else n - 1) \<and>
         (2 + content \<le> max_bytes \<longrightarrow> taken \<longrightarrow> 2 + c \<le> max_bytes)"
  using assms
proof (induction max_bytes rows taken content arbitrary: n c rule: take_rows.induct)
  case (1 max_bytes taken content)
  then show ?case by simp
next
  case (2 max_bytes row rows taken content)
  let ?cost = "length row + (if taken then 1 else 0)"
  show ?case
  proof (cases "taken \<and> 2 + content + ?cost > max_bytes")
    case True
    with "2.prems" have "n = 0 \<and> c = content" by (auto simp: Let_def)
    then show ?thesis by simp
  next
    case False
    obtain m d where rec: "take_rows max_bytes rows True (content + ?cost) = (m, d)"
      by (cases "take_rows max_bytes rows True (content + ?cost)")
    have "take_rows max_bytes (row # rows) taken content = (Suc m, d)"
      using False rec by (cases taken) (simp_all add: Let_def)
    then have n: "n = Suc m" "c = d" using "2.prems" by simp_all
    from "2.IH" [OF refl _ rec] False n show ?thesis by auto
  qed
qed

lemma take_rows_first:
  assumes "take_rows max_bytes (row # rows) False 0 = (n, c)"
  shows "2 + c \<le> max_bytes \<longleftrightarrow> 2 + length row \<le> max_bytes"
proof -
  obtain m where rec: "take_rows max_bytes rows True (length row) = (m, c)" and "n = Suc m"
    using assms by (auto simp: Let_def split: prod.splits)
  from take_rows_spec [OF rec] show ?thesis by auto
qed

text \<open>The packing loop splits the rows into bodies, in order.\<close>

lemma pack_loop_Inr:
  assumes "pack_loop max_bytes rows bodies = Inr res"
  shows "\<exists>groups. res = bodies @ map array_body groups \<and> concat groups = rows \<and> [] \<notin> set groups \<and>
           (\<forall>g \<in> set groups. length (array_body g) \<le> max_bytes)"
  using assms
proof (induction max_bytes rows bodies rule: pack_loop.induct)
  case (1 max_bytes bodies)
  then show ?case by (intro exI [of _ "[]"]) simp
next
  case (2 max_bytes row rows bodies)
  obtain n c where tr: "take_rows max_bytes (row # rows) False 0 = (n, c)"
    by (cases "take_rows max_bytes (row # rows) False 0")
  let ?g = "take n (row # rows)"
  have n: "0 < n" using take_rows_pos [of "row # rows" max_bytes] tr by simp
  have fits: "2 + c \<le> max_bytes"
    using "2.prems" tr by (simp add: Let_def not_less split: if_splits)
  have body: "push_rows 0 ?g ''['' @ '']'' = array_body ?g"
    using n by (simp add: push_rows_eq array_body_def take_Cons')
  have size: "length (array_body ?g) \<le> max_bytes"
    using take_rows_spec [OF tr] fits by (simp add: array_body_def length_join)
  have "pack_loop max_bytes (drop n (row # rows)) (bodies @ [array_body ?g]) = Inr res"
    using "2.prems" tr fits body by (simp add: Let_def)
  then obtain groups where groups: "res = (bodies @ [array_body ?g]) @ map array_body groups"
      "concat groups = drop n (row # rows)" "[] \<notin> set groups"
      "\<forall>g \<in> set groups. length (array_body g) \<le> max_bytes"
    using "2.IH" [OF tr [symmetric] refl] fits body by force
  have "concat (?g # groups) = row # rows"
    using groups(2) by (simp del: take_Suc_Cons drop_Suc_Cons)
  moreover have "?g \<noteq> []" using n by (cases n) auto
  ultimately show ?case
    using groups size by (intro exI [of _ "?g # groups"]) auto
qed

lemma pack_loop_total:
  "\<forall>r \<in> set rows. 2 + length r \<le> max_bytes \<Longrightarrow> \<exists>res. pack_loop max_bytes rows bodies = Inr res"
proof (induction max_bytes rows bodies rule: pack_loop.induct)
  case (2 max_bytes row rows bodies)
  obtain n c where tr: "take_rows max_bytes (row # rows) False 0 = (n, c)"
    by (cases "take_rows max_bytes (row # rows) False 0")
  have fits: "\<not> 2 + c > max_bytes" using take_rows_first [OF tr] "2.prems" by simp
  have "\<forall>r \<in> set (drop n (row # rows)). 2 + length r \<le> max_bytes"
    using "2.prems" by (meson in_set_dropD)
  from "2.IH" [OF tr [symmetric] refl fits this] tr fits show ?case by (simp add: Let_def)
qed simp

lemma length_in_body:
  assumes "r \<in> set g"
  shows "2 + length r \<le> length (array_body g)"
  using member_le_sum_list [of "length r" "map length g"] assms
  by (auto simp: array_body_def length_join)

lemma pack_array_bodies_Inr_iff:
  "(\<exists>res. pack_array_bodies rows max_bytes = Inr res) \<longleftrightarrow> (\<forall>r \<in> set rows. 2 + length r \<le> max_bytes)"
proof
  assume "\<exists>res. pack_array_bodies rows max_bytes = Inr res"
  then obtain groups where "concat groups = rows" "\<forall>g \<in> set groups. length (array_body g) \<le> max_bytes"
    using pack_loop_Inr by (fastforce simp: pack_array_bodies_def)
  then show "\<forall>r \<in> set rows. 2 + length r \<le> max_bytes"
    using length_in_body by (fastforce intro: order_trans)
qed (simp add: pack_array_bodies_def pack_loop_total)

subsection \<open>Sending\<close>

text \<open>The bodies the queue has accepted: those of the entries a request did not report as failed.\<close>

definition accepted_in :: "entry list \<Rightarrow> BatchResultErrorEntry list \<Rightarrow> string list" where
  "accepted_in entries failed = map snd (filter (\<lambda>e. fst e \<notin> set (map be_id failed)) entries)"

definition accepted :: "request_log \<Rightarrow> string list" where
  "accepted log = concat (map (\<lambda>(entries, failed). accepted_in entries failed) log)"

lemma accepted_simps [simp]:
  "accepted [] = []"
  "accepted ((es, fs) # log) = accepted_in es fs @ accepted log"
  "accepted (log @ log') = accepted log @ accepted log'"
  by (simp_all add: accepted_def)

lemma build_entries_Inr:
  assumes "build_entries C to_retry = Inr entries"
  shows "entries = map (\<lambda>i. (entry_id i, snd (to_retry ! i))) [0..<length to_retry]"
proof (rule nth_equalityI)
  have all: "list_all2 (\<lambda>(i, (idx, body)) e. (case build_entry C (entry_id i) body of
      None \<Rightarrow> Inr (entry_id i, body)
    | Some e \<Rightarrow> Inl (Internal (''failed to build SQS message entry: '' @ e))) = Inr e)
    (zip [0..<length to_retry] to_retry) entries"
    using assms by (simp add: build_entries_def collect_results_Inr_iff case_prod_unfold)
  from list_all2_lengthD [OF all]
  show len: "length entries = length (map (\<lambda>i. (entry_id i, snd (to_retry ! i))) [0..<length to_retry])"
    by simp
  fix i assume "i < length entries"
  with list_all2_nthD2 [OF all this] len
  show "entries ! i = map (\<lambda>i. (entry_id i, snd (to_retry ! i))) [0..<length to_retry] ! i"
    by (auto simp: case_prod_unfold split: option.splits)
qed

lemma failed_index_entry: "failed_index n (entry_id i) = Some k \<Longrightarrow> k = i"
  by (auto simp: failed_index_def entry_id_def strip_prefix_def split: sum.splits if_splits
      dest: parse_unsigned_show_eq)

lemma failed_index_less: "failed_index n x = Some k \<Longrightarrow> k < n"
  by (auto simp: failed_index_def split: option.splits sum.splits if_splits)

lemma map_failed_recognized:
  assumes "map_failed to_retry fs = (again, [])"
  shows "again = map (\<lambda>f. to_retry ! the (failed_index (length to_retry) (be_id f))) fs \<and>
         (\<forall>f \<in> set fs. failed_index (length to_retry) (be_id f) \<noteq> None)"
  using assms
  by (induction fs arbitrary: again) (auto simp: Let_def split: prod.splits option.splits)

lemma mset_distinct_subseteq: "distinct xs \<Longrightarrow> set xs \<subseteq> set ys \<Longrightarrow> mset xs \<subseteq># mset ys"
  by (simp add: subseteq_mset_def distinct_count_atmost_1)
    (metis (no_types) count_greater_eq_one_iff le0 set_mset_mset subsetD)

lemma mset_map_partition:
  "mset (map f xs) = mset (map f (filter (\<lambda>x. \<not> P x) xs)) + mset (map f (filter P xs))"
  by (induction xs) auto

text \<open>No body is lost in a request: it was accepted, or it is among those sent again.\<close>

lemma request_loses_nothing:
  assumes "build_entries C to_retry = Inr entries" and "map_failed to_retry fs = (again, [])"
  shows "mset (map snd to_retry) \<subseteq># mset (accepted_in entries fs) + mset (map snd again)"
proof -
  let ?n = "length to_retry"
  let ?body = "\<lambda>i. snd (to_retry ! i)"
  let ?bad = "\<lambda>i. entry_id i \<in> set (map be_id fs)"
  let ?idx = "map (\<lambda>f. the (failed_index ?n (be_id f))) fs"
  have again: "map snd again = map ?body ?idx"
    using map_failed_recognized [OF assms(2)] by simp
  have acc: "accepted_in entries fs = map ?body (filter (\<lambda>i. \<not> ?bad i) [0..<?n])"
    using build_entries_Inr [OF assms(1)]
    by (simp add: accepted_in_def filter_map comp_def)
  have "set (filter ?bad [0..<?n]) \<subseteq> set ?idx"
  proof
    fix i assume "i \<in> set (filter ?bad [0..<?n])"
    then obtain f where f: "f \<in> set fs" "be_id f = entry_id i" by auto
    with map_failed_recognized [OF assms(2)] obtain k where "failed_index ?n (entry_id i) = Some k"
      by fastforce
    with f failed_index_entry show "i \<in> set ?idx" by force
  qed
  then have "mset (filter ?bad [0..<?n]) \<subseteq># mset ?idx" by (intro mset_distinct_subseteq) simp_all
  then have "mset (map ?body (filter ?bad [0..<?n])) \<subseteq># mset (map ?body ?idx)"
    by (simp only: mset_map image_mset_subseteq_mono)
  moreover have "map snd to_retry = map ?body [0..<?n]" by (simp add: map_nth flip: map_map [unfolded comp_def])
  then have "mset (map snd to_retry) = mset (map ?body (filter (\<lambda>i. \<not> ?bad i) [0..<?n]))
      + mset (map ?body (filter ?bad [0..<?n]))"
    by (simp only: mset_map_partition [of ?body "[0..<?n]" ?bad])
  ultimately show ?thesis using acc again by simp
qed

lemma send_attempts_Inr:
  assumes "send_attempts C url len k to_retry st = (Inr (sent, failed), log, st')" and "0 < k"
  shows "sent = len \<and> mset (map snd to_retry) \<subseteq># mset (accepted log)"
  using assms
proof (induction C url len k to_retry st arbitrary: log st' rule: send_attempts.induct)
  case (1 C url len to_retry st)
  then show ?case by simp
next
  case (2 C url len k to_retry st)
  obtain entries where es: "build_entries C to_retry = Inr entries"
    using "2.prems"(1) by (cases "build_entries C to_retry") auto
  obtain fs st1 where snd_b: "send_message_batch C url entries st = (Inr fs, st1)"
    using "2.prems"(1) es by (auto split: sum.splits prod.splits)
  show ?case
  proof (cases "fs = []")
    case True
    then have res: "sent = len" "log = [(entries, [])]" using "2.prems"(1) es snd_b by auto
    have "map_failed to_retry [] = ([], [])" by simp
    from request_loses_nothing [OF es this] res show ?thesis by simp
  next
    case False
    obtain again un where mf: "map_failed to_retry fs = (again, un)" by (cases "map_failed to_retry fs")
    have ok: "\<not> list_ex be_sender_fault fs" "un = []" "0 < k"
      using "2.prems"(1) es snd_b False mf by (auto simp: Let_def split: if_splits)
    obtain log1 where rest: "send_attempts C url len k again st1 = (Inr (sent, failed), log1, st')"
      and log: "log = (entries, fs) # log1"
      using "2.prems"(1) es snd_b False mf ok by (auto simp: Let_def split: prod.splits)
    have "sent = len \<and> mset (map snd again) \<subseteq># mset (accepted log1)"
      using "2.IH" [OF es snd_b [symmetric] refl False ok(1) mf [symmetric] refl] ok rest by simp
    moreover have "mset (map snd to_retry) \<subseteq># mset (accepted_in entries fs) + mset (map snd again)"
      using request_loses_nothing [OF es] mf ok(2) by simp
    ultimately show ?thesis
      using log by (auto intro: subset_mset.order_trans subset_mset.add_left_mono)
  qed
qed

lemma send_loop_Inr:
  assumes "send_loop C url max_bytes to_send total_sent st = (Inr n, log, st')"
  shows "n = total_sent + length to_send \<and> mset (map snd to_send) \<subseteq># mset (accepted log)"
  using assms
proof (induction C url max_bytes to_send total_sent st arbitrary: log st' rule: send_loop.induct)
  case (1 C url max_bytes total_sent st)
  then show ?case by simp
next
  case (2 C url max_bytes b bs total_sent st)
  let ?l = "next_chunk_len (b # bs) SQS_MAX_BATCH_SIZE max_bytes"
  obtain sent failed log1 st1 where c:
    "send_chunk_with_retry C url (take ?l (b # bs)) st = (Inr (sent, failed), log1, st1)"
    using "2.prems" by (auto simp: Let_def split: sum.splits prod.splits)
  have failed: "failed = []" using c unfolding send_chunk_with_retry_def by (rule send_attempts_none_left)
  have chunk: "sent = length (take ?l (b # bs)) \<and> mset (map snd (take ?l (b # bs))) \<subseteq># mset (accepted log1)"
    using c unfolding send_chunk_with_retry_def by (rule send_attempts_Inr) simp
  obtain log2 where rest: "send_loop C url max_bytes (drop ?l (b # bs) @ failed) (total_sent + sent) st1
      = (Inr n, log2, st')" and log: "log = log1 @ log2"
    using "2.prems" c by (auto simp: Let_def split: prod.splits)
  have ih: "n = total_sent + sent + length (drop ?l (b # bs)) \<and>
      mset (map snd (drop ?l (b # bs))) \<subseteq># mset (accepted log2)"
    using "2.IH" [OF refl c [symmetric] refl refl refl rest] failed by simp
  have "mset (map snd (b # bs)) = mset (map snd (take ?l (b # bs))) + mset (map snd (drop ?l (b # bs)))"
    by (metis append_take_drop_id map_append mset_append)
  with chunk ih have "mset (map snd (b # bs)) \<subseteq># mset (accepted log)"
    by (simp add: log subset_mset.add_mono)
  moreover have "n = total_sent + length (b # bs)" using chunk ih by simp
  ultimately show ?case by blast
qed

text \<open>What the queue service promises: it reports entries of the request, each at most once.\<close>

definition sqs_laws :: "'s sqs_client \<Rightarrow> bool" where
  "sqs_laws C \<longleftrightarrow>
     (\<forall>url entries st fs st'. send_message_batch C url entries st = (Inr fs, st') \<longrightarrow>
        distinct (map be_id fs) \<and> set (map be_id fs) \<subseteq> fst ` set entries)"

definition request_ok :: "nat \<Rightarrow> entry list \<Rightarrow> bool" where
  "request_ok max_bytes entries \<longleftrightarrow>
     length entries \<le> SQS_MAX_BATCH_SIZE \<and> sum_list (map (\<lambda>e. length (snd e)) entries) \<le> max_bytes"

lemma map_failed_subset:
  assumes "distinct (map be_id fs)" and "set (map be_id fs) \<subseteq> entry_id ` {0..<length to_retry}"
    and "map_failed to_retry fs = (again, [])"
  shows "mset again \<subseteq># mset to_retry"
proof -
  let ?n = "length to_retry"
  let ?idx = "map (\<lambda>f. the (failed_index ?n (be_id f))) fs"
  have found: "entry_id (the (failed_index ?n (be_id f))) = be_id f" "the (failed_index ?n (be_id f)) < ?n"
    if f: "f \<in> set fs" for f
  proof -
    obtain i where i: "be_id f = entry_id i" using assms(2) f by auto
    obtain k where k: "failed_index ?n (be_id f) = Some k"
      using map_failed_recognized [OF assms(3)] f by auto
    with i have "k = i" by (auto dest: failed_index_entry)
    with i k failed_index_less [OF k]
    show "entry_id (the (failed_index ?n (be_id f))) = be_id f" "the (failed_index ?n (be_id f)) < ?n"
      by simp_all
  qed
  then have "map entry_id ?idx = map be_id fs" by simp
  with assms(1) have "distinct (map entry_id ?idx)" by (simp only:)
  then have "distinct ?idx" using distinct_map by blast
  then have "mset ?idx \<subseteq># mset [0..<?n]"
    using found by (intro mset_distinct_subseteq) auto
  then have "mset (map ((!) to_retry) ?idx) \<subseteq># mset (map ((!) to_retry) [0..<?n])"
    by (simp only: mset_map image_mset_subseteq_mono)
  moreover have "again = map ((!) to_retry) ?idx"
    using map_failed_recognized [OF assms(3)] by simp
  ultimately show ?thesis by (simp only: map_nth)
qed

lemma sum_list_mset_mono:
  assumes "mset xs \<subseteq># mset ys"
  shows "length xs \<le> length ys" and "sum_list (map f xs) \<le> (sum_list (map f ys) :: nat)"
proof -
  show "length xs \<le> length ys" using size_mset_mono [OF assms] by simp
  obtain zs where "mset ys = mset xs + mset zs"
    using assms by (metis ex_mset mset_subset_eqD subset_mset.add_diff_inverse)
  then have "sum_mset (image_mset f (mset ys)) = sum_mset (image_mset f (mset xs)) + sum_mset (image_mset f (mset zs))"
    by simp
  then show "sum_list (map f xs) \<le> sum_list (map f ys)"
    by (simp flip: mset_map add: sum_mset_sum_list)
qed

lemma entries_of_request:
  assumes "build_entries C to_retry = Inr entries"
  shows "length entries = length to_retry" and "map (\<lambda>e. length (snd e)) entries = map (\<lambda>e. length (snd e)) to_retry"
    and "fst ` set entries = entry_id ` {0..<length to_retry}"
  using build_entries_Inr [OF assms] by (auto simp: image_image intro: nth_equalityI)

lemma send_attempts_requests:
  assumes "sqs_laws C" and "send_attempts C url len k to_retry st = (r, log, st')"
    and "length to_retry \<le> SQS_MAX_BATCH_SIZE" and "sum_list (map (\<lambda>e. length (snd e)) to_retry) \<le> max_bytes"
  shows "(\<forall>(entries, fs) \<in> set log. request_ok max_bytes entries) \<and> length log \<le> k"
  using assms
proof (induction C url len k to_retry st arbitrary: r log st' rule: send_attempts.induct)
  case (1 C url len to_retry st)
  then show ?case by simp
next
  case (2 C url len k to_retry st)
  show ?case
  proof (cases "build_entries C to_retry")
    case (Inl e)
    with "2.prems"(2) show ?thesis by simp
  next
    case (Inr entries)
    note es = Inr
    have ok: "request_ok max_bytes entries"
      using "2.prems"(3,4) entries_of_request [OF es] by (simp add: request_ok_def)
    obtain res st1 where snd_b: "send_message_batch C url entries st = (res, st1)"
      by (cases "send_message_batch C url entries st")
    show ?thesis
    proof (cases "log = [] \<or> (\<exists>fs. log = [(entries, fs)])")
      case True
      with ok show ?thesis using "2.prems"(2) es snd_b by (auto split: sum.splits)
    next
      case False
      obtain fs where res: "res = Inr fs" using False "2.prems"(2) es snd_b by (cases res) auto
      have ne: "fs \<noteq> []" and nf: "\<not> list_ex be_sender_fault fs"
        using False "2.prems"(2) es snd_b res by (auto split: if_splits)
      obtain again un where mf: "map_failed to_retry fs = (again, un)" by (cases "map_failed to_retry fs")
      have un: "un = []" "k \<noteq> 0"
        using False "2.prems"(2) es snd_b res ne nf mf by (auto simp: Let_def split: if_splits)
      obtain log1 where rest: "send_attempts C url len k again st1 = (r, log1, st')"
        and log: "log = (entries, fs) # log1"
        using "2.prems"(2) es snd_b res ne nf mf un by (auto simp: Let_def split: prod.splits)
      have "mset again \<subseteq># mset to_retry"
      proof (rule map_failed_subset)
        show "distinct (map be_id fs)" and "set (map be_id fs) \<subseteq> entry_id ` {0..<length to_retry}"
          using "2.prems"(1) snd_b res entries_of_request(3) [OF es] unfolding sqs_laws_def by blast+
        show "map_failed to_retry fs = (again, [])" using mf un by simp
      qed
      note small = sum_list_mset_mono [OF this]
      have "(\<forall>(entries, fs) \<in> set log1. request_ok max_bytes entries) \<and> length log1 \<le> k"
        using "2.IH" [OF es snd_b [symmetric, unfolded res] refl ne nf mf [symmetric] refl] un rest
          "2.prems"(1,3,4) small(1) small(2) [of "\<lambda>e. length (snd e)"] by simp
      with ok log show ?thesis by auto
    qed
  qed
qed

lemma chunk_loop_spec:
  "\<exists>m \<le> length bs. chunk_loop max_bytes bs sent taken = taken + m \<and>
     (taken = 0 \<longrightarrow> bs \<noteq> [] \<longrightarrow> 0 < m) \<and>
     ((\<forall>b \<in> set bs. length (snd b) \<le> max_bytes) \<longrightarrow> sent \<le> max_bytes \<longrightarrow> (taken = 0 \<longrightarrow> sent = 0) \<longrightarrow>
        sent + sum_list (map (\<lambda>e. length (snd e)) (take m bs)) \<le> max_bytes)"
proof (induction max_bytes bs sent taken rule: chunk_loop.induct)
  case (2 max_bytes i body bs sent taken)
  show ?case
  proof (cases "taken > 0 \<and> sent + length body > max_bytes")
    case True
    then show ?thesis by (intro exI [of _ 0]) auto
  next
    case False
    then obtain m where m: "m \<le> length bs"
      "chunk_loop max_bytes bs (sent + length body) (Suc taken) = Suc taken + m"
      "(\<forall>b \<in> set bs. length (snd b) \<le> max_bytes) \<longrightarrow> sent + length body \<le> max_bytes \<longrightarrow>
        sent + length body + sum_list (map (\<lambda>e. length (snd e)) (take m bs)) \<le> max_bytes"
      using 2 by auto
    with False show ?thesis by (intro exI [of _ "Suc m"]) auto
  qed
qed simp

lemma next_chunk_spec:
  assumes "bs \<noteq> []" and "\<forall>b \<in> set bs. length (snd b) \<le> max_bytes"
  defines "l \<equiv> next_chunk_len bs SQS_MAX_BATCH_SIZE max_bytes"
  shows "length (take l bs) \<le> SQS_MAX_BATCH_SIZE"
    and "sum_list (map (\<lambda>e. length (snd e)) (take l bs)) \<le> max_bytes"
proof -
  let ?bs = "take SQS_MAX_BATCH_SIZE bs"
  have "?bs \<noteq> []" using assms(1) by (simp add: SQS_MAX_BATCH_SIZE_def)
  moreover have "\<forall>b \<in> set ?bs. length (snd b) \<le> max_bytes"
    using assms(2) by (meson in_set_takeD)
  ultimately obtain m where m: "m \<le> length ?bs" "0 < m" "chunk_loop max_bytes ?bs 0 0 = m"
      "sum_list (map (\<lambda>e. length (snd e)) (take m ?bs)) \<le> max_bytes"
    using chunk_loop_spec [of ?bs max_bytes 0 0] by auto
  then have l: "l = m" by (simp add: l_def next_chunk_len_def)
  have "take l bs = take m ?bs" using l m(1) by (simp add: min.absorb1)
  then show "sum_list (map (\<lambda>e. length (snd e)) (take l bs)) \<le> max_bytes" using m(4) by (simp only:)
  show "length (take l bs) \<le> SQS_MAX_BATCH_SIZE" using l m(1) by simp
qed

lemma send_loop_requests:
  assumes "sqs_laws C" and "send_loop C url max_bytes to_send total_sent st = (r, log, st')"
    and "\<forall>b \<in> set to_send. length (snd b) \<le> max_bytes"
  shows "\<forall>(entries, fs) \<in> set log. request_ok max_bytes entries"
  using assms
proof (induction C url max_bytes to_send total_sent st arbitrary: r log st' rule: send_loop.induct)
  case (1 C url max_bytes total_sent st)
  then show ?case by simp
next
  case (2 C url max_bytes b bs total_sent st)
  let ?l = "next_chunk_len (b # bs) SQS_MAX_BATCH_SIZE max_bytes"
  obtain res log1 st1 where c: "send_chunk_with_retry C url (take ?l (b # bs)) st = (res, log1, st1)"
    by (cases "send_chunk_with_retry C url (take ?l (b # bs)) st")
  have log1: "\<forall>(entries, fs) \<in> set log1. request_ok max_bytes entries"
    using send_attempts_requests [OF "2.prems"(1) c [unfolded send_chunk_with_retry_def]
        next_chunk_spec [OF _ "2.prems"(3)]] by simp
  show ?case
  proof (cases res)
    case (Inl e)
    with c "2.prems"(2) log1 show ?thesis by (simp add: Let_def)
  next
    case (Inr p)
    obtain sent failed where p: "p = (sent, failed)" by (cases p)
    have c': "send_chunk_with_retry C url (take ?l (b # bs)) st = (Inr (sent, failed), log1, st1)"
      using c Inr p by simp
    then have "failed = []" unfolding send_chunk_with_retry_def by (rule send_attempts_none_left)
    obtain log2 where rest: "send_loop C url max_bytes (drop ?l (b # bs) @ failed) (total_sent + sent) st1
        = (r, log2, st')" and log: "log = log1 @ log2"
      using "2.prems"(2) c' by (auto simp: Let_def split: prod.splits)
    have "\<forall>x \<in> set (drop ?l (b # bs) @ failed). length (snd x) \<le> max_bytes"
      using "2.prems"(3) \<open>failed = []\<close> by (metis append_Nil2 in_set_dropD)
    from "2.IH" [OF refl c' [symmetric] refl refl refl "2.prems"(1) rest this] log log1
    show ?thesis by auto
  qed
qed

lemma ensure_bodies_fit_Inr [outcome]:
  "ensure_bodies_fit bodies max_bytes = Inr u \<longleftrightarrow> (\<forall>b \<in> set bodies. length b \<le> max_bytes)"
  by (induction bodies max_bytes rule: ensure_bodies_fit.induct) auto

section \<open>Properties\<close>

text \<open>
  C16: packing is exact. The bodies are JSON arrays of consecutive rows that together are all the rows
  in order, none is empty and none is longer than the limit; packing fails exactly when some row
  does not fit into a body of its own, so no row is ever dropped or split.
\<close>

theorem pack_array_bodies_exact:
  "case pack_array_bodies rows max_bytes of
     Inl e \<Rightarrow> list_ex (\<lambda>r. length r + 2 > max_bytes) rows
   | Inr bodies \<Rightarrow>
       list_all (\<lambda>r. length r + 2 \<le> max_bytes) rows \<and>
       (\<exists>groups. bodies = map array_body groups \<and> concat groups = rows \<and> [] \<notin> set groups \<and>
          list_all (\<lambda>b. length b \<le> max_bytes) bodies)"
proof (cases "pack_array_bodies rows max_bytes")
  case (Inl e)
  then have "\<not> (\<forall>r \<in> set rows. 2 + length r \<le> max_bytes)"
    using pack_array_bodies_Inr_iff [of rows max_bytes] by auto
  with Inl show ?thesis by (auto simp: list_ex_iff not_le)
next
  case (Inr bodies)
  then have "\<forall>r \<in> set rows. 2 + length r \<le> max_bytes"
    using pack_array_bodies_Inr_iff [of rows max_bytes] by blast
  with Inr pack_loop_Inr [of max_bytes rows "[]" bodies] show ?thesis
    by (auto simp: pack_array_bodies_def list_all_iff)
qed

text \<open>
  C14: a batch the sink reports as processed is in the queue. When processing succeeds, each row, or
  each array body into which consecutive rows were packed, was accepted by the queue at least as
  often as it occurs, whatever partial failures and retries happened on the way.
\<close>

theorem sqs_batch_delivered:
  assumes "sqs_process_batch C J sink batch st = (Inr (), log, st')"
    and "num_rows J batch \<noteq> 0" and "json_rows J batch = Inr rows"
  shows "\<exists>groups. concat groups = rows \<and> [] \<notin> set groups \<and>
     (if sk_one_row_per_request sink = Some True
      then mset rows \<subseteq># mset (accepted log)
      else mset (map array_body groups) \<subseteq># mset (accepted log))"
proof (cases "rows = []")
  case True
  then show ?thesis by (intro exI [of _ "[]"]) simp
next
  case False
  have "sqs_bodies J sink batch \<noteq> Inr None"
    using assms(3) False by (auto simp: sqs_bodies_def outcome split: if_splits)
  then obtain url bodies max_bytes n where b: "sqs_bodies J sink batch = Inr (Some (url, bodies, max_bytes))"
    and sent: "send_messages C url bodies max_bytes st = (Inr n, log, st')"
    using assms(1,2) by (auto simp: sqs_process_batch_def split: if_splits sum.splits option.splits prod.splits)
  obtain one where one: "sk_one_row_per_request sink = Some one"
    and bodies: "(if one then Inr rows else pack_array_bodies rows max_bytes) = Inr bodies"
    using sqs_bodies_Some [OF b] assms(3) by auto
  have "send_loop C url max_bytes (zip [0..<length bodies] bodies) 0 st = (Inr n, log, st')"
    using sent by (auto simp: send_messages_def split: sum.splits)
  from send_loop_Inr [OF this] have acc: "mset bodies \<subseteq># mset (accepted log)" by simp
  show ?thesis
  proof (cases one)
    case True
    with bodies acc one show ?thesis by (intro exI [of _ "map (\<lambda>r. [r]) rows"]) auto
  next
    case False
    with bodies pack_loop_Inr [of max_bytes rows "[]" bodies] acc one show ?thesis
      by (auto simp: pack_array_bodies_def)
  qed
qed

text \<open>
  C15: every request respects the limits of the service. Whatever the outcome of processing a batch,
  each request that was sent, retries included, has at most ten entries, whose bodies together are
  no longer than the configured limit.
\<close>

theorem sqs_requests_bounded:
  assumes "sqs_laws C" and "sqs_process_batch C J sink batch st = (r, log, st')"
    and "sk_max_message_bytes sink = Some max_bytes"
  shows "list_all (\<lambda>(entries, failed). length entries \<le> 10 \<and>
           sum_list (map (\<lambda>e. length (snd e)) entries) \<le> max_bytes) log"
proof (cases "log = []")
  case False
  then obtain url bodies m r' where b: "sqs_bodies J sink batch = Inr (Some (url, bodies, m))"
    and "send_messages C url bodies m st = (r', log, st')"
    using assms(2) by (auto simp: sqs_process_batch_def split: if_splits sum.splits option.splits prod.splits)
  then have sent: "send_messages C url bodies max_bytes st = (r', log, st')"
    using sqs_bodies_Some [OF b] assms(3) by auto
  then have fit: "\<forall>b \<in> set bodies. length b \<le> max_bytes"
    and loop: "send_loop C url max_bytes (zip [0..<length bodies] bodies) 0 st = (r', log, st')"
    using False by (auto simp: send_messages_def outcome split: sum.splits)
  have "\<forall>b \<in> set (zip [0..<length bodies] bodies). length (snd b) \<le> max_bytes"
    using fit by (auto dest: set_zip_rightD)
  from send_loop_requests [OF assms(1) loop this] show ?thesis
    by (auto simp: list_all_iff request_ok_def SQS_MAX_BATCH_SIZE_def)
qed simp

text \<open>A queue that fails the second entry of its first request, and a sink that packs nothing.\<close>

definition sample_queue :: "nat sqs_client" where
  "sample_queue =
     \<lparr>build_entry = (\<lambda>_ _. None),
      send_message_batch = (\<lambda>url entries n.
        (Inr (if n = 0 \<and> 2 \<le> length entries
              then [\<lparr>be_id = fst (entries ! 1), be_sender_fault = False, be_message = None\<rparr>] else []),
         Suc n)),
      debug_list = concat\<rparr>"

definition sample_sink :: SqsSink where
  "sample_sink =
     \<lparr>sk_opts = plugin_options_new [] ''sqs_sink'' [],
      sk_config = \<lparr>sqs_region = None, sqs_endpoint_url = None, sqs_assume_role = None\<rparr>,
      sk_client = Some \<lparr>cc_region = None, cc_endpoint_url = None,
        cc_sdk = \<lparr>sdk_region = None, sdk_credentials = None, sdk_assumed_role = None\<rparr>\<rparr>,
      sk_queue_url = Some ''queue'', sk_one_row_per_request = Some True,
      sk_max_message_bytes = Some 1024, sk_running = True\<rparr>"

definition sample_json :: "string list batch_json" where
  "sample_json = \<lparr>num_rows = length, to_json = Inr, utf8_error = (\<lambda>_. None)\<rparr>"

lemma sample_queue_laws: "sqs_laws sample_queue"
  by (auto simp: sqs_laws_def sample_queue_def)

lemma sample_run:
  "\<exists>log. sqs_process_batch sample_queue sample_json sample_sink [''a'', ''bc''] 0 = (Inr (), log, 2)"
proof -
  have ids: "entry_id 0 = ''msg_0''" "entry_id 1 = ''msg_1''"
    by (simp_all add: entry_id_def show_nat.simps char_of_def bit_0)
  have fi: "failed_index 2 ''msg_1'' = Some 1"
    by (simp add: failed_index_def strip_prefix_def parse_unsigned_def is_digit_def)
  have bodies: "sqs_bodies sample_json sample_sink [''a'', ''bc'']
      = Inr (Some (''queue'', [''a'', ''bc''], 1024))"
    by (simp add: sqs_bodies_def json_rows_def sample_json_def sample_sink_def)
  have "next_chunk_len [(0, ''a''), (1, ''bc'')] SQS_MAX_BATCH_SIZE 1024 = 2"
    by (simp add: next_chunk_len_def SQS_MAX_BATCH_SIZE_def)
  then have "\<exists>log. send_messages sample_queue ''queue'' [''a'', ''bc''] 1024 0 = (Inr 2, log, 2)"
    using ids fi
    by (simp add: send_messages_def send_chunk_with_retry_def build_entries_def sample_queue_def
        SQS_PARTIAL_FAILURE_MAX_RETRIES_def Let_def eval_nat_numeral upt_rec)
  with bodies show ?thesis
    by (auto simp: sqs_process_batch_def) (auto simp: sample_json_def sample_sink_def)
qed

theorem sqs_batch_delivered_witness:
  "\<exists>log. sqs_process_batch sample_queue sample_json sample_sink [''a'', ''bc''] 0 = (Inr (), log, 2) \<and>
     mset [''a'', ''bc''] \<subseteq># mset (accepted log)"
proof -
  obtain log where run: "sqs_process_batch sample_queue sample_json sample_sink [''a'', ''bc''] 0 = (Inr (), log, 2)"
    using sample_run by blast
  have "num_rows sample_json [''a'', ''bc''] \<noteq> 0"
    and "json_rows sample_json [''a'', ''bc''] = Inr [''a'', ''bc'']"
    by (simp_all add: sample_json_def json_rows_def)
  from sqs_batch_delivered [OF run this] run show ?thesis by (auto simp: sample_sink_def)
qed

theorem sqs_requests_bounded_witness:
  "\<exists>log. sqs_process_batch sample_queue sample_json sample_sink [''a'', ''bc''] 0 = (Inr (), log, 2) \<and>
     list_all (\<lambda>(entries, failed). length entries \<le> 10 \<and>
       sum_list (map (\<lambda>e. length (snd e)) entries) \<le> 1024) log"
proof -
  obtain log where run: "sqs_process_batch sample_queue sample_json sample_sink [''a'', ''bc''] 0 = (Inr (), log, 2)"
    using sample_run by blast
  have "sk_max_message_bytes sample_sink = Some 1024" by (simp add: sample_sink_def)
  from sqs_requests_bounded [OF sample_queue_laws run this] run show ?thesis by blast
qed

end
