(* ===== verification/CloudTrailConvert.thy ===== *)
theory CloudTrailConvert
  imports CdcArrow
begin

text \<open>
  CloudTrail events as records and record batches (\<open>src/src/sources/cloudtrail/convert.rs\<close>).

  An SDK event has the accessors the source calls; its time is given with the outcome of converting
  it to milliseconds. Parsing the payload as JSON, printing a JSON value, parsing an RFC 3339
  timestamp and printing a floating point number belong to other crates and are the fields of
  \<open>ct_foreign\<close>. Field names carry the prefix \<open>ct_\<close>.
\<close>

section \<open>Records\<close>

record CloudTrailRecord =
  ct_event_id :: string
  ct_event_time_ms :: int
  ct_event_version :: "string option"
  ct_event_name :: "string option"
  ct_event_source :: "string option"
  ct_event_category :: "string option"
  ct_event_type :: "string option"
  ct_aws_region :: "string option"
  ct_source_ip_address :: "string option"
  ct_user_agent :: "string option"
  ct_read_only :: "bool option"
  ct_management_event :: "bool option"
  ct_recipient_account_id :: "string option"
  ct_request_id :: "string option"
  ct_shared_event_id :: "string option"
  ct_vpc_endpoint_id :: "string option"
  ct_vpc_endpoint_account_id :: "string option"
  ct_api_version :: "string option"
  ct_error_code :: "string option"
  ct_error_message :: "string option"
  ct_username :: "string option"
  ct_session_credential_from_console :: "string option"
  ct_user_identity :: "string option"
  ct_request_parameters :: "string option"
  ct_response_elements :: "string option"
  ct_resources :: "string option"
  ct_additional_event_data :: "string option"
  ct_service_event_details :: "string option"
  ct_tls_details :: "string option"
  ct_addendum :: "string option"
  ct_event_context :: "string option"
  ct_edge_device_details :: "string option"

record sdk_event =
  ev_cloud_trail_event :: "string option"
  ev_event_id :: "string option"
  ev_event_name :: "string option"
  ev_event_source :: "string option"
  ev_read_only :: "string option"
  ev_username :: "string option"
  ev_event_time :: "(string + int) option"

record ct_foreign =
  parse_json :: "string \<Rightarrow> string + json"
  print_json :: "json \<Rightarrow> string"
  parse_rfc3339_ms :: "string \<Rightarrow> string + int"
  print_int :: "int \<Rightarrow> string"

definition eq_ignore_ascii_case :: "string \<Rightarrow> string \<Rightarrow> bool" where
  "eq_ignore_ascii_case a b \<longleftrightarrow> to_ascii_lowercase a = to_ascii_lowercase b"

definition string_field :: "ct_foreign \<Rightarrow> (string \<times> json) list \<Rightarrow> string \<Rightarrow> string option" where
  "string_field F js k =
     (case map_of js k of
        Some (JString s) \<Rightarrow> Some s
      | Some (JBool b) \<Rightarrow> Some (if b then ''true'' else ''false'')
      | Some (JInt n) \<Rightarrow> Some (print_int F n)
      | Some (JFloat s) \<Rightarrow> Some s
      | _ \<Rightarrow> None)"

definition lenient_bool :: "json \<Rightarrow> bool option" where
  "lenient_bool v =
     (case v of
        JBool b \<Rightarrow> Some b
      | JString s \<Rightarrow>
          if eq_ignore_ascii_case s ''true'' then Some True
          else if eq_ignore_ascii_case s ''false'' then Some False else None
      | _ \<Rightarrow> None)"

definition bool_field :: "(string \<times> json) list \<Rightarrow> string \<Rightarrow> bool option" where
  "bool_field js k = (case map_of js k of None \<Rightarrow> None | Some v \<Rightarrow> lenient_bool v)"

definition json_field :: "ct_foreign \<Rightarrow> (string \<times> json) list \<Rightarrow> string \<Rightarrow> string option" where
  "json_field F js k =
     (case map_of js k of None \<Rightarrow> None | Some v \<Rightarrow> if v = JNull then None else Some (print_json F v))"

definition or_else :: "'a option \<Rightarrow> 'a option \<Rightarrow> 'a option" where
  "or_else a b = (case a of None \<Rightarrow> b | Some x \<Rightarrow> Some x)"

text \<open>The user name inside the identity object, when it is a text.\<close>

definition user_name :: "(string \<times> json) list \<Rightarrow> string option" where
  "user_name js =
     (case map_of js ''userIdentity'' of
        Some (JObject identity) \<Rightarrow>
          (case map_of identity ''userName'' of Some (JString s) \<Rightarrow> Some s | _ \<Rightarrow> None)
      | _ \<Rightarrow> None)"

definition record_event_time :: "ct_foreign \<Rightarrow> (string \<times> json) list \<Rightarrow> sdk_event \<Rightarrow> string + int" where
  "record_event_time F js ev =
     (case string_field F js ''eventTime'' of
        Some s \<Rightarrow> map_err (\<lambda>e. ''invalid eventTime '' @ quoted s @ '': '' @ e) (parse_rfc3339_ms F s)
      | None \<Rightarrow>
          (case ev_event_time ev of
             None \<Rightarrow> Inl ''event has no eventTime''
           | Some t \<Rightarrow> map_err (\<lambda>e. ''event time out of range: '' @ e) t))"

definition from_sdk_event :: "ct_foreign \<Rightarrow> sdk_event \<Rightarrow> string + CloudTrailRecord" where
  "from_sdk_event F ev =
     res_bind (ok_or ''event has no CloudTrailEvent payload'' (ev_cloud_trail_event ev)) (\<lambda>payload.
     res_bind (map_err (\<lambda>e. ''invalid CloudTrailEvent JSON: '' @ e) (parse_json F payload)) (\<lambda>v.
     res_bind (case v of JObject js \<Rightarrow> Inr js | _ \<Rightarrow> Inl ''CloudTrailEvent JSON is not an object'') (\<lambda>js.
     res_bind (ok_or ''event has no eventID''
                 (or_else (string_field F js ''eventID'') (ev_event_id ev))) (\<lambda>event_id.
     res_bind (record_event_time F js ev) (\<lambda>event_time_ms.
     Inr \<lparr>ct_event_id = event_id, ct_event_time_ms = event_time_ms,
          ct_event_version = string_field F js ''eventVersion'',
          ct_event_name = or_else (string_field F js ''eventName'') (ev_event_name ev),
          ct_event_source = or_else (string_field F js ''eventSource'') (ev_event_source ev),
          ct_event_category = string_field F js ''eventCategory'',
          ct_event_type = string_field F js ''eventType'',
          ct_aws_region = string_field F js ''awsRegion'',
          ct_source_ip_address = string_field F js ''sourceIPAddress'',
          ct_user_agent = string_field F js ''userAgent'',
          ct_read_only = or_else (bool_field js ''readOnly'')
            (case ev_read_only ev of None \<Rightarrow> None | Some s \<Rightarrow> lenient_bool (JString s)),
          ct_management_event = bool_field js ''managementEvent'',
          ct_recipient_account_id = string_field F js ''recipientAccountId'',
          ct_request_id = string_field F js ''requestID'',
          ct_shared_event_id = string_field F js ''sharedEventID'',
          ct_vpc_endpoint_id = string_field F js ''vpcEndpointId'',
          ct_vpc_endpoint_account_id = string_field F js ''vpcEndpointAccountId'',
          ct_api_version = string_field F js ''apiVersion'',
          ct_error_code = string_field F js ''errorCode'',
          ct_error_message = string_field F js ''errorMessage'',
          ct_username = or_else (user_name js) (ev_username ev),
          ct_session_credential_from_console = string_field F js ''sessionCredentialFromConsole'',
          ct_user_identity = json_field F js ''userIdentity'',
          ct_request_parameters = json_field F js ''requestParameters'',
          ct_response_elements = json_field F js ''responseElements'',
          ct_resources = json_field F js ''resources'',
          ct_additional_event_data = json_field F js ''additionalEventData'',
          ct_service_event_details = json_field F js ''serviceEventDetails'',
          ct_tls_details = json_field F js ''tlsDetails'',
          ct_addendum = json_field F js ''addendum'',
          ct_event_context = json_field F js ''eventContext'',
          ct_edge_device_details = json_field F js ''edgeDeviceDetails''\<rparr>)))))"

section \<open>Batches\<close>

definition utf8_field :: "string \<Rightarrow> Field" where
  "utf8_field name = \<lparr>field_name = name, data_type = DUtf8, nullable = True\<rparr>"

definition boolean_field :: "string \<Rightarrow> Field" where
  "boolean_field name = \<lparr>field_name = name, data_type = DBoolean, nullable = True\<rparr>"

definition cloudtrail_schema :: Schema where
  "cloudtrail_schema =
     [\<lparr>field_name = STREAMLING_COLUMN_NAME_OP, data_type = DUtf8, nullable = False\<rparr>,
      \<lparr>field_name = ''event_id'', data_type = DUtf8, nullable = False\<rparr>,
      \<lparr>field_name = ''event_time'', data_type = DTimestamp Millisecond (Some ''UTC''), nullable = False\<rparr>,
      utf8_field ''event_version'',
      utf8_field ''event_name'',
      utf8_field ''event_source'',
      utf8_field ''event_category'',
      utf8_field ''event_type'',
      utf8_field ''aws_region'',
      utf8_field ''source_ip_address'',
      utf8_field ''user_agent'',
      boolean_field ''read_only'',
      boolean_field ''management_event'',
      utf8_field ''recipient_account_id'',
      utf8_field ''request_id'',
      utf8_field ''shared_event_id'',
      utf8_field ''vpc_endpoint_id'',
      utf8_field ''vpc_endpoint_account_id'',
      utf8_field ''api_version'',
      utf8_field ''error_code'',
      utf8_field ''error_message'',
      utf8_field ''username'',
      utf8_field ''session_credential_from_console'',
      utf8_field ''user_identity'',
      utf8_field ''request_parameters'',
      utf8_field ''response_elements'',
      utf8_field ''resources'',
      utf8_field ''additional_event_data'',
      utf8_field ''service_event_details'',
      utf8_field ''tls_details'',
      utf8_field ''addendum'',
      utf8_field ''event_context'',
      utf8_field ''edge_device_details'']"

datatype ct_column = CtUtf8 "string option list" | CtBoolean "bool option list" | CtTimestampMs "int option list" "string option"

fun ct_column_type :: "ct_column \<Rightarrow> DataType" where
  "ct_column_type (CtUtf8 v) = DUtf8"
| "ct_column_type (CtBoolean v) = DBoolean"
| "ct_column_type (CtTimestampMs v tz) = DTimestamp Millisecond tz"

fun ct_column_nulls :: "ct_column \<Rightarrow> bool list" where
  "ct_column_nulls (CtUtf8 v) = map Option.is_none v"
| "ct_column_nulls (CtBoolean v) = map Option.is_none v"
| "ct_column_nulls (CtTimestampMs v tz) = map Option.is_none v"

definition utf8_column :: "CloudTrailRecord list \<Rightarrow> (CloudTrailRecord \<Rightarrow> string option) \<Rightarrow> ct_column" where
  "utf8_column records get = CtUtf8 (map get records)"

definition cloudtrail_columns :: "CloudTrailRecord list \<Rightarrow> ct_column list" where
  "cloudtrail_columns records =
     [CtUtf8 (map (\<lambda>_. Some ''i'') records),
      CtUtf8 (map (\<lambda>r. Some (ct_event_id r)) records),
      CtTimestampMs (map (\<lambda>r. Some (ct_event_time_ms r)) records) (Some ''UTC''),
      utf8_column records ct_event_version,
      utf8_column records ct_event_name,
      utf8_column records ct_event_source,
      utf8_column records ct_event_category,
      utf8_column records ct_event_type,
      utf8_column records ct_aws_region,
      utf8_column records ct_source_ip_address,
      utf8_column records ct_user_agent,
      CtBoolean (map ct_read_only records),
      CtBoolean (map ct_management_event records),
      utf8_column records ct_recipient_account_id,
      utf8_column records ct_request_id,
      utf8_column records ct_shared_event_id,
      utf8_column records ct_vpc_endpoint_id,
      utf8_column records ct_vpc_endpoint_account_id,
      utf8_column records ct_api_version,
      utf8_column records ct_error_code,
      utf8_column records ct_error_message,
      utf8_column records ct_username,
      utf8_column records ct_session_credential_from_console,
      utf8_column records ct_user_identity,
      utf8_column records ct_request_parameters,
      utf8_column records ct_response_elements,
      utf8_column records ct_resources,
      utf8_column records ct_additional_event_data,
      utf8_column records ct_service_event_details,
      utf8_column records ct_tls_details,
      utf8_column records ct_addendum,
      utf8_column records ct_event_context,
      utf8_column records ct_edge_device_details]"

text \<open>\<open>None\<close> is the empty batch; \<open>try_new\<close> is the batch constructor.\<close>

definition ct_convert ::
  "(Schema \<Rightarrow> ct_column list \<Rightarrow> ArrowError + 'batch) \<Rightarrow> CloudTrailRecord list \<Rightarrow> PluginError + 'batch option" where
  "ct_convert try_new records =
     (if records = [] then Inr None
      else res_bind (map_err ArrowFailure (try_new cloudtrail_schema (cloudtrail_columns records)))
             (\<lambda>batch. Inr (Some batch)))"

section \<open>Properties\<close>

text \<open>
  the columns of a batch match the declared schema position by position: there is one column per
  field, it has the field's type and one entry per record, and a column whose field is not nullable
  has no null.
\<close>

theorem cloudtrail_columns_match_schema:
  "map ct_column_type (cloudtrail_columns records) = map data_type cloudtrail_schema \<and>
   list_all2 (\<lambda>f c. length (ct_column_nulls c) = length records \<and>
                    set (ct_column_nulls c) \<subseteq> (if nullable f then UNIV else {False}))
     cloudtrail_schema (cloudtrail_columns records)"
  by (auto simp: cloudtrail_schema_def cloudtrail_columns_def utf8_field_def boolean_field_def
      utf8_column_def)

end
