(* ===== verification/Checkpoints.thy ===== *)
theory Checkpoints
  imports OrderedMaps
begin

text \<open>
  The checkpoint contract the polling sources share: a marker notes the position the source may
  resume from under its epoch, and the finalizer of the epoch takes the note out, forgets those of older
  epochs and persists it. The lemmas say that whatever holds of every noted position when it is noted,
  and is stable, holds of every position that is persisted.
\<close>

text \<open>
  \<open>marks\<close> gives for each epoch a number observed when it was marked, for instance how much had been
  delivered.
\<close>

definition notes_good :: "('p \<Rightarrow> nat \<Rightarrow> bool) \<Rightarrow> (u64 \<Rightarrow> nat) \<Rightarrow> (u64, 'p) btree_map \<Rightarrow> bool" where
  "notes_good good marks m \<longleftrightarrow> bt_ok m \<and> (\<forall>e p. bt_get m e = Some p \<longrightarrow> good p (marks e))"

lemma notes_good_Nil [simp]: "notes_good good marks []"
  by (simp add: notes_good_def)

lemma notes_good_mono: "notes_good good marks m \<Longrightarrow> (\<And>p n. good p n \<Longrightarrow> good' p n) \<Longrightarrow> notes_good good' marks m"
  by (auto simp: notes_good_def)

text \<open>
  \<open>mark\<close> notes what is visible under an epoch; \<open>settle\<close> takes the note of an epoch out and forgets the
  older ones.
\<close>

locale epoch_notes =
  fixes pending_notes :: "'st \<Rightarrow> (u64, 'p) btree_map"
    and visible :: "'st \<Rightarrow> 'p option"
    and mark :: "u64 \<Rightarrow> 'st \<Rightarrow> 'st"
    and settle :: "u64 \<Rightarrow> 'st \<Rightarrow> 'p option \<times> 'st"
  assumes mark_notes:
      "pending_notes (mark e st) = (case visible st of None \<Rightarrow> pending_notes st | Some p \<Rightarrow> bt_insert e p (pending_notes st))"
    and settle_notes: "pending_notes (snd (settle e st)) = bt_split_off e (bt_remove e (pending_notes st))"
    and settle_takes: "fst (settle e st) = bt_get (pending_notes st) e"
begin

lemma mark_good:
  assumes "notes_good good marks (pending_notes st)" and "\<And>p. visible st = Some p \<Longrightarrow> good p n"
  shows "notes_good good (if visible st = None then marks else marks(e := n)) (pending_notes (mark e st))"
  using assms by (auto simp: notes_good_def mark_notes split: option.splits)

lemma settle_good:
  assumes "notes_good good marks (pending_notes st)" and "settle e st = (taken, st')"
  shows "notes_good good marks (pending_notes st')" and "\<And>p. taken = Some p \<Longrightarrow> good p (marks e)"
proof -
  show "notes_good good marks (pending_notes st')"
    using assms settle_notes [of e st] by (auto simp: notes_good_def split: if_splits)
  show "good p (marks e)" if "taken = Some p" for p
    using assms settle_takes [of e st] that by (auto simp: notes_good_def)
qed

lemma settle_forgets: "settle e st = (taken, st') \<Longrightarrow> e' \<le> e \<Longrightarrow> bt_get (pending_notes st') e' = None"
  using settle_notes [of e st] by (auto split: if_splits)

end

text \<open>A source whose finalizer persists the one position it took, unless the write fails.\<close>

locale noting_source =
  fixes pending_notes :: "'st \<Rightarrow> (u64, 'p) btree_map"
    and visible :: "'st \<Rightarrow> 'p option"
    and mark :: "u64 \<Rightarrow> 'st \<Rightarrow> 'st"
    and finish :: "string option \<Rightarrow> u64 \<Rightarrow> 'st \<Rightarrow> (PluginError + unit) \<times> 'p option \<times> 'st"
  assumes marks_visible:
      "pending_notes (mark e st) = (case visible st of None \<Rightarrow> pending_notes st | Some p \<Rightarrow> bt_insert e p (pending_notes st))"
    and finish_notes: "pending_notes (snd (snd (finish err e st))) = bt_split_off e (bt_remove e (pending_notes st))"
    and finish_persists: "fst (snd (finish err e st)) = (if err = None then bt_get (pending_notes st) e else None)"

sublocale noting_source \<subseteq> epoch_notes pending_notes visible mark
  "\<lambda>e st. (bt_get (pending_notes st) e, snd (snd (finish None e st)))"
  by unfold_locales (simp_all add: marks_visible finish_notes)

context noting_source
begin

lemma finish_good:
  assumes "notes_good good marks (pending_notes st)" and "finish err e st = (res, persisted, st')"
  shows "notes_good good marks (pending_notes st')" and "\<And>p. persisted = Some p \<Longrightarrow> good p (marks e)"
proof -
  have "pending_notes st' = pending_notes (snd (snd (finish None e st)))"
    using assms(2) finish_notes [of err e st] finish_notes [of None e st] by simp
  then show "notes_good good marks (pending_notes st')"
    using settle_good(1) [OF assms(1) refl, of e] by simp
  show "good p (marks e)" if "persisted = Some p" for p
    using assms finish_persists [of err e st] that by (auto simp: notes_good_def split: if_splits)
qed

text \<open>After the finalizer of an epoch nothing is noted for it or an older one.\<close>

lemma finish_forgets: "finish err e st = (res, persisted, st') \<Longrightarrow> e' \<le> e \<Longrightarrow> bt_get (pending_notes st') e' = None"
  using finish_notes [of err e st] by (auto split: if_splits)

end

end
