(* ===== verification/Buffered.thy ===== *)
theory Buffered
  imports Prelude
begin

text \<open>
  The buffer that the CloudTrail and S2 sources put between their background readers and the host: a
  channel of batches and a carry of records. A batch is built from the front of the carry; topping the
  carry up keeps every record and the order.
\<close>

fun top_up :: "nat \<Rightarrow> 'r list list \<Rightarrow> 'r list \<Rightarrow> 'r list \<times> 'r list list" where
  "top_up batch_size [] carry = (carry, [])"
| "top_up batch_size (b # q) carry =
     (if length carry < batch_size then top_up batch_size q (carry @ b) else (carry, b # q))"

text \<open>
  \<open>late\<close> is what the channel yields within the waiting time when the carry and the channel are empty.
\<close>

definition refill :: "nat \<Rightarrow> 'r list option \<Rightarrow> 'r list list \<Rightarrow> 'r list \<Rightarrow> 'r list \<times> 'r list list" where
  "refill batch_size late rx carry =
     (let (carry', q) = top_up batch_size rx carry in
      if carry' = []
      then (case q of
              b # q' \<Rightarrow> (b, q')
            | [] \<Rightarrow> (case late of None \<Rightarrow> [] | Some b \<Rightarrow> b, []))
      else (carry', q))"

lemma top_up_conserves: "top_up n q carry = (carry', q') \<Longrightarrow> carry' @ concat q' = carry @ concat q"
  by (induction n q carry rule: top_up.induct) (auto split: if_splits)

lemma refill_conserves:
  assumes "late = None \<or> rx = [] \<and> carry = []"
  shows "fst (refill n late rx carry) @ concat (snd (refill n late rx carry)) =
           carry @ concat rx @ (case late of None \<Rightarrow> [] | Some b \<Rightarrow> b)"
proof -
  obtain carry' q where t: "top_up n rx carry = (carry', q)" by fastforce
  from top_up_conserves [OF t] assms t show ?thesis
    by (auto simp: refill_def split: list.splits option.splits)
qed

text \<open>The records a returned batch was built from; the converter carries them along.\<close>

definition with_rows :: "('r list \<Rightarrow> PluginError + 'b) \<Rightarrow> 'r list \<Rightarrow> PluginError + 'r list \<times> 'b" where
  "with_rows convert rs = res_bind (convert rs) (\<lambda>b. Inr (rs, b))"

definition returned_rows :: "PluginError + ('r list \<times> 'b) option \<Rightarrow> 'r list" where
  "returned_rows res = (case res of Inr (Some (rs, _)) \<Rightarrow> rs | _ \<Rightarrow> [])"

end
