(* ===== verification/CloudTrail.thy ===== *)
theory CloudTrail
  imports CloudTrailConvert PluginOptions Checkpoints Buffered
begin

text \<open>
  The CloudTrail source: option parsing (\<open>src/src/sources/cloudtrail/config.rs\<close>), the window
  planning, deduplication and poll cycle of the background poller (\<open>poller.rs\<close>), and the batching
  and checkpointing of the source (\<open>source.rs\<close>).

  Times are 64-bit signed milliseconds: integers, with the saturating operations written out. One
  poll cycle is a function of the service's answers; a window is a list of pages, each the outcome
  of one request. Waiting, metrics and log lines are not modelled. The clock is an argument.
\<close>

section \<open>Configuration\<close>

definition LOOKUP_ATTRIBUTE_KEYS :: "string list" where
  "LOOKUP_ATTRIBUTE_KEYS =
     [''AccessKeyId'', ''EventId'', ''EventName'', ''EventSource'', ''ReadOnly'', ''ResourceName'',
      ''ResourceType'', ''Username'']"

datatype StartTime = StartNow | StartEarliest | StartAt int

datatype OnMalformed = MalformedError | MalformedSkip

record CloudTrailSourceConfig =
  ctc_region :: "string option"
  ctc_endpoint_url :: "string option"
  ctc_start_time :: StartTime
  ctc_poll_interval_secs :: nat
  ctc_lookback_secs :: nat
  ctc_max_window_secs :: nat
  ctc_batch_size :: nat
  ctc_lookup_attribute :: "(string \<times> string) option"
  ctc_on_malformed :: OnMalformed

definition parse_start_time :: "ct_foreign \<Rightarrow> environment \<Rightarrow> PluginOptions \<Rightarrow> PluginError + StartTime" where
  "parse_start_time F env o' =
     (let v = get_or env o' ''start_time'' ''now''; low = to_ascii_lowercase v in
      if low = ''now'' then Inr StartNow
      else if low = ''earliest'' then Inr StartEarliest
      else (case parse_rfc3339_ms F v of
              Inr t \<Rightarrow> Inr (StartAt t)
            | Inl e \<Rightarrow> Inl (Internal (''cloudtrail_source: start_time must be '' @ quoted ''now'' @ '', ''
                 @ quoted ''earliest'' @ '', or an RFC 3339 timestamp, got '' @ quoted v @ '': '' @ e))))"

definition parse_lookup_attribute ::
  "(string list \<Rightarrow> string) \<Rightarrow> environment \<Rightarrow> PluginOptions \<Rightarrow> PluginError + (string \<times> string) option" where
  "parse_lookup_attribute debug env o' =
     (let k = trim (get_or env o' ''lookup_attribute_key'' []);
          v = get_or env o' ''lookup_attribute_value'' [] in
      if k = [] \<and> v = [] then Inr None
      else if k = [] \<or> v = []
      then Inl (Internal (''cloudtrail_source: lookup_attribute_key and lookup_attribute_value ''
             @ ''must be set together''))
      else (case find (\<lambda>candidate. eq_ignore_ascii_case candidate k) LOOKUP_ATTRIBUTE_KEYS of
              Some canonical \<Rightarrow> Inr (Some (canonical, v))
            | None \<Rightarrow> Inl (Internal (''cloudtrail_source: invalid lookup_attribute_key '' @ quoted k
                 @ ''; must be one of '' @ debug LOOKUP_ATTRIBUTE_KEYS))))"

definition parse_on_malformed :: "environment \<Rightarrow> PluginOptions \<Rightarrow> PluginError + OnMalformed" where
  "parse_on_malformed env o' =
     (let v = to_ascii_lowercase (get_or env o' ''on_malformed'' ''error'') in
      if v = ''error'' then Inr MalformedError
      else if v = ''skip'' then Inr MalformedSkip
      else Inl (Internal (''cloudtrail_source: on_malformed must be '' @ quoted ''error'' @ '' or ''
             @ quoted ''skip'' @ '', got '' @ quoted v)))"

definition ct_parse_config ::
  "ct_foreign \<Rightarrow> (string list \<Rightarrow> string) \<Rightarrow> environment \<Rightarrow> PluginOptions \<Rightarrow> PluginError + CloudTrailSourceConfig" where
  "ct_parse_config F debug env o' =
     (if (lookup_non_empty env o' ''access_key_id'' \<noteq> None)
           \<noteq> (lookup_non_empty env o' ''secret_access_key'' \<noteq> None)
      then Inl (Internal (''cloudtrail_source: access_key_id and secret_access_key must be set ''
             @ ''together (omit both to use the default AWS credential chain)''))
      else
        res_bind (get_parsed env (parse_unsigned u64_max) o' ''lookback_secs'' ''1800'') (\<lambda>lookback.
        res_bind (get_parsed env parse_non_zero o' ''max_window_secs'' ''3600'') (\<lambda>max_window.
        if max_window \<le> lookback
        then Inl (Internal (''cloudtrail_source: max_window_secs ('' @ show_nat max_window
               @ '') must be greater than lookback_secs ('' @ show_nat lookback @ '')''))
        else
          res_bind (parse_start_time F env o') (\<lambda>start.
          res_bind (get_parsed env parse_non_zero o' ''poll_interval_secs'' ''60'') (\<lambda>interval.
          res_bind (get_parsed env parse_non_zero o' ''batch_size'' ''1024'') (\<lambda>size.
          res_bind (parse_lookup_attribute debug env o') (\<lambda>attribute.
          res_bind (parse_on_malformed env o') (\<lambda>malformed.
          Inr \<lparr>ctc_region = lookup_non_empty env o' ''region'',
               ctc_endpoint_url = lookup_non_empty env o' ''endpoint_url'', ctc_start_time = start,
               ctc_poll_interval_secs = interval, ctc_lookback_secs = lookback,
               ctc_max_window_secs = max_window, ctc_batch_size = size,
               ctc_lookup_attribute = attribute, ctc_on_malformed = malformed\<rparr>))))))))"

section \<open>Windows\<close>

abbreviation i64_min :: int where "i64_min \<equiv> - (2 ^ 63)"
abbreviation i64_max :: int where "i64_max \<equiv> 2 ^ 63 - 1"

text \<open>Saturating arithmetic: the result is clamped to the range of the type.\<close>

definition sat :: "int \<Rightarrow> int" where
  "sat x = max i64_min (min i64_max x)"

definition LOOKUP_RETENTION_MS :: int where
  "LOOKUP_RETENTION_MS = 90 * 24 * 3600 * 1000"

definition secs_to_ms :: "nat \<Rightarrow> int" where
  "secs_to_ms secs = sat (min (int secs) i64_max * 1000)"

definition resolve_start :: "int option \<Rightarrow> StartTime \<Rightarrow> int \<Rightarrow> int \<times> int" where
  "resolve_start checkpoint start_time now =
     (let floor = (case start_time of StartAt t \<Rightarrow> t | _ \<Rightarrow> 0) in
      case checkpoint of
        Some watermark \<Rightarrow> (watermark, floor)
      | None \<Rightarrow>
          (case start_time of
             StartNow \<Rightarrow> (now, now)
           | StartEarliest \<Rightarrow> (let h = max (now - LOOKUP_RETENTION_MS) 0 in (h, h))
           | StartAt t \<Rightarrow> (t, t)))"

record Window =
  start_ms :: int
  end_ms :: "int option"

definition plan_window :: "int \<Rightarrow> int \<Rightarrow> int \<Rightarrow> int \<Rightarrow> int \<Rightarrow> Window" where
  "plan_window watermark floor lookback max_window now =
     (let start = max (max (sat (watermark - lookback)) floor) 0;
          end' = sat (start + max_window)
      in \<lparr>start_ms = start, end_ms = (if end' < now then Some end' else None)\<rparr>)"

definition advance_watermark :: "int \<Rightarrow> int option \<Rightarrow> int option \<Rightarrow> int" where
  "advance_watermark current max_fetched capped_end =
     fold max (List.map_filter id [max_fetched, capped_end]) current"

section \<open>Deduplication\<close>

type_synonym DedupedEventIds = "(string, int) hash_map"

definition dedup_contains :: "DedupedEventIds \<Rightarrow> string \<Rightarrow> bool" where
  "dedup_contains seen i \<longleftrightarrow> hm_get seen i \<noteq> None"

definition dedup_insert :: "string \<Rightarrow> int \<Rightarrow> DedupedEventIds \<Rightarrow> DedupedEventIds" where
  "dedup_insert i t seen = hm_insert i t seen"

definition evict_before :: "int \<Rightarrow> DedupedEventIds \<Rightarrow> DedupedEventIds" where
  "evict_before cutoff seen = filter (\<lambda>e. snd e \<ge> cutoff) seen"

text \<open>
  The splitting loop moves \<open>batch_size\<close> records at a time; with a batch size of zero it would not
  end, so its result is an option.
\<close>

partial_function (option) split_batches ::
  "nat \<Rightarrow> CloudTrailRecord list \<Rightarrow> CloudTrailRecord list list \<Rightarrow> CloudTrailRecord list list option" where
  "split_batches batch_size records batches =
     (if length records > batch_size
      then split_batches batch_size (drop batch_size records) (batches @ [take batch_size records])
      else Some (if records = [] then batches else batches @ [records]))"

definition sort_into_batches :: "CloudTrailRecord list \<Rightarrow> nat \<Rightarrow> CloudTrailRecord list list option" where
  "sort_into_batches records batch_size = split_batches batch_size (sort_key ct_event_time_ms records) []"

section \<open>The poll cycle\<close>

record FetchedWindow =
  fetched_records :: "CloudTrailRecord list"
  fetched_skipped :: "(string \<times> int) list"

text \<open>
  One event of a page: kept, filtered as a duplicate, remembered as malformed, or an error. The
  option an event's identifier is printed as belongs to the formatting machinery.
\<close>

definition fetch_event ::
  "ct_foreign \<Rightarrow> (string option \<Rightarrow> string) \<Rightarrow> OnMalformed \<Rightarrow> Window \<Rightarrow> DedupedEventIds \<Rightarrow> sdk_event
     \<Rightarrow> FetchedWindow \<times> string set \<Rightarrow> string + FetchedWindow \<times> string set" where
  "fetch_event F debug malformed w seen ev acc =
     (let (fetched, window_seen) = acc in
      case from_sdk_event F ev of
        Inr r \<Rightarrow>
          if dedup_contains seen (ct_event_id r) then Inr acc
          else if ct_event_id r \<in> window_seen then Inr acc
          else Inr (fetched\<lparr>fetched_records := fetched_records fetched @ [r]\<rparr>,
                    insert (ct_event_id r) window_seen)
      | Inl e \<Rightarrow>
          (case malformed of
             MalformedError \<Rightarrow>
               Inl (''malformed event (id '' @ debug (ev_event_id ev) @ ''): '' @ e
                 @ ''; the source stalls rather than losing data '' @ [CHR 0xE2, CHR 0x80, CHR 0x94]
                 @ '' set on_malformed=skip to drop such events'')
           | MalformedSkip \<Rightarrow>
               (case ev_event_id ev of
                  None \<Rightarrow> Inr acc
                | Some i \<Rightarrow>
                    (let time = (case ev_event_time ev of Some (Inr t) \<Rightarrow> t | _ \<Rightarrow> start_ms w) in
                     Inr (fetched\<lparr>fetched_skipped := fetched_skipped fetched @ [(i, time)]\<rparr>, window_seen)))))"

fun fetch_events ::
  "ct_foreign \<Rightarrow> (string option \<Rightarrow> string) \<Rightarrow> OnMalformed \<Rightarrow> Window \<Rightarrow> DedupedEventIds \<Rightarrow> sdk_event list
     \<Rightarrow> FetchedWindow \<times> string set \<Rightarrow> string + FetchedWindow \<times> string set" where
  "fetch_events F debug malformed w seen [] acc = Inr acc"
| "fetch_events F debug malformed w seen (ev # evs) acc =
     res_bind (fetch_event F debug malformed w seen ev acc)
       (fetch_events F debug malformed w seen evs)"

text \<open>
  The page loop. The answers of the service to the successive requests are a list; the page after
  which there is no token is the last element.
\<close>

fun fetch_pages ::
  "ct_foreign \<Rightarrow> (string option \<Rightarrow> string) \<Rightarrow> OnMalformed \<Rightarrow> Window \<Rightarrow> DedupedEventIds
     \<Rightarrow> (string + sdk_event list) list \<Rightarrow> FetchedWindow \<times> string set \<Rightarrow> string + FetchedWindow" where
  "fetch_pages F debug malformed w seen [] acc = Inr (fst acc)"
| "fetch_pages F debug malformed w seen (page # pages) acc =
     res_bind (map_err (\<lambda>e. ''LookupEvents request failed: '' @ e) page) (\<lambda>evs.
     res_bind (fetch_events F debug malformed w seen evs acc)
       (fetch_pages F debug malformed w seen pages))"

definition fetch_window ::
  "ct_foreign \<Rightarrow> (string option \<Rightarrow> string) \<Rightarrow> OnMalformed \<Rightarrow> Window \<Rightarrow> DedupedEventIds
     \<Rightarrow> (string + sdk_event list) list \<Rightarrow> string + FetchedWindow" where
  "fetch_window F debug malformed w seen pages =
     fetch_pages F debug malformed w seen pages (\<lparr>fetched_records = [], fetched_skipped = []\<rparr>, {})"

text \<open>The largest event time of a list of records.\<close>

definition max_event_time :: "CloudTrailRecord list \<Rightarrow> int option" where
  "max_event_time rs = (if rs = [] then None else Some (Max (ct_event_time_ms ` set rs)))"

record poller_state =
  po_watermark :: int
  po_deduped :: DedupedEventIds

text \<open>
  One turn of the poller's loop, given the clock and the service's answers: the batches sent and
  the next state. A failed window keeps the watermark and adds nothing to the set of seen events.
\<close>

definition poll_cycle ::
  "ct_foreign \<Rightarrow> (string option \<Rightarrow> string) \<Rightarrow> CloudTrailSourceConfig \<Rightarrow> int \<Rightarrow> int
     \<Rightarrow> (string + sdk_event list) list \<Rightarrow> poller_state
     \<Rightarrow> (CloudTrailRecord list list \<times> poller_state) option" where
  "poll_cycle F debug cfg floor now pages st =
     (let w = plan_window (po_watermark st) floor (secs_to_ms (ctc_lookback_secs cfg))
                (secs_to_ms (ctc_max_window_secs cfg)) now;
          seen = evict_before (start_ms w) (po_deduped st) in
      case fetch_window F debug (ctc_on_malformed cfg) w seen pages of
        Inl e \<Rightarrow> Some ([], st\<lparr>po_deduped := seen\<rparr>)
      | Inr fetched \<Rightarrow>
          (let seen1 = fold (\<lambda>r. dedup_insert (ct_event_id r) (ct_event_time_ms r)) (fetched_records fetched) seen;
               seen2 = fold (\<lambda>(i, t). dedup_insert i t) (fetched_skipped fetched) seen1 in
           map_option
             (\<lambda>batches. (batches,
                \<lparr>po_watermark = advance_watermark (po_watermark st)
                   (max_event_time (fetched_records fetched)) (end_ms w),
                 po_deduped = seen2\<rparr>))
             (sort_into_batches (fetched_records fetched) (ctc_batch_size cfg))))"

section \<open>The source\<close>

record CtRecvState =
  ct_rx :: "CloudTrailRecord list list"
  ct_carry :: "CloudTrailRecord list"
  ct_pending_watermark :: "int option"

record CtRunningState =
  ct_recv :: CtRecvState
  ct_delivered_watermark :: int
  ct_pending_epochs :: "(u64, int) btree_map"

definition ct_running_new :: "int \<Rightarrow> CtRunningState" where
  "ct_running_new watermark =
     \<lparr>ct_recv = \<lparr>ct_rx = [], ct_carry = [], ct_pending_watermark = None\<rparr>,
      ct_delivered_watermark = watermark, ct_pending_epochs = []\<rparr>"

definition ct_fill :: "nat \<Rightarrow> CloudTrailRecord list option \<Rightarrow> CtRecvState \<Rightarrow> CtRecvState" where
  "ct_fill batch_size late r =
     (let (carry, q) = refill batch_size late (ct_rx r) (ct_carry r) in r\<lparr>ct_carry := carry, ct_rx := q\<rparr>)"

definition ct_confirm :: "CtRunningState \<Rightarrow> CtRunningState" where
  "ct_confirm st =
     (case ct_pending_watermark (ct_recv st) of
        None \<Rightarrow> st
      | Some d \<Rightarrow>
          st\<lparr>ct_recv := (ct_recv st)\<lparr>ct_pending_watermark := None\<rparr>,
             ct_delivered_watermark := max (ct_delivered_watermark st) d\<rparr>)"

text \<open>A batch is taken from the front of the carry; a failed conversion leaves the carry as it is.\<close>

definition ct_generate_batch ::
  "(CloudTrailRecord list \<Rightarrow> PluginError + 'batch) \<Rightarrow> nat \<Rightarrow> bool \<Rightarrow> CloudTrailRecord list option
     \<Rightarrow> CtRunningState \<Rightarrow> (PluginError + 'batch option) \<times> CtRunningState" where
  "ct_generate_batch convert batch_size running late st =
     (if \<not> running then (Inr None, st)
      else
        (let st1 = ct_confirm st;
             r = ct_fill batch_size late (ct_recv st1);
             st2 = st1\<lparr>ct_recv := r\<rparr>;
             n = min (length (ct_carry r)) batch_size in
         if n = 0 then (Inr None, st2)
         else
           (case convert (take n (ct_carry r)) of
              Inl e \<Rightarrow> (Inl e, st2)
            | Inr batch \<Rightarrow>
                (Inr (Some batch),
                 st2\<lparr>ct_recv := r\<lparr>ct_carry := drop n (ct_carry r),
                       ct_pending_watermark := max_event_time (take n (ct_carry r))\<rparr>\<rparr>))))"

definition ct_checkpoint_marker :: "u64 \<Rightarrow> CtRunningState \<Rightarrow> CtRunningState" where
  "ct_checkpoint_marker epoch st =
     st\<lparr>ct_pending_epochs := bt_insert epoch (ct_delivered_watermark st) (ct_pending_epochs st)\<rparr>"

text \<open>\<open>put_error\<close> is the outcome of persisting; the result has the watermark to persist, if any.\<close>

definition ct_checkpoint_finalizer ::
  "string option \<Rightarrow> u64 \<Rightarrow> CtRunningState \<Rightarrow> (PluginError + unit) \<times> int option \<times> CtRunningState" where
  "ct_checkpoint_finalizer put_error epoch st =
     (let snapshot = bt_get (ct_pending_epochs st) epoch;
          st' = st\<lparr>ct_pending_epochs := bt_split_off epoch (bt_remove epoch (ct_pending_epochs st))\<rparr> in
      case snapshot of
        None \<Rightarrow> (Inr (), None, st')
      | Some w \<Rightarrow>
          (case put_error of
             Some e \<Rightarrow> (Inl (StateFailure e), None, st')
           | None \<Rightarrow> (Inr (), Some w, st')))"

interpretation ct: noting_source ct_pending_epochs "\<lambda>st. Some (ct_delivered_watermark st)"
  ct_checkpoint_marker ct_checkpoint_finalizer
  by unfold_locales
     (auto simp: ct_checkpoint_marker_def ct_checkpoint_finalizer_def Let_def split: option.splits)

record CloudTrailSource =
  cts_opts :: PluginOptions
  cts_config :: CloudTrailSourceConfig
  cts_inner :: "CtRunningState option"
  cts_running :: bool

definition ct_source_new ::
  "ct_foreign \<Rightarrow> (string list \<Rightarrow> string) \<Rightarrow> environment \<Rightarrow> (string, string) hash_map \<Rightarrow> PluginError + CloudTrailSource" where
  "ct_source_new F debug env options =
     (let opts = plugin_options_new options ''cloudtrail_source'' ''STREAMLING__PLUGIN__CLOUDTRAIL_SOURCE'' in
      res_bind (ct_parse_config F debug env opts) (\<lambda>config.
      Inr \<lparr>cts_opts = opts, cts_config = config, cts_inner = None, cts_running = True\<rparr>))"

definition ct_terminate :: "CloudTrailSource \<Rightarrow> CloudTrailSource" where
  "ct_terminate s = s\<lparr>cts_running := False\<rparr>"

text \<open>
  Initialization: a probe request, the persisted watermark, and the poller's start. \<open>probe\<close>,
  \<open>state_get\<close> and \<open>attribute\<close> are the outcomes of the calls to the service, the backend and the
  request builder. Returned beside the source are the poller's initial watermark and floor.
\<close>

definition ct_initialize ::
  "string option \<Rightarrow> (string + int option) \<Rightarrow> (string \<Rightarrow> string \<Rightarrow> string option) \<Rightarrow> int \<Rightarrow> CloudTrailSource
     \<Rightarrow> (PluginError + (int \<times> int) option) \<times> CloudTrailSource" where
  "ct_initialize probe state_get attribute now s =
     (case cts_inner s of
        Some _ \<Rightarrow> (Inr None, s)
      | None \<Rightarrow>
          (case
             res_bind (case probe of
                         None \<Rightarrow> Inr ()
                       | Some e \<Rightarrow> Inl (Internal (''cloudtrail_source: LookupEvents probe failed: '' @ e))) (\<lambda>_.
             res_bind (map_err StateFailure state_get) (\<lambda>checkpoint.
             (let start = resolve_start checkpoint (ctc_start_time (cts_config s)) now in
              res_bind (case ctc_lookup_attribute (cts_config s) of
                          None \<Rightarrow> Inr ()
                        | Some (k, v) \<Rightarrow>
                            (case attribute k v of
                               None \<Rightarrow> Inr ()
                             | Some e \<Rightarrow> Inl (Internal (''cloudtrail_source: invalid lookup attribute: '' @ e)))) (\<lambda>_.
              Inr start))))
           of
             Inl e \<Rightarrow> (Inl e, s)
           | Inr start \<Rightarrow> (Inr (Some start), s\<lparr>cts_inner := Some (ct_running_new (fst start))\<rparr>)))"

end
