(* ===== verification/CloudTrailSystem.thy ===== *)
theory CloudTrailSystem
  imports CloudTrail "HOL-Library.Multiset"
begin

text \<open>
  The CloudTrail poller and source running together, with the host that pulls batches and drives
  checkpoints: batching and window planning on their own, then a step relation whose ghost fields
  record what was fetched, what was delivered, and what had been delivered when a watermark was
  noted. The results are that a restart never skips a record that was not delivered, and that one
  run emits an event at most once.
\<close>

section \<open>Batches of a window\<close>

abbreviation ct_time :: "CloudTrailRecord \<Rightarrow> int" where "ct_time \<equiv> ct_event_time_ms"

lemma split_batches_spec:
  assumes "n > 0"
  shows "\<exists>bs. split_batches n rs acc = Some (acc @ bs) \<and> concat bs = rs \<and>
           (\<forall>b \<in> set bs. b \<noteq> [] \<and> length b \<le> n)"
proof (induction "length rs" arbitrary: rs acc rule: less_induct)
  case less
  show ?case
  proof (cases "length rs > n")
    case True
    with assms have "length (drop n rs) < length rs" by simp
    from less.hyps [OF this, of "acc @ [take n rs]"] obtain bs where
      bs: "split_batches n (drop n rs) (acc @ [take n rs]) = Some ((acc @ [take n rs]) @ bs)"
        "concat bs = drop n rs" "\<forall>b \<in> set bs. b \<noteq> [] \<and> length b \<le> n" by blast
    from True assms have "take n rs \<noteq> []" by auto
    with True bs show ?thesis
      by (intro exI [of _ "take n rs # bs"]) (simp add: split_batches.simps [of n rs])
  next
    case False
    then show ?thesis
      by (intro exI [of _ "if rs = [] then [] else [rs]"]) (simp add: split_batches.simps [of n rs])
  qed
qed

lemma sort_into_batches_spec:
  assumes "n > 0"
  obtains bs where "sort_into_batches rs n = Some bs" "concat bs = sort_key ct_time rs"
    "\<forall>b \<in> set bs. b \<noteq> [] \<and> length b \<le> n"
  using split_batches_spec [OF assms, of "sort_key ct_time rs" "[]"] unfolding sort_into_batches_def by auto

text \<open>
  for a positive batch size the splitting loop ends, and its batches are non-empty, at most the
  batch size, and together the fetched records, none lost or repeated, in the order of their event times.
\<close>

theorem sort_into_batches_terminates:
  "case sort_into_batches rs (Suc n) of
     None \<Rightarrow> False
   | Some bs \<Rightarrow> sorted (map ct_time (concat bs)) \<and> mset (concat bs) = mset rs \<and>
       list_all (\<lambda>b. 0 < length b \<and> length b \<le> Suc n) bs"
proof -
  obtain bs where "sort_into_batches rs (Suc n) = Some bs" "concat bs = sort_key ct_time rs"
    "\<forall>b \<in> set bs. b \<noteq> [] \<and> length b \<le> Suc n"
    using sort_into_batches_spec [of "Suc n" rs] by blast
  then show ?thesis by (simp add: list_all_iff)
qed

section \<open>Windows\<close>

lemma sat_ge: "x \<le> i64_max \<Longrightarrow> x \<le> sat x"
  by (simp add: sat_def)

lemma sat_le [simp]: "sat x \<le> 9223372036854775807"
  by (simp add: sat_def)

lemma sat_le_nonneg: "0 \<le> y \<Longrightarrow> x \<le> y \<Longrightarrow> sat x \<le> y"
  by (simp add: sat_def)

lemma sat_mono: "x \<le> y \<Longrightarrow> sat x \<le> sat y"
  by (auto simp: sat_def)

lemma secs_to_ms_nonneg: "0 \<le> secs_to_ms n"
  by (simp add: secs_to_ms_def sat_def)

lemma secs_to_ms_mono: "m \<le> n \<Longrightarrow> secs_to_ms m \<le> secs_to_ms n"
  by (auto simp: secs_to_ms_def intro!: sat_mono)

lemma secs_to_ms_strict:
  assumes "m < n" and "secs_to_ms n < i64_max"
  shows "secs_to_ms m < secs_to_ms n"
  using assms by (auto simp: secs_to_ms_def sat_def min_def max_def split: if_splits)

lemma advance_watermark_eq:
  "advance_watermark w None None = w"
  "advance_watermark w (Some t) None = max t w"
  "advance_watermark w None (Some e) = max e w"
  "advance_watermark w (Some t) (Some e) = max e (max t w)"
  by (simp_all add: advance_watermark_def List.map_filter_def)

lemma advance_watermark_ge: "w \<le> advance_watermark w m e"
  by (cases m; cases e) (auto simp: advance_watermark_eq)

lemma advance_watermark_ge_max: "t \<le> advance_watermark w (Some t) e"
  by (cases e) (auto simp: advance_watermark_eq)

lemma advance_watermark_ge_end: "e \<le> advance_watermark w m (Some e)"
  by (cases m) (auto simp: advance_watermark_eq)

lemma advance_watermark_le:
  "w \<le> u \<Longrightarrow> (\<And>t. m = Some t \<Longrightarrow> t \<le> u) \<Longrightarrow> (\<And>x. e = Some x \<Longrightarrow> x \<le> u) \<Longrightarrow> advance_watermark w m e \<le> u"
  by (cases m; cases e) (auto simp: advance_watermark_eq)

lemma plan_window_mono:
  "w \<le> w' \<Longrightarrow> start_ms (plan_window w floor lb mw now) \<le> start_ms (plan_window w' floor lb mw now')"
  using sat_mono [of "w - lb" "w' - lb"] by (auto simp: plan_window_def Let_def)

lemma plan_window_end_le: "end_ms (plan_window w floor lb mw now) = Some e \<Longrightarrow> e \<le> i64_max"
  by (auto simp: plan_window_def Let_def split: if_splits)

lemma plan_window_start:
  assumes "w \<le> i64_max" and "0 \<le> lb"
  shows "w - lb \<le> start_ms (plan_window w floor lb mw now)"
    and "floor \<le> start_ms (plan_window w floor lb mw now)"
    and "0 \<le> start_ms (plan_window w floor lb mw now)"
  using sat_ge [of "w - lb"] assms by (auto simp: plan_window_def Let_def)


section \<open>What a window fetches\<close>

text \<open>
  The laws of the service: \<open>LookupEvents\<close> returns no event that occurred before the start of the
  window asked for, and times are 64-bit milliseconds (\<open>in_window\<close>); an event identifier always
  names the same event, so it has one time, and its payload is either always or never readable
  (\<open>stable\<close>, where \<open>time_of\<close> gives the times of the readable events).
\<close>

definition in_window :: "ct_foreign \<Rightarrow> Window \<Rightarrow> sdk_event \<Rightarrow> bool" where
  "in_window F w ev =
     (case from_sdk_event F ev of
        Inl _ \<Rightarrow> True
      | Inr r \<Rightarrow> start_ms w \<le> ct_time r \<and> ct_time r \<le> i64_max)"

definition stable :: "ct_foreign \<Rightarrow> (string \<Rightarrow> int option) \<Rightarrow> sdk_event \<Rightarrow> bool" where
  "stable F time_of ev =
     (case from_sdk_event F ev of
        Inl _ \<Rightarrow> (case ev_event_id ev of None \<Rightarrow> True | Some i \<Rightarrow> time_of i = None)
      | Inr r \<Rightarrow> time_of (ct_event_id r) = Some (ct_time r))"

definition lawful_page ::
  "ct_foreign \<Rightarrow> (string \<Rightarrow> int option) \<Rightarrow> Window \<Rightarrow> string + sdk_event list \<Rightarrow> bool" where
  "lawful_page F time_of w page =
     (case page of Inl _ \<Rightarrow> True | Inr evs \<Rightarrow> list_all (\<lambda>ev. in_window F w ev \<and> stable F time_of ev) evs)"

text \<open>What holds of the records and skipped identifiers collected so far in a window.\<close>

definition fetched_ok ::
  "(string \<Rightarrow> int option) \<Rightarrow> Window \<Rightarrow> DedupedEventIds \<Rightarrow> FetchedWindow \<times> string set \<Rightarrow> bool" where
  "fetched_ok time_of w seen acc \<longleftrightarrow>
     (\<forall>r \<in> set (fetched_records (fst acc)).
        start_ms w \<le> ct_time r \<and> ct_time r \<le> i64_max \<and> time_of (ct_event_id r) = Some (ct_time r) \<and>
        \<not> dedup_contains seen (ct_event_id r) \<and> ct_event_id r \<in> snd acc) \<and>
     distinct (map ct_event_id (fetched_records (fst acc))) \<and>
     (\<forall>e \<in> set (fetched_skipped (fst acc)). time_of (fst e) = None)"

lemma fetch_event_ok:
  assumes "fetch_event F debug malformed w seen ev acc = Inr acc'"
    and "in_window F w ev" and "stable F time_of ev" and "fetched_ok time_of w seen acc"
  shows "fetched_ok time_of w seen acc'"
  using assms
  by (cases acc; cases "from_sdk_event F ev")
     (auto simp: fetch_event_def fetched_ok_def in_window_def stable_def Let_def
        split: if_splits OnMalformed.splits option.splits)

lemma fetch_events_ok:
  "fetch_events F debug malformed w seen evs acc = Inr acc' \<Longrightarrow>
   list_all (\<lambda>ev. in_window F w ev \<and> stable F time_of ev) evs \<Longrightarrow>
   fetched_ok time_of w seen acc \<Longrightarrow> fetched_ok time_of w seen acc'"
  by (induction evs arbitrary: acc) (auto simp: res_bind_Inr_iff intro: fetch_event_ok)

lemma fetch_pages_ok:
  "fetch_pages F debug malformed w seen pages acc = Inr fetched \<Longrightarrow>
   list_all (lawful_page F time_of w) pages \<Longrightarrow> fetched_ok time_of w seen acc \<Longrightarrow>
   \<exists>ids. fetched_ok time_of w seen (fetched, ids)"
proof (induction pages arbitrary: acc)
  case Nil
  then show ?case by (cases acc) auto
next
  case (Cons page pages)
  then show ?case
    by (auto simp: res_bind_Inr_iff map_err_Inr_iff lawful_page_def dest: fetch_events_ok)
qed

lemma fetch_window_ok:
  assumes "fetch_window F debug malformed w seen pages = Inr fetched"
    and "list_all (lawful_page F time_of w) pages"
  obtains ids where "fetched_ok time_of w seen (fetched, ids)"
  using fetch_pages_ok [OF assms(1) [unfolded fetch_window_def] assms(2)]
  by (auto simp: fetched_ok_def)


section \<open>The poller\<close>

text \<open>The fixed surroundings of a run: foreign functions, the service's events, configuration and start.\<close>

record ct_env =
  env_foreign :: ct_foreign
  env_debug :: "string option \<Rightarrow> string"
  env_time_of :: "string \<Rightarrow> int option"
  env_config :: CloudTrailSourceConfig
  env_init :: int
  env_floor :: int

definition lookback :: "ct_env \<Rightarrow> int" where
  "lookback E = secs_to_ms (ctc_lookback_secs (env_config E))"

definition window_at :: "ct_env \<Rightarrow> int \<Rightarrow> int \<Rightarrow> Window" where
  "window_at E w now =
     plan_window w (env_floor E) (lookback E) (secs_to_ms (ctc_max_window_secs (env_config E))) now"

lemma window_start_indep: "start_ms (window_at E w now) = start_ms (window_at E w 0)"
  by (simp add: window_at_def plan_window_def Let_def)

lemma window_start_mono: "w \<le> w' \<Longrightarrow> start_ms (window_at E w now) \<le> start_ms (window_at E w' now')"
  by (simp add: window_at_def plan_window_mono)

text \<open>
  The poller's invariant, given the records \<open>h\<close> fetched so far in the order they are sent: a later
  record is at most the lookback older than an earlier one, and whatever the next window can see
  again is remembered.
\<close>

definition poll_inv :: "ct_env \<Rightarrow> CloudTrailRecord list \<Rightarrow> poller_state \<Rightarrow> bool" where
  "poll_inv E h p \<longleftrightarrow>
     env_init E \<le> po_watermark p \<and> po_watermark p \<le> i64_max \<and> hm_ok (po_deduped p) \<and>
     sorted_wrt (\<lambda>x y. ct_time x - lookback E \<le> ct_time y) h \<and> distinct (map ct_event_id h) \<and>
     (\<forall>r \<in> set h. ct_time r \<le> po_watermark p \<and> env_init E - lookback E \<le> ct_time r \<and>
        env_floor E \<le> ct_time r \<and> 0 \<le> ct_time r \<and> env_time_of E (ct_event_id r) = Some (ct_time r) \<and>
        (start_ms (window_at E (po_watermark p) 0) \<le> ct_time r \<longrightarrow>
           hm_get (po_deduped p) (ct_event_id r) = Some (ct_time r)))"

lemma hm_ok_evict: "hm_ok m \<Longrightarrow> hm_ok (evict_before c m)"
  by (simp add: evict_before_def hm_ok_def distinct_map_filter)

lemma hm_get_evict: "hm_ok m \<Longrightarrow> hm_get (evict_before c m) i = Some t \<longleftrightarrow> hm_get m i = Some t \<and> c \<le> t"
  using map_of_eq_Some_iff [of m i t] map_of_eq_Some_iff [of "evict_before c m" i t] hm_ok_evict [of m c]
  by (auto simp: hm_ok_def) (auto simp: evict_before_def)

lemma hm_ok_fold_dedup: "hm_ok m \<Longrightarrow> hm_ok (fold (\<lambda>r. dedup_insert (k r) (v r)) rs m)"
  by (induction rs arbitrary: m) (auto simp: dedup_insert_def)

lemma hm_get_fold_dedup_other:
  "i \<notin> k ` set rs \<Longrightarrow> hm_get (fold (\<lambda>r. dedup_insert (k r) (v r)) rs m) i = hm_get m i"
  by (induction rs arbitrary: m) (auto simp: dedup_insert_def)

lemma hm_get_fold_dedup:
  "r \<in> set rs \<Longrightarrow> distinct (map k rs) \<Longrightarrow> hm_get (fold (\<lambda>r. dedup_insert (k r) (v r)) rs m) (k r) = Some (v r)"
proof (induction rs arbitrary: m)
  case (Cons a rs)
  show ?case
  proof (cases "r = a")
    case True
    with Cons.prems have "k r \<notin> k ` set rs" by auto
    with True show ?thesis by (simp add: hm_get_fold_dedup_other) (simp add: dedup_insert_def)
  next
    case False
    with Cons show ?thesis by simp
  qed
qed simp

definition remember :: "FetchedWindow \<Rightarrow> DedupedEventIds \<Rightarrow> DedupedEventIds" where
  "remember fetched seen =
     fold (\<lambda>(i, t). dedup_insert i t) (fetched_skipped fetched)
       (fold (\<lambda>r. dedup_insert (ct_event_id r) (ct_event_time_ms r)) (fetched_records fetched) seen)"

lemma remember_ok: "hm_ok seen \<Longrightarrow> hm_ok (remember fetched seen)"
  by (simp add: remember_def case_prod_beta' hm_ok_fold_dedup)

lemma remember_get:
  assumes "fetched_ok time_of w seen (fetched, ids)" and "time_of i = Some t"
  shows "hm_get (remember fetched seen) i =
           (if i \<in> ct_event_id ` set (fetched_records fetched) then Some t else hm_get seen i)"
proof -
  have "i \<notin> fst ` set (fetched_skipped fetched)" using assms by (auto simp: fetched_ok_def Let_def)
  then have "hm_get (remember fetched seen) i =
      hm_get (fold (\<lambda>r. dedup_insert (ct_event_id r) (ct_event_time_ms r)) (fetched_records fetched) seen) i"
    by (simp add: remember_def case_prod_beta' hm_get_fold_dedup_other [of i fst])
  with assms show ?thesis
    by (auto simp: fetched_ok_def hm_get_fold_dedup hm_get_fold_dedup_other Let_def)
qed

lemma poll_cycle_cases:
  assumes "poll_cycle F debug cfg floor now pages p = Some (bs, p')" and "ctc_batch_size cfg > 0"
  defines "w \<equiv> plan_window (po_watermark p) floor (secs_to_ms (ctc_lookback_secs cfg))
                 (secs_to_ms (ctc_max_window_secs cfg)) now"
  defines "seen \<equiv> evict_before (start_ms w) (po_deduped p)"
  obtains "bs = []" and "p' = p\<lparr>po_deduped := seen\<rparr>"
  | fetched where "fetch_window F debug (ctc_on_malformed cfg) w seen pages = Inr fetched"
      and "concat bs = sort_key ct_time (fetched_records fetched)"
      and "\<forall>b \<in> set bs. b \<noteq> [] \<and> length b \<le> ctc_batch_size cfg"
      and "p' = \<lparr>po_watermark = advance_watermark (po_watermark p)
             (max_event_time (fetched_records fetched)) (end_ms w), po_deduped = remember fetched seen\<rparr>"
proof (cases "fetch_window F debug (ctc_on_malformed cfg) w seen pages")
  case (Inl e)
  with assms that(1) show ?thesis by (simp add: poll_cycle_def Let_def)
next
  case (Inr fetched)
  obtain cs where "sort_into_batches (fetched_records fetched) (ctc_batch_size cfg) = Some cs"
    "concat cs = sort_key ct_time (fetched_records fetched)"
    "\<forall>b \<in> set cs. b \<noteq> [] \<and> length b \<le> ctc_batch_size cfg"
    using sort_into_batches_spec [OF assms(2)] by blast
  with Inr assms(1) that(2) show ?thesis by (simp add: poll_cycle_def Let_def w_def seen_def remember_def)
qed


lemma max_event_time_Some:
  "max_event_time rs = Some t \<longleftrightarrow> rs \<noteq> [] \<and> t = Max (ct_time ` set rs)"
  by (auto simp: max_event_time_def)

lemma max_event_time_mem: "max_event_time rs = Some t \<Longrightarrow> t \<in> ct_time ` set rs"
  using Max_in [of "ct_time ` set rs"] by (auto simp: max_event_time_Some)

lemma advance_watermark_fetched: "r \<in> set rs \<Longrightarrow> ct_time r \<le> advance_watermark w (max_event_time rs) e"
  using advance_watermark_ge_max [of "Max (ct_time ` set rs)" w e] Max_ge [of "ct_time ` set rs" "ct_time r"]
  by (auto simp: max_event_time_def)

lemma poll_inv_evict:
  assumes "poll_inv E h p"
  shows "poll_inv E h (p\<lparr>po_deduped := evict_before (start_ms (window_at E (po_watermark p) now)) (po_deduped p)\<rparr>)"
  using assms window_start_indep [of E "po_watermark p" now]
  by (auto simp: poll_inv_def hm_ok_evict hm_get_evict)

lemma evicted_fresh:
  assumes "poll_inv E h p" and "start_ms (window_at E (po_watermark p) now) \<le> t"
    and "env_time_of E i = Some t"
    and "\<not> dedup_contains (evict_before (start_ms (window_at E (po_watermark p) now)) (po_deduped p)) i"
  shows "i \<notin> ct_event_id ` set h"
proof
  assume "i \<in> ct_event_id ` set h"
  then obtain r where r: "r \<in> set h" "i = ct_event_id r" by blast
  with assms(1,3) have "ct_time r = t" by (auto simp: poll_inv_def)
  with r assms(1,2) window_start_indep [of E "po_watermark p" now]
  have "hm_get (po_deduped p) i = Some t" by (auto simp: poll_inv_def)
  with assms show False
    by (auto simp: dedup_contains_def hm_get_evict poll_inv_def)
qed

lemma sorted_key_append_lookback:
  assumes "sorted_wrt (\<lambda>x y. ct_time x - lb \<le> ct_time y) h" and "0 \<le> lb"
    and "\<And>x y. x \<in> set h \<Longrightarrow> y \<in> set rs \<Longrightarrow> ct_time x - lb \<le> ct_time y"
  shows "sorted_wrt (\<lambda>x y. ct_time x - lb \<le> ct_time y) (h @ sort_key ct_time rs)"
proof -
  have "sorted_wrt (\<lambda>x y. ct_time x \<le> ct_time y) (sort_key ct_time rs)"
    using sorted_sort_key [of ct_time rs] by (simp add: sorted_map)
  then have "sorted_wrt (\<lambda>x y. ct_time x - lb \<le> ct_time y) (sort_key ct_time rs)"
    by (rule sorted_wrt_mono_rel [rotated]) (use assms(2) in auto)
  with assms show ?thesis by (auto simp: sorted_wrt_append)
qed

lemma remember_keeps:
  fixes E p now
  defines "w \<equiv> window_at E (po_watermark p) now"
  defines "seen \<equiv> evict_before (start_ms w) (po_deduped p)"
  assumes inv: "poll_inv E h p" and ok: "fetched_ok (env_time_of E) w seen (fetched, ids)"
    and r: "r \<in> set h \<union> set (fetched_records fetched)"
    and t: "po_watermark p \<le> W'" "start_ms (window_at E W' 0) \<le> ct_time r"
  shows "hm_get (remember fetched seen) (ct_event_id r) = Some (ct_time r)"
proof (cases "r \<in> set (fetched_records fetched)")
  case True
  with ok have "env_time_of E (ct_event_id r) = Some (ct_time r)" by (simp add: fetched_ok_def)
  from remember_get [OF ok this] True show ?thesis by simp
next
  case False
  have start: "start_ms w \<le> ct_time r" "start_ms (window_at E (po_watermark p) 0) \<le> ct_time r"
    using t window_start_mono order_trans unfolding w_def by blast+
  from False r inv start have known: "hm_get (po_deduped p) (ct_event_id r) = Some (ct_time r)"
    "env_time_of E (ct_event_id r) = Some (ct_time r)" "hm_ok (po_deduped p)"
    by (auto simp: poll_inv_def)
  with start have "hm_get seen (ct_event_id r) = Some (ct_time r)" by (simp add: seen_def hm_get_evict)
  with remember_get [OF ok known(2)] show ?thesis by simp
qed

lemma poll_inv_fetch:
  fixes E p now
  defines "w \<equiv> window_at E (po_watermark p) now"
  defines "seen \<equiv> evict_before (start_ms w) (po_deduped p)"
  assumes inv: "poll_inv E h p" and ok: "fetched_ok (env_time_of E) w seen (fetched, ids)"
  shows "poll_inv E (h @ sort_key ct_time (fetched_records fetched))
           \<lparr>po_watermark = advance_watermark (po_watermark p) (max_event_time (fetched_records fetched)) (end_ms w),
            po_deduped = remember fetched seen\<rparr>"
proof -
  define rs where "rs = fetched_records fetched"
  define W where "W = po_watermark p"
  define W' where "W' = advance_watermark W (max_event_time rs) (end_ms w)"
  have W: "env_init E \<le> W" "W \<le> i64_max" "hm_ok (po_deduped p)" using inv by (auto simp: poll_inv_def W_def)
  have start: "W - lookback E \<le> start_ms w" "env_floor E \<le> start_ms w" "0 \<le> start_ms w"
    using plan_window_start [OF W(2)] by (auto simp: w_def W_def window_at_def lookback_def secs_to_ms_nonneg)
  have rs: "start_ms w \<le> ct_time r" "ct_time r \<le> i64_max" "env_time_of E (ct_event_id r) = Some (ct_time r)"
    "\<not> dedup_contains seen (ct_event_id r)" if "r \<in> set rs" for r
    using ok that by (auto simp: fetched_ok_def rs_def)
  have "W \<le> W'" by (simp add: W'_def advance_watermark_ge)
  have "W' \<le> i64_max"
    unfolding W'_def using W rs plan_window_end_le
    by (intro advance_watermark_le) (auto simp: w_def window_at_def dest: max_event_time_mem)
  have "ct_event_id r \<notin> ct_event_id ` set h" if "r \<in> set rs" for r
    by (rule evicted_fresh [OF inv rs(1) [OF that, unfolded w_def] rs(3) [OF that]
          rs(4) [OF that, unfolded seen_def w_def]])
  then have fresh: "ct_event_id ` set h \<inter> ct_event_id ` set rs = {}"
    by (simp add: Int_image_empty_iff)
  have "distinct (map ct_event_id rs)" using ok by (simp add: fetched_ok_def rs_def)
  then have dist: "distinct (map ct_event_id (h @ sort_key ct_time rs))"
    using inv fresh distinct_map [of ct_event_id "sort_key ct_time rs"] distinct_map [of ct_event_id rs]
    by (auto simp: poll_inv_def)
  have sorted: "sorted_wrt (\<lambda>x y. ct_time x - lookback E \<le> ct_time y) (h @ sort_key ct_time rs)"
    using inv rs(1) start(1) secs_to_ms_nonneg
    by (intro sorted_key_append_lookback) (fastforce simp: poll_inv_def W_def lookback_def)+
  have seen: "hm_get (remember fetched seen) (ct_event_id r) = Some (ct_time r)"
    if "r \<in> set (h @ sort_key ct_time rs)" and "start_ms (window_at E W' 0) \<le> ct_time r" for r
    unfolding seen_def w_def
    by (rule remember_keeps [OF inv ok [unfolded seen_def w_def] _ _ that(2)])
       (use that \<open>W \<le> W'\<close> in \<open>auto simp: rs_def W_def\<close>)
  have bounds: "ct_time r \<le> W' \<and> env_init E - lookback E \<le> ct_time r \<and> env_floor E \<le> ct_time r \<and>
      0 \<le> ct_time r \<and> env_time_of E (ct_event_id r) = Some (ct_time r)"
    if "r \<in> set (h @ sort_key ct_time rs)" for r
  proof (cases "r \<in> set rs")
    case True
    from rs [OF this] start W(1) advance_watermark_fetched [OF this, of W "end_ms w"] show ?thesis
      by (simp add: W'_def)
  next
    case False
    with that inv \<open>W \<le> W'\<close> show ?thesis by (auto simp: poll_inv_def W_def)
  qed
  have "hm_ok (remember fetched seen)" using W(3) by (simp add: seen_def remember_ok hm_ok_evict)
  with W(1) \<open>W \<le> W'\<close> \<open>W' \<le> i64_max\<close> dist sorted seen bounds show ?thesis
    unfolding poll_inv_def rs_def W'_def W_def by simp
qed

lemma poll_cycle_inv:
  assumes "poll_inv E h p" and "ctc_batch_size (env_config E) > 0"
    and "poll_cycle (env_foreign E) (env_debug E) (env_config E) (env_floor E) now pages p = Some (bs, p')"
    and "list_all (lawful_page (env_foreign E) (env_time_of E) (window_at E (po_watermark p) now)) pages"
  shows "poll_inv E (h @ concat bs) p'"
  using assms(3,2)
proof (cases rule: poll_cycle_cases)
  case 1
  with poll_inv_evict [OF assms(1), of now] show ?thesis by (simp add: window_at_def lookback_def)
next
  case (2 fetched)
  from 2(1) assms(4) obtain ids where
    "fetched_ok (env_time_of E) (window_at E (po_watermark p) now)
       (evict_before (start_ms (window_at E (po_watermark p) now)) (po_deduped p)) (fetched, ids)"
    unfolding window_at_def lookback_def by (rule fetch_window_ok)
  from poll_inv_fetch [OF assms(1) this] 2 show ?thesis by (simp add: window_at_def lookback_def)
qed

text \<open>
  C19: a backfill makes progress. With a parsed configuration, a cycle whose window is capped and was
  read without an error leaves a watermark from which every later window starts strictly later.
\<close>

theorem capped_window_advances:
  assumes "ct_parse_config F debug_keys vars opts = Inr cfg"
    and "plan_window (po_watermark p) floor (secs_to_ms (ctc_lookback_secs cfg))
           (secs_to_ms (ctc_max_window_secs cfg)) now = w"
    and "end_ms w = Some e" and "now \<le> i64_max"
    and "fetch_window F debug (ctc_on_malformed cfg) w (evict_before (start_ms w) (po_deduped p)) pages = Inr fetched"
  shows "\<exists>bs p'. poll_cycle F debug cfg floor now pages p = Some (bs, p') \<and>
           start_ms w < start_ms (plan_window (po_watermark p') floor (secs_to_ms (ctc_lookback_secs cfg))
                                    (secs_to_ms (ctc_max_window_secs cfg)) now')"
proof -
  have cfg: "ctc_lookback_secs cfg < ctc_max_window_secs cfg" "ctc_batch_size cfg > 0"
    using assms(1)
    by (auto simp: ct_parse_config_def outcome get_parsed_def parse_value_def parse_non_zero_def Let_def
        split: if_splits)
  define lb mw where "lb = secs_to_ms (ctc_lookback_secs cfg)" and "mw = secs_to_ms (ctc_max_window_secs cfg)"
  have e: "e = sat (start_ms w + mw)" "e < now" "0 \<le> start_ms w"
    using assms(2,3) by (auto simp: plan_window_def Let_def mw_def split: if_splits)
  with assms(4) have "start_ms w + mw < i64_max" by (auto simp: sat_def)
  then have e': "e = start_ms w + mw" "mw < i64_max"
    using e secs_to_ms_nonneg [of "ctc_max_window_secs cfg"] by (auto simp: sat_def mw_def)
  with cfg have "lb < mw" unfolding lb_def mw_def by (intro secs_to_ms_strict)
  obtain bs where bs: "sort_into_batches (fetched_records fetched) (ctc_batch_size cfg) = Some bs"
    using sort_into_batches_spec [OF cfg(2)] by blast
  define W' where "W' = advance_watermark (po_watermark p) (max_event_time (fetched_records fetched)) (end_ms w)"
  have "e \<le> W'" by (simp add: W'_def assms(3) advance_watermark_ge_end)
  have "start_ms w < sat (e - lb)"
    using e' \<open>lb < mw\<close> e \<open>start_ms w + mw < i64_max\<close> secs_to_ms_nonneg [of "ctc_lookback_secs cfg"]
    by (auto simp: sat_def lb_def)
  also have "\<dots> \<le> sat (W' - lb)" using \<open>e \<le> W'\<close> by (simp add: sat_mono)
  also have "\<dots> \<le> start_ms (plan_window W' floor lb mw now')" by (simp add: plan_window_def Let_def)
  finally show ?thesis
    using assms(2,5) bs by (auto simp: poll_cycle_def Let_def W'_def lb_def mw_def)
qed

text \<open>Foreign functions for concrete inputs: every payload is an empty object.\<close>

definition plain_foreign :: ct_foreign where
  "plain_foreign =
     \<lparr>parse_json = (\<lambda>_. Inr (JObject [])), print_json = (\<lambda>_. ''{}''), parse_rfc3339_ms = (\<lambda>_. Inl ''no time''),
      print_int = (\<lambda>_. ''0'')\<rparr>"

lemma default_config:
  "ct_parse_config plain_foreign concat (\<lambda>_. None)
     (plugin_options_new [] ''cloudtrail_source'' ''P'') =
   Inr \<lparr>ctc_region = None, ctc_endpoint_url = None, ctc_start_time = StartNow,
        ctc_poll_interval_secs = 60, ctc_lookback_secs = 1800, ctc_max_window_secs = 3600,
        ctc_batch_size = 1024, ctc_lookup_attribute = None, ctc_on_malformed = MalformedError\<rparr>"
  by (simp add: ct_parse_config_def plugin_options_new_def lookup_non_empty_def get_parsed_def
        get_or_def lookup_def filter_non_empty_def parse_value_def parse_non_zero_def parse_unsigned_def
        is_digit_def parse_start_time_def parse_lookup_attribute_def parse_on_malformed_def trim_def
        to_ascii_lowercase_def ascii_lower_def Let_def)

theorem capped_window_advances_witness:
  "\<exists>cfg bs p'. ct_parse_config plain_foreign concat (\<lambda>_. None)
       (plugin_options_new [] ''cloudtrail_source'' ''P'') = Inr cfg \<and>
     poll_cycle plain_foreign (\<lambda>_. []) cfg 0 100000000 [Inr []] \<lparr>po_watermark = 10000000, po_deduped = []\<rparr>
       = Some (bs, p') \<and>
     8200000 < start_ms (plan_window (po_watermark p') 0 1800000 3600000 200000000)"
proof -
  let ?w = "\<lparr>start_ms = 8200000, end_ms = Some 11800000\<rparr>"
  have "plan_window 10000000 0 1800000 3600000 100000000 = ?w"
    by (simp add: plan_window_def sat_def)
  moreover have "secs_to_ms 1800 = 1800000" "secs_to_ms 3600 = 3600000"
    by (simp_all add: secs_to_ms_def sat_def)
  moreover have "fetch_window plain_foreign (\<lambda>_. []) MalformedError ?w [] [Inr []]
      = Inr \<lparr>fetched_records = [], fetched_skipped = []\<rparr>"
    by (simp add: fetch_window_def)
  ultimately show ?thesis
    using capped_window_advances [OF default_config, of "\<lparr>po_watermark = 10000000, po_deduped = []\<rparr>" 0 100000000
      ?w 11800000 "\<lambda>_. []" "[Inr []]" "\<lparr>fetched_records = [], fetched_skipped = []\<rparr>" 200000000]
    by (simp add: default_config evict_before_def)
qed

section \<open>The poller, the source and the host\<close>

text \<open>
  \<open>sy_outbox\<close> holds the batches of the current cycle the poller has not sent yet. Ghost fields:
  the records fetched in the order they are sent, those in the batches the host has delivered, those
  in the batch it holds, the number delivered when an epoch was marked, and the persisted watermark
  with the number delivered when it was noted.
\<close>

record ct_system =
  sy_poller :: poller_state
  sy_outbox :: "CloudTrailRecord list list"
  sy_running :: CtRunningState
  sy_history :: "CloudTrailRecord list"
  sy_delivered :: "CloudTrailRecord list"
  sy_held :: "CloudTrailRecord list"
  sy_marks :: "u64 \<Rightarrow> nat"
  sy_persisted :: "(int \<times> nat) option"

definition ct_start :: "ct_env \<Rightarrow> ct_system" where
  "ct_start E =
     \<lparr>sy_poller = \<lparr>po_watermark = env_init E, po_deduped = []\<rparr>, sy_outbox = [],
      sy_running = ct_running_new (env_init E), sy_history = [], sy_delivered = [], sy_held = [],
      sy_marks = (\<lambda>_. 0), sy_persisted = None\<rparr>"

definition push_batch :: "CloudTrailRecord list \<Rightarrow> CtRunningState \<Rightarrow> CtRunningState" where
  "push_batch b run = run\<lparr>ct_recv := (ct_recv run)\<lparr>ct_rx := ct_rx (ct_recv run) @ [b]\<rparr>\<rparr>"

text \<open>
  The steps: the poller runs a cycle once everything of the last one is sent, or sends a batch; the
  host pulls a batch (with a batch that arrives while the source waits, when it holds none), marks
  an epoch, or finalizes one. The channel's capacity only delays sends; leaving it out allows more
  behaviours. A failed cycle, conversion or write of the watermark is a step like any other.
\<close>

inductive ct_step ::
  "(CloudTrailRecord list \<Rightarrow> PluginError + 'b) \<Rightarrow> ct_env \<Rightarrow> ct_system \<Rightarrow> ct_system \<Rightarrow> bool"
  for convert E where
  poll:
    "sy_outbox s = [] \<Longrightarrow>
     list_all (lawful_page (env_foreign E) (env_time_of E) (window_at E (po_watermark (sy_poller s)) now)) pages \<Longrightarrow>
     poll_cycle (env_foreign E) (env_debug E) (env_config E) (env_floor E) now pages (sy_poller s)
       = Some (bs, p') \<Longrightarrow>
     ct_step convert E s
       (s\<lparr>sy_poller := p', sy_outbox := bs, sy_history := sy_history s @ concat bs\<rparr>)"
| send_batch:
    "sy_outbox s = b # rest \<Longrightarrow>
     ct_step convert E s (s\<lparr>sy_outbox := rest, sy_running := push_batch b (sy_running s)\<rparr>)"
| pull:
    "ct_generate_batch (with_rows convert) (ctc_batch_size (env_config E)) True None (sy_running s) = (res, run') \<Longrightarrow>
     ct_step convert E s
       (s\<lparr>sy_running := run', sy_delivered := sy_delivered s @ sy_held s, sy_held := returned_rows res\<rparr>)"
| pull_late:
    "sy_outbox s = b # rest \<Longrightarrow> ct_rx (ct_recv (sy_running s)) = [] \<Longrightarrow> ct_carry (ct_recv (sy_running s)) = [] \<Longrightarrow>
     ct_generate_batch (with_rows convert) (ctc_batch_size (env_config E)) True (Some b) (sy_running s) = (res, run') \<Longrightarrow>
     ct_step convert E s
       (s\<lparr>sy_outbox := rest, sy_running := run', sy_delivered := sy_delivered s @ sy_held s,
          sy_held := returned_rows res\<rparr>)"
| mark:
    "ct_step convert E s
       (s\<lparr>sy_running := ct_checkpoint_marker e (sy_running s),
          sy_marks := (sy_marks s)(e := length (sy_delivered s))\<rparr>)"
| finalize:
    "ct_checkpoint_finalizer put_error e (sy_running s) = (outcome', persisted, run') \<Longrightarrow>
     ct_step convert E s
       (s\<lparr>sy_running := run',
          sy_persisted := (case persisted of Some w \<Rightarrow> Some (w, sy_marks s e) | None \<Rightarrow> sy_persisted s)\<rparr>)"

definition ct_reachable ::
  "(CloudTrailRecord list \<Rightarrow> PluginError + 'b) \<Rightarrow> ct_env \<Rightarrow> ct_system \<Rightarrow> bool" where
  "ct_reachable convert E s \<longleftrightarrow> (ct_step convert E)\<^sup>*\<^sup>* (ct_start E) s"

text \<open>What the source holds: the carry, then the channel.\<close>

definition buffered :: "CtRunningState \<Rightarrow> CloudTrailRecord list" where
  "buffered run = ct_carry (ct_recv run) @ concat (ct_rx (ct_recv run))"

lemma ct_fill_conserves:
  assumes "late = None \<or> ct_rx r = [] \<and> ct_carry r = []"
  shows "ct_carry (ct_fill n late r) @ concat (ct_rx (ct_fill n late r)) =
           ct_carry r @ concat (ct_rx r) @ (case late of None \<Rightarrow> [] | Some b \<Rightarrow> b)"
    and "ct_pending_watermark (ct_fill n late r) = ct_pending_watermark r"
  using refill_conserves [OF assms, of n] by (simp_all add: ct_fill_def split_beta)

lemma ct_confirm_fields:
  "buffered (ct_confirm run) = buffered run" "ct_pending_epochs (ct_confirm run) = ct_pending_epochs run"
  "ct_pending_watermark (ct_recv (ct_confirm run)) = None"
  "ct_rx (ct_recv (ct_confirm run)) = ct_rx (ct_recv run)"
  "ct_carry (ct_recv (ct_confirm run)) = ct_carry (ct_recv run)"
  by (simp_all add: ct_confirm_def buffered_def split: option.splits)

lemma ct_generate_batch_conserves:
  assumes "ct_generate_batch (with_rows convert) n True late run = (res, run')"
    and "late = None \<or> ct_rx (ct_recv run) = [] \<and> ct_carry (ct_recv run) = []"
  shows "returned_rows res @ buffered run' = buffered run @ (case late of None \<Rightarrow> [] | Some b \<Rightarrow> b)"
    and "ct_pending_watermark (ct_recv run') = max_event_time (returned_rows res)"
    and "ct_delivered_watermark run' = ct_delivered_watermark (ct_confirm run)"
    and "ct_pending_epochs run' = ct_pending_epochs run"
proof -
  define r where "r = ct_fill n late (ct_recv (ct_confirm run))"
  have late: "late = None \<or> ct_rx (ct_recv (ct_confirm run)) = [] \<and> ct_carry (ct_recv (ct_confirm run)) = []"
    using assms(2) by (simp add: ct_confirm_fields)
  have r: "ct_carry r @ concat (ct_rx r) = buffered run @ (case late of None \<Rightarrow> [] | Some b \<Rightarrow> b)"
    "ct_pending_watermark r = None"
    using ct_fill_conserves [OF late, of n] by (simp_all add: r_def buffered_def ct_confirm_fields)
  define m where "m = min (length (ct_carry r)) n"
  have cases: "(res, run') = (if m = 0 then (Inr None, (ct_confirm run)\<lparr>ct_recv := r\<rparr>)
      else case with_rows convert (take m (ct_carry r)) of
        Inl e \<Rightarrow> (Inl e, (ct_confirm run)\<lparr>ct_recv := r\<rparr>)
      | Inr b \<Rightarrow> (Inr (Some b), (ct_confirm run)\<lparr>ct_recv := r\<lparr>ct_carry := drop m (ct_carry r),
            ct_pending_watermark := max_event_time (take m (ct_carry r))\<rparr>\<rparr>))"
    using assms(1) unfolding ct_generate_batch_def Let_def r_def [symmetric] m_def [symmetric]
    by (auto split: if_splits sum.splits)
  show "returned_rows res @ buffered run' = buffered run @ (case late of None \<Rightarrow> [] | Some b \<Rightarrow> b)"
    "ct_pending_watermark (ct_recv run') = max_event_time (returned_rows res)"
    "ct_delivered_watermark run' = ct_delivered_watermark (ct_confirm run)"
    "ct_pending_epochs run' = ct_pending_epochs run"
    using cases r
    by (auto simp: returned_rows_def buffered_def with_rows_def res_bind_Inr_iff res_bind_Inl_iff
        ct_confirm_fields max_event_time_def simp flip: append_assoc split: if_splits sum.splits)
qed

text \<open>
  A watermark \<open>w\<close> noted when \<open>n\<close> records had been delivered is the start of the run or the time of
  one of them.
\<close>

definition noted :: "ct_env \<Rightarrow> CloudTrailRecord list \<Rightarrow> int \<Rightarrow> nat \<Rightarrow> bool" where
  "noted E d w n \<longleftrightarrow> n \<le> length d \<and> w \<in> insert (env_init E) (ct_time ` set (take n d))"

lemma noted_append: "noted E d w n \<Longrightarrow> noted E (d @ d') w n"
  by (auto simp: noted_def)

lemma noted_append_Max:
  "noted E d w (length d) \<Longrightarrow> max_event_time d' = Some t \<Longrightarrow> noted E (d @ d') (max w t) (length d + length d')"
  using max_event_time_mem [of d' t] by (auto simp: noted_def max_def)

definition ct_inv :: "ct_env \<Rightarrow> ct_system \<Rightarrow> bool" where
  "ct_inv E s \<longleftrightarrow>
     poll_inv E (sy_history s) (sy_poller s) \<and>
     sy_history s = sy_delivered s @ sy_held s @ buffered (sy_running s) @ concat (sy_outbox s) \<and>
     ct_pending_watermark (ct_recv (sy_running s)) = max_event_time (sy_held s) \<and>
     noted E (sy_delivered s) (ct_delivered_watermark (sy_running s)) (length (sy_delivered s)) \<and>
     notes_good (noted E (sy_delivered s)) (sy_marks s) (ct_pending_epochs (sy_running s)) \<and>
     (\<forall>w n. sy_persisted s = Some (w, n) \<longrightarrow> noted E (sy_delivered s) w n)"

lemma ct_inv_poll: "ct_inv E s \<Longrightarrow> poll_inv E (sy_history s) (sy_poller s)"
  unfolding ct_inv_def by (elim conjE)

lemma ct_inv_start: "env_init E \<le> i64_max \<Longrightarrow> ct_inv E (ct_start E)"
  by (simp add: ct_inv_def ct_start_def poll_inv_def ct_running_new_def buffered_def max_event_time_def noted_def)

lemma confirmed_noted:
  assumes "ct_inv E s"
  shows "noted E (sy_delivered s @ sy_held s) (ct_delivered_watermark (ct_confirm (sy_running s)))
           (length (sy_delivered s @ sy_held s))"
proof (cases "max_event_time (sy_held s)")
  case None
  with assms show ?thesis by (auto simp: ct_inv_def ct_confirm_def max_event_time_def split: if_splits)
next
  case (Some t)
  with assms noted_append_Max [of E "sy_delivered s" _ "sy_held s" t] show ?thesis
    by (simp add: ct_inv_def ct_confirm_def)
qed

text \<open>Pulling a batch, with or without one that arrives late.\<close>

lemma ct_inv_pull:
  assumes inv: "ct_inv E s"
    and gen: "ct_generate_batch (with_rows convert) n True late (sy_running s) = (res, run')"
    and late: "late = None \<or> ct_rx (ct_recv (sy_running s)) = [] \<and> ct_carry (ct_recv (sy_running s)) = []"
    and out: "concat (sy_outbox s) = (case late of None \<Rightarrow> [] | Some b \<Rightarrow> b) @ concat outbox'"
  shows "ct_inv E (s\<lparr>sy_outbox := outbox', sy_running := run', sy_delivered := sy_delivered s @ sy_held s,
                     sy_held := returned_rows res\<rparr>)"
  using inv out confirmed_noted [OF inv] ct_generate_batch_conserves [OF gen late]
  by (auto simp: ct_inv_def noted_append elim: notes_good_mono)

lemma ct_inv_step:
  assumes "ct_step convert E s s'" and "ctc_batch_size (env_config E) > 0" and "ct_inv E s"
  shows "ct_inv E s'"
  using assms
proof (cases rule: ct_step.cases)
  case (poll now pages bs p')
  with assms poll_cycle_inv [of E "sy_history s" "sy_poller s" now pages bs p'] show ?thesis
    by (auto simp: ct_inv_def)
next
  case (send_batch b rest)
  with assms(3) show ?thesis by (auto simp: ct_inv_def push_batch_def buffered_def)
next
  case (pull res run')
  with ct_inv_pull [OF assms(3), of convert _ None res run' "sy_outbox s"] show ?thesis by simp
next
  case (pull_late b rest res run')
  with ct_inv_pull [OF assms(3), of convert _ "Some b" res run' rest] show ?thesis by simp
next
  case (mark e)
  have "notes_good (noted E (sy_delivered s)) ((sy_marks s)(e := length (sy_delivered s)))
      (ct_pending_epochs (ct_checkpoint_marker e (sy_running s)))"
    using ct.mark_good [of "noted E (sy_delivered s)" "sy_marks s" "sy_running s"] assms(3) by (simp add: ct_inv_def)
  with mark assms(3) show ?thesis by (auto simp: ct_inv_def ct_checkpoint_marker_def buffered_def)
next
  case (finalize put_error e outcome' persisted run')
  have good: "notes_good (noted E (sy_delivered s)) (sy_marks s) (ct_pending_epochs (sy_running s))"
    using assms(3) by (simp add: ct_inv_def)
  have run: "ct_recv run' = ct_recv (sy_running s)" "ct_delivered_watermark run' = ct_delivered_watermark (sy_running s)"
    using finalize(2) by (auto simp: ct_checkpoint_finalizer_def Let_def split: option.splits)
  with finalize(1) ct.finish_good [OF good finalize(2)] assms(3) show ?thesis
    by (auto simp: ct_inv_def buffered_def split: option.splits)
qed

lemma ct_inv_reachable:
  assumes "ct_reachable convert E s" and "ctc_batch_size (env_config E) > 0" and "env_init E \<le> i64_max"
  shows "ct_inv E s"
  using assms(1) unfolding ct_reachable_def
  by (induction rule: rtranclp_induct) (use assms ct_inv_start ct_inv_step in blast)+

section \<open>Properties\<close>

text \<open>
  C17: a restart skips nothing that was not delivered. In every reachable state of the poller, the
  source and the host, whatever fails on the way: when a watermark has been persisted, the records
  after the ones delivered before its checkpoint was marked are all at or after the start of the
  first window planned from it, for any clock at the restart.
\<close>

theorem ct_restart_skips_nothing:
  assumes "ct_reachable convert E s" and "ctc_batch_size (env_config E) > 0"
    and "resolve_start checkpoint (ctc_start_time (env_config E)) started = (env_init E, env_floor E)"
    and "env_init E \<le> i64_max" and "sy_persisted s = Some (w, n)"
    and "resolve_start (Some w) (ctc_start_time (env_config E)) restarted = (w', floor')"
  shows "take n (sy_history s) = take n (sy_delivered s) \<and>
    (\<forall>r \<in> set (drop n (sy_history s)).
       start_ms (plan_window w' floor' (lookback E) (secs_to_ms (ctc_max_window_secs (env_config E))) now)
         \<le> ct_event_time_ms r)"
proof -
  have inv: "ct_inv E s" by (rule ct_inv_reachable [OF assms(1,2,4)])
  then have n: "n \<le> length (sy_delivered s)" "w \<in> insert (env_init E) (ct_time ` set (take n (sy_delivered s)))"
    using assms(5) by (auto simp: ct_inv_def noted_def)
  have take: "take n (sy_history s) = take n (sy_delivered s)"
    using inv n(1) by (auto simp: ct_inv_def)
  have floor: "w' = w" "floor' \<le> env_floor E \<or> floor' = 0"
    using assms(3,6) by (auto simp: resolve_start_def Let_def split: StartTime.splits option.splits)
  have "start_ms (plan_window w' floor' (lookback E) mw now) \<le> ct_time r" if r: "r \<in> set (drop n (sy_history s))" for r mw
  proof -
    have poll: "poll_inv E (sy_history s) (sy_poller s)" by (rule ct_inv_poll [OF inv])
    then have "sorted_wrt (\<lambda>x y. ct_time x - lookback E \<le> ct_time y) (take n (sy_history s) @ drop n (sy_history s))"
      by (simp add: poll_inv_def)
    then have "\<forall>x \<in> set (take n (sy_history s)). ct_time x - lookback E \<le> ct_time r"
      using r unfolding sorted_wrt_append by blast
    moreover have "env_init E - lookback E \<le> ct_time r" "env_floor E \<le> ct_time r" "0 \<le> ct_time r"
      using poll in_set_dropD [OF r] by (auto simp: poll_inv_def)
    ultimately show ?thesis
      using n(2) floor sat_le_nonneg [of "ct_time r" "w - lookback E"]
      by (auto simp: plan_window_def Let_def take)
  qed
  with take show ?thesis by simp
qed

text \<open>
  C18: within one run an event is emitted at most once. In every reachable state the batches handed to
  the host have pairwise different event identifiers, although consecutive windows overlap by the
  lookback and identifiers that left the window are forgotten.
\<close>

theorem ct_emits_events_once:
  assumes "ct_reachable convert E s" and "ctc_batch_size (env_config E) > 0" and "env_init E \<le> i64_max"
  shows "distinct (map ct_event_id (sy_delivered s @ sy_held s))"
proof -
  have inv: "ct_inv E s" by (rule ct_inv_reachable [OF assms])
  then have "distinct (map ct_event_id (sy_history s))" by (auto simp: poll_inv_def dest: ct_inv_poll)
  moreover from inv have
    "sy_history s = (sy_delivered s @ sy_held s) @ buffered (sy_running s) @ concat (sy_outbox s)"
    by (simp add: ct_inv_def)
  ultimately show ?thesis by (metis distinct_append map_append)
qed

text \<open>A run on two events, with a batch size of one: the first is delivered and checkpointed.\<close>

definition sample_event :: "string \<Rightarrow> int \<Rightarrow> sdk_event" where
  "sample_event i t =
     \<lparr>ev_cloud_trail_event = Some ''{}'', ev_event_id = Some i, ev_event_name = None, ev_event_source = None,
      ev_read_only = None, ev_username = None, ev_event_time = Some (Inr t)\<rparr>"

definition sample_record :: "string \<Rightarrow> int \<Rightarrow> CloudTrailRecord" where
  "sample_record i t = (case from_sdk_event plain_foreign (sample_event i t) of Inr r \<Rightarrow> r)"

definition two_event_env :: ct_env where
  "two_event_env =
     \<lparr>env_foreign = plain_foreign, env_debug = (\<lambda>_. []), env_time_of = [''a'' \<mapsto> 5000, ''b'' \<mapsto> 6000],
      env_config = \<lparr>ctc_region = None, ctc_endpoint_url = None, ctc_start_time = StartAt 4000,
        ctc_poll_interval_secs = 60, ctc_lookback_secs = 2, ctc_max_window_secs = 4, ctc_batch_size = 1,
        ctc_lookup_attribute = None, ctc_on_malformed = MalformedError\<rparr>,
      env_init = 4000, env_floor = 4000\<rparr>"

lemma sample_record_fields:
  "from_sdk_event plain_foreign (sample_event i t) = Inr (sample_record i t)"
  "ct_event_id (sample_record i t) = i" "ct_event_time_ms (sample_record i t) = t"
  by (simp_all add: from_sdk_event_def sample_record_def sample_event_def plain_foreign_def ok_or_def or_else_def
      record_event_time_def string_field_def)

lemma sample_poll:
  "poll_cycle plain_foreign (\<lambda>_. []) (env_config two_event_env) 4000 7000
     [Inr [sample_event ''b'' 6000, sample_event ''a'' 5000]] \<lparr>po_watermark = 4000, po_deduped = []\<rparr> =
   Some ([[sample_record ''a'' 5000], [sample_record ''b'' 6000]],
     \<lparr>po_watermark = 6000, po_deduped = [(''b'', 6000), (''a'', 5000)]\<rparr>)"
  by (simp add: poll_cycle_def two_event_env_def plan_window_def secs_to_ms_def sat_def fetch_window_def
      fetch_event_def sample_record_fields dedup_contains_def evict_before_def sort_into_batches_def
      split_batches.simps dedup_insert_def max_event_time_def advance_watermark_def List.map_filter_def)


abbreviation event_a :: CloudTrailRecord where "event_a \<equiv> sample_record ''a'' 5000"
abbreviation event_b :: CloudTrailRecord where "event_b \<equiv> sample_record ''b'' 6000"

definition two_event_source :: "CloudTrailRecord list list \<Rightarrow> int option \<Rightarrow> int \<Rightarrow> (u64, int) btree_map \<Rightarrow> CtRunningState" where
  "two_event_source q pending w epochs =
     \<lparr>ct_recv = \<lparr>ct_rx = q, ct_carry = [], ct_pending_watermark = pending\<rparr>,
      ct_delivered_watermark = w, ct_pending_epochs = epochs\<rparr>"

definition two_event_state ::
  "CtRunningState \<Rightarrow> CloudTrailRecord list list \<Rightarrow> CloudTrailRecord list \<Rightarrow> CloudTrailRecord list
     \<Rightarrow> (u64 \<Rightarrow> nat) \<Rightarrow> (int \<times> nat) option \<Rightarrow> ct_system" where
  "two_event_state run out delivered held marks persisted =
     \<lparr>sy_poller = \<lparr>po_watermark = 6000, po_deduped = [(''b'', 6000), (''a'', 5000)]\<rparr>,
      sy_outbox = out, sy_running = run, sy_history = [event_a, event_b], sy_delivered = delivered,
      sy_held = held, sy_marks = marks, sy_persisted = persisted\<rparr>"

lemma two_event_run:
  "ct_reachable (\<lambda>rs. Inr ()) two_event_env
     (two_event_state (two_event_source [] None 5000 []) [[event_b]] [event_a] [] ((\<lambda>_. 0)(1 := 1)) (Some (5000, 1)))"
proof -
  let ?step = "ct_step (\<lambda>rs. Inr ()) two_event_env"
  have "?step (ct_start two_event_env)
      (two_event_state (two_event_source [] None 4000 []) [[event_a], [event_b]] [] [] (\<lambda>_. 0) None)"
    using ct_step.poll [of "ct_start two_event_env" two_event_env 7000
        "[Inr [sample_event ''b'' 6000, sample_event ''a'' 5000]]", of _ _ "\<lambda>rs. Inr ()"] sample_poll
    by (simp add: ct_start_def two_event_env_def two_event_state_def two_event_source_def ct_running_new_def
        lawful_page_def in_window_def stable_def sample_record_fields window_at_def plan_window_def
        secs_to_ms_def sat_def lookback_def)
  moreover have "?step (two_event_state (two_event_source [] None 4000 []) [[event_a], [event_b]] [] [] (\<lambda>_. 0) None)
      (two_event_state (two_event_source [[event_a]] None 4000 []) [[event_b]] [] [] (\<lambda>_. 0) None)"
    using ct_step.send_batch [of "two_event_state (two_event_source [] None 4000 []) [[event_a], [event_b]] [] [] (\<lambda>_. 0) None"
        "[event_a]" "[[event_b]]" "\<lambda>rs. Inr ()" two_event_env]
    by (simp add: two_event_state_def push_batch_def two_event_source_def)
  moreover have "?step (two_event_state (two_event_source [[event_a]] None 4000 []) [[event_b]] [] [] (\<lambda>_. 0) None)
      (two_event_state (two_event_source [] (Some 5000) 4000 []) [[event_b]] [] [event_a] (\<lambda>_. 0) None)"
    using ct_step.pull [of "\<lambda>rs. Inr ()" two_event_env
        "two_event_state (two_event_source [[event_a]] None 4000 []) [[event_b]] [] [] (\<lambda>_. 0) None"]
    by (simp add: two_event_state_def two_event_source_def two_event_env_def ct_generate_batch_def ct_confirm_def
        ct_fill_def refill_def with_rows_def returned_rows_def max_event_time_def sample_record_fields)
  moreover have "?step (two_event_state (two_event_source [] (Some 5000) 4000 []) [[event_b]] [] [event_a] (\<lambda>_. 0) None)
      (two_event_state (two_event_source [] None 5000 []) [[event_b]] [event_a] [] (\<lambda>_. 0) None)"
    using ct_step.pull [of "\<lambda>rs. Inr ()" two_event_env
        "two_event_state (two_event_source [] (Some 5000) 4000 []) [[event_b]] [] [event_a] (\<lambda>_. 0) None"]
    by (simp add: two_event_state_def two_event_source_def two_event_env_def ct_generate_batch_def ct_confirm_def
        ct_fill_def refill_def returned_rows_def)
  moreover have "?step (two_event_state (two_event_source [] None 5000 []) [[event_b]] [event_a] [] (\<lambda>_. 0) None)
      (two_event_state (two_event_source [] None 5000 [(1, 5000)]) [[event_b]] [event_a] [] ((\<lambda>_. 0)(1 := 1)) None)"
    using ct_step.mark [of "\<lambda>rs. Inr ()" two_event_env
        "two_event_state (two_event_source [] None 5000 []) [[event_b]] [event_a] [] (\<lambda>_. 0) None" 1]
    by (simp add: two_event_state_def two_event_source_def ct_checkpoint_marker_def)
  moreover have "?step
      (two_event_state (two_event_source [] None 5000 [(1, 5000)]) [[event_b]] [event_a] [] ((\<lambda>_. 0)(1 := 1)) None)
      (two_event_state (two_event_source [] None 5000 []) [[event_b]] [event_a] [] ((\<lambda>_. 0)(1 := 1)) (Some (5000, 1)))"
    using ct_step.finalize [of None 1 "two_event_state (two_event_source [] None 5000 [(1, 5000)]) [[event_b]] [event_a] []
        ((\<lambda>_. 0)(1 := 1)) None" _ _ _ "\<lambda>rs. Inr ()" two_event_env]
    by (simp add: two_event_state_def two_event_source_def ct_checkpoint_finalizer_def bt_remove_def bt_split_off_def)
  ultimately show ?thesis
    unfolding ct_reachable_def by (blast intro: converse_rtranclp_into_rtranclp rtranclp.rtrancl_refl)
qed

theorem ct_restart_skips_nothing_witness:
  "\<exists>s. ct_reachable (\<lambda>rs. Inr ()) two_event_env s \<and> sy_persisted s = Some (5000, 1) \<and>
     set (drop 1 (sy_history s)) = {event_b} \<and>
     start_ms (plan_window 5000 4000 (lookback two_event_env)
       (secs_to_ms (ctc_max_window_secs (env_config two_event_env))) 9000) \<le> ct_event_time_ms event_b"
  using two_event_run
    ct_restart_skips_nothing [OF two_event_run, where checkpoint = None and started = 0 and w = 5000 and n = 1
      and restarted = 8000 and w' = 5000 and floor' = 4000 and now = 9000]
  by - (rule exI, rule conjI, assumption, simp add: two_event_state_def two_event_env_def resolve_start_def)

theorem ct_emits_events_once_witness:
  "\<exists>s. ct_reachable (\<lambda>rs. Inr ()) two_event_env s \<and> distinct (map ct_event_id (sy_delivered s @ sy_held s)) \<and>
     sy_delivered s = [event_a]"
  using two_event_run ct_emits_events_once [OF two_event_run]
  by - (rule exI, rule conjI, assumption, simp add: two_event_state_def two_event_env_def)

end
