(* ===== verification/Iceberg.thy ===== *)
theory Iceberg
  imports PluginOptions Checkpoints "HOL-Library.List_Lexorder" "HOL-Library.Char_ord"
begin

text \<open>
  The Iceberg source: catalog options (\<open>src/src/utils/iceberg.rs\<close>), its configuration
  (\<open>src/src/sources/iceberg/config.rs\<close>), the ancestry of snapshots (\<open>snapshots.rs\<close>), the resumable table
  reader (\<open>reader.rs\<close>) and the source with its checkpoints (\<open>source.rs\<close>).

  The iceberg and arrow crates are not part of the repository. A loaded table is a record of its
  metadata and of the answers its file system gives: planned files, manifests and the record batches a
  data file is read as, each of which may fail. A record batch is its column types and its rows.
  Identifiers and times are integers, counts of files and rows natural numbers (they are bounded by
  what exists). Waiting, metrics and log lines are not modelled.
\<close>

section \<open>Catalog options\<close>

definition ACCESS_DELEGATION_HEADER :: string where
  "ACCESS_DELEGATION_HEADER = ''header.X-Iceberg-Access-Delegation''"

type_synonym CatalogConfig = "(string, string) hash_map"

definition iceberg_error :: "string \<Rightarrow> string \<Rightarrow> PluginError" where
  "iceberg_error context e = Execution (''failed to '' @ context @ '': '' @ e)"

definition BACKTICK :: char where
  "BACKTICK = CHR 0x60"

definition catalog_pair :: "string \<Rightarrow> PluginError + string \<times> string" where
  "catalog_pair pair =
     ok_or (Internal (''catalog_properties: expected '' @ [BACKTICK] @ ''key=value'' @ [BACKTICK] @ '', got ''
              @ [BACKTICK] @ pair @ [BACKTICK]))
       (map_option (\<lambda>(k, v). (trim k, trim v)) (split_once CHR ''='' pair))"

definition catalog_pairs :: "string \<Rightarrow> PluginError + (string \<times> string) list" where
  "catalog_pairs extra =
     collect_results catalog_pair (filter (\<lambda>p. p \<noteq> []) (map trim (split_char CHR '','' extra)))"

definition put_present :: "(string \<Rightarrow> string option) \<Rightarrow> (string \<times> string) list \<Rightarrow> CatalogConfig \<Rightarrow> CatalogConfig" where
  "put_present get keys props =
     fold (\<lambda>(k, prop) ps. case get k of None \<Rightarrow> ps | Some v \<Rightarrow> hm_insert prop v ps) keys props"

text \<open>\<open>uri\<close> and \<open>warehouse\<close> are the property names of the REST catalog crate.\<close>

definition catalog_parse :: "environment \<Rightarrow> PluginOptions \<Rightarrow> PluginError + CatalogConfig" where
  "catalog_parse env o' =
     (let props = [(ACCESS_DELEGATION_HEADER, ''vended-credentials'')] in
      res_bind (case lookup env o' ''catalog_properties'' of None \<Rightarrow> Inr [] | Some extra \<Rightarrow> catalog_pairs extra) (\<lambda>pairs.
      res_bind (get_option env o' ''catalog_uri'') (\<lambda>uri.
      (let with_pairs = fold (\<lambda>(k, v). hm_insert k v) pairs props;
           with_uri = hm_insert ''uri'' uri with_pairs;
           with_plain = put_present (lookup env o')
             [(''warehouse'', ''warehouse''), (''s3_endpoint'', ''s3.endpoint''), (''s3_region'', ''s3.region''),
              (''s3_path_style_access'', ''s3.path-style-access'')] with_uri;
           with_secrets = put_present (get_secret env o')
             [(''token'', ''token''), (''credential'', ''credential''), (''s3_access_key_id'', ''s3.access-key-id''),
              (''s3_secret_access_key'', ''s3.secret-access-key''), (''s3_session_token'', ''s3.session-token'')]
             with_plain
       in Inr (filter (\<lambda>e. snd e \<noteq> []) with_secrets)))))"

text \<open>A table identifier is its namespace and name; \<open>from_strs\<close> splits off the last part.\<close>

type_synonym TableIdent = "string list \<times> string"

definition parse_table_ident :: "(string list \<Rightarrow> string + TableIdent) \<Rightarrow> string \<Rightarrow> PluginError + TableIdent" where
  "parse_table_ident from_strs value =
     (let parts = map trim (split_char CHR ''.'' value) in
      if length parts < 2 \<or> list_ex (\<lambda>p. p = []) parts
      then Inl (Internal (''table: expected '' @ [BACKTICK] @ ''namespace.table'' @ [BACKTICK] @ '', got ''
             @ [BACKTICK] @ value @ [BACKTICK]))
      else map_err (iceberg_error ''parse table'') (from_strs parts))"

section \<open>Configuration\<close>

definition ICEBERG_SOURCE :: string where
  "ICEBERG_SOURCE = ''iceberg_source''"

datatype StartPosition = Earliest | Latest

datatype OnNonAppendSnapshot = NonAppendError | NonAppendSkip

record IcebergSourceConfig =
  icc_catalog :: CatalogConfig
  icc_table :: TableIdent
  icc_start_position :: StartPosition
  icc_poll_interval :: nat
  icc_batch_size :: nat
  icc_on_non_append_snapshot :: OnNonAppendSnapshot

definition parse_start_position :: "environment \<Rightarrow> PluginOptions \<Rightarrow> PluginError + StartPosition" where
  "parse_start_position env o' =
     (let other = to_ascii_lowercase (get_or env o' ''start_position'' ''earliest'') in
      if other = ''earliest'' then Inr Earliest
      else if other = ''latest'' then Inr Latest
      else Inl (Internal (ICEBERG_SOURCE @ '': start_position must be '' @ quoted ''earliest'' @ '' or ''
             @ quoted ''latest'' @ '', got '' @ quoted other)))"

definition parse_on_non_append_snapshot :: "environment \<Rightarrow> PluginOptions \<Rightarrow> PluginError + OnNonAppendSnapshot" where
  "parse_on_non_append_snapshot env o' =
     (let other = to_ascii_lowercase (get_or env o' ''on_non_append_snapshot'' ''error'') in
      if other = ''error'' then Inr NonAppendError
      else if other = ''skip'' then Inr NonAppendSkip
      else Inl (Internal (ICEBERG_SOURCE @ '': on_non_append_snapshot must be '' @ quoted ''error'' @ '' or ''
             @ quoted ''skip'' @ '', got '' @ quoted other)))"

definition ic_parse_config ::
  "(string list \<Rightarrow> string + TableIdent) \<Rightarrow> environment \<Rightarrow> PluginOptions \<Rightarrow> PluginError + IcebergSourceConfig" where
  "ic_parse_config from_strs env o' =
     res_bind (catalog_parse env o') (\<lambda>catalog.
     res_bind (get_option env o' ''table'') (\<lambda>table.
     res_bind (parse_table_ident from_strs table) (\<lambda>ident.
     res_bind (parse_start_position env o') (\<lambda>start.
     res_bind (get_parsed env parse_non_zero o' ''poll_interval_secs'' ''60'') (\<lambda>interval.
     res_bind (get_parsed env parse_non_zero o' ''batch_size'' ''1000'') (\<lambda>size.
     res_bind (parse_on_non_append_snapshot env o') (\<lambda>policy.
     Inr \<lparr>icc_catalog = catalog, icc_table = ident, icc_start_position = start, icc_poll_interval = 1000 * interval,
          icc_batch_size = size, icc_on_non_append_snapshot = policy\<rparr>)))))))"

section \<open>Snapshots\<close>

datatype Operation = Append | Replace | Overwrite | Delete

fun operation_str :: "Operation \<Rightarrow> string" where
  "operation_str Append = ''append''"
| "operation_str Replace = ''replace''"
| "operation_str Overwrite = ''overwrite''"
| "operation_str Delete = ''delete''"

record Snapshot =
  sn_id :: int
  sn_parent :: "int option"
  sn_timestamp_ms :: int
  sn_operation :: Operation

record TableMetadata =
  current_snapshot :: "Snapshot option"
  snapshot_by_id :: "int \<Rightarrow> Snapshot option"
  md_properties :: "(string, string) hash_map"

datatype SnapshotAction = SnapshotRead | SnapshotSkip

definition expired :: "int \<Rightarrow> PluginError" where
  "expired i =
     Execution (''iceberg_source: snapshot '' @ show_int i @ '' recorded in the source state no longer exists ''
       @ ''in table metadata (expired); reset the source state to re-read the table, or raise ''
       @ ''the table'' @ [CHR 0x27] @ ''s snapshot retention (history.expire.max-snapshot-age-ms, ''
       @ ''history.expire.min-snapshots-to-keep) above the source'' @ [CHR 0x27] @ ''s maximum downtime'')"

definition not_an_ancestor :: "TableMetadata \<Rightarrow> int \<Rightarrow> int option \<Rightarrow> PluginError" where
  "not_an_ancestor md last' current =
     (if snapshot_by_id md last' = None then expired last'
      else Execution (''iceberg_source: last processed snapshot '' @ show_int last'
        @ '' is not an ancestor of the current snapshot ''
        @ (case current of None \<Rightarrow> ''none'' | Some c \<Rightarrow> show_int c)
        @ '' (was the table rolled back or its branch replaced?); reset the source state to re-read the table''))"

definition broken_chain :: "TableMetadata \<Rightarrow> int option \<Rightarrow> int \<Rightarrow> int \<Rightarrow> PluginError" where
  "broken_chain md last' current missing =
     (case last' of
        Some l \<Rightarrow> if snapshot_by_id md l = None then expired l
          else Execution (''iceberg_source: snapshot '' @ show_int missing @ '', an ancestor of current snapshot ''
            @ show_int current @ '', expired before the source read it; reset the source state or raise the table''
            @ [CHR 0x27] @ ''s snapshot retention (history.expire.*)'')
      | None \<Rightarrow>
          Execution (''iceberg_source: snapshot '' @ show_int missing @ '', an ancestor of current snapshot ''
            @ show_int current @ '', expired before the source read it; reset the source state or raise the table''
            @ [CHR 0x27] @ ''s snapshot retention (history.expire.*)''))"

text \<open>
  The walk to the ancestors. The metadata is the catalog's: should it contain a cycle, the walk
  would not end, so its result is an option.
\<close>

partial_function (option) walk ::
  "TableMetadata \<Rightarrow> int option \<Rightarrow> Snapshot \<Rightarrow> Snapshot \<Rightarrow> Snapshot list
     \<Rightarrow> (PluginError + Snapshot list) option" where
  "walk md last' current snapshot chain =
     (if Some (sn_id snapshot) = last' then Some (Inr (rev chain))
      else
        (case sn_parent snapshot of
           Some parent \<Rightarrow>
             if Some parent = last' then Some (Inr (rev (chain @ [snapshot])))
             else (case snapshot_by_id md parent of
                     Some next' \<Rightarrow> walk md last' current next' (chain @ [snapshot])
                   | None \<Rightarrow> Some (Inl (broken_chain md last' (sn_id current) parent)))
         | None \<Rightarrow>
             if last' = None then Some (Inr (rev (chain @ [snapshot])))
             else Some (Inl (not_an_ancestor md (case last' of Some l \<Rightarrow> l | None \<Rightarrow> 0) (Some (sn_id current))))))"

definition snapshots_since :: "TableMetadata \<Rightarrow> int option \<Rightarrow> (PluginError + Snapshot list) option" where
  "snapshots_since md last' =
     (case current_snapshot md of
        None \<Rightarrow> (case last' of None \<Rightarrow> Some (Inr []) | Some l \<Rightarrow> Some (Inl (not_an_ancestor md l None)))
      | Some current \<Rightarrow> walk md last' current current [])"

definition classify :: "Snapshot \<Rightarrow> OnNonAppendSnapshot \<Rightarrow> PluginError + SnapshotAction" where
  "classify s policy =
     (case sn_operation s of
        Append \<Rightarrow> Inr SnapshotRead
      | Replace \<Rightarrow> Inr SnapshotSkip
      | _ \<Rightarrow>
          (case policy of
             NonAppendSkip \<Rightarrow> Inr SnapshotSkip
           | NonAppendError \<Rightarrow>
               Inl (Execution (''iceberg_source: snapshot '' @ show_int (sn_id s) @ '' is a ''
                 @ quoted (operation_str (sn_operation s)) @ '' snapshot; incremental reads support ''
                 @ ''append snapshots only. Set on_non_append_snapshot=skip to pass over it (its ''
                 @ ''added rows and deletes are not emitted)''))))"

section \<open>Positions and the schema read with\<close>

datatype Phase = Scan | Incremental

record Position =
  pos_snapshot_id :: int
  pos_phase :: Phase
  files_done :: nat
  rows_done_in_file :: nat
  complete :: bool

definition position_start :: "int \<Rightarrow> Phase \<Rightarrow> Position" where
  "position_start i phase =
     \<lparr>pos_snapshot_id = i, pos_phase = phase, files_done = 0, rows_done_in_file = 0, complete = False\<rparr>"

definition position_completed :: "int \<Rightarrow> Phase \<Rightarrow> Position" where
  "position_completed i phase = (position_start i phase)\<lparr>complete := True\<rparr>"

text \<open>An Arrow field with the type of the arrow crate, and a record batch.\<close>

record 'ty arrow_field =
  af_name :: string
  af_type :: 'ty
  af_nullable :: bool

record ('ty, 'v) RecordBatch =
  rb_types :: "'ty list"
  rb_rows :: "'v list list"

definition num_rows :: "('ty, 'v) RecordBatch \<Rightarrow> nat" where
  "num_rows b = length (rb_rows b)"

definition batch_slice :: "nat \<Rightarrow> nat \<Rightarrow> ('ty, 'v) RecordBatch \<Rightarrow> ('ty, 'v) RecordBatch" where
  "batch_slice offset len b = b\<lparr>rb_rows := take len (drop offset (rb_rows b))\<rparr>"

definition column :: "nat \<Rightarrow> ('ty, 'v) RecordBatch \<Rightarrow> 'v list" where
  "column i b = map (\<lambda>row. row ! i) (rb_rows b)"

record ('s, 'ty) ReadSchema =
  rs_iceberg :: 's
  rs_field_ids :: "int list"
  rs_data :: "'ty arrow_field list"
  rs_output :: "'ty arrow_field list"

text \<open>What the source uses of the iceberg and arrow crates to handle schemas and columns.\<close>

record ('s, 'ty, 'v, 'batch) arrow_api =
  schema_to_arrow :: "'s \<Rightarrow> string + 'ty arrow_field list"
  schema_field_ids :: "'s \<Rightarrow> int list"
  utf8_type :: 'ty
  show_type :: "'ty \<Rightarrow> string"
  cast_column :: "'ty \<Rightarrow> 'ty \<Rightarrow> 'v list \<Rightarrow> string + 'v list"
  string_value :: "string \<Rightarrow> 'v"
  concat_columns :: "'v list list \<Rightarrow> string + 'v list"
  try_new_batch :: "'ty arrow_field list \<Rightarrow> 'v list list \<Rightarrow> string + 'batch"

definition read_schema_new ::
  "('s, 'ty, 'v, 'batch) arrow_api \<Rightarrow> 's \<Rightarrow> PluginError + ('s, 'ty) ReadSchema" where
  "read_schema_new A schema =
     res_bind (map_err (iceberg_error ''convert the table schema to Arrow'') (schema_to_arrow A schema)) (\<lambda>fields.
     if list_ex (\<lambda>f. af_name f = ''_gs_op'') fields
     then Inl (Internal (''iceberg_source: table column '' @ quoted ''_gs_op'' @ '' collides with the ''
            @ ''reserved streamling op column''))
     else Inr \<lparr>rs_iceberg = schema, rs_field_ids = schema_field_ids A schema, rs_data = fields,
               rs_output = \<lparr>af_name = ''_gs_op'', af_type = utf8_type A, af_nullable = False\<rparr> # fields\<rparr>)"

definition data_column ::
  "('s, 'ty, 'v, 'batch) arrow_api \<Rightarrow> ('ty, 'v) RecordBatch \<Rightarrow> nat \<times> 'ty arrow_field \<Rightarrow> PluginError + 'v list" where
  "data_column A batch = (\<lambda>(i, field).
     (let ty = rb_types batch ! i in
      if ty = af_type field then Inr (column i batch)
      else map_err (\<lambda>e. Execution (''iceberg_source: cannot convert column '' @ quoted (af_name field) @ '' from ''
                      @ show_type A ty @ '' to '' @ show_type A (af_type field) @ '': '' @ e))
             (cast_column A ty (af_type field) (column i batch))))"

definition data_columns ::
  "('s, 'ty, 'v, 'batch) arrow_api \<Rightarrow> ('s, 'ty) ReadSchema \<Rightarrow> ('ty, 'v) RecordBatch \<Rightarrow> PluginError + 'v list list" where
  "data_columns A schema batch =
     (if length (rb_types batch) \<noteq> length (rs_data schema)
      then Inl (Execution (''iceberg_source: reader returned '' @ show_nat (length (rb_types batch))
             @ '' columns, expected '' @ show_nat (length (rs_data schema))))
      else collect_results (data_column A batch) (enumerate 0 (rs_data schema)))"

definition ic_arrow_error :: "string \<Rightarrow> PluginError" where
  "ic_arrow_error e = Execution (''iceberg_source: building output batch: '' @ e)"

definition output_column ::
  "('s, 'ty, 'v, 'batch) arrow_api \<Rightarrow> 'v list list list \<Rightarrow> nat \<Rightarrow> PluginError + 'v list" where
  "output_column A per_slice i =
     (if length per_slice = 1 then Inr (hd per_slice ! i)
      else map_err ic_arrow_error (concat_columns A (map (\<lambda>cols. cols ! i) per_slice)))"

definition output_batch ::
  "('s, 'ty, 'v, 'batch) arrow_api \<Rightarrow> ('s, 'ty) ReadSchema \<Rightarrow> ('ty, 'v) RecordBatch list \<Rightarrow> PluginError + 'batch" where
  "output_batch A schema slices =
     (let rows = sum_list (map num_rows slices) in
      res_bind (collect_results (data_columns A schema) slices) (\<lambda>per_slice.
      res_bind (collect_results (output_column A per_slice) [0..<length (rs_data schema)]) (\<lambda>columns.
      map_err ic_arrow_error
        (try_new_batch A (rs_output schema) (replicate rows (string_value A ''i'') # columns)))))"

section \<open>Tables and units\<close>

record ('s, 'n) FileScanTask =
  data_file_path :: string
  file_size_in_bytes :: nat
  task_start :: nat
  task_length :: nat
  record_count :: "nat option"
  data_file_format :: string
  task_schema :: 's
  project_field_ids :: "int list"
  task_name_mapping :: "'n option"
  case_sensitive :: bool
  task_deletes :: "string list"

datatype ManifestContentType = DataManifest | DeletesManifest
datatype ManifestStatus = Existing | Added | Deleted
datatype DataContentType = DataContent | PositionDeletes | EqualityDeletes

record ManifestEntry =
  me_status :: ManifestStatus
  me_snapshot_id :: "int option"
  me_content :: DataContentType
  me_file_path :: string
  me_file_size :: nat
  me_record_count :: nat
  me_file_format :: string

record ManifestFile =
  mf_content :: ManifestContentType
  mf_added_snapshot_id :: int
  mf_has_added_files :: bool
  mf_path :: string

text \<open>The items of a record batch stream; reading stops at the first error.\<close>

type_synonym ('ty, 'v) batch_stream = "(string + ('ty, 'v) RecordBatch) list"

type_synonym ('s, 'n, 'ty, 'v) ArrowReader = "('s, 'n) FileScanTask \<Rightarrow> string + ('ty, 'v) batch_stream"

record ('s, 'n, 'ty, 'v) Table =
  tb_metadata :: TableMetadata
  tb_plan_files :: "int \<Rightarrow> string + ('s, 'n) FileScanTask list"
  tb_manifest_list :: "Snapshot \<Rightarrow> string + ManifestFile list"
  tb_load_manifest :: "ManifestFile \<Rightarrow> string + ManifestEntry list"
  tb_parse_name_mapping :: "string \<Rightarrow> string + 'n"
  tb_read :: "nat \<Rightarrow> ('s, 'n, 'ty, 'v) ArrowReader"

definition build_arrow_reader :: "('s, 'n, 'ty, 'v) Table \<Rightarrow> nat \<Rightarrow> ('s, 'n, 'ty, 'v) ArrowReader" where
  "build_arrow_reader table batch_size = tb_read table batch_size"

definition name_mapping :: "('s, 'n, 'ty, 'v) Table \<Rightarrow> PluginError + 'n option" where
  "name_mapping table =
     (case hm_get (md_properties (tb_metadata table)) ''schema.name-mapping.default'' of
        None \<Rightarrow> Inr None
      | Some raw \<Rightarrow>
          res_bind (map_err (\<lambda>e. Execution (''iceberg_source: invalid table property schema.name-mapping.default: '' @ e))
            (tb_parse_name_mapping table raw)) (\<lambda>m. Inr (Some m)))"

definition scan_files ::
  "('s, 'n, 'ty, 'v) Table \<Rightarrow> ('s, 'ty) ReadSchema \<Rightarrow> int \<Rightarrow> PluginError + ('s, 'n) FileScanTask list" where
  "scan_files table schema i =
     res_bind (map_err (iceberg_error (''plan the scan of snapshot '' @ show_int i)) (tb_plan_files table i)) (\<lambda>tasks.
     Inr (map (\<lambda>task. task\<lparr>task_schema := rs_iceberg schema, project_field_ids := rs_field_ids schema\<rparr>) tasks))"

definition added_task :: "('s, 'ty) ReadSchema \<Rightarrow> 'n option \<Rightarrow> ManifestEntry \<Rightarrow> ('s, 'n) FileScanTask" where
  "added_task schema mapping entry =
     \<lparr>data_file_path = me_file_path entry, file_size_in_bytes = me_file_size entry, task_start = 0,
      task_length = me_file_size entry, record_count = Some (me_record_count entry),
      data_file_format = me_file_format entry, task_schema = rs_iceberg schema,
      project_field_ids = rs_field_ids schema, task_name_mapping = mapping, case_sensitive = True,
      task_deletes = []\<rparr>"

definition wanted_manifest :: "int \<Rightarrow> ManifestFile \<Rightarrow> bool" where
  "wanted_manifest i m \<longleftrightarrow> mf_content m = DataManifest \<and> mf_added_snapshot_id m = i \<and> mf_has_added_files m"

definition wanted_entry :: "int \<Rightarrow> ManifestEntry \<Rightarrow> bool" where
  "wanted_entry i e \<longleftrightarrow> me_status e = Added \<and> me_snapshot_id e = Some i \<and> me_content e = DataContent"

definition added_files ::
  "('s, 'n, 'ty, 'v) Table \<Rightarrow> ('s, 'ty) ReadSchema \<Rightarrow> Snapshot \<Rightarrow> PluginError + ('s, 'n) FileScanTask list" where
  "added_files table schema s =
     (let context = ''list the files added by snapshot '' @ show_int (sn_id s) in
      res_bind (map_err (iceberg_error context) (tb_manifest_list table s)) (\<lambda>manifests.
      res_bind (name_mapping table) (\<lambda>mapping.
      res_bind (collect_results (\<lambda>m. map_err (iceberg_error context) (tb_load_manifest table m))
        (filter (wanted_manifest (sn_id s)) manifests)) (\<lambda>entries.
      Inr (map (added_task schema mapping) (filter (wanted_entry (sn_id s)) (concat entries)))))))"

record ('s, 'n, 'ty, 'v) Unit =
  un_snapshot_id :: int
  un_timestamp_ms :: int
  un_phase :: Phase
  un_files :: "('s, 'n) FileScanTask list"
  un_file :: nat
  un_rows_in_file :: nat
  un_skip :: nat
  un_stream :: "('ty, 'v) batch_stream option"
  un_arrow_reader :: "('s, 'n, 'ty, 'v) ArrowReader"
  un_leftover :: "('ty, 'v) RecordBatch option"

definition is_done :: "('s, 'n, 'ty, 'v) Unit \<Rightarrow> bool" where
  "is_done u \<longleftrightarrow> un_file u \<ge> length (un_files u)"

definition unit_position :: "('s, 'n, 'ty, 'v) Unit \<Rightarrow> Position" where
  "unit_position u =
     (if is_done u then position_completed (un_snapshot_id u) (un_phase u)
      else \<lparr>pos_snapshot_id = un_snapshot_id u, pos_phase = un_phase u, files_done = un_file u,
            rows_done_in_file = un_rows_in_file u, complete = False\<rparr>)"

text \<open>The loop of \<open>next_from_file\<close> over the stream: what it returns, the rows still to skip, the stream left.\<close>

fun next_batch_of_stream ::
  "string \<Rightarrow> int \<Rightarrow> nat \<Rightarrow> ('ty, 'v) batch_stream
     \<Rightarrow> (PluginError + ('ty, 'v) RecordBatch option) \<times> nat \<times> ('ty, 'v) batch_stream" where
  "next_batch_of_stream path i skip [] =
     (if skip > 0
      then Inl (Execution (''iceberg_source: data file '' @ path @ '' of snapshot '' @ show_int i
             @ '' has fewer rows than the checkpointed position; reset the source state''))
      else Inr None, skip, [])"
| "next_batch_of_stream path i skip (Inl e # q) = (Inl (iceberg_error (''read data file '' @ path) e), skip, q)"
| "next_batch_of_stream path i skip (Inr b # q) =
     (let n = min (num_rows b) skip; b' = batch_slice n (num_rows b - n) b in
      if num_rows b' > 0 then (Inr (Some b'), skip - n, q)
      else next_batch_of_stream path i (skip - n) q)"

text \<open>Called only when the unit is not done, so the index of the file is in range.\<close>

definition next_from_file ::
  "('s, 'n, 'ty, 'v) Unit \<Rightarrow> (PluginError + ('ty, 'v) RecordBatch option) \<times> ('s, 'n, 'ty, 'v) Unit" where
  "next_from_file u =
     (let task = un_files u ! un_file u; path = data_file_path task in
      case (case un_stream u of
              Some q \<Rightarrow> Inr q
            | None \<Rightarrow> map_err (iceberg_error (''read data file '' @ path)) (un_arrow_reader u task)) of
        Inl e \<Rightarrow> (Inl e, u)
      | Inr q \<Rightarrow>
          (let (r, skip, q') = next_batch_of_stream path (un_snapshot_id u) (un_skip u) q in
           (r, u\<lparr>un_skip := skip, un_stream := Some q'\<rparr>)))"

text \<open>Moving on to the next file, and taking rows of a batch (which is no longer the leftover).\<close>

definition next_file :: "('s, 'n, 'ty, 'v) Unit \<Rightarrow> ('s, 'n, 'ty, 'v) Unit" where
  "next_file u = u\<lparr>un_stream := None, un_file := Suc (un_file u), un_rows_in_file := 0\<rparr>"

definition take_rows_of ::
  "nat \<Rightarrow> ('ty, 'v) RecordBatch \<Rightarrow> ('s, 'n, 'ty, 'v) Unit \<Rightarrow> ('s, 'n, 'ty, 'v) Unit" where
  "take_rows_of n b u =
     u\<lparr>un_leftover := (if n < num_rows b then Some (batch_slice n (num_rows b - n) b) else None),
       un_rows_in_file := un_rows_in_file u + n\<rparr>"

lemma next_batch_of_stream_shrinks:
  "next_batch_of_stream path i skip q = (Inr (Some b), skip', q') \<Longrightarrow> length q' < length q"
  by (induction path i skip q rule: next_batch_of_stream.induct) (auto simp: Let_def less_SucI split: if_splits)

lemma next_from_file_fields:
  assumes "next_from_file u = (r, u')"
  shows "un_files u' = un_files u" "un_file u' = un_file u" "un_leftover u' = un_leftover u"
    "un_rows_in_file u' = un_rows_in_file u" "un_snapshot_id u' = un_snapshot_id u" "un_phase u' = un_phase u"
    "un_arrow_reader u' = un_arrow_reader u" "un_timestamp_ms u' = un_timestamp_ms u"
  using assms by (auto simp: next_from_file_def Let_def split: sum.splits prod.splits)

definition stream_size :: "('s, 'n, 'ty, 'v) Unit \<Rightarrow> nat" where
  "stream_size u = (case un_stream u of None \<Rightarrow> 0 | Some q \<Rightarrow> length q)"

lemma next_from_file_shrinks:
  assumes "next_from_file u = (Inr (Some b), u')"
  shows "un_stream u' \<noteq> None \<and> (un_stream u = None \<or> stream_size u' < stream_size u)"
  using assms
  by (auto simp: next_from_file_def stream_size_def Let_def map_err_def
      split: sum.splits prod.splits option.splits dest: next_batch_of_stream_shrinks)

definition next_item ::
  "('s, 'n, 'ty, 'v) Unit \<Rightarrow> (PluginError + ('ty, 'v) RecordBatch option) \<times> ('s, 'n, 'ty, 'v) Unit" where
  "next_item u = (case un_leftover u of Some b \<Rightarrow> (Inr (Some b), u) | None \<Rightarrow> next_from_file u)"

function read_loop ::
  "nat \<Rightarrow> ('ty, 'v) RecordBatch list \<Rightarrow> nat \<Rightarrow> ('s, 'n, 'ty, 'v) Unit
     \<Rightarrow> PluginError + ('ty, 'v) RecordBatch list \<times> ('s, 'n, 'ty, 'v) Unit" where
  "read_loop max_rows out rows u =
     (if rows < max_rows \<and> \<not> is_done u
      then
        (case next_item u of
           (Inl e, u') \<Rightarrow> Inl e
         | (Inr None, u') \<Rightarrow> read_loop max_rows out rows (next_file u')
         | (Inr (Some b), u') \<Rightarrow>
             (let n = min (num_rows b) (max_rows - rows) in
              read_loop max_rows (if n > 0 then out @ [batch_slice 0 n b] else out) (rows + n) (take_rows_of n b u')))
      else Inr (out, u))"
  by pat_completeness auto

text \<open>The loop ends: it moves to the next file, opens or shortens the stream, or uses up rows.\<close>

definition read_order ::
  "((nat \<times> ('ty, 'v) RecordBatch list \<times> nat \<times> ('s, 'n, 'ty, 'v) Unit) \<times>
    (nat \<times> ('ty, 'v) RecordBatch list \<times> nat \<times> ('s, 'n, 'ty, 'v) Unit)) set" where
  "read_order = measures
    [\<lambda>(m, out, rows, u). length (un_files u) - un_file u,
     \<lambda>(m, out, rows, u). if un_stream u = None then 1 else 0,
     \<lambda>(m, out, rows, u). stream_size u,
     \<lambda>(m, out, rows, u). (if un_leftover u = None then 0 else 1) + (m - rows)]"

lemma next_file_smaller:
  assumes "next_item u = (Inr None, u')" and "\<not> is_done u"
  shows "((m, out, rows, next_file u'), (m, out, rows, u)) \<in> read_order"
proof -
  have "next_from_file u = (Inr None, u')" using assms(1) by (simp add: next_item_def split: option.splits)
  with next_from_file_fields [OF this] assms(2) show ?thesis
    by (auto simp: read_order_def next_file_def is_done_def not_le diff_less_mono2)
qed

lemma take_rows_smaller:
  assumes "next_item u = (Inr (Some b), u')" and "rows < m"
  shows "((m, out', rows + min (num_rows b) (m - rows), take_rows_of (min (num_rows b) (m - rows)) b u'),
          (m, out, rows, u)) \<in> read_order"
proof (cases "un_leftover u")
  case None
  with assms(1) have "next_from_file u = (Inr (Some b), u')" by (simp add: next_item_def)
  from next_from_file_shrinks [OF this] next_from_file_fields [OF this] show ?thesis
    by (auto simp: read_order_def take_rows_of_def stream_size_def)
next
  case (Some l)
  with assms have "b = l" "u' = u" by (simp_all add: next_item_def)
  with Some assms(2) show ?thesis
    by (cases "num_rows l \<le> m - rows") (simp_all add: read_order_def take_rows_of_def stream_size_def)
qed

termination read_loop
proof (relation read_order, goal_cases)
  case 1
  show ?case by (simp add: read_order_def)
next
  case (2 m out rows u x u' y)
  then have "next_item u = (Inr None, u')" by simp
  from next_file_smaller [OF this] 2 show ?case by simp
next
  case (3 m out rows u x u' y b n)
  then have "next_item u = (Inr (Some b), u')" by simp
  from take_rows_smaller [OF this] 3 show ?case by simp
qed

declare read_loop.simps [simp del]

definition read_up_to ::
  "nat \<Rightarrow> ('s, 'n, 'ty, 'v) Unit \<Rightarrow> PluginError + ('ty, 'v) RecordBatch list \<times> ('s, 'n, 'ty, 'v) Unit" where
  "read_up_to max_rows u = read_loop max_rows [] 0 u"

section \<open>The table reader\<close>

record ('s, 'n, 'ty, 'v) TableReader =
  tr_table :: "('s, 'n, 'ty, 'v) Table"
  tr_schema :: "('s, 'ty) ReadSchema"
  tr_batch_size :: nat
  tr_policy :: OnNonAppendSnapshot
  tr_cursor :: "Position option"
  tr_unit :: "('s, 'n, 'ty, 'v) Unit option"
  tr_last_processed_ms :: "int option"

definition reader_new ::
  "('s, 'n, 'ty, 'v) Table \<Rightarrow> ('s, 'ty) ReadSchema \<Rightarrow> nat \<Rightarrow> OnNonAppendSnapshot \<Rightarrow> Position option
     \<Rightarrow> ('s, 'n, 'ty, 'v) TableReader" where
  "reader_new table schema batch_size policy cursor =
     \<lparr>tr_table = table, tr_schema = schema, tr_batch_size = batch_size, tr_policy = policy, tr_cursor = cursor,
      tr_unit = None,
      tr_last_processed_ms =
        (case cursor of
           None \<Rightarrow> None
         | Some p \<Rightarrow> if complete p
             then map_option sn_timestamp_ms (snapshot_by_id (tb_metadata table) (pos_snapshot_id p)) else None)\<rparr>"

definition set_table :: "('s, 'n, 'ty, 'v) Table \<Rightarrow> ('s, 'n, 'ty, 'v) TableReader \<Rightarrow> ('s, 'n, 'ty, 'v) TableReader" where
  "set_table table r =
     r\<lparr>tr_unit := map_option (\<lambda>u. u\<lparr>un_arrow_reader := build_arrow_reader table (tr_batch_size r)\<rparr>) (tr_unit r),
       tr_table := table\<rparr>"

definition unit_files ::
  "('s, 'n, 'ty, 'v) Table \<Rightarrow> ('s, 'ty) ReadSchema \<Rightarrow> Phase \<Rightarrow> Snapshot \<Rightarrow> int
     \<Rightarrow> PluginError + ('s, 'n) FileScanTask list" where
  "unit_files table schema phase s i =
     res_bind (case phase of Scan \<Rightarrow> scan_files table schema i | Incremental \<Rightarrow> added_files table schema s)
       (\<lambda>files. Inr (sort_key data_file_path files))"

definition open_unit ::
  "('s, 'n, 'ty, 'v) Table \<Rightarrow> ('s, 'ty) ReadSchema \<Rightarrow> Position \<Rightarrow> nat \<Rightarrow> PluginError + ('s, 'n, 'ty, 'v) Unit" where
  "open_unit table schema position batch_size =
     (let i = pos_snapshot_id position in
      res_bind (ok_or (expired i) (snapshot_by_id (tb_metadata table) i)) (\<lambda>s.
      res_bind (unit_files table schema (pos_phase position) s i) (\<lambda>files.
      if files_done position > length files
      then Inl (Execution (''iceberg_source: checkpointed position has '' @ show_nat (files_done position)
             @ '' files done but snapshot '' @ show_int i @ '' has only '' @ show_nat (length files)
             @ '' to read; reset the source state''))
      else Inr \<lparr>un_snapshot_id = i, un_timestamp_ms = sn_timestamp_ms s, un_phase = pos_phase position,
                un_files = files, un_file = files_done position, un_rows_in_file = rows_done_in_file position,
                un_skip = rows_done_in_file position, un_stream = None,
                un_arrow_reader = build_arrow_reader table batch_size, un_leftover = None\<rparr>)))"

definition finish_snapshot :: "int \<Rightarrow> ('s, 'n, 'ty, 'v) TableReader \<Rightarrow> ('s, 'n, 'ty, 'v) TableReader" where
  "finish_snapshot t r = r\<lparr>tr_last_processed_ms := Some t\<rparr>"

text \<open>The loop over the snapshots not processed yet: the one to read, after passing over skipped ones.\<close>

fun pass_over ::
  "Snapshot list \<Rightarrow> ('s, 'n, 'ty, 'v) TableReader
     \<Rightarrow> (PluginError + Snapshot option) \<times> ('s, 'n, 'ty, 'v) TableReader" where
  "pass_over [] r = (Inr None, r)"
| "pass_over (s # ss) r =
     (case classify s (tr_policy r) of
        Inl e \<Rightarrow> (Inl e, r)
      | Inr SnapshotRead \<Rightarrow> (Inr (Some s), r)
      | Inr SnapshotSkip \<Rightarrow>
          pass_over ss (finish_snapshot (sn_timestamp_ms s)
            (r\<lparr>tr_cursor := Some (position_completed (sn_id s) Incremental)\<rparr>)))"

definition open_next_unit ::
  "('s, 'n, 'ty, 'v) TableReader
     \<Rightarrow> ((PluginError + ('s, 'n, 'ty, 'v) Unit option) \<times> ('s, 'n, 'ty, 'v) TableReader) option" where
  "open_next_unit r =
     (let open_at = (\<lambda>r p. (res_bind (open_unit (tr_table r) (tr_schema r) p (tr_batch_size r)) (\<lambda>u. Inr (Some u)), r));
          resume = (case tr_cursor r of Some p \<Rightarrow> if complete p then None else Some p | None \<Rightarrow> None) in
      case resume of
        Some p \<Rightarrow> Some (open_at r p)
      | None \<Rightarrow>
          (case snapshots_since (tb_metadata (tr_table r)) (map_option pos_snapshot_id (tr_cursor r)) of
             None \<Rightarrow> None
           | Some (Inl e) \<Rightarrow> Some (Inl e, r)
           | Some (Inr ss) \<Rightarrow>
               (case pass_over ss r of
                  (Inl e, r') \<Rightarrow> Some (Inl e, r')
                | (Inr None, r') \<Rightarrow> Some (Inr None, r')
                | (Inr (Some s), r') \<Rightarrow> Some (open_at r' (position_start (sn_id s) Incremental)))))"

text \<open>
  \<open>build\<close> makes a batch from the slices read (\<open>output_batch\<close> of the schema). The unit is taken out of the
  reader first, so an error leaves the reader without it.
\<close>

definition read_unit ::
  "(('ty, 'v) RecordBatch list \<Rightarrow> PluginError + 'batch) \<Rightarrow> ('s, 'n, 'ty, 'v) Unit \<Rightarrow> ('s, 'n, 'ty, 'v) TableReader
     \<Rightarrow> (PluginError + 'batch option) \<times> ('s, 'n, 'ty, 'v) TableReader" where
  "read_unit build u r =
     (case
        res_bind (read_up_to (tr_batch_size r) u) (\<lambda>(slices, u').
        res_bind (if slices = [] then Inr None else res_bind (build slices) (\<lambda>b. Inr (Some b))) (\<lambda>batch.
        Inr (batch, u')))
      of
        Inl e \<Rightarrow> (Inl e, r)
      | Inr (batch, u') \<Rightarrow>
          (Inr batch,
           (let r1 = r\<lparr>tr_cursor := Some (unit_position u')\<rparr> in
            if is_done u' then finish_snapshot (un_timestamp_ms u') r1 else r1\<lparr>tr_unit := Some u'\<rparr>)))"

partial_function (option) next_batch ::
  "(('ty, 'v) RecordBatch list \<Rightarrow> PluginError + 'batch) \<Rightarrow> ('s, 'n, 'ty, 'v) TableReader
     \<Rightarrow> ((PluginError + 'batch option) \<times> ('s, 'n, 'ty, 'v) TableReader) option" where
  "next_batch build r =
     (case (case tr_unit r of
              Some u \<Rightarrow> Some (Inr (Some u), r\<lparr>tr_unit := None\<rparr>)
            | None \<Rightarrow> open_next_unit r) of
        None \<Rightarrow> None
      | Some (Inl e, r1) \<Rightarrow> Some (Inl e, r1)
      | Some (Inr None, r1) \<Rightarrow> Some (Inr None, r1)
      | Some (Inr (Some u), r1) \<Rightarrow>
          (case read_unit build u r1 of
             (Inl e, r2) \<Rightarrow> Some (Inl e, r2)
           | (Inr (Some b), r2) \<Rightarrow> Some (Inr (Some b), r2)
           | (Inr None, r2) \<Rightarrow> next_batch build r2))"

section \<open>The source\<close>

definition ERROR_BACKOFF_MIN :: nat where
  "ERROR_BACKOFF_MIN = 1000"

text \<open>In milliseconds; the doubling saturates only beyond every cap.\<close>

definition next_backoff :: "nat option \<Rightarrow> nat \<Rightarrow> nat" where
  "next_backoff previous cap =
     min (case previous of None \<Rightarrow> ERROR_BACKOFF_MIN | Some d \<Rightarrow> 2 * d) (max cap ERROR_BACKOFF_MIN)"

record ('s, 'n, 'ty, 'v) IcRunningState =
  ic_reader :: "('s, 'n, 'ty, 'v) TableReader"
  ic_error_backoff :: "nat option"
  ic_delivered :: "Position option"
  ic_pending_epochs :: "(u64, Position) btree_map"

definition initial_position :: "TableMetadata \<Rightarrow> StartPosition \<Rightarrow> Position option" where
  "initial_position md start =
     (case current_snapshot md of
        None \<Rightarrow> None
      | Some current \<Rightarrow>
          Some (case start of
                  Earliest \<Rightarrow> position_start (sn_id current) Scan
                | Latest \<Rightarrow> position_completed (sn_id current) Incremental))"

definition validate_resume :: "TableMetadata \<Rightarrow> Position \<Rightarrow> (PluginError + unit) option" where
  "validate_resume md p =
     (if complete p
      then map_option (\<lambda>r. res_bind r (\<lambda>_. Inr ())) (snapshots_since md (Some (pos_snapshot_id p)))
      else Some (if snapshot_by_id md (pos_snapshot_id p) = None then Inl (expired (pos_snapshot_id p)) else Inr ()))"

definition INIT_ATTEMPTS :: nat where
  "INIT_ATTEMPTS = 3"

text \<open>
  Bounded retries: \<open>answers\<close> gives for each attempt its outcome and the running flag after it;
  \<open>k\<close> more attempts are allowed after this one.
\<close>

fun with_retries :: "nat \<Rightarrow> nat \<Rightarrow> (nat \<Rightarrow> (PluginError + 'a) \<times> bool) \<Rightarrow> PluginError + 'a" where
  "with_retries 0 attempt answers = fst (answers attempt)"
| "with_retries (Suc k) attempt answers =
     (case answers attempt of
        (Inr v, _) \<Rightarrow> Inr v
      | (Inl e, running) \<Rightarrow> if running then with_retries k (Suc attempt) answers else Inl e)"

definition refresh ::
  "PluginError + ('s, 'n, 'ty, 'v) Table \<Rightarrow> ('s, 'n, 'ty, 'v) IcRunningState \<Rightarrow> bool \<times> ('s, 'n, 'ty, 'v) IcRunningState" where
  "refresh loaded st =
     (case loaded of
        Inr table \<Rightarrow> (True, st\<lparr>ic_reader := set_table table (ic_reader st)\<rparr>)
      | Inl _ \<Rightarrow> (False, st))"

text \<open>One turn of the loop of \<open>generate_batch\<close>: \<open>Inr None\<close> when the reader has caught up.\<close>

definition ic_turn ::
  "(('ty, 'v) RecordBatch list \<Rightarrow> PluginError + 'batch) \<Rightarrow> nat \<Rightarrow> ('s, 'n, 'ty, 'v) IcRunningState
     \<Rightarrow> ((PluginError + 'batch option) \<times> ('s, 'n, 'ty, 'v) IcRunningState) option" where
  "ic_turn build poll_interval st =
     map_option
       (\<lambda>(res, r). (res,
          (let st1 = st\<lparr>ic_reader := r\<rparr> in
           case res of
             Inl _ \<Rightarrow> st1\<lparr>ic_error_backoff := Some (next_backoff (ic_error_backoff st) poll_interval)\<rparr>
           | Inr (Some _) \<Rightarrow> st1\<lparr>ic_error_backoff := None\<rparr>
           | Inr None \<Rightarrow> st1\<lparr>ic_error_backoff := None, ic_delivered := tr_cursor r\<rparr>)))
       (next_batch build (ic_reader st))"

text \<open>
  \<open>due\<close> tells, before and after the first turn, whether the poll interval has elapsed, with the outcome of
  loading the table then. A refresh is made at most once, so the loop turns at most twice. \<open>None\<close> as a
  batch is the empty batch.
\<close>

definition ic_generate_batch ::
  "(('ty, 'v) RecordBatch list \<Rightarrow> PluginError + 'batch) \<Rightarrow> nat \<Rightarrow> bool
     \<Rightarrow> (PluginError + ('s, 'n, 'ty, 'v) Table) option \<Rightarrow> (PluginError + ('s, 'n, 'ty, 'v) Table) option
     \<Rightarrow> ('s, 'n, 'ty, 'v) IcRunningState
     \<Rightarrow> ((PluginError + 'batch option) \<times> ('s, 'n, 'ty, 'v) IcRunningState) option" where
  "ic_generate_batch build poll_interval running due1 due2 st =
     (if \<not> running then Some (Inr None, st)
      else
        (let st1 = st\<lparr>ic_delivered := tr_cursor (ic_reader st)\<rparr>;
             (refreshed, st2) = (case due1 of Some loaded \<Rightarrow> (True, snd (refresh loaded st1)) | None \<Rightarrow> (False, st1)) in
         case ic_turn build poll_interval st2 of
           None \<Rightarrow> None
         | Some (Inr None, st3) \<Rightarrow>
             (if refreshed then Some (Inr None, st3)
              else (case due2 of
                      None \<Rightarrow> Some (Inr None, st3)
                    | Some loaded \<Rightarrow>
                        (case refresh loaded st3 of
                           (False, st4) \<Rightarrow> Some (Inr None, st4)
                         | (True, st4) \<Rightarrow> ic_turn build poll_interval st4)))
         | Some (res, st3) \<Rightarrow> Some (res, st3)))"

definition ic_checkpoint_marker :: "u64 \<Rightarrow> ('s, 'n, 'ty, 'v) IcRunningState \<Rightarrow> ('s, 'n, 'ty, 'v) IcRunningState" where
  "ic_checkpoint_marker epoch st =
     (case ic_delivered st of
        None \<Rightarrow> st
      | Some p \<Rightarrow> st\<lparr>ic_pending_epochs := bt_insert epoch p (ic_pending_epochs st)\<rparr>)"

definition ic_checkpoint_finalizer ::
  "string option \<Rightarrow> u64 \<Rightarrow> ('s, 'n, 'ty, 'v) IcRunningState
     \<Rightarrow> (PluginError + unit) \<times> Position option \<times> ('s, 'n, 'ty, 'v) IcRunningState" where
  "ic_checkpoint_finalizer put_error epoch st =
     (let snapshot = bt_get (ic_pending_epochs st) epoch;
          st' = st\<lparr>ic_pending_epochs := bt_split_off epoch (bt_remove epoch (ic_pending_epochs st))\<rparr> in
      case snapshot of
        None \<Rightarrow> (Inr (), None, st')
      | Some p \<Rightarrow>
          (case put_error of
             Some e \<Rightarrow> (Inl (StateFailure e), None, st')
           | None \<Rightarrow> (Inr (), Some p, st')))"

interpretation ic: noting_source ic_pending_epochs ic_delivered ic_checkpoint_marker ic_checkpoint_finalizer
  by unfold_locales
     (auto simp: ic_checkpoint_marker_def ic_checkpoint_finalizer_def Let_def split: option.splits)

record ('s, 'n, 'ty, 'v) IcebergSource =
  ics_config :: IcebergSourceConfig
  ics_schema :: "('s, 'ty) ReadSchema"
  ics_inner :: "('s, 'n, 'ty, 'v) IcRunningState option"
  ics_running :: bool

text \<open>\<open>load_schema\<close> is the outcome of loading the table's current schema from the catalog.\<close>

definition ic_source_new ::
  "(string list \<Rightarrow> string + TableIdent) \<Rightarrow> ('s, 'ty, 'v, 'batch) arrow_api \<Rightarrow> (IcebergSourceConfig \<Rightarrow> PluginError + 's)
     \<Rightarrow> environment \<Rightarrow> (string, string) hash_map \<Rightarrow> PluginError + ('s, 'n, 'ty, 'v) IcebergSource" where
  "ic_source_new from_strs A load_schema env options =
     (let opts = plugin_options_new options ICEBERG_SOURCE ''STREAMLING__PLUGIN__ICEBERG_SOURCE'' in
      res_bind (ic_parse_config from_strs env opts) (\<lambda>config.
      res_bind (load_schema config) (\<lambda>schema.
      res_bind (read_schema_new A schema) (\<lambda>rs.
      Inr \<lparr>ics_config = config, ics_schema = rs, ics_inner = None, ics_running = True\<rparr>))))"

definition ic_terminate :: "('s, 'n, 'ty, 'v) IcebergSource \<Rightarrow> ('s, 'n, 'ty, 'v) IcebergSource" where
  "ic_terminate s = s\<lparr>ics_running := False\<rparr>"

text \<open>
  \<open>connect\<close> and \<open>load\<close> give the outcomes of the catalog calls, attempt by attempt. \<open>None\<close> would be a
  resume check that does not return.
\<close>

definition ic_initialize ::
  "(nat \<Rightarrow> (PluginError + unit) \<times> bool) \<Rightarrow> (nat \<Rightarrow> (PluginError + ('s, 'n, 'ty, 'v) Table) \<times> bool)
     \<Rightarrow> (string + Position option) \<Rightarrow> ('s, 'n, 'ty, 'v) IcebergSource
     \<Rightarrow> ((PluginError + unit) \<times> ('s, 'n, 'ty, 'v) IcebergSource) option" where
  "ic_initialize connect load state_get s =
     (case ics_inner s of
        Some _ \<Rightarrow> Some (Inr (), s)
      | None \<Rightarrow>
          (case
             res_bind (with_retries (INIT_ATTEMPTS - 1) 1 connect) (\<lambda>_.
             res_bind (with_retries (INIT_ATTEMPTS - 1) 1 load) (\<lambda>table.
             res_bind (map_err StateFailure state_get) (\<lambda>persisted. Inr (table, persisted))))
           of
             Inl e \<Rightarrow> Some (Inl e, s)
           | Inr (table, persisted) \<Rightarrow>
               (case (case persisted of Some p \<Rightarrow> validate_resume (tb_metadata table) p | None \<Rightarrow> Some (Inr ())) of
                  None \<Rightarrow> None
                | Some (Inl e) \<Rightarrow> Some (Inl e, s)
                | Some (Inr _) \<Rightarrow>
                    (let cursor = (case persisted of
                                     Some p \<Rightarrow> Some p
                                   | None \<Rightarrow> initial_position (tb_metadata table) (icc_start_position (ics_config s))) in
                     Some (Inr (), s\<lparr>ics_inner := Some
                       \<lparr>ic_reader = reader_new table (ics_schema s) (icc_batch_size (ics_config s))
                          (icc_on_non_append_snapshot (ics_config s)) cursor,
                        ic_error_backoff = None, ic_delivered = cursor, ic_pending_epochs = []\<rparr>\<rparr>)))))"

end
