(* ===== verification/IcebergSystem.thy ===== *)
theory IcebergSystem
  imports Iceberg
begin

text \<open>
  What the Iceberg source guarantees: the walk over the snapshots returns the lineage since the last
  one processed; a unit is read exactly from its position on, however the files are cut into batches and
  wherever reading fails; the table reader splits what is left of the table into batches; and a
  checkpointed position resumes with exactly the rows that were not delivered when it was noted.
\<close>

section \<open>Lineage\<close>

text \<open>
  The law of the catalog's metadata: a snapshot is found under its own identifier, and a parent is older
  than its child (Iceberg numbers the snapshots of a table in sequence; \<open>age\<close> stands for these numbers).
\<close>

definition ancestry_ok :: "(int \<Rightarrow> nat) \<Rightarrow> TableMetadata \<Rightarrow> bool" where
  "ancestry_ok age md \<longleftrightarrow>
     (\<forall>i s. snapshot_by_id md i = Some s \<longrightarrow> sn_id s = i) \<and>
     (\<forall>s p. s \<in> ran (snapshot_by_id md) \<union> set_option (current_snapshot md) \<longrightarrow>
        sn_parent s = Some p \<longrightarrow> age p < age (sn_id s))"

text \<open>
  A chain of snapshots, newest first, each the child of the next and the oldest a child of \<open>p\<close>.
\<close>

fun linked :: "TableMetadata \<Rightarrow> int option \<Rightarrow> Snapshot list \<Rightarrow> bool" where
  "linked md p [] = True"
| "linked md p [s] = (sn_parent s = p)"
| "linked md p (s # t # ts) =
     (sn_parent s = Some (sn_id t) \<and> snapshot_by_id md (sn_id t) = Some t \<and> linked md p (t # ts))"

definition known :: "TableMetadata \<Rightarrow> Snapshot \<Rightarrow> bool" where
  "known md s \<longleftrightarrow> s \<in> ran (snapshot_by_id md) \<union> set_option (current_snapshot md)"

lemma ancestry_parent:
  "ancestry_ok age md \<Longrightarrow> known md s \<Longrightarrow> sn_parent s = Some p \<Longrightarrow> age p < age (sn_id s)"
  by (auto simp: ancestry_ok_def known_def)

lemma known_by_id: "snapshot_by_id md i = Some s \<Longrightarrow> known md s"
  by (auto simp: known_def intro: ranI)

lemma walk_returns:
  assumes "ancestry_ok age md" and "known md s"
  shows "\<exists>r. walk md last' cur s acc = Some r"
  using assms(2)
proof (induction "age (sn_id s)" arbitrary: s acc rule: less_induct)
  case less
  have "\<exists>r. walk md last' cur t (acc @ [s]) = Some r" if "sn_parent s = Some p" "snapshot_by_id md p = Some t" for p t
    using that less.prems ancestry_parent [OF assms(1)] assms(1)
    by (intro less.hyps) (auto simp: ancestry_ok_def known_by_id)
  then show ?case by (subst walk.simps) (auto split: option.splits)
qed

lemma walk_linked:
  assumes "linked md last' (s # ts)" and "\<forall>t \<in> set (s # ts). Some (sn_id t) \<noteq> last'"
  shows "walk md last' cur s acc = Some (Inr (rev (acc @ s # ts)))"
  using assms
proof (induction ts arbitrary: s acc)
  case Nil
  then show ?case by (subst walk.simps) (auto split: option.splits)
next
  case (Cons t ts)
  from Cons.prems have "walk md last' cur t (acc @ [s]) = Some (Inr (rev ((acc @ [s]) @ t # ts)))"
    by (intro Cons.IH) auto
  with Cons.prems show ?case by (subst walk.simps) auto
qed

lemma walk_sound:
  assumes "ancestry_ok age md" and "known md s" and "walk md last' cur s acc = Some (Inr r)"
  shows "\<exists>ts. r = rev (acc @ ts) \<and> linked md last' ts \<and> (\<forall>t \<in> set ts. Some (sn_id t) \<noteq> last' \<and> known md t) \<and>
           (if Some (sn_id s) = last' then ts = [] else ts \<noteq> [] \<and> hd ts = s)"
  using assms(2,3)
proof (induction "age (sn_id s)" arbitrary: s acc rule: less_induct)
  case less
  show ?case
  proof (cases "Some (sn_id s) = last' \<or> sn_parent s = last'")
    case True
    with less.prems show ?thesis
      by (subst (asm) walk.simps) (force split: option.splits if_splits)
  next
    case False
    with less.prems(2) obtain p t where t: "sn_parent s = Some p" "snapshot_by_id md p = Some t" "Some p \<noteq> last'"
      "walk md last' cur t (acc @ [s]) = Some (Inr r)"
      by (subst (asm) walk.simps) (auto split: option.splits if_splits)
    have tp: "sn_id t = p" using assms(1) t(2) by (auto simp: ancestry_ok_def)
    have "age (sn_id t) < age (sn_id s)" using ancestry_parent [OF assms(1) less.prems(1) t(1)] tp by simp
    from less.hyps [OF this known_by_id [OF t(2)] t(4)] tp t(3) obtain ts where
      ts: "r = rev ((acc @ [s]) @ ts)" "linked md last' ts"
        "\<forall>t \<in> set ts. Some (sn_id t) \<noteq> last' \<and> known md t" "ts \<noteq> []" "hd ts = t"
      by auto
    then obtain us where us: "ts = t # us" by (cases ts) auto
    show ?thesis
      using False ts us t tp less.prems(1) by (intro exI [of _ "s # ts"]) auto
  qed
qed

lemma linked_age:
  assumes "ancestry_ok age md" and "linked md p (ts @ [x])" and "\<forall>t \<in> set (ts @ [x]). known md t" and "t \<in> set ts"
  shows "age (sn_id x) < age (sn_id t)"
  using assms(2-4)
proof (induction ts arbitrary: t)
  case (Cons a ts)
  from Cons.prems obtain b bs where b: "ts @ [x] = b # bs" by (cases "ts @ [x]") auto
  with Cons.prems have ab: "sn_parent a = Some (sn_id b)" "linked md p (ts @ [x])" by auto
  have less: "age (sn_id b) < age (sn_id a)"
    using ancestry_parent [OF assms(1) _ ab(1)] Cons.prems by simp
  have "age (sn_id x) \<le> age (sn_id b)"
  proof (cases ts)
    case (Cons c cs)
    with b Cons.IH [OF ab(2), of b] Cons.prems show ?thesis by auto
  qed (use b in simp)
  with less Cons.IH [OF ab(2)] Cons.prems show ?case by auto
qed simp

lemma linked_butlast:
  "linked md p (ts @ [x]) \<Longrightarrow> linked md (Some (sn_id x)) ts"
proof (induction ts)
  case (Cons a ts)
  then show ?case by (cases ts) auto
qed simp

text \<open>
  the walk over the ancestors returns, and when it succeeds with a non-empty result it is the
  lineage since the last processed snapshot: its first snapshot is the child of the last one (a root when
  there is none), each further one is the child of the one before, and it ends with the current snapshot.
\<close>

theorem snapshots_since_lineage:
  assumes "ancestry_ok age md"
  shows "case snapshots_since md last' of
           None \<Rightarrow> False
         | Some (Inl e) \<Rightarrow> True
         | Some (Inr chain) \<Rightarrow>
             map sn_parent chain = take (length chain) (last' # map (Some \<circ> sn_id) chain) \<and>
             (if chain = [] then map_option sn_id (current_snapshot md) = last'
              else current_snapshot md = Some (last chain))"
proof (cases "current_snapshot md")
  case None
  then show ?thesis by (simp add: snapshots_since_def split: option.splits)
next
  case (Some cur)
  have cur: "known md cur" using Some by (simp add: known_def)
  obtain r where r: "walk md last' cur cur [] = Some r" using walk_returns [OF assms cur] by blast
  have parents: "map sn_parent (rev ts) = take (length ts) (last' # map (Some \<circ> sn_id) (rev ts))"
    if "linked md last' ts" for ts
    using that
  proof (induction md last' ts rule: linked.induct)
    case (3 md p s t ts)
    then show ?case by (simp add: nth_append take_Cons')
  qed simp_all
  show ?thesis
  proof (cases r)
    case (Inl e)
    with Some r show ?thesis by (simp add: snapshots_since_def)
  next
    case (Inr chain)
    from walk_sound [OF assms cur r [unfolded Inr]] obtain ts where
      ts: "chain = rev ts" "linked md last' ts" "if Some (sn_id cur) = last' then ts = [] else ts \<noteq> [] \<and> hd ts = cur"
      by auto
    with Some Inr r parents [OF ts(2)] show ?thesis
      by (auto simp: snapshots_since_def last_rev split: if_splits)
  qed
qed

section \<open>Reading a unit\<close>

text \<open>
  What the batches of a stream say about the rows \<open>rs\<close> of a data file: they are the rows in order,
  and all of them if the stream ends without an error.
\<close>

fun stream_ok :: "'v list list \<Rightarrow> ('ty, 'v) batch_stream \<Rightarrow> bool" where
  "stream_ok rs [] = (rs = [])"
| "stream_ok rs (Inl e # q) = True"
| "stream_ok rs (Inr b # q) =
     (num_rows b \<le> length rs \<and> rb_rows b = take (num_rows b) rs \<and> stream_ok (drop (num_rows b) rs) q)"

lemma num_rows_slice [simp]: "num_rows (batch_slice k n b) = min n (num_rows b - k)"
  by (simp add: num_rows_def batch_slice_def min.commute)

lemma next_batch_of_stream_Some:
  assumes "next_batch_of_stream path i skip q = (Inr (Some b), skip', q')" and "stream_ok rs q"
  shows "skip' = 0 \<and> num_rows b > 0 \<and> skip + num_rows b \<le> length rs \<and>
         rb_rows b = take (num_rows b) (drop skip rs) \<and> stream_ok (drop (skip + num_rows b) rs) q'"
  using assms
proof (induction path i skip q arbitrary: rs rule: next_batch_of_stream.induct)
  case (3 path i skip b0 q)
  show ?case
  proof (cases "num_rows b0 > skip")
    case True
    with 3(2,3) have b: "b = batch_slice skip (num_rows b0 - skip) b0" "skip' = 0" "q' = q"
      by (auto simp: Let_def min_def split: if_splits)
    have "rb_rows b = take (num_rows b0 - skip) (drop skip rs)"
      using b(1) 3(3) by (simp add: batch_slice_def drop_take)
    with b True 3(3) show ?thesis by (auto simp: drop_take)
  next
    case False
    with 3(2) have "next_batch_of_stream path i (skip - num_rows b0) q = (Inr (Some b), skip', q')"
      by (auto simp: Let_def min_def split: if_splits)
    with 3(1) [of "num_rows b0" _ "drop (num_rows b0) rs"] 3(3) False show ?thesis
      by (auto simp: min_def add.commute)
  qed
qed (auto split: if_splits)

lemma next_batch_of_stream_None:
  assumes "next_batch_of_stream path i skip q = (Inr None, skip', q')" and "stream_ok rs q"
  shows "skip' = 0 \<and> length rs = skip"
  using assms
proof (induction path i skip q arbitrary: rs rule: next_batch_of_stream.induct)
  case (3 path i skip b0 q)
  from 3(2) have "num_rows b0 \<le> skip"
    by (auto simp: Let_def min_def split: if_splits)
  with 3(2) have "next_batch_of_stream path i (skip - num_rows b0) q = (Inr None, skip', q')"
    by (auto simp: Let_def min_def split: if_splits)
  with 3(1) [of "num_rows b0" _ "drop (num_rows b0) rs"] 3(3) \<open>num_rows b0 \<le> skip\<close> show ?case
    by (auto simp: min_def)
qed (auto split: if_splits)

text \<open>
  A unit in the middle of reading, given the rows of each data file: how many rows of the current file the
  stream has yielded, what is left over of them, and what the stream still has.
\<close>

definition file_rows :: "(('s, 'n) FileScanTask \<Rightarrow> 'v list list) \<Rightarrow> ('s, 'n, 'ty, 'v) Unit \<Rightarrow> 'v list list" where
  "file_rows rows u = rows (un_files u ! un_file u)"

definition reader_lawful ::
  "(('s, 'n) FileScanTask \<Rightarrow> 'v list list) \<Rightarrow> ('s, 'n, 'ty, 'v) ArrowReader \<Rightarrow> bool" where
  "reader_lawful rows rd \<longleftrightarrow> (\<forall>t items. rd t = Inr items \<longrightarrow> stream_ok (rows t) items)"

definition unit_ok :: "(('s, 'n) FileScanTask \<Rightarrow> 'v list list) \<Rightarrow> ('s, 'n, 'ty, 'v) Unit \<Rightarrow> bool" where
  "unit_ok rows u \<longleftrightarrow>
     reader_lawful rows (un_arrow_reader u) \<and>
     (case un_stream u of
        None \<Rightarrow> un_leftover u = None \<and> un_skip u = un_rows_in_file u
      | Some q \<Rightarrow> \<not> is_done u \<and>
          (case un_leftover u of
             None \<Rightarrow> un_skip u \<le> un_rows_in_file u \<and> un_rows_in_file u - un_skip u \<le> length (file_rows rows u) \<and>
               stream_ok (drop (un_rows_in_file u - un_skip u) (file_rows rows u)) q
           | Some l \<Rightarrow> un_skip u = 0 \<and> num_rows l > 0 \<and>
               un_rows_in_file u + num_rows l \<le> length (file_rows rows u) \<and>
               rb_rows l = take (num_rows l) (drop (un_rows_in_file u) (file_rows rows u)) \<and>
               stream_ok (drop (un_rows_in_file u + num_rows l) (file_rows rows u)) q))"

definition unit_rest :: "(('s, 'n) FileScanTask \<Rightarrow> 'v list list) \<Rightarrow> ('s, 'n, 'ty, 'v) Unit \<Rightarrow> 'v list list" where
  "unit_rest rows u =
     (if is_done u then []
      else drop (un_rows_in_file u) (file_rows rows u) @ concat (map rows (drop (Suc (un_file u)) (un_files u))))"

text \<open>The stream of the current file, opened if need be.\<close>

lemma next_from_file_ok:
  assumes "next_from_file u = (Inr r, u')" and "unit_ok rows u" and "un_leftover u = None" and "\<not> is_done u"
  obtains q q' skip where "stream_ok (drop (un_rows_in_file u - un_skip u) (file_rows rows u)) q"
    and "un_skip u \<le> un_rows_in_file u" and "un_rows_in_file u - un_skip u \<le> length (file_rows rows u)"
    and "next_batch_of_stream (data_file_path (un_files u ! un_file u)) (un_snapshot_id u) (un_skip u) q = (Inr r, skip, q')"
    and "u' = u\<lparr>un_skip := skip, un_stream := Some q'\<rparr>"
proof -
  let ?task = "un_files u ! un_file u"
  have "\<exists>q. stream_ok (drop (un_rows_in_file u - un_skip u) (file_rows rows u)) q \<and>
      un_skip u \<le> un_rows_in_file u \<and> un_rows_in_file u - un_skip u \<le> length (file_rows rows u) \<and>
      next_from_file u = (let (r, skip, q') = next_batch_of_stream (data_file_path ?task) (un_snapshot_id u) (un_skip u) q
        in (r, u\<lparr>un_skip := skip, un_stream := Some q'\<rparr>))"
  proof (cases "un_stream u")
    case None
    with assms(1) obtain q where "un_arrow_reader u ?task = Inr q"
      by (auto simp: next_from_file_def Let_def map_err_def split: sum.splits)
    with None assms(2) show ?thesis
      by (auto simp: next_from_file_def Let_def unit_ok_def reader_lawful_def file_rows_def)
  next
    case (Some q)
    with assms(2,3) show ?thesis by (auto simp: next_from_file_def Let_def unit_ok_def)
  qed
  then obtain q where q: "stream_ok (drop (un_rows_in_file u - un_skip u) (file_rows rows u)) q"
    "un_skip u \<le> un_rows_in_file u" "un_rows_in_file u - un_skip u \<le> length (file_rows rows u)"
    "next_from_file u = (let (r, skip, q') = next_batch_of_stream (data_file_path ?task) (un_snapshot_id u) (un_skip u) q
      in (r, u\<lparr>un_skip := skip, un_stream := Some q'\<rparr>))"
    by blast
  obtain r' skip q' where
    "next_batch_of_stream (data_file_path ?task) (un_snapshot_id u) (un_skip u) q = (r', skip, q')"
    by (metis prod.exhaust)
  with q assms(1) that show ?thesis by auto
qed

lemma file_end:
  assumes "next_item u = (Inr None, u')" and "unit_ok rows u" and "\<not> is_done u"
  shows "unit_ok rows (next_file u') \<and> unit_rest rows (next_file u') = unit_rest rows u"
proof -
  have left: "un_leftover u = None" and item: "next_from_file u = (Inr None, u')"
    using assms(1) by (auto simp: next_item_def split: option.splits)
  from next_from_file_ok [OF item assms(2) left assms(3)] obtain q q' skip where
    q: "stream_ok (drop (un_rows_in_file u - un_skip u) (file_rows rows u)) q" "un_skip u \<le> un_rows_in_file u"
      "un_rows_in_file u - un_skip u \<le> length (file_rows rows u)"
      "next_batch_of_stream (data_file_path (un_files u ! un_file u)) (un_snapshot_id u) (un_skip u) q = (Inr None, skip, q')"
      "u' = u\<lparr>un_skip := skip, un_stream := Some q'\<rparr>" .
  have "skip = 0" "length (file_rows rows u) - (un_rows_in_file u - un_skip u) = un_skip u"
    using next_batch_of_stream_None [OF q(4,1)] by simp_all
  with q left assms(2,3) Cons_nth_drop_Suc [of "Suc (un_file u)" "un_files u"] show ?thesis
    by (auto simp: next_file_def unit_ok_def unit_rest_def is_done_def file_rows_def not_le
        simp flip: Cons_nth_drop_Suc)
qed

text \<open>The next rows of the current file, from the leftover or from the stream.\<close>

definition item_ok ::
  "(('s, 'n) FileScanTask \<Rightarrow> 'v list list) \<Rightarrow> ('ty, 'v) RecordBatch \<Rightarrow> ('s, 'n, 'ty, 'v) Unit \<Rightarrow> bool" where
  "item_ok rows b u \<longleftrightarrow>
     reader_lawful rows (un_arrow_reader u) \<and> un_skip u = 0 \<and> num_rows b > 0 \<and> \<not> is_done u \<and>
     un_rows_in_file u + num_rows b \<le> length (file_rows rows u) \<and>
     rb_rows b = take (num_rows b) (drop (un_rows_in_file u) (file_rows rows u)) \<and>
     (\<exists>q. un_stream u = Some q \<and> stream_ok (drop (un_rows_in_file u + num_rows b) (file_rows rows u)) q)"

definition same_unit :: "('s, 'n, 'ty, 'v) Unit \<Rightarrow> ('s, 'n, 'ty, 'v) Unit \<Rightarrow> bool" where
  "same_unit u u' \<longleftrightarrow>
     un_files u' = un_files u \<and> un_snapshot_id u' = un_snapshot_id u \<and> un_phase u' = un_phase u \<and>
     un_timestamp_ms u' = un_timestamp_ms u"

lemma next_item_same: "next_item u = (r, u') \<Longrightarrow> same_unit u u'"
  by (auto simp: next_item_def same_unit_def next_from_file_fields split: option.splits)

lemma next_item_ok:
  assumes "next_item u = (Inr (Some b), u')" and "unit_ok rows u" and "\<not> is_done u"
  shows "item_ok rows b u' \<and> unit_rest rows u' = unit_rest rows u"
proof (cases "un_leftover u")
  case None
  with assms(1) have item: "next_from_file u = (Inr (Some b), u')" by (simp add: next_item_def)
  from next_from_file_ok [OF item assms(2) None assms(3)] obtain q q' skip where
    q: "stream_ok (drop (un_rows_in_file u - un_skip u) (file_rows rows u)) q" "un_skip u \<le> un_rows_in_file u"
      "un_rows_in_file u - un_skip u \<le> length (file_rows rows u)"
      "next_batch_of_stream (data_file_path (un_files u ! un_file u)) (un_snapshot_id u) (un_skip u) q
         = (Inr (Some b), skip, q')"
      "u' = u\<lparr>un_skip := skip, un_stream := Some q'\<rparr>" .
  from next_batch_of_stream_Some [OF q(4,1)] q(2,3,5) assms(2,3) show ?thesis
    by (auto simp: item_ok_def unit_ok_def unit_rest_def file_rows_def is_done_def add.commute add.left_commute)
next
  case (Some l)
  with assms show ?thesis
    by (auto simp: next_item_def item_ok_def unit_ok_def split: option.splits)
qed

lemma take_rows_ok:
  assumes "item_ok rows b u" and "n \<le> num_rows b"
  shows "unit_ok rows (take_rows_of n b u) \<and> take n (rb_rows b) @ unit_rest rows (take_rows_of n b u) = unit_rest rows u"
proof -
  let ?rest = "drop (un_rows_in_file u) (file_rows rows u)"
  have b: "rb_rows b = take (num_rows b) ?rest" using assms(1) by (simp add: item_ok_def)
  then have take: "take n (rb_rows b) = take n ?rest" using assms(2) by (simp add: min_def)
  have left: "rb_rows (batch_slice n (num_rows b - n) b) = take (num_rows b - n) (drop n ?rest)"
    using b by (simp add: batch_slice_def drop_take)
  have "take n ?rest @ drop (un_rows_in_file u + n) (file_rows rows u) = ?rest"
    by (metis append_take_drop_id drop_drop add.commute)
  then have "take n (rb_rows b) @ unit_rest rows (take_rows_of n b u) = unit_rest rows u"
    using assms(1) unfolding take by (simp add: unit_rest_def take_rows_of_def is_done_def file_rows_def item_ok_def)
  moreover have "unit_ok rows (take_rows_of n b u)"
    using assms left by (auto simp: item_ok_def unit_ok_def take_rows_of_def is_done_def file_rows_def add.commute)
  ultimately show ?thesis by simp
qed

lemma read_loop_ok:
  assumes "read_loop m out n u = Inr (out', u')" and "unit_ok rows u" and "n \<le> m"
    and "n = length (concat (map rb_rows out))" and "\<forall>b \<in> set out. rb_rows b \<noteq> []"
  shows "unit_ok rows u' \<and> same_unit u u' \<and> (\<forall>b \<in> set out'. rb_rows b \<noteq> []) \<and>
    concat (map rb_rows out') @ unit_rest rows u' = concat (map rb_rows out) @ unit_rest rows u \<and>
    length (concat (map rb_rows out')) \<le> m \<and> (length (concat (map rb_rows out')) = m \<or> is_done u')"
  using assms
proof (induction m out n u rule: read_loop.induct)
  case (1 m out n u)
  show ?case
  proof (cases "n < m \<and> \<not> is_done u")
    case False
    with "1.prems"(1) have "out' = out" "u' = u" by (simp_all add: read_loop.simps [of m out n u])
    with False "1.prems" show ?thesis by (auto simp: same_unit_def)
  next
    case True
    then obtain item v where item: "next_item u = (Inr item, v)"
      using "1.prems"(1) by (cases "next_item u") (auto simp: read_loop.simps [of m out n u] split: sum.splits)
    show ?thesis
    proof (cases item)
      case None
      with item have next': "next_item u = (Inr None, v)" by simp
      with True "1.prems"(1) have "read_loop m out n (next_file v) = Inr (out', u')"
        by (simp add: read_loop.simps [of m out n u])
      with "1.IH"(1) [OF True next' [symmetric]] file_end [OF next' "1.prems"(2)] True "1.prems"
        next_item_same [OF next'] show ?thesis
        by (simp add: same_unit_def next_file_def)
    next
      case (Some b)
      with item have next': "next_item u = (Inr (Some b), v)" by simp
      define k where "k = min (num_rows b) (m - n)"
      have ok: "item_ok rows b v" "unit_rest rows v = unit_rest rows u"
        using next_item_ok [OF next' "1.prems"(2)] True by simp_all
      have "k > 0" using ok(1) True by (simp add: k_def item_ok_def)
      let ?out = "out @ [batch_slice 0 k b]"
      have taken: "unit_ok rows (take_rows_of k b v)"
        "take k (rb_rows b) @ unit_rest rows (take_rows_of k b v) = unit_rest rows u"
        using take_rows_ok [OF ok(1), of k] ok(2) by (simp_all add: k_def)
      have k: "k \<le> length (rb_rows b)" "n + k \<le> m" using True by (auto simp: k_def num_rows_def)
      have rows: "rb_rows (batch_slice 0 k b) = take k (rb_rows b)" by (simp add: batch_slice_def)
      have if_k: "(if 0 < k then ?out else out) = ?out" using \<open>k > 0\<close> by simp
      have len: "n + k = length (concat (map rb_rows ?out))" using "1.prems"(4) k(1) by (simp add: rows)
      have ne: "\<forall>c \<in> set ?out. rb_rows c \<noteq> []" using "1.prems"(5) k(1) \<open>k > 0\<close> by (auto simp: rows)
      have loop: "read_loop m ?out (n + k) (take_rows_of k b v) = Inr (out', u')"
        using True next' "1.prems"(1) \<open>k > 0\<close>
        by (simp add: k_def [symmetric] Let_def read_loop.simps [of m out n u])
      have same: "same_unit u (take_rows_of k b v)"
        using next_item_same [OF next'] by (simp add: same_unit_def take_rows_of_def)
      note IH = "1.IH"(2) [OF True next' [symmetric] refl refl k_def, unfolded if_k, OF loop taken(1) k(2) len ne]
      have "concat (map rb_rows out') @ unit_rest rows u' = concat (map rb_rows out) @ unit_rest rows u"
        using IH taken(2) by (simp add: rows)
      with IH same show ?thesis by (auto simp: same_unit_def)
    qed
  qed
qed

section \<open>What is left of a table\<close>

text \<open>
  \<open>C\<close> gives the rows of the data files of a unit, in the order of their paths: of the scan of a snapshot, or
  of the files it added. What a position leaves to read of its unit:
\<close>

type_synonym 'v unit_rows = "Phase \<Rightarrow> int \<Rightarrow> 'v list list list"

definition pos_rest :: "'v unit_rows \<Rightarrow> Position option \<Rightarrow> 'v list list" where
  "pos_rest C op =
     (case op of
        None \<Rightarrow> []
      | Some p \<Rightarrow>
          (let files = C (pos_phase p) (pos_snapshot_id p) in
           if complete p \<or> files_done p \<ge> length files then []
           else drop (rows_done_in_file p) (files ! files_done p) @ concat (drop (Suc (files_done p)) files)))"

definition snapshot_rows :: "'v unit_rows \<Rightarrow> OnNonAppendSnapshot \<Rightarrow> Snapshot \<Rightarrow> 'v list list" where
  "snapshot_rows C policy s =
     (case classify s policy of Inr SnapshotRead \<Rightarrow> concat (C Incremental (sn_id s)) | _ \<Rightarrow> [])"

definition readable :: "OnNonAppendSnapshot \<Rightarrow> Snapshot \<Rightarrow> bool" where
  "readable policy s = (case classify s policy of Inl _ \<Rightarrow> False | Inr _ \<Rightarrow> True)"

definition since :: "TableMetadata \<Rightarrow> Position option \<Rightarrow> Snapshot list \<Rightarrow> bool" where
  "since md op ss \<longleftrightarrow> snapshots_since md (map_option pos_snapshot_id op) = Some (Inr ss)"

text \<open>
  The rows left of the table: those of the position's unit, then those of the snapshots since, up to the
  first one the configuration refuses.
\<close>

definition table_rest :: "'v unit_rows \<Rightarrow> OnNonAppendSnapshot \<Rightarrow> TableMetadata \<Rightarrow> Position option \<Rightarrow> 'v list list" where
  "table_rest C policy md op =
     pos_rest C op @
     (case snapshots_since md (map_option pos_snapshot_id op) of
        Some (Inr ss) \<Rightarrow> concat (map (snapshot_rows C policy) (takeWhile (readable policy) ss))
      | _ \<Rightarrow> [])"

text \<open>Reading on from one position to another yields the rows \<open>xs\<close>.\<close>

definition passes ::
  "'v unit_rows \<Rightarrow> OnNonAppendSnapshot \<Rightarrow> TableMetadata \<Rightarrow> Position option \<Rightarrow> Position option \<Rightarrow> 'v list list \<Rightarrow> bool" where
  "passes C policy md op op' xs \<longleftrightarrow>
     (\<exists>as bs. since md op (as @ bs) \<and> since md op' bs \<and> (\<forall>s \<in> set as. readable policy s) \<and>
        pos_rest C op @ concat (map (snapshot_rows C policy) as) = xs @ pos_rest C op')"

lemma passesI:
  "since md op (as @ bs) \<Longrightarrow> since md op' bs \<Longrightarrow> \<forall>s \<in> set as. readable policy s \<Longrightarrow>
   pos_rest C op @ concat (map (snapshot_rows C policy) as) = xs @ pos_rest C op' \<Longrightarrow> passes C policy md op op' xs"
  unfolding passes_def by blast

lemma passes_refl: "since md op bs \<Longrightarrow> passes C policy md op op []"
  by (rule passesI [of _ _ "[]" bs]) simp_all

lemma passes_trans:
  assumes "passes C policy md o1 o2 xs" and "passes C policy md o2 o3 ys"
  shows "passes C policy md o1 o3 (xs @ ys)"
proof -
  from assms(1) obtain as bs where 1: "since md o1 (as @ bs)" "since md o2 bs" "\<forall>s \<in> set as. readable policy s"
    "pos_rest C o1 @ concat (map (snapshot_rows C policy) as) = xs @ pos_rest C o2" by (auto simp: passes_def)
  from assms(2) obtain cs ds where 2: "since md o2 (cs @ ds)" "since md o3 ds" "\<forall>s \<in> set cs. readable policy s"
    "pos_rest C o2 @ concat (map (snapshot_rows C policy) cs) = ys @ pos_rest C o3" by (auto simp: passes_def)
  have "bs = cs @ ds" using 1(2) 2(1) by (simp add: since_def)
  moreover have "pos_rest C o1 @ concat (map (snapshot_rows C policy) (as @ cs)) = (xs @ ys) @ pos_rest C o3"
    using 1(4) 2(4) by (metis append.assoc concat_append map_append)
  ultimately show ?thesis using 1 2 unfolding passes_def by (intro exI [of _ "as @ cs"] exI [of _ ds]) auto
qed

lemma passes_table_rest:
  assumes "passes C policy md op op' xs"
  shows "table_rest C policy md op = xs @ table_rest C policy md op'"
proof -
  from assms obtain as bs where "since md op (as @ bs)" "since md op' bs" "\<forall>s \<in> set as. readable policy s"
    and rest: "pos_rest C op @ concat (map (snapshot_rows C policy) as) = xs @ pos_rest C op'"
    by (auto simp: passes_def)
  then have "table_rest C policy md op =
      (pos_rest C op @ concat (map (snapshot_rows C policy) as)) @
      concat (map (snapshot_rows C policy) (takeWhile (readable policy) bs))"
    "table_rest C policy md op' = pos_rest C op' @ concat (map (snapshot_rows C policy) (takeWhile (readable policy) bs))"
    by (simp_all add: table_rest_def since_def)
  with rest show ?thesis by (simp del: append_assoc)
qed

text \<open>A table that has only gained snapshots keeps the rows between two positions.\<close>

definition grows :: "TableMetadata \<Rightarrow> TableMetadata \<Rightarrow> bool" where
  "grows md md' \<longleftrightarrow> (\<exists>new. \<forall>op ss. since md op ss \<longrightarrow> since md' op (ss @ new))"

lemma passes_grows: "passes C policy md op op' xs \<Longrightarrow> grows md md' \<Longrightarrow> passes C policy md' op op' xs"
  unfolding passes_def grows_def by (metis append.assoc)

lemma since_tail:
  assumes "ancestry_ok age md" and "since md op (s # ss)" and p: "pos_snapshot_id p = sn_id s"
  shows "since md (Some p) ss"
proof -
  obtain cur where cur: "current_snapshot md = Some cur"
    using assms(2) by (cases "current_snapshot md") (auto simp: since_def snapshots_since_def split: option.splits)
  have known: "known md cur" using cur by (simp add: known_def)
  let ?last = "map_option pos_snapshot_id op"
  have "walk md ?last cur cur [] = Some (Inr (s # ss))"
    using assms(2) cur by (simp add: since_def snapshots_since_def)
  from walk_sound [OF assms(1) known this] obtain ts where
    ts: "s # ss = rev ts" "linked md ?last ts" "\<forall>t \<in> set ts. known md t" "ts \<noteq> [] \<Longrightarrow> hd ts = cur"
    by (auto split: if_splits)
  then have ts': "ts = rev ss @ [s]" by (metis rev.simps(2) rev_rev_ident)
  have "walk md (Some (sn_id s)) cur cur [] = Some (Inr ss)"
  proof (cases "rev ss")
    case Nil
    with ts ts' have "s = cur" by simp
    with Nil show ?thesis by (subst walk.simps) simp
  next
    case (Cons u us)
    have "linked md (Some (sn_id s)) (rev ss)" using linked_butlast ts(2) ts' by blast
    moreover have "\<forall>t \<in> set (rev ss). sn_id t \<noteq> sn_id s"
      using linked_age [OF assms(1), of ?last "rev ss" s] ts ts' by force
    moreover have "u = cur" using ts(4) ts' Cons by simp
    ultimately show ?thesis using walk_linked [of md "Some (sn_id s)" u us cur "[]"] Cons
      by (metis append_Nil option.inject rev_rev_ident)
  qed
  with cur p show ?thesis by (simp add: since_def snapshots_since_def)
qed

section \<open>The reader\<close>

text \<open>
  The laws of a stored table: planning a unit of a snapshot always finds files with the same rows (snapshots
  and data files are immutable), reading a file yields its rows, and the metadata has no cycle.
\<close>

definition table_lawful ::
  "(int \<Rightarrow> nat) \<Rightarrow> 'v unit_rows \<Rightarrow> (('s, 'n) FileScanTask \<Rightarrow> 'v list list) \<Rightarrow> ('s, 'ty) ReadSchema
     \<Rightarrow> ('s, 'n, 'ty, 'v) Table \<Rightarrow> bool" where
  "table_lawful age C rows schema tb \<longleftrightarrow>
     (\<forall>phase s files. snapshot_by_id (tb_metadata tb) (sn_id s) = Some s \<longrightarrow>
        unit_files tb schema phase s (sn_id s) = Inr files \<longrightarrow> map rows files = C phase (sn_id s)) \<and>
     (\<forall>n. reader_lawful rows (tb_read tb n)) \<and> ancestry_ok age (tb_metadata tb)"

text \<open>A unit of the table, at the position \<open>op\<close>.\<close>

definition unit_at ::
  "'v unit_rows \<Rightarrow> (('s, 'n) FileScanTask \<Rightarrow> 'v list list) \<Rightarrow> ('s, 'n, 'ty, 'v) Unit \<Rightarrow> bool" where
  "unit_at C rows u \<longleftrightarrow> unit_ok rows u \<and> map rows (un_files u) = C (un_phase u) (un_snapshot_id u)"

definition reader_ok ::
  "(int \<Rightarrow> nat) \<Rightarrow> 'v unit_rows \<Rightarrow> (('s, 'n) FileScanTask \<Rightarrow> 'v list list) \<Rightarrow> ('s, 'n, 'ty, 'v) TableReader \<Rightarrow> bool" where
  "reader_ok age C rows r \<longleftrightarrow>
     table_lawful age C rows (tr_schema r) (tr_table r) \<and> tr_batch_size r > 0 \<and>
     (\<forall>u. tr_unit r = Some u \<longrightarrow> unit_at C rows u \<and> \<not> is_done u \<and> tr_cursor r = Some (unit_position u))"

lemma unit_position_rest:
  assumes "unit_at C rows u"
  shows "pos_rest C (Some (unit_position u)) = unit_rest rows u"
proof -
  from assms have "C (un_phase u) (un_snapshot_id u) = map rows (un_files u)" by (simp add: unit_at_def)
  then show ?thesis
    by (auto simp: pos_rest_def unit_position_def unit_rest_def position_completed_def position_start_def
        is_done_def file_rows_def Let_def drop_map)
qed

lemma unit_position_id: "pos_snapshot_id (unit_position u) = un_snapshot_id u"
  by (simp add: unit_position_def position_completed_def position_start_def)

lemma open_unit_at:
  assumes "open_unit tb schema p n = Inr u" and "table_lawful age C rows schema tb" and "\<not> complete p"
  shows "unit_at C rows u \<and> unit_rest rows u = pos_rest C (Some p) \<and> un_snapshot_id u = pos_snapshot_id p"
proof -
  from assms(1) obtain s files where s: "snapshot_by_id (tb_metadata tb) (pos_snapshot_id p) = Some s"
    and files: "unit_files tb schema (pos_phase p) s (pos_snapshot_id p) = Inr files"
    and u: "u = \<lparr>un_snapshot_id = pos_snapshot_id p, un_timestamp_ms = sn_timestamp_ms s, un_phase = pos_phase p,
                un_files = files, un_file = files_done p, un_rows_in_file = rows_done_in_file p,
                un_skip = rows_done_in_file p, un_stream = None,
                un_arrow_reader = build_arrow_reader tb n, un_leftover = None\<rparr>"
    by (auto simp: open_unit_def Let_def outcome split: if_splits)
  have "sn_id s = pos_snapshot_id p" using assms(2) s by (auto simp: table_lawful_def ancestry_ok_def)
  with s files assms(2) have "map rows files = C (pos_phase p) (pos_snapshot_id p)"
    unfolding table_lawful_def by metis
  with assms(2) u have at: "unit_at C rows u"
    by (auto simp: unit_at_def unit_ok_def table_lawful_def build_arrow_reader_def)
  have "pos_rest C (Some (unit_position u)) = pos_rest C (Some p)"
    using u assms(3) \<open>map rows files = _\<close>
    by (auto simp: pos_rest_def unit_position_def position_completed_def position_start_def is_done_def Let_def
        simp flip: length_map [of rows])
  with at unit_position_rest [OF at] u show ?thesis by simp
qed

text \<open>The rows of a returned batch; the construction of the batch carries them along.\<close>

definition with_slices ::
  "(('ty, 'v) RecordBatch list \<Rightarrow> PluginError + 'batch) \<Rightarrow> ('ty, 'v) RecordBatch list
     \<Rightarrow> PluginError + 'v list list \<times> 'batch" where
  "with_slices build slices = res_bind (build slices) (\<lambda>b. Inr (concat (map rb_rows slices), b))"

definition batch_rows :: "PluginError + ('v list list \<times> 'batch) option \<Rightarrow> 'v list list" where
  "batch_rows res = (case res of Inr (Some (rs, _)) \<Rightarrow> rs | _ \<Rightarrow> [])"

lemma read_unit_ok:
  assumes "read_unit (with_slices build) u r = (res, r')" and "unit_at C rows u"
    and "reader_ok age C rows r" and "tr_unit r = None"
  shows "reader_ok age C rows r' \<and> tr_table r' = tr_table r \<and> tr_schema r' = tr_schema r \<and>
    tr_batch_size r' = tr_batch_size r \<and> tr_policy r' = tr_policy r \<and>
    length (batch_rows res) \<le> tr_batch_size r \<and>
    (case res of
       Inl e \<Rightarrow> r' = r
     | Inr None \<Rightarrow> unit_rest rows u = [] \<and> tr_unit r' = None \<and>
         tr_cursor r' = Some (position_completed (un_snapshot_id u) (un_phase u))
     | Inr (Some b) \<Rightarrow> batch_rows res \<noteq> [] \<and>
         (\<exists>p. tr_cursor r' = Some p \<and> pos_snapshot_id p = un_snapshot_id u \<and>
            batch_rows res @ pos_rest C (Some p) = unit_rest rows u))"
proof (cases "read_up_to (tr_batch_size r) u")
  case (Inl e)
  with assms show ?thesis by (auto simp: read_unit_def batch_rows_def)
next
  case (Inr su)
  obtain slices u' where su: "su = (slices, u')" by (cases su)
  from assms(2) have ok: "unit_ok rows u" by (simp add: unit_at_def)
  from Inr su have loop: "read_loop (tr_batch_size r) [] 0 u = Inr (slices, u')" by (simp add: read_up_to_def)
  note read = read_loop_ok [OF loop ok]
  have at': "unit_at C rows u'" using read assms(2) by (auto simp: unit_at_def same_unit_def)
  have rest: "pos_rest C (Some (unit_position u')) = unit_rest rows u'" by (rule unit_position_rest [OF at'])
  have id: "pos_snapshot_id (unit_position u') = un_snapshot_id u" "un_phase u' = un_phase u"
    using read by (simp_all add: unit_position_id same_unit_def)
  have empty: "is_done u'" if "slices = []"
    using read that assms(3) by (auto simp: reader_ok_def)
  show ?thesis
  proof (cases "slices = []")
    case True
    with assms Inr su read empty id rest show ?thesis
      by (auto simp: read_unit_def batch_rows_def reader_ok_def finish_snapshot_def unit_position_def unit_rest_def
          same_unit_def)
  next
    case False
    then have ne: "concat (map rb_rows slices) \<noteq> []" using read by (cases slices) auto
    show ?thesis
    proof (cases "build slices")
      case (Inl e)
      with False assms Inr su show ?thesis by (auto simp: read_unit_def with_slices_def batch_rows_def)
    next
      case (Inr b)
      with False assms \<open>read_up_to _ _ = _\<close> su read ne id rest at' show ?thesis
        by (cases "is_done u'")
           (auto simp: read_unit_def with_slices_def batch_rows_def reader_ok_def finish_snapshot_def Let_def)
    qed
  qed
qed

text \<open>Everything of a reader but its progress.\<close>

definition same_reader :: "('s, 'n, 'ty, 'v) TableReader \<Rightarrow> ('s, 'n, 'ty, 'v) TableReader \<Rightarrow> bool" where
  "same_reader r r' \<longleftrightarrow>
     tr_table r' = tr_table r \<and> tr_schema r' = tr_schema r \<and> tr_batch_size r' = tr_batch_size r \<and> tr_policy r' = tr_policy r"

lemma same_reader_refl: "same_reader r r"
  by (simp add: same_reader_def)

lemma position_completed_fields [simp]:
  "pos_snapshot_id (position_completed i phase) = i" "complete (position_completed i phase)"
  by (simp_all add: position_completed_def position_start_def)

lemma pos_rest_completed [simp]: "pos_rest C (Some (position_completed i phase)) = []"
  by (simp add: pos_rest_def position_completed_def)

lemma pass_over_ok:
  assumes "pass_over ss r = (res, r')" and "since md (tr_cursor r) ss" and "ancestry_ok age md"
    and "pos_rest C (tr_cursor r) = []"
  shows "\<exists>bs. since md (tr_cursor r') bs \<and> length bs \<le> length ss \<and>
    passes C (tr_policy r) md (tr_cursor r) (tr_cursor r') [] \<and> pos_rest C (tr_cursor r') = [] \<and>
    same_reader r r' \<and> tr_unit r' = tr_unit r \<and>
    (case res of
       Inl _ \<Rightarrow> True
     | Inr None \<Rightarrow> bs = []
     | Inr (Some s) \<Rightarrow> bs \<noteq> [] \<and> hd bs = s \<and> classify s (tr_policy r) = Inr SnapshotRead)"
  using assms
proof (induction ss arbitrary: r)
  case Nil
  then show ?case by (auto simp: same_reader_refl passes_refl intro!: exI [of _ "[]"])
next
  case (Cons s ss)
  show ?case
  proof (cases "classify s (tr_policy r) = Inr SnapshotSkip")
    case False
    with Cons.prems(1) have "r' = r" "case res of Inl _ \<Rightarrow> True | Inr None \<Rightarrow> False | Inr (Some t) \<Rightarrow> t = s \<and> classify s (tr_policy r) = Inr SnapshotRead"
      by (auto split: sum.splits SnapshotAction.splits)
    with Cons.prems show ?thesis
      by (intro exI [of _ "s # ss"]) (auto simp: same_reader_refl passes_refl split: sum.splits option.splits)
  next
    case True
    let ?c = "Some (position_completed (sn_id s) Incremental)"
    define r0 where "r0 = finish_snapshot (sn_timestamp_ms s) (r\<lparr>tr_cursor := ?c\<rparr>)"
    have r: "tr_cursor r0 = ?c" "tr_policy r0 = tr_policy r" "same_reader r r0" "tr_unit r0 = tr_unit r"
      by (simp_all add: r0_def finish_snapshot_def same_reader_def)
    have tail: "since md ?c ss"
      by (rule since_tail [OF Cons.prems(3,2)]) (simp add: position_completed_def position_start_def)
    have step: "passes C (tr_policy r) md (tr_cursor r) ?c []"
      using Cons.prems(2,4) tail True
      by (intro passesI [of _ _ "[s]" ss]) (simp_all add: readable_def snapshot_rows_def)
    have "pass_over ss r0 = (res, r')" using Cons.prems(1) True by (simp add: r0_def)
    from Cons.IH [OF this, unfolded r] tail Cons.prems(3) obtain bs where
      "since md (tr_cursor r') bs" "length bs \<le> length ss" "passes C (tr_policy r) md ?c (tr_cursor r') []"
      "pos_rest C (tr_cursor r') = []" "same_reader r0 r'" "tr_unit r' = tr_unit r"
      "case res of Inl _ \<Rightarrow> True | Inr None \<Rightarrow> bs = []
        | Inr (Some s) \<Rightarrow> bs \<noteq> [] \<and> hd bs = s \<and> classify s (tr_policy r) = Inr SnapshotRead"
      by auto
    with passes_trans [OF step, of "tr_cursor r'" "[]"] r(3) show ?thesis
      by (intro exI [of _ bs]) (simp add: same_reader_def)
  qed
qed

text \<open>A unit that continues what the cursor has read: the cursor's own, or that of the next snapshot.\<close>

definition continues ::
  "'v unit_rows \<Rightarrow> OnNonAppendSnapshot \<Rightarrow> (('s, 'n) FileScanTask \<Rightarrow> 'v list list) \<Rightarrow> TableMetadata \<Rightarrow> Position option
     \<Rightarrow> ('s, 'n, 'ty, 'v) Unit \<Rightarrow> Snapshot list \<Rightarrow> bool" where
  "continues C policy rows md op u bs \<longleftrightarrow>
     (\<exists>p. op = Some p \<and> \<not> complete p \<and> since md op bs \<and> un_snapshot_id u = pos_snapshot_id p \<and>
        unit_rest rows u = pos_rest C op) \<or>
     (\<exists>s. since md op (s # bs) \<and> classify s policy = Inr SnapshotRead \<and> pos_rest C op = [] \<and>
        un_snapshot_id u = sn_id s \<and> unit_rest rows u = concat (C Incremental (sn_id s)))"

lemma continues_passes:
  assumes "continues C policy rows md op u bs" and "ancestry_ok age md" and "pos_snapshot_id p = un_snapshot_id u"
    and "xs @ pos_rest C (Some p) = unit_rest rows u"
  shows "passes C policy md op (Some p) xs \<and> since md (Some p) bs"
  using assms(1) unfolding continues_def
proof (elim disjE exE conjE)
  fix q
  assume "op = Some q" "since md op bs" "un_snapshot_id u = pos_snapshot_id q" "unit_rest rows u = pos_rest C op"
  with assms(3,4) show ?thesis
    by (auto simp: since_def intro!: passesI [of _ _ "[]" bs])
next
  fix s
  assume s: "since md op (s # bs)" "classify s policy = Inr SnapshotRead" "pos_rest C op = []"
    "un_snapshot_id u = sn_id s" "unit_rest rows u = concat (C Incremental (sn_id s))"
  have "since md (Some p) bs" by (rule since_tail [OF assms(2) s(1)]) (use assms(3) s(4) in simp)
  with s assms(4) show ?thesis
    by (auto simp: readable_def snapshot_rows_def intro!: passesI [of _ _ "[s]" bs])
qed

text \<open>The unit a call of \<open>next_batch\<close> starts with.\<close>

definition take_unit ::
  "('s, 'n, 'ty, 'v) TableReader
     \<Rightarrow> ((PluginError + ('s, 'n, 'ty, 'v) Unit option) \<times> ('s, 'n, 'ty, 'v) TableReader) option" where
  "take_unit r =
     (case tr_unit r of Some u \<Rightarrow> Some (Inr (Some u), r\<lparr>tr_unit := None\<rparr>) | None \<Rightarrow> open_next_unit r)"

definition takes_unit ::
  "(int \<Rightarrow> nat) \<Rightarrow> 'v unit_rows \<Rightarrow> (('s, 'n) FileScanTask \<Rightarrow> 'v list list) \<Rightarrow> ('s, 'n, 'ty, 'v) TableReader
     \<Rightarrow> Snapshot list \<Rightarrow> bool" where
  "takes_unit age C rows r ss \<longleftrightarrow>
     (\<exists>res r1. take_unit r = Some (res, r1) \<and> reader_ok age C rows r1 \<and> same_reader r r1 \<and> tr_unit r1 = None \<and>
        passes C (tr_policy r) (tb_metadata (tr_table r)) (tr_cursor r) (tr_cursor r1) [] \<and>
        (case res of
           Inl _ \<Rightarrow> True
         | Inr None \<Rightarrow> since (tb_metadata (tr_table r)) (tr_cursor r1) [] \<and> pos_rest C (tr_cursor r1) = []
         | Inr (Some u) \<Rightarrow> unit_at C rows u \<and>
             (\<exists>bs. continues C (tr_policy r) rows (tb_metadata (tr_table r)) (tr_cursor r1) u bs \<and>
                2 * length bs < 2 * length ss + (case tr_cursor r of Some p \<Rightarrow> if complete p then 0 else 1 | None \<Rightarrow> 0))))"

lemma take_unit_running:
  assumes "reader_ok age C rows r" and "since (tb_metadata (tr_table r)) (tr_cursor r) ss" and "tr_unit r = Some u"
  shows "takes_unit age C rows r ss"
proof -
  have u: "unit_at C rows u" "\<not> is_done u" "tr_cursor r = Some (unit_position u)"
    using assms(1,3) by (simp_all add: reader_ok_def)
  then have "continues C (tr_policy r) rows (tb_metadata (tr_table r)) (tr_cursor r) u ss" "\<not> complete (unit_position u)"
    using assms(2) unit_position_rest [OF u(1)]
    by (simp_all add: continues_def unit_position_id) (simp_all add: unit_position_def)
  with assms u passes_refl [OF assms(2)] show ?thesis
    by (auto simp: takes_unit_def take_unit_def reader_ok_def same_reader_def)
qed

lemma take_unit_resume:
  assumes "reader_ok age C rows r" and "since (tb_metadata (tr_table r)) (tr_cursor r) ss"
    and "tr_unit r = None" "tr_cursor r = Some p" "\<not> complete p"
  shows "takes_unit age C rows r ss"
proof (cases "open_unit (tr_table r) (tr_schema r) p (tr_batch_size r)")
  case (Inl e)
  with assms passes_refl [OF assms(2)] show ?thesis
    by (simp add: takes_unit_def take_unit_def open_next_unit_def same_reader_refl)
next
  case (Inr u)
  have "table_lawful age C rows (tr_schema r) (tr_table r)" using assms(1) by (simp add: reader_ok_def)
  from open_unit_at [OF Inr this assms(5)]
  have "unit_at C rows u" "continues C (tr_policy r) rows (tb_metadata (tr_table r)) (tr_cursor r) u ss"
    using assms by (auto simp: continues_def)
  with Inr assms passes_refl [OF assms(2)] show ?thesis
    by (auto simp: takes_unit_def take_unit_def open_next_unit_def same_reader_refl)
qed

lemma pos_rest_start: "pos_rest C (Some (position_start i phase)) = concat (C phase i)"
  by (cases "C phase i") (simp_all add: pos_rest_def position_start_def)

lemma take_unit_next:
  assumes ok: "reader_ok age C rows r" and ss: "since (tb_metadata (tr_table r)) (tr_cursor r) ss"
    and none: "tr_unit r = None" and complete: "\<And>p. tr_cursor r = Some p \<Longrightarrow> complete p"
  shows "takes_unit age C rows r ss"
proof -
  let ?md = "tb_metadata (tr_table r)"
  have law: "table_lawful age C rows (tr_schema r) (tr_table r)" "ancestry_ok age ?md"
    using ok by (auto simp: reader_ok_def table_lawful_def)
  have empty: "pos_rest C (tr_cursor r) = []" using complete by (cases "tr_cursor r") (simp_all add: pos_rest_def)
  obtain res r1 where over: "pass_over ss r = (res, r1)" by fastforce
  from pass_over_ok [OF over ss law(2) empty] obtain bs where bs:
    "since ?md (tr_cursor r1) bs" "length bs \<le> length ss"
    "passes C (tr_policy r) ?md (tr_cursor r) (tr_cursor r1) []" "pos_rest C (tr_cursor r1) = []"
    "same_reader r r1" "tr_unit r1 = tr_unit r"
    "case res of Inl _ \<Rightarrow> True | Inr None \<Rightarrow> bs = []
      | Inr (Some s) \<Rightarrow> bs \<noteq> [] \<and> hd bs = s \<and> classify s (tr_policy r) = Inr SnapshotRead" by blast
  have ok1: "reader_ok age C rows r1" using ok bs(5,6) none by (simp add: reader_ok_def same_reader_def)
  have open': "take_unit r = (case res of Inl e \<Rightarrow> Some (Inl e, r1) | Inr None \<Rightarrow> Some (Inr None, r1)
      | Inr (Some s) \<Rightarrow> Some (res_bind (open_unit (tr_table r1) (tr_schema r1)
          (position_start (sn_id s) Incremental) (tr_batch_size r1)) (\<lambda>u. Inr (Some u)), r1))"
    using none complete over ss
    by (auto simp: take_unit_def open_next_unit_def since_def Let_def split: option.splits sum.splits)
  show ?thesis
  proof (cases "\<exists>s u. res = Inr (Some s) \<and>
      open_unit (tr_table r1) (tr_schema r1) (position_start (sn_id s) Incremental) (tr_batch_size r1) = Inr u")
    case True
    then obtain s u where s: "res = Inr (Some s)"
      "open_unit (tr_table r) (tr_schema r) (position_start (sn_id s) Incremental) (tr_batch_size r) = Inr u"
      using bs(5) by (auto simp: same_reader_def)
    from open_unit_at [OF s(2) law(1)]
    have u: "unit_at C rows u" "unit_rest rows u = concat (C Incremental (sn_id s))" "un_snapshot_id u = sn_id s"
      by (simp_all add: pos_rest_start) (simp_all add: position_start_def)
    from bs s(1) obtain cs where "bs = s # cs" by (cases bs) auto
    then have "continues C (tr_policy r) rows ?md (tr_cursor r1) u cs" "2 * length cs < 2 * length ss"
      using bs s(1) u by (auto simp: continues_def)
    with open' s u(1) bs ok1 none show ?thesis by (auto simp: takes_unit_def same_reader_def)
  next
    case False
    then consider e where "take_unit r = Some (Inl e, r1)" | "take_unit r = Some (Inr None, r1)" "bs = []"
      using open' bs(7)
      by (cases res; cases "open_unit (tr_table r1) (tr_schema r1)
            (position_start (sn_id (the (projr res))) Incremental) (tr_batch_size r1)")
         (auto split: option.splits)
    then show ?thesis using bs ok1 none by cases (simp_all add: takes_unit_def)
  qed
qed

lemma take_unit_ok:
  assumes "reader_ok age C rows r" and "since (tb_metadata (tr_table r)) (tr_cursor r) ss"
  shows "takes_unit age C rows r ss"
  using take_unit_running [OF assms] take_unit_resume [OF assms] take_unit_next [OF assms]
  by (cases "tr_unit r"; cases "tr_cursor r") auto

text \<open>
  A call of \<open>next_batch\<close> returns; what it returns are the next rows of the table, at most the batch size
  and at least one, and it is caught up only when nothing is left.
\<close>

definition reads_on ::
  "(int \<Rightarrow> nat) \<Rightarrow> 'v unit_rows \<Rightarrow> (('s, 'n) FileScanTask \<Rightarrow> 'v list list) \<Rightarrow> ('s, 'n, 'ty, 'v) TableReader
     \<Rightarrow> PluginError + ('v list list \<times> 'batch) option \<Rightarrow> ('s, 'n, 'ty, 'v) TableReader \<Rightarrow> bool" where
  "reads_on age C rows r res r' \<longleftrightarrow>
     reader_ok age C rows r' \<and> same_reader r r' \<and>
     passes C (tr_policy r) (tb_metadata (tr_table r)) (tr_cursor r) (tr_cursor r') (batch_rows res) \<and>
     length (batch_rows res) \<le> tr_batch_size r \<and>
     (case res of
        Inl _ \<Rightarrow> True
      | Inr None \<Rightarrow> since (tb_metadata (tr_table r)) (tr_cursor r') [] \<and> pos_rest C (tr_cursor r') = []
      | Inr (Some _) \<Rightarrow> batch_rows res \<noteq> [])"

lemma reads_on_step:
  assumes "same_reader r r1" and "passes C (tr_policy r) (tb_metadata (tr_table r)) (tr_cursor r) (tr_cursor r1) []"
    and "reads_on age C rows r1 res r'"
  shows "reads_on age C rows r res r'"
  using assms passes_trans [OF assms(2), of "tr_cursor r'" "batch_rows res"]
  by (auto simp: reads_on_def same_reader_def split: sum.splits option.splits)

lemma read_unit_reads_on:
  assumes "reader_ok age C rows r1" and "tr_unit r1 = None" and "unit_at C rows u"
    and cont: "continues C (tr_policy r1) rows (tb_metadata (tr_table r1)) (tr_cursor r1) u bs"
    and read: "read_unit (with_slices build) u r1 = (res, r2)"
  shows "(case res of Inr None \<Rightarrow> True | _ \<Rightarrow> reads_on age C rows r1 res r2) \<and>
    (res = Inr None \<longrightarrow> reader_ok age C rows r2 \<and> same_reader r1 r2 \<and>
       passes C (tr_policy r1) (tb_metadata (tr_table r1)) (tr_cursor r1) (tr_cursor r2) [] \<and>
       since (tb_metadata (tr_table r1)) (tr_cursor r2) bs \<and> (\<exists>p. tr_cursor r2 = Some p \<and> complete p))"
proof -
  note ok = read_unit_ok [OF read assms(3,1,2)]
  have anc: "ancestry_ok age (tb_metadata (tr_table r1))" using assms(1) by (auto simp: reader_ok_def table_lawful_def)
  have on: "passes C (tr_policy r1) (tb_metadata (tr_table r1)) (tr_cursor r1) (tr_cursor r1) []"
    using cont passes_refl by (auto simp: continues_def)
  show ?thesis
  proof (cases res)
    case (Inl e)
    with ok on show ?thesis by (auto simp: reads_on_def batch_rows_def same_reader_def)
  next
    case (Inr b)
    show ?thesis
    proof (cases b)
      case None
      with ok Inr have cur: "tr_cursor r2 = Some (position_completed (un_snapshot_id u) (un_phase u))"
        "unit_rest rows u = []" by auto
      from continues_passes [OF cont anc, of "position_completed (un_snapshot_id u) (un_phase u)" "[]"] cur ok None Inr
      show ?thesis by (auto simp: same_reader_def)
    next
      case (Some x)
      with ok Inr obtain p where p: "tr_cursor r2 = Some p" "pos_snapshot_id p = un_snapshot_id u"
        "batch_rows res @ pos_rest C (Some p) = unit_rest rows u" by auto
      from continues_passes [OF cont anc p(2,3)] p(1) ok Some Inr show ?thesis
        by (auto simp: reads_on_def same_reader_def)
    qed
  qed
qed

lemma next_batch_ok:
  assumes "reader_ok age C rows r" and "since (tb_metadata (tr_table r)) (tr_cursor r) ss"
  shows "\<exists>res r'. next_batch (with_slices build) r = Some (res, r') \<and> reads_on age C rows r res r'"
  using assms
proof (induction "2 * length ss + (case tr_cursor r of Some p \<Rightarrow> if complete p then 0 else 1 | None \<Rightarrow> 0)"
    arbitrary: r ss rule: less_induct)
  case less
  from take_unit_ok [OF less.prems] obtain out r1 where
    out: "take_unit r = Some (out, r1)" "reader_ok age C rows r1" "same_reader r r1" "tr_unit r1 = None"
      "passes C (tr_policy r) (tb_metadata (tr_table r)) (tr_cursor r) (tr_cursor r1) []"
    and cases: "case out of Inl _ \<Rightarrow> True
      | Inr None \<Rightarrow> since (tb_metadata (tr_table r)) (tr_cursor r1) [] \<and> pos_rest C (tr_cursor r1) = []
      | Inr (Some u) \<Rightarrow> unit_at C rows u \<and>
          (\<exists>bs. continues C (tr_policy r) rows (tb_metadata (tr_table r)) (tr_cursor r1) u bs \<and>
             2 * length bs < 2 * length ss + (case tr_cursor r of Some p \<Rightarrow> if complete p then 0 else 1 | None \<Rightarrow> 0))"
    by (auto simp: takes_unit_def)
  have same: "tr_policy r1 = tr_policy r" "tr_table r1 = tr_table r" using out(3) by (simp_all add: same_reader_def)
  note unfold = next_batch.simps [of "with_slices build" r, folded take_unit_def, unfolded out(1)]
  consider (stop) "out = Inr None \<or> (\<exists>e. out = Inl e)" | (unit) u where "out = Inr (Some u)" by (cases out) auto
  then show ?case
  proof cases
    case stop
    with out cases show ?thesis by (auto simp: unfold reads_on_def batch_rows_def)
  next
    case (unit u)
    obtain res r2 where read: "read_unit (with_slices build) u r1 = (res, r2)" by fastforce
    from unit cases obtain bs where u: "unit_at C rows u"
      "continues C (tr_policy r1) rows (tb_metadata (tr_table r1)) (tr_cursor r1) u bs"
      "2 * length bs < 2 * length ss + (case tr_cursor r of Some p \<Rightarrow> if complete p then 0 else 1 | None \<Rightarrow> 0)"
      by (auto simp: same)
    note on = read_unit_reads_on [OF out(2,4) u(1,2) read]
    show ?thesis
    proof (cases "res = Inr None")
      case True
      with on have r2: "reader_ok age C rows r2" "since (tb_metadata (tr_table r2)) (tr_cursor r2) bs"
        "(case tr_cursor r2 of Some p \<Rightarrow> if complete p then 0 else 1 | None \<Rightarrow> 0) = (0 :: nat)" "same_reader r1 r2"
        "passes C (tr_policy r1) (tb_metadata (tr_table r1)) (tr_cursor r1) (tr_cursor r2) []"
        by (auto simp: same_reader_def)
      from less.hyps [OF _ r2(1,2)] u(3) r2(3) obtain res' r' where
        rest: "next_batch (with_slices build) r2 = Some (res', r')" "reads_on age C rows r2 res' r'" by auto
      from rest(1) reads_on_step [OF out(3,5) reads_on_step [OF r2(4,5) rest(2)]] show ?thesis
        by (simp add: unfold unit read True)
    next
      case False
      with on have "reads_on age C rows r1 res r2" by (auto split: sum.splits option.splits)
      from reads_on_step [OF out(3,5) this] False show ?thesis
        by (auto simp: unfold unit read split: sum.splits option.splits)
    qed
  qed
qed

section \<open>The source and the host\<close>

text \<open>The fixed surroundings of a run.\<close>

record ('s, 'n, 'ty, 'v, 'batch) ic_env =
  ie_age :: "int \<Rightarrow> nat"
  ie_content :: "'v unit_rows"
  ie_rows :: "('s, 'n) FileScanTask \<Rightarrow> 'v list list"
  ie_schema :: "('s, 'ty) ReadSchema"
  ie_build :: "('ty, 'v) RecordBatch list \<Rightarrow> PluginError + 'batch"
  ie_poll_interval :: nat

text \<open>
  Ghost fields: the rows of all batches handed to the host, how many of them had been delivered when the
  last batch was asked for, the number delivered when an epoch was marked, and the persisted position with
  the number delivered when it was noted.
\<close>

record ('s, 'n, 'ty, 'v) ic_system =
  is_running :: "('s, 'n, 'ty, 'v) IcRunningState"
  is_emitted :: "'v list list"
  is_delivered :: nat
  is_marks :: "u64 \<Rightarrow> nat"
  is_persisted :: "(Position \<times> nat) option"

definition ic_md :: "('s, 'n, 'ty, 'v) IcRunningState \<Rightarrow> TableMetadata" where
  "ic_md run = tb_metadata (tr_table (ic_reader run))"

text \<open>A table loaded later: stored under the same laws, and with the lineage extended.\<close>

definition later_table ::
  "('s, 'n, 'ty, 'v, 'batch) ic_env \<Rightarrow> TableMetadata \<Rightarrow> (PluginError + ('s, 'n, 'ty, 'v) Table) option \<Rightarrow> bool" where
  "later_table E md loaded =
     (case loaded of
        Some (Inr tb) \<Rightarrow> table_lawful (ie_age E) (ie_content E) (ie_rows E) (ie_schema E) tb \<and> grows md (tb_metadata tb)
      | _ \<Rightarrow> True)"

text \<open>
  The steps: the host pulls a batch, with the reloads that are due; the answers of the storage change (an
  error goes away or appears); the host marks or finalizes an epoch. Failed reads, reloads and writes of
  the position are among them.
\<close>

inductive ic_step ::
  "('s, 'n, 'ty, 'v, 'batch) ic_env \<Rightarrow> ('s, 'n, 'ty, 'v) ic_system \<Rightarrow> ('s, 'n, 'ty, 'v) ic_system \<Rightarrow> bool"
  for E where
  pull:
    "later_table E (ic_md (is_running s)) due1 \<Longrightarrow> later_table E (ic_md (is_running s)) due2 \<Longrightarrow>
     ic_generate_batch (with_slices (ie_build E)) (ie_poll_interval E) True due1 due2 (is_running s) = Some (res, run') \<Longrightarrow>
     ic_step E s
       (s\<lparr>is_running := run', is_emitted := is_emitted s @ batch_rows res, is_delivered := length (is_emitted s)\<rparr>)"
| storage:
    "later_table E (ic_md (is_running s)) (Some (Inr tb)) \<Longrightarrow>
     ic_step E s (s\<lparr>is_running := (is_running s)\<lparr>ic_reader := set_table tb (ic_reader (is_running s))\<rparr>\<rparr>)"
| mark:
    "ic_step E s
       (s\<lparr>is_running := ic_checkpoint_marker e (is_running s),
          is_marks := (if ic_delivered (is_running s) = None then is_marks s
                       else (is_marks s)(e := is_delivered s))\<rparr>)"
| finalize:
    "ic_checkpoint_finalizer put_error e (is_running s) = (outcome', persisted, run') \<Longrightarrow>
     ic_step E s
       (s\<lparr>is_running := run',
          is_persisted := (case persisted of Some p \<Rightarrow> Some (p, is_marks s e) | None \<Rightarrow> is_persisted s)\<rparr>)"

text \<open>A source just initialized at \<open>cursor\<close>, which must lie on the lineage of the table.\<close>

definition ic_started ::
  "('s, 'n, 'ty, 'v, 'batch) ic_env \<Rightarrow> ('s, 'n, 'ty, 'v) Table \<Rightarrow> nat \<Rightarrow> OnNonAppendSnapshot \<Rightarrow> Position option
     \<Rightarrow> ('s, 'n, 'ty, 'v) ic_system" where
  "ic_started E tb batch_size policy cursor =
     \<lparr>is_running = \<lparr>ic_reader = reader_new tb (ie_schema E) batch_size policy cursor, ic_error_backoff = None,
        ic_delivered = cursor, ic_pending_epochs = []\<rparr>,
      is_emitted = [], is_delivered = 0, is_marks = (\<lambda>_. 0), is_persisted = None\<rparr>"

text \<open>A position that resumes exactly after the first \<open>n\<close> rows emitted.\<close>

definition resumes_at ::
  "('s, 'n, 'ty, 'v, 'batch) ic_env \<Rightarrow> ('s, 'n, 'ty, 'v) ic_system \<Rightarrow> Position \<Rightarrow> nat \<Rightarrow> bool" where
  "resumes_at E s p n \<longleftrightarrow>
     n \<le> is_delivered s \<and>
     passes (ie_content E) (tr_policy (ic_reader (is_running s))) (ic_md (is_running s)) (Some p)
       (tr_cursor (ic_reader (is_running s))) (drop n (is_emitted s))"

definition ic_inv :: "('s, 'n, 'ty, 'v, 'batch) ic_env \<Rightarrow> ('s, 'n, 'ty, 'v) ic_system \<Rightarrow> bool" where
  "ic_inv E s \<longleftrightarrow>
     reader_ok (ie_age E) (ie_content E) (ie_rows E) (ic_reader (is_running s)) \<and>
     tr_schema (ic_reader (is_running s)) = ie_schema E \<and>
     (\<exists>ss. since (ic_md (is_running s)) (tr_cursor (ic_reader (is_running s))) ss) \<and>
     is_delivered s \<le> length (is_emitted s) \<and>
     (\<forall>p. ic_delivered (is_running s) = Some p \<longrightarrow> resumes_at E s p (is_delivered s)) \<and>
     notes_good (resumes_at E s) (is_marks s) (ic_pending_epochs (is_running s)) \<and>
     (\<forall>p n. is_persisted s = Some (p, n) \<longrightarrow> resumes_at E s p n)"

text \<open>A reader moving on by the rows \<open>xs\<close>, perhaps on a table loaded later.\<close>

definition moves ::
  "('s, 'n, 'ty, 'v, 'batch) ic_env \<Rightarrow> ('s, 'n, 'ty, 'v) TableReader \<Rightarrow> ('s, 'n, 'ty, 'v) TableReader
     \<Rightarrow> 'v list list \<Rightarrow> bool" where
  "moves E r r' xs \<longleftrightarrow>
     reader_ok (ie_age E) (ie_content E) (ie_rows E) r' \<and> tr_schema r' = tr_schema r \<and> tr_policy r' = tr_policy r \<and>
     (\<exists>ss. since (tb_metadata (tr_table r')) (tr_cursor r') ss) \<and>
     (\<forall>op ys. passes (ie_content E) (tr_policy r) (tb_metadata (tr_table r)) op (tr_cursor r) ys \<longrightarrow>
        passes (ie_content E) (tr_policy r) (tb_metadata (tr_table r')) op (tr_cursor r') (ys @ xs))"

lemma moves_trans: "moves E r1 r2 xs \<Longrightarrow> moves E r2 r3 ys \<Longrightarrow> moves E r1 r3 (xs @ ys)"
  by (auto simp: moves_def simp flip: append_assoc)

lemma unit_at_new_reader:
  assumes "unit_at C rows u" and "reader_lawful rows rd"
  shows "unit_at C rows (u\<lparr>un_arrow_reader := rd\<rparr>)"
proof -
  have "is_done (u\<lparr>un_arrow_reader := rd\<rparr>) = is_done u" "file_rows rows (u\<lparr>un_arrow_reader := rd\<rparr>) = file_rows rows u"
    by (simp_all add: is_done_def file_rows_def)
  with assms show ?thesis
    by (cases "un_stream u"; cases "un_leftover u") (simp_all add: unit_at_def unit_ok_def)
qed

lemma moves_set_table:
  assumes "reader_ok (ie_age E) (ie_content E) (ie_rows E) r" and "tr_schema r = ie_schema E"
    and "later_table E (tb_metadata (tr_table r)) (Some (Inr tb))"
    and "since (tb_metadata (tr_table r)) (tr_cursor r) ss"
  shows "moves E r (set_table tb r) []"
proof -
  have tb: "table_lawful (ie_age E) (ie_content E) (ie_rows E) (ie_schema E) tb"
    "grows (tb_metadata (tr_table r)) (tb_metadata tb)"
    using assms(3) by (simp_all add: later_table_def)
  have "reader_ok (ie_age E) (ie_content E) (ie_rows E) (set_table tb r)"
  proof (cases "tr_unit r")
    case None
    with assms(1,2) tb(1) show ?thesis by (simp add: reader_ok_def set_table_def)
  next
    case (Some u)
    let ?u = "u\<lparr>un_arrow_reader := build_arrow_reader tb (tr_batch_size r)\<rparr>"
    have "unit_at (ie_content E) (ie_rows E) ?u"
      using assms(1) tb(1) Some
      by (intro unit_at_new_reader) (simp_all add: reader_ok_def table_lawful_def build_arrow_reader_def)
    moreover have "is_done ?u = is_done u" "unit_position ?u = unit_position u"
      by (simp_all add: is_done_def unit_position_def)
    ultimately show ?thesis using assms(1,2) tb(1) Some by (simp add: reader_ok_def set_table_def)
  qed
  moreover have "\<exists>ss'. since (tb_metadata tb) (tr_cursor r) ss'" using assms(4) tb(2) by (auto simp: grows_def)
  ultimately show ?thesis by (auto simp: moves_def set_table_def intro: passes_grows [OF _ tb(2)])
qed

lemma moves_next_batch:
  assumes "reader_ok (ie_age E) (ie_content E) (ie_rows E) r"
    and "since (tb_metadata (tr_table r)) (tr_cursor r) ss"
    and "next_batch (with_slices build) r = Some (res, r')"
  shows "moves E r r' (batch_rows res) \<and> reads_on (ie_age E) (ie_content E) (ie_rows E) r res r'"
proof -
  have on: "reads_on (ie_age E) (ie_content E) (ie_rows E) r res r'"
    using next_batch_ok [OF assms(1,2), of build] assms(3) by auto
  then obtain bs where "since (tb_metadata (tr_table r')) (tr_cursor r') bs"
    by (auto simp: reads_on_def passes_def same_reader_def)
  with on passes_trans show ?thesis by (auto simp: moves_def reads_on_def same_reader_def)
qed

text \<open>What one turn of the loop, or a whole pull, does to the running state.\<close>

definition turns ::
  "('s, 'n, 'ty, 'v, 'batch) ic_env \<Rightarrow> ('s, 'n, 'ty, 'v) IcRunningState \<Rightarrow> ('s, 'n, 'ty, 'v) IcRunningState
     \<Rightarrow> 'v list list \<Rightarrow> bool" where
  "turns E st st' xs \<longleftrightarrow>
     moves E (ic_reader st) (ic_reader st') xs \<and> ic_pending_epochs st' = ic_pending_epochs st \<and>
     (\<forall>p. ic_delivered st' = Some p \<longrightarrow>
        passes (ie_content E) (tr_policy (ic_reader st')) (ic_md st') (Some p) (tr_cursor (ic_reader st')) xs)"

definition ready :: "('s, 'n, 'ty, 'v, 'batch) ic_env \<Rightarrow> ('s, 'n, 'ty, 'v) IcRunningState \<Rightarrow> bool" where
  "ready E st \<longleftrightarrow>
     reader_ok (ie_age E) (ie_content E) (ie_rows E) (ic_reader st) \<and> tr_schema (ic_reader st) = ie_schema E \<and>
     (\<exists>ss. since (ic_md st) (tr_cursor (ic_reader st)) ss) \<and>
     (\<forall>p. ic_delivered st = Some p \<longrightarrow>
        passes (ie_content E) (tr_policy (ic_reader st)) (ic_md st) (Some p) (tr_cursor (ic_reader st)) [])"

lemma turns_ready: "turns E st st' [] \<Longrightarrow> ready E st \<Longrightarrow> ready E st'"
  by (auto simp: turns_def ready_def moves_def ic_md_def)

lemma turns_trans: "turns E st st' [] \<Longrightarrow> turns E st' st'' xs \<Longrightarrow> turns E st st'' xs"
  using moves_trans [of E "ic_reader st" "ic_reader st'" "[]" "ic_reader st''" xs] by (auto simp: turns_def)

lemma turns_refl: "ready E st \<Longrightarrow> turns E st st []"
  by (auto simp: turns_def ready_def moves_def ic_md_def)

lemma turns_refresh:
  assumes "ready E st" and "later_table E (ic_md st) (Some loaded)"
  shows "turns E st (snd (refresh loaded st)) []"
proof (cases loaded)
  case (Inl e)
  with turns_refl [OF assms(1)] show ?thesis by (simp add: refresh_def)
next
  case (Inr tb)
  with assms obtain ss where "moves E (ic_reader st) (set_table tb (ic_reader st)) []"
    using moves_set_table [of E "ic_reader st" tb] by (auto simp: ready_def ic_md_def)
  with Inr assms(1) show ?thesis by (auto simp: turns_def refresh_def ready_def moves_def ic_md_def)
qed

lemma turns_turn:
  assumes "ready E st" and "ic_turn (with_slices build) interval st = Some (res, st')"
  shows "turns E st st' (batch_rows res)" and "ic_md st' = ic_md st"
proof -
  from assms(2) obtain r where next': "next_batch (with_slices build) (ic_reader st) = Some (res, r)"
    by (auto simp: ic_turn_def)
  with assms(2) have "ic_reader st' = r" "ic_pending_epochs st' = ic_pending_epochs st"
    "ic_delivered st' = (if res = Inr None then tr_cursor r else ic_delivered st)"
    by (auto simp: ic_turn_def Let_def split: sum.splits option.splits)
  note r = next' this
  from assms(1) obtain ss where ss: "since (tb_metadata (tr_table (ic_reader st))) (tr_cursor (ic_reader st)) ss"
    "reader_ok (ie_age E) (ie_content E) (ie_rows E) (ic_reader st)" by (auto simp: ready_def ic_md_def)
  note moved = moves_next_batch [OF ss(2,1) r(1)]
  show "ic_md st' = ic_md st" using moved r by (simp add: reads_on_def same_reader_def ic_md_def)
  have "passes (ie_content E) (tr_policy (ic_reader st)) (tb_metadata (tr_table r)) (Some p) (tr_cursor r)
      ([] @ batch_rows res)" if "ic_delivered st = Some p" for p
    using moved assms(1) that unfolding moves_def ready_def ic_md_def by blast
  moreover have "passes (ie_content E) (tr_policy r) (tb_metadata (tr_table r)) (tr_cursor r) (tr_cursor r) []"
    using moved passes_refl unfolding moves_def by blast
  ultimately show "turns E st st' (batch_rows res)"
    using moved r by (auto simp: turns_def ic_md_def moves_def batch_rows_def)
qed

lemma turns_pull:
  assumes "ready E (st\<lparr>ic_delivered := tr_cursor (ic_reader st)\<rparr>)"
    and "later_table E (ic_md st) due1" and "later_table E (ic_md st) due2"
    and "ic_generate_batch (with_slices build) interval True due1 due2 st = Some (res, st')"
  shows "turns E (st\<lparr>ic_delivered := tr_cursor (ic_reader st)\<rparr>) st' (batch_rows res)"
proof -
  define st1 where "st1 = st\<lparr>ic_delivered := tr_cursor (ic_reader st)\<rparr>"
  have md: "ic_md st1 = ic_md st" by (simp add: ic_md_def st1_def)
  define st2 where "st2 = (case due1 of Some loaded \<Rightarrow> snd (refresh loaded st1) | None \<Rightarrow> st1)"
  have ready1: "ready E st1" using assms(1) by (simp add: st1_def)
  have t12: "turns E st1 st2 []"
    using turns_refresh [OF ready1] turns_refl [OF ready1] assms(2) by (auto simp: st2_def md split: option.splits)
  note ready2 = turns_ready [OF t12 ready1]
  from assms(4) obtain res3 st3 where turn: "ic_turn (with_slices build) interval st2 = Some (res3, st3)"
    by (auto simp: ic_generate_batch_def Let_def st1_def [symmetric] st2_def split: option.splits prod.splits)
  have t13: "turns E st1 st3 (batch_rows res3)" by (rule turns_trans [OF t12 turns_turn(1) [OF ready2 turn]])
  show ?thesis
  proof (cases "(res, st') = (res3, st3)")
    case True
    with t13 show ?thesis by (simp add: st1_def)
  next
    case False
    with assms(4) turn obtain loaded where again: "res3 = Inr None" "due1 = None" "due2 = Some loaded"
      "(res, st') = (Inr None, snd (refresh loaded st3)) \<or>
       ic_turn (with_slices build) interval (snd (refresh loaded st3)) = Some (res, st')"
      by (auto simp: ic_generate_batch_def Let_def st1_def [symmetric] st2_def
          split: option.splits sum.splits prod.splits if_splits bool.splits)
    have t13': "turns E st1 st3 []" using t13 again(1) by (simp add: batch_rows_def)
    note ready3 = turns_ready [OF t13' ready1]
    have "ic_md st3 = ic_md st" using turns_turn(2) [OF ready2 turn] again(2) md by (simp add: st2_def)
    with turns_refresh [OF ready3, of loaded] assms(3) again(3)
    have t34: "turns E st3 (snd (refresh loaded st3)) []" by simp
    note t14 = turns_trans [OF t13' t34]
    from again(4) show ?thesis
    proof
      assume "(res, st') = (Inr None, snd (refresh loaded st3))"
      with t14 show ?thesis by (simp add: st1_def batch_rows_def)
    next
      assume "ic_turn (with_slices build) interval (snd (refresh loaded st3)) = Some (res, st')"
      from turns_trans [OF t14 turns_turn(1) [OF turns_ready [OF t14 ready1] this]] show ?thesis by (simp add: st1_def)
    qed
  qed
qed

lemma resumes_at_move:
  assumes "resumes_at E s p n" and "is_delivered s \<le> length (is_emitted s)"
    and "moves E (ic_reader (is_running s)) (ic_reader run') xs" and "is_delivered s \<le> k"
  shows "resumes_at E (s\<lparr>is_running := run', is_emitted := is_emitted s @ xs, is_delivered := k\<rparr>) p n"
  using assms by (auto simp: resumes_at_def moves_def ic_md_def)

lemma ic_inv_pull:
  assumes inv: "ic_inv E s"
    and due: "later_table E (ic_md (is_running s)) due1" "later_table E (ic_md (is_running s)) due2"
    and gen: "ic_generate_batch (with_slices (ie_build E)) (ie_poll_interval E) True due1 due2 (is_running s) = Some (res, run')"
  shows "ic_inv E (s\<lparr>is_running := run', is_emitted := is_emitted s @ batch_rows res, is_delivered := length (is_emitted s)\<rparr>)"
    (is "ic_inv E ?s'")
proof -
  let ?run = "is_running s" and ?k = "length (is_emitted s)"
  have ready: "ready E (?run\<lparr>ic_delivered := tr_cursor (ic_reader ?run)\<rparr>)"
    using inv by (auto simp: ic_inv_def ready_def ic_md_def intro: passes_refl)
  note turned = turns_pull [OF ready due gen]
  have moved: "moves E (ic_reader ?run) (ic_reader run') (batch_rows res)" using turned by (simp add: turns_def)
  have keep: "resumes_at E ?s' p n" if "resumes_at E s p n" for p n
    by (rule resumes_at_move [OF that _ moved]) (use inv in \<open>simp_all add: ic_inv_def\<close>)
  have "resumes_at E ?s' p ?k" if "ic_delivered run' = Some p" for p
    using turned that by (simp add: turns_def resumes_at_def)
  moreover have "notes_good (resumes_at E ?s') (is_marks s) (ic_pending_epochs run')"
    using inv turned keep by (auto simp: ic_inv_def turns_def elim: notes_good_mono)
  ultimately show ?thesis using inv moved keep by (auto simp: ic_inv_def moves_def ic_md_def)
qed

lemma ic_inv_storage:
  assumes inv: "ic_inv E s" and tb: "later_table E (ic_md (is_running s)) (Some (Inr tb))"
  shows "ic_inv E (s\<lparr>is_running := (is_running s)\<lparr>ic_reader := set_table tb (ic_reader (is_running s))\<rparr>\<rparr>)"
    (is "ic_inv E ?s'")
proof -
  from inv tb have moved: "moves E (ic_reader (is_running s)) (ic_reader (is_running ?s')) []"
    using moves_set_table [of E "ic_reader (is_running s)" tb] by (auto simp: ic_inv_def ic_md_def)
  have keep: "resumes_at E ?s' p n" if "resumes_at E s p n" for p n
    using resumes_at_move [OF that _ moved, of "is_delivered s"] inv by (simp add: ic_inv_def resumes_at_def ic_md_def)
  then have "notes_good (resumes_at E ?s') (is_marks s) (ic_pending_epochs (is_running s))"
    using inv by (auto simp: ic_inv_def elim: notes_good_mono)
  with inv moved keep show ?thesis by (auto simp: ic_inv_def moves_def ic_md_def)
qed

lemma ic_inv_step: "ic_step E s s' \<Longrightarrow> ic_inv E s \<Longrightarrow> ic_inv E s'"
proof (induction rule: ic_step.induct)
  case (pull s due1 due2 res run')
  then show ?case by (intro ic_inv_pull)
next
  case (storage s tb)
  then show ?case by (intro ic_inv_storage)
next
  case (mark s e)
  have "ic_reader (ic_checkpoint_marker e (is_running s)) = ic_reader (is_running s)"
    "ic_delivered (ic_checkpoint_marker e (is_running s)) = ic_delivered (is_running s)"
    by (simp_all add: ic_checkpoint_marker_def split: option.splits)
  moreover have "notes_good (resumes_at E s)
      (if ic_delivered (is_running s) = None then is_marks s else (is_marks s)(e := is_delivered s))
      (ic_pending_epochs (ic_checkpoint_marker e (is_running s)))"
    using mark by (intro ic.mark_good) (simp_all add: ic_inv_def)
  ultimately show ?case using mark by (simp add: ic_inv_def ic_md_def resumes_at_def [abs_def])
next
  case (finalize put_error e s outcome' persisted run')
  have run: "ic_reader run' = ic_reader (is_running s)" "ic_delivered run' = ic_delivered (is_running s)"
    using finalize(1) by (auto simp: ic_checkpoint_finalizer_def Let_def split: option.splits)
  have "notes_good (resumes_at E s) (is_marks s) (ic_pending_epochs (is_running s))"
    using finalize(2) by (simp add: ic_inv_def)
  note good = ic.finish_good [OF this finalize(1)]
  from finalize(2) run good show ?case
    by (auto simp: ic_inv_def ic_md_def resumes_at_def [abs_def] split: option.splits)
qed

lemma ic_inv_started:
  assumes "table_lawful (ie_age E) (ie_content E) (ie_rows E) (ie_schema E) tb" and "batch_size > 0"
    and "since (tb_metadata tb) cursor ss"
  shows "ic_inv E (ic_started E tb batch_size policy cursor)"
  using assms by (auto simp: ic_inv_def ic_started_def reader_ok_def reader_new_def ic_md_def resumes_at_def intro: passes_refl)

definition ic_reachable ::
  "('s, 'n, 'ty, 'v, 'batch) ic_env \<Rightarrow> ('s, 'n, 'ty, 'v) ic_system \<Rightarrow> ('s, 'n, 'ty, 'v) ic_system \<Rightarrow> bool" where
  "ic_reachable E s0 s \<longleftrightarrow> (ic_step E)\<^sup>*\<^sup>* s0 s"

lemma ic_inv_reachable: "ic_reachable E s0 s \<Longrightarrow> ic_inv E s0 \<Longrightarrow> ic_inv E s"
  unfolding ic_reachable_def by (induction rule: rtranclp_induct) (auto intro: ic_inv_step)

section \<open>Properties\<close>

text \<open>
  C20: a checkpointed position resumes exactly. In every reachable state of the source and the host, under
  read errors, reloads of a growing table and failed writes: when a position has been persisted, reading the
  table from it yields the rows emitted after the first \<open>n\<close> and then what the running source still has to
  read, where the first \<open>n\<close> rows had been delivered. Nothing undelivered is skipped, nothing is read out of
  order, and no delivered row of the first \<open>n\<close> is repeated.
\<close>

theorem iceberg_resumes_exactly:
  assumes "table_lawful (ie_age E) (ie_content E) (ie_rows E) (ie_schema E) tb" and "batch_size > 0"
    and "snapshots_since (tb_metadata tb) (map_option pos_snapshot_id cursor) = Some (Inr ss)"
    and "ic_reachable E (ic_started E tb batch_size policy cursor) s"
    and "is_persisted s = Some (p, n)"
  shows "n \<le> is_delivered s \<and> is_delivered s \<le> length (is_emitted s) \<and>
    table_rest (ie_content E) (tr_policy (ic_reader (is_running s))) (ic_md (is_running s)) (Some p) =
      drop n (is_emitted s) @
      table_rest (ie_content E) (tr_policy (ic_reader (is_running s))) (ic_md (is_running s))
        (tr_cursor (ic_reader (is_running s)))"
proof -
  have "ic_inv E s"
    using ic_inv_reachable [OF assms(4)] ic_inv_started [OF assms(1,2)] assms(3) by (simp add: since_def)
  then have "resumes_at E s p n" "is_delivered s \<le> length (is_emitted s)" using assms(5) by (simp_all add: ic_inv_def)
  then show ?thesis using passes_table_rest by (auto simp: resumes_at_def)
qed

text \<open>
  C21: the reader refines the table. A call of \<open>next_batch\<close> returns, also when it has to pass over skipped
  and empty snapshots; its batch is the next rows of what is left of the table, at least one and at most the
  batch size; and it reports being caught up only when nothing is left.
\<close>

theorem next_batch_refines_table:
  assumes "reader_ok age C rows r"
    and "snapshots_since (tb_metadata (tr_table r)) (map_option pos_snapshot_id (tr_cursor r)) = Some (Inr ss)"
  shows "\<exists>res r'. next_batch (with_slices build) r = Some (res, r') \<and>
    table_rest C (tr_policy r) (tb_metadata (tr_table r)) (tr_cursor r) =
      batch_rows res @ table_rest C (tr_policy r) (tb_metadata (tr_table r)) (tr_cursor r') \<and>
    length (batch_rows res) \<le> tr_batch_size r \<and>
    (case res of
       Inl _ \<Rightarrow> True
     | Inr None \<Rightarrow> table_rest C (tr_policy r) (tb_metadata (tr_table r)) (tr_cursor r') = []
     | Inr (Some _) \<Rightarrow> batch_rows res \<noteq> [])"
proof -
  obtain res r' where "next_batch (with_slices build) r = Some (res, r')" "reads_on age C rows r res r'"
    using next_batch_ok [OF assms(1), of ss build] assms(2) by (auto simp: since_def)
  then show ?thesis
    by (intro exI [of _ res] exI [of _ r'])
       (auto simp: reads_on_def passes_table_rest table_rest_def [of _ _ _ "tr_cursor r'"] since_def
          split: sum.splits option.splits)
qed

text \<open>A table of one snapshot, which added one file of two rows.\<close>

definition one_snapshot :: Snapshot where
  "one_snapshot = \<lparr>sn_id = 1, sn_parent = None, sn_timestamp_ms = 0, sn_operation = Append\<rparr>"

definition one_entry :: ManifestEntry where
  "one_entry = \<lparr>me_status = Added, me_snapshot_id = Some 1, me_content = DataContent, me_file_path = ''f'',
     me_file_size = 10, me_record_count = 2, me_file_format = ''parquet''\<rparr>"

definition one_table :: "(unit, unit, unit, nat) Table" where
  "one_table =
     \<lparr>tb_metadata = \<lparr>current_snapshot = Some one_snapshot, snapshot_by_id = [1 \<mapsto> one_snapshot], md_properties = []\<rparr>,
      tb_plan_files = (\<lambda>_. Inl ''unavailable''),
      tb_manifest_list = (\<lambda>_. Inr [\<lparr>mf_content = DataManifest, mf_added_snapshot_id = 1, mf_has_added_files = True, mf_path = ''m''\<rparr>]),
      tb_load_manifest = (\<lambda>_. Inr [one_entry]),
      tb_parse_name_mapping = (\<lambda>_. Inr ()),
      tb_read = (\<lambda>_ _. Inr [Inr \<lparr>rb_types = [()], rb_rows = [[1], [2]]\<rparr>])\<rparr>"

definition one_schema :: "(unit, unit) ReadSchema" where
  "one_schema = \<lparr>rs_iceberg = (), rs_field_ids = [1], rs_data = [], rs_output = []\<rparr>"

definition one_env :: "(unit, unit, unit, nat, unit) ic_env" where
  "one_env = \<lparr>ie_age = nat, ie_content = (\<lambda>phase i. [[[1], [2]]]), ie_rows = (\<lambda>_. [[1], [2]]), ie_schema = one_schema,
     ie_build = (\<lambda>_. Inr ()), ie_poll_interval = 0\<rparr>"

lemma one_unit_files:
  "unit_files one_table one_schema Incremental s 1 = Inr [added_task one_schema None one_entry]" if "sn_id s = 1"
  using that by (simp add: unit_files_def added_files_def one_table_def name_mapping_def wanted_manifest_def wanted_entry_def one_entry_def)

lemma one_lawful: "table_lawful nat (\<lambda>phase i. [[[1], [2]]]) (\<lambda>_. [[1], [2]]) one_schema one_table"
proof -
  have "map (\<lambda>_. [[1], [2]]) files = [[[1 :: nat], [2]]]"
    if "snapshot_by_id (tb_metadata one_table) (sn_id s) = Some s"
      "unit_files one_table one_schema phase s (sn_id s) = Inr files" for phase s files
  proof -
    have "sn_id s = 1" using that(1) by (simp add: one_table_def split: if_splits)
    with that(2) one_unit_files show ?thesis
      by (cases phase) (auto simp: unit_files_def scan_files_def one_table_def)
  qed
  then show ?thesis
    by (auto simp: table_lawful_def reader_lawful_def ancestry_ok_def one_table_def one_snapshot_def num_rows_def
        split: if_splits)
qed

lemma one_since: "snapshots_since (tb_metadata one_table) None = Some (Inr [one_snapshot])"
  by (simp add: snapshots_since_def one_table_def walk.simps one_snapshot_def)

theorem snapshots_since_lineage_witness:
  "ancestry_ok nat (tb_metadata one_table) \<and>
   (case snapshots_since (tb_metadata one_table) None of
      Some (Inr chain) \<Rightarrow> current_snapshot (tb_metadata one_table) = Some (last chain) | _ \<Rightarrow> False)"
proof -
  have "ancestry_ok nat (tb_metadata one_table)" using one_lawful by (simp add: table_lawful_def)
  with snapshots_since_lineage [OF this, of None] one_since show ?thesis by simp
qed

theorem next_batch_refines_table_witness:
  "\<exists>res r'. next_batch (with_slices (\<lambda>_. Inr ())) (reader_new one_table one_schema 1 NonAppendError None) = Some (res, r') \<and>
     batch_rows res @ table_rest (\<lambda>phase i. [[[1], [2]]]) NonAppendError (tb_metadata one_table) (tr_cursor r') = [[1], [2]]"
proof -
  let ?r = "reader_new one_table one_schema 1 NonAppendError None"
  have "reader_ok nat (\<lambda>phase i. [[[1], [2]]]) (\<lambda>_. [[1], [2]]) ?r"
    using one_lawful by (simp add: reader_ok_def reader_new_def)
  moreover have "table_rest (\<lambda>phase i. [[[1 :: nat], [2]]]) NonAppendError (tb_metadata one_table) None = [[1], [2]]"
    by (simp add: table_rest_def one_since pos_rest_def readable_def snapshot_rows_def classify_def) (simp add: one_snapshot_def)
  ultimately show ?thesis
    using next_batch_refines_table [of nat "\<lambda>phase i. [[[1], [2]]]" "\<lambda>_. [[1], [2]]" ?r "[one_snapshot]" "\<lambda>_. Inr ()"] one_since
    by (auto simp: reader_new_def)
qed

definition one_batch :: "(unit, nat) RecordBatch" where
  "one_batch = \<lparr>rb_types = [()], rb_rows = [[2]]\<rparr>"

text \<open>The reader at \<open>n\<close> rows of the file, the rest of the batch left over.\<close>

definition one_unit :: "nat \<Rightarrow> (unit, nat) RecordBatch option \<Rightarrow> (unit, unit, unit, nat) Unit" where
  "one_unit n left =
     \<lparr>un_snapshot_id = 1, un_timestamp_ms = 0, un_phase = Incremental, un_files = [added_task one_schema None one_entry],
      un_file = 0, un_rows_in_file = n, un_skip = 0, un_stream = Some [], un_arrow_reader = tb_read one_table 1,
      un_leftover = left\<rparr>"

definition one_position :: "nat \<Rightarrow> Position" where
  "one_position n = \<lparr>pos_snapshot_id = 1, pos_phase = Incremental, files_done = 0, rows_done_in_file = n, complete = False\<rparr>"

definition one_reader :: "nat \<Rightarrow> (unit, nat) RecordBatch option \<Rightarrow> (unit, unit, unit, nat) TableReader" where
  "one_reader n left =
     (reader_new one_table one_schema 1 NonAppendError None)\<lparr>tr_cursor := Some (one_position n), tr_unit := Some (one_unit n left)\<rparr>"

lemma one_open:
  "open_unit one_table one_schema (position_start 1 Incremental) 1 =
     Inr ((one_unit 0 None)\<lparr>un_stream := None\<rparr>)"
proof -
  have "unit_files one_table one_schema Incremental one_snapshot 1 = Inr [added_task one_schema None one_entry]"
    by (rule one_unit_files) (simp add: one_snapshot_def)
  moreover have "snapshot_by_id (tb_metadata one_table) 1 = Some one_snapshot" by (simp add: one_table_def)
  ultimately show ?thesis
    by (simp add: open_unit_def position_start_def one_unit_def build_arrow_reader_def) (simp add: one_snapshot_def)
qed

lemma one_first:
  "next_batch (with_slices (\<lambda>_. Inr ())) (reader_new one_table one_schema 1 NonAppendError None) =
     Some (Inr (Some ([[1]], ())), one_reader 1 (Some one_batch))"
proof -
  have take: "open_next_unit (reader_new one_table one_schema 1 NonAppendError None) =
      Some (Inr (Some ((one_unit 0 None)\<lparr>un_stream := None\<rparr>)), reader_new one_table one_schema 1 NonAppendError None)"
    using one_open by (simp add: open_next_unit_def reader_new_def one_since classify_def one_snapshot_def)
  have "read_up_to 1 ((one_unit 0 None)\<lparr>un_stream := None\<rparr>) =
      Inr ([\<lparr>rb_types = [()], rb_rows = [[1]]\<rparr>], one_unit 1 (Some one_batch))"
    by (simp add: read_up_to_def read_loop.simps next_item_def next_from_file_def one_unit_def is_done_def one_table_def
        take_rows_of_def batch_slice_def num_rows_def one_batch_def)
  with take show ?thesis
    by (subst next_batch.simps)
       (simp add: reader_new_def read_unit_def with_slices_def one_reader_def unit_position_def is_done_def one_unit_def
          one_position_def)
qed

lemma one_second:
  "next_batch (with_slices (\<lambda>_. Inr ())) (one_reader 1 (Some one_batch)) = Some (Inr (Some ([[2]], ())), one_reader 2 None)"
proof -
  have "read_up_to 1 (one_unit 1 (Some one_batch)) = Inr ([one_batch], one_unit 2 None)"
    by (simp add: read_up_to_def read_loop.simps next_item_def one_unit_def is_done_def
        take_rows_of_def batch_slice_def num_rows_def one_batch_def)
  then show ?thesis
    by (subst next_batch.simps)
       (simp add: reader_new_def read_unit_def with_slices_def one_reader_def unit_position_def is_done_def one_unit_def
          one_position_def one_batch_def)
qed

definition one_state ::
  "nat \<Rightarrow> (unit, nat) RecordBatch option \<Rightarrow> Position option \<Rightarrow> (u64, Position) btree_map \<Rightarrow> nat list list \<Rightarrow> nat
     \<Rightarrow> (u64 \<Rightarrow> nat) \<Rightarrow> (Position \<times> nat) option \<Rightarrow> (unit, unit, unit, nat) ic_system" where
  "one_state n left delivered epochs emitted k marks persisted =
     \<lparr>is_running = \<lparr>ic_reader = one_reader n left, ic_error_backoff = None, ic_delivered = delivered,
        ic_pending_epochs = epochs\<rparr>,
      is_emitted = emitted, is_delivered = k, is_marks = marks, is_persisted = persisted\<rparr>"

lemma one_run:
  "ic_reachable one_env (ic_started one_env one_table 1 NonAppendError None)
     (one_state 2 None (Some (one_position 1)) [] [[1], [2]] 1 ((\<lambda>_. 0)(1 := 1)) (Some (one_position 1, 1)))"
proof -
  let ?b = "Some one_batch" and ?p = "Some (one_position 1)"
  have "ic_step one_env (ic_started one_env one_table 1 NonAppendError None)
      (one_state 1 ?b None [] [[1]] 0 (\<lambda>_. 0) None)"
    using ic_step.pull [of one_env "ic_started one_env one_table 1 NonAppendError None" None None] one_first
    by (simp add: later_table_def ic_started_def one_env_def ic_generate_batch_def ic_turn_def one_state_def batch_rows_def)
       (simp add: reader_new_def)
  moreover have "ic_step one_env (one_state 1 ?b None [] [[1]] 0 (\<lambda>_. 0) None)
      (one_state 2 None ?p [] [[1], [2]] 1 (\<lambda>_. 0) None)"
    using ic_step.pull [of one_env "one_state 1 ?b None [] [[1]] 0 (\<lambda>_. 0) None" None None] one_second
    by (simp add: later_table_def one_env_def ic_generate_batch_def ic_turn_def one_state_def batch_rows_def)
       (simp add: one_reader_def)
  moreover have "ic_step one_env (one_state 2 None ?p [] [[1], [2]] 1 (\<lambda>_. 0) None)
      (one_state 2 None ?p [(1, one_position 1)] [[1], [2]] 1 ((\<lambda>_. 0)(1 := 1)) None)"
    using ic_step.mark [of one_env "one_state 2 None ?p [] [[1], [2]] 1 (\<lambda>_. 0) None" 1]
    by (simp add: one_state_def ic_checkpoint_marker_def)
  moreover have "ic_step one_env (one_state 2 None ?p [(1, one_position 1)] [[1], [2]] 1 ((\<lambda>_. 0)(1 := 1)) None)
      (one_state 2 None ?p [] [[1], [2]] 1 ((\<lambda>_. 0)(1 := 1)) (Some (one_position 1, 1)))"
    using ic_step.finalize [of None 1 "one_state 2 None ?p [(1, one_position 1)] [[1], [2]] 1 ((\<lambda>_. 0)(1 := 1)) None"
        _ _ _ one_env]
    by (simp add: one_state_def ic_checkpoint_finalizer_def bt_remove_def bt_split_off_def)
  ultimately show ?thesis
    unfolding ic_reachable_def by (blast intro: converse_rtranclp_into_rtranclp rtranclp.rtrancl_refl)
qed

theorem iceberg_resumes_exactly_witness:
  "\<exists>s. ic_reachable one_env (ic_started one_env one_table 1 NonAppendError None) s \<and>
     is_persisted s = Some (one_position 1, 1) \<and> is_emitted s = [[1], [2]] \<and>
     table_rest (ie_content one_env) NonAppendError (tb_metadata one_table) (Some (one_position 1)) =
       [[2]] @ table_rest (ie_content one_env) NonAppendError (tb_metadata one_table) (Some (one_position 2))"
proof -
  have "table_lawful (ie_age one_env) (ie_content one_env) (ie_rows one_env) (ie_schema one_env) one_table"
    using one_lawful by (simp add: one_env_def)
  from iceberg_resumes_exactly [OF this _ _ one_run] one_since
  have "table_rest (ie_content one_env) NonAppendError (tb_metadata one_table) (Some (one_position 1)) =
      [[2]] @ table_rest (ie_content one_env) NonAppendError (tb_metadata one_table) (Some (one_position 2))"
    by (simp add: one_state_def one_reader_def reader_new_def ic_md_def)
  with one_run show ?thesis
    by - (rule exI, rule conjI, assumption, simp add: one_state_def)
qed

end
