(* ===== verification/Utf8.thy ===== *)
theory Utf8
  imports Prelude
begin

text \<open>
  \<open>String::from_utf8_lossy\<close> of the standard library, as the plugins use it on bytes that come from
  outside: the bytes are cut into valid characters and maximal invalid pieces, and each invalid piece
  is replaced by U+FFFD. The result is always valid UTF-8, and valid text is left as it is.
\<close>

type_synonym bytes = string

definition in_range :: "nat \<Rightarrow> nat \<Rightarrow> char \<Rightarrow> bool" where
  "in_range lo hi c \<longleftrightarrow> lo \<le> (of_char c :: nat) \<and> (of_char c :: nat) \<le> hi"

abbreviation is_cont :: "char \<Rightarrow> bool" where
  "is_cont \<equiv> in_range 0x80 0xBF"

text \<open>What may follow the first byte of a three or four byte character.\<close>

definition second_of_three :: "char \<Rightarrow> char \<Rightarrow> bool" where
  "second_of_three b c \<longleftrightarrow>
     (if of_char b = (0xE0 :: nat) then in_range 0xA0 0xBF c
      else if of_char b = (0xED :: nat) then in_range 0x80 0x9F c
      else is_cont c)"

definition second_of_four :: "char \<Rightarrow> char \<Rightarrow> bool" where
  "second_of_four b c \<longleftrightarrow>
     (if of_char b = (0xF0 :: nat) then in_range 0x90 0xBF c
      else if of_char b = (0xF4 :: nat) then in_range 0x80 0x8F c
      else is_cont c)"

text \<open>The width of the character a byte starts, 0 for a byte that starts none.\<close>

definition utf8_char_width :: "char \<Rightarrow> nat" where
  "utf8_char_width b =
     (if in_range 0 0x7F b then 1 else if in_range 0xC2 0xDF b then 2
      else if in_range 0xE0 0xEF b then 3 else if in_range 0xF0 0xF4 b then 4 else 0)"

text \<open>How many of the bytes after the first agree with the pattern of the character.\<close>

fun agreeing :: "(char \<Rightarrow> bool) list \<Rightarrow> bytes \<Rightarrow> nat" where
  "agreeing (p # ps) (c # cs) = (if p c then Suc (agreeing ps cs) else 0)"
| "agreeing _ _ = 0"

definition char_pattern :: "char \<Rightarrow> (char \<Rightarrow> bool) list" where
  "char_pattern b =
     (if utf8_char_width b = 2 then [is_cont]
      else if utf8_char_width b = 3 then [second_of_three b, is_cont]
      else if utf8_char_width b = 4 then [second_of_four b, is_cont, is_cont] else [])"

definition REPLACEMENT :: bytes where
  "REPLACEMENT = [char_of (0xEF :: nat), char_of (0xBF :: nat), char_of (0xBD :: nat)]"

text \<open>One character or one invalid piece: whether it is valid, its bytes, and the rest.\<close>

definition utf8_chunk :: "char \<Rightarrow> bytes \<Rightarrow> bool \<times> bytes \<times> bytes" where
  "utf8_chunk b cs =
     (let n = agreeing (char_pattern b) cs in
      (utf8_char_width b \<noteq> 0 \<and> n = length (char_pattern b), b # take n cs, drop n cs))"

function from_utf8_lossy :: "bytes \<Rightarrow> bytes" where
  "from_utf8_lossy [] = []"
| "from_utf8_lossy (b # cs) =
     (case utf8_chunk b cs of (ok, piece, rest) \<Rightarrow> (if ok then piece else REPLACEMENT) @ from_utf8_lossy rest)"
  by pat_completeness auto

termination from_utf8_lossy
  by (relation "measure length") (auto simp: utf8_chunk_def Let_def)

function valid_utf8 :: "bytes \<Rightarrow> bool" where
  "valid_utf8 [] \<longleftrightarrow> True"
| "valid_utf8 (b # cs) \<longleftrightarrow> (case utf8_chunk b cs of (ok, piece, rest) \<Rightarrow> ok \<and> valid_utf8 rest)"
  by pat_completeness auto

termination valid_utf8
  by (relation "measure length") (auto simp: utf8_chunk_def Let_def)

lemma agreeing_le: "agreeing ps cs \<le> length cs" "agreeing ps cs \<le> length ps"
  by (induction ps cs rule: agreeing.induct) auto

lemma agreeing_take: "agreeing ps cs = length ps \<Longrightarrow> agreeing ps (take (length ps) cs @ ds) = length ps"
  by (induction ps cs rule: agreeing.induct) (auto split: if_splits)

lemma utf8_chunk_valid:
  assumes "utf8_chunk b cs = (True, piece, rest)"
  shows "piece @ rest = b # cs" "utf8_chunk b (tl piece @ ds) = (True, piece, ds)" "hd piece = b"
  using assms agreeing_take [of "char_pattern b" cs ds] agreeing_le(1) [of "char_pattern b" cs]
  by (auto simp: utf8_chunk_def Let_def min_def)

lemma valid_utf8_piece:
  assumes "utf8_chunk b cs = (True, piece, rest)"
  shows "valid_utf8 (piece @ ds) \<longleftrightarrow> valid_utf8 ds"
proof -
  obtain t where "piece = b # t" using assms by (auto simp: utf8_chunk_def Let_def)
  with utf8_chunk_valid(2) [OF assms, of ds] show ?thesis by simp
qed

lemma valid_utf8_replacement: "valid_utf8 (REPLACEMENT @ ds) \<longleftrightarrow> valid_utf8 ds"
  by (simp add: REPLACEMENT_def utf8_chunk_def char_pattern_def utf8_char_width_def in_range_def
      second_of_three_def)

lemma from_utf8_lossy_valid: "valid_utf8 (from_utf8_lossy s)"
proof (induction s rule: from_utf8_lossy.induct)
  case (2 b cs)
  obtain ok piece rest where "utf8_chunk b cs = (ok, piece, rest)" by (cases "utf8_chunk b cs") auto
  with 2 show ?case
    by (cases ok) (auto simp: valid_utf8_piece valid_utf8_replacement)
qed simp

lemma from_utf8_lossy_id: "valid_utf8 s \<Longrightarrow> from_utf8_lossy s = s"
proof (induction s rule: from_utf8_lossy.induct)
  case (2 b cs)
  then show ?case using utf8_chunk_valid(1) [of b cs] by (auto split: prod.splits)
qed simp

end
