(* ===== verification/S2Convert.thy ===== *)
theory S2Convert
  imports CdcArrow OrderedMaps Utf8 "HOL-Library.List_Lexorder" "HOL-Library.Char_ord"
begin

text \<open>
  S2 records and their conversion to record batches: \<open>src/src/utils/s2.rs\<close> and
  \<open>src/src/sources/s2/convert.rs\<close>. The JSON decoder, the batch constructor and the printing of header
  maps belong to other crates and are parameters.
\<close>

section \<open>Row kinds\<close>

definition DBZ_OP_HEADER :: string where
  "DBZ_OP_HEADER = ''dbz.op''"

datatype RowKind = KInsert | KUpdate | KDelete

text \<open>\<open>parse_kind\<close> is the host's parser of row kinds.\<close>

definition dbz_op_from_row_kind :: "(string \<Rightarrow> RowKind option) \<Rightarrow> string \<Rightarrow> string option" where
  "dbz_op_from_row_kind parse_kind kind =
     (case parse_kind kind of
        None \<Rightarrow> None
      | Some k \<Rightarrow> Some (case k of KInsert \<Rightarrow> ''c'' | KUpdate \<Rightarrow> ''u'' | KDelete \<Rightarrow> ''d''))"

definition row_kind_from_dbz_op :: "bytes \<Rightarrow> string option" where
  "row_kind_from_dbz_op op =
     (case (if op = ''c'' \<or> op = ''r'' then Some KInsert
            else if op = ''u'' then Some KUpdate
            else if op = ''d'' then Some KDelete else None)
      of None \<Rightarrow> None
       | Some k \<Rightarrow> Some (case k of KInsert \<Rightarrow> ''i'' | KUpdate \<Rightarrow> ''u'' | KDelete \<Rightarrow> ''d''))"

section \<open>Records and output modes\<close>

definition META_STREAM :: string where "META_STREAM = ''_s2_stream''"
definition META_SEQ_NUM :: string where "META_SEQ_NUM = ''_s2_seq_num''"
definition META_TIMESTAMP :: string where "META_TIMESTAMP = ''_s2_timestamp''"

datatype S2OnMalformed = S2Error | S2Skip

datatype OutputMode = Raw | Typed "Field list" bool S2OnMalformed

record SourceRecord =
  sr_stream :: string
  sr_seq_num :: u64
  sr_timestamp :: u64
  sr_headers :: "(bytes \<times> bytes) list"
  sr_body :: bytes

definition timestamp_type :: DataType where
  "timestamp_type = DTimestamp Millisecond (Some ''UTC'')"

definition metadata_fields :: "Field list" where
  "metadata_fields =
     [\<lparr>field_name = META_STREAM, data_type = DUtf8, nullable = False\<rparr>,
      \<lparr>field_name = META_SEQ_NUM, data_type = DUInt64, nullable = False\<rparr>,
      \<lparr>field_name = META_TIMESTAMP, data_type = timestamp_type, nullable = False\<rparr>]"

definition gs_op_field :: Field where
  "gs_op_field = \<lparr>field_name = STREAMLING_COLUMN_NAME_OP, data_type = DUtf8, nullable = False\<rparr>"

definition gs_op :: "SourceRecord \<Rightarrow> string" where
  "gs_op r =
     (case find (\<lambda>(name, value). name = DBZ_OP_HEADER) (sr_headers r) of
        None \<Rightarrow> ''i''
      | Some (name, value) \<Rightarrow> (case row_kind_from_dbz_op value of None \<Rightarrow> ''i'' | Some k \<Rightarrow> k))"

section \<open>Schema specifications\<close>

definition parse_data_type :: "string \<Rightarrow> PluginError + DataType" where
  "parse_data_type ty =
     (let t = to_ascii_lowercase ty in
      if t \<in> {''bool'', ''boolean''} then Inr DBoolean
      else if t = ''int8'' then Inr DInt8
      else if t = ''int16'' then Inr DInt16
      else if t = ''int32'' then Inr DInt32
      else if t \<in> {''int64'', ''long''} then Inr DInt64
      else if t = ''uint8'' then Inr DUInt8
      else if t = ''uint16'' then Inr DUInt16
      else if t = ''uint32'' then Inr DUInt32
      else if t = ''uint64'' then Inr DUInt64
      else if t \<in> {''float32'', ''float''} then Inr DFloat32
      else if t \<in> {''float64'', ''double''} then Inr DFloat64
      else if t \<in> {''string'', ''utf8''} then Inr DUtf8
      else if t \<in> {''large_string'', ''large_utf8''} then Inr DLargeUtf8
      else if t \<in> {''date'', ''date32''} then Inr DDate32
      else if t \<in> {''timestamp_s'', ''timestamp_second''} then Inr (DTimestamp Second None)
      else if t \<in> {''timestamp'', ''timestamp_ms'', ''timestamp_millis''} then Inr (DTimestamp Millisecond None)
      else if t \<in> {''timestamp_us'', ''timestamp_micros''} then Inr (DTimestamp Microsecond None)
      else if t \<in> {''timestamp_ns'', ''timestamp_nanos''} then Inr (DTimestamp Nanosecond None)
      else Inl (Internal (''s2_source: unsupported schema field type '' @ quoted t)))"

definition parse_field_spec :: "string \<Rightarrow> PluginError + Field" where
  "parse_field_spec field_spec =
     res_bind (ok_or (Internal (''s2_source: schema field '' @ quoted field_spec @ '' must use name:type syntax''))
                (split_once CHR '':'' field_spec)) (\<lambda>(name, ty_text).
     (let name = trim name in
      if name = []
      then Inl (Internal ''s2_source: schema field name cannot be empty'')
      else
        (let ty_text = trim ty_text;
             null = (ty_text \<noteq> [] \<and> last ty_text = CHR ''?'');
             bare = trim (rev (dropWhile (\<lambda>c. c = CHR ''?'') (rev ty_text))) in
         res_bind (parse_data_type bare) (\<lambda>ty.
         Inr \<lparr>field_name = name, data_type = ty, nullable = null\<rparr>))))"

definition parse_field_specs :: "string \<Rightarrow> PluginError + Field list" where
  "parse_field_specs spec =
     res_bind (collect_results parse_field_spec
                 (filter (\<lambda>s. s \<noteq> []) (map trim (split_char CHR '','' spec)))) (\<lambda>fields.
     if fields = [] then Inl (Internal ''s2_source: schema must contain at least one field'')
     else Inr fields)"

section \<open>The converter\<close>

record TypedMode =
  user_schema :: Schema
  tm_include_metadata :: bool
  tm_on_malformed :: S2OnMalformed

record RecordConverter =
  rc_schema :: Schema
  rc_typed :: "TypedMode option"

definition record_converter_new :: "OutputMode \<Rightarrow> PluginError + RecordConverter" where
  "record_converter_new output =
     (case output of
        Raw \<Rightarrow>
          Inr \<lparr>rc_schema =
                 [gs_op_field,
                  \<lparr>field_name = ''stream'', data_type = DUtf8, nullable = False\<rparr>,
                  \<lparr>field_name = ''seq_num'', data_type = DUInt64, nullable = False\<rparr>,
                  \<lparr>field_name = ''timestamp'', data_type = timestamp_type, nullable = False\<rparr>,
                  \<lparr>field_name = ''headers'', data_type = DUtf8, nullable = True\<rparr>,
                  \<lparr>field_name = ''body'', data_type = DUtf8, nullable = False\<rparr>],
               rc_typed = None\<rparr>
      | Typed fs include_metadata on_malformed \<Rightarrow>
          (let reserved = gs_op_field # (if include_metadata then metadata_fields else []) in
           case find (\<lambda>f. list_ex (\<lambda>r. field_name r = field_name f) reserved) fs of
             Some f \<Rightarrow>
               Inl (Internal (''s2_source: schema field '' @ quoted (field_name f)
                      @ '' collides with a reserved column''))
           | None \<Rightarrow>
               Inr \<lparr>rc_schema = gs_op_field # fs @ (if include_metadata then metadata_fields else []),
                    rc_typed = Some \<lparr>user_schema = fs, tm_include_metadata = include_metadata,
                                     tm_on_malformed = on_malformed\<rparr>\<rparr>))"

text \<open>
  A decoded batch: its columns and its number of rows. What the code uses of the JSON decoder, a push
  parser that is given text piece by piece: \<open>dec_build\<close> makes one with a budget of rows, \<open>dec_decode\<close>
  reads a prefix of the text it is given and says how long it is, \<open>dec_flush\<close> returns the rows read so far.
  \<open>batch_invalid\<close> is the check of the batch constructor.
\<close>

record 'v user_batch =
  ub_columns :: "'v list list"
  ub_num_rows :: nat

datatype 'v s2_column =
    SUtf8 "string option list"
  | SUInt64 "u64 list"
  | STimestampMs "int list" "string option"
  | SUser "'v list"

record ('d, 'v) s2_foreign =
  dec_build :: "Schema \<Rightarrow> nat \<Rightarrow> ArrowError + 'd"
  dec_decode :: "'d \<Rightarrow> bytes \<Rightarrow> (string + nat) \<times> 'd"
  dec_flush :: "'d \<Rightarrow> ArrowError + 'v user_batch option"
  concat_batches :: "Schema \<Rightarrow> 'v user_batch list \<Rightarrow> ArrowError + 'v user_batch"
  print_string_map :: "(string, string) btree_map \<Rightarrow> string"
  batch_invalid :: "Schema \<Rightarrow> 'v s2_column list \<Rightarrow> ArrowError option"

definition batch_try_new ::
  "('d, 'v) s2_foreign \<Rightarrow> Schema \<Rightarrow> 'v s2_column list \<Rightarrow> ArrowError + 'v s2_column list" where
  "batch_try_new F schema columns =
     (case batch_invalid F schema columns of None \<Rightarrow> Inr columns | Some e \<Rightarrow> Inl e)"

fun s2_column_length :: "'v s2_column \<Rightarrow> nat" where
  "s2_column_length (SUtf8 v) = length v"
| "s2_column_length (SUInt64 v) = length v"
| "s2_column_length (STimestampMs v tz) = length v"
| "s2_column_length (SUser v) = length v"

definition empty_user_batch :: "Schema \<Rightarrow> 'v user_batch" where
  "empty_user_batch schema = \<lparr>ub_columns = map (\<lambda>_. []) schema, ub_num_rows = 0\<rparr>"

text \<open>\<open>i64::try_from\<close> with the greatest value as fallback: a timestamp beyond the range is clamped.\<close>

definition clamp_timestamp :: "u64 \<Rightarrow> int" where
  "clamp_timestamp t = (if uint t \<le> 2 ^ 63 - 1 then uint t else 2 ^ 63 - 1)"

definition gs_op_array :: "SourceRecord list \<Rightarrow> 'v s2_column" where
  "gs_op_array records = SUtf8 (map (\<lambda>r. Some (gs_op r)) records)"

definition metadata_arrays :: "SourceRecord list \<Rightarrow> 'v s2_column list" where
  "metadata_arrays records =
     [SUtf8 (map (\<lambda>r. Some (sr_stream r)) records),
      SUInt64 (map sr_seq_num records),
      STimestampMs (map (\<lambda>r. clamp_timestamp (sr_timestamp r)) records) (Some ''UTC'')]"

definition headers_json :: "('d, 'v) s2_foreign \<Rightarrow> SourceRecord \<Rightarrow> string option" where
  "headers_json F r =
     (if sr_headers r = [] then None
      else Some (print_string_map F
             (fold (\<lambda>(name, value). bt_insert (from_utf8_lossy name) (from_utf8_lossy value)) (sr_headers r) [])))"

section \<open>Decoding bodies\<close>

definition is_ascii_whitespace :: "char \<Rightarrow> bool" where
  "is_ascii_whitespace c \<longleftrightarrow> (of_char c :: nat) \<in> {32, 9, 10, 12, 13}"

definition trim_ascii :: "bytes \<Rightarrow> bytes" where
  "trim_ascii s = rev (dropWhile is_ascii_whitespace (rev (dropWhile is_ascii_whitespace s)))"

definition decode_error :: "string \<Rightarrow> u64 \<Rightarrow> string \<Rightarrow> PluginError" where
  "decode_error stream seq_num message =
     Internal (''s2_source: failed to decode record body (stream '' @ quoted stream @ '', seq_num ''
       @ show_nat (unat seq_num) @ ''): '' @ message)"

text \<open>Feeding a text to the decoder until it is used up; true when the decoder takes no more of it.\<close>

function feed :: "('d, 'v) s2_foreign \<Rightarrow> bytes \<Rightarrow> 'd \<Rightarrow> (string + bool) \<times> 'd" where
  "feed F buf d =
     (if buf = [] then (Inr False, d)
      else (case dec_decode F d buf of
              (Inl e, d') \<Rightarrow> (Inl e, d')
            | (Inr consumed, d') \<Rightarrow>
                if consumed = 0 then (Inr True, d') else feed F (drop consumed buf) d'))"
  by pat_completeness auto

termination feed
  by (relation "measure (\<lambda>(F, buf, d). length buf)") auto

declare feed.simps [simp del]

definition decodes_to_one_row :: "('d, 'v) s2_foreign \<Rightarrow> Schema \<Rightarrow> SourceRecord \<Rightarrow> bool" where
  "decodes_to_one_row F schema r =
     (case dec_build F schema 2 of
        Inl _ \<Rightarrow> False
      | Inr d \<Rightarrow>
          (case feed F (trim_ascii (sr_body r)) d of
             (Inr False, d') \<Rightarrow>
               (case dec_flush F d' of Inr (Some b) \<Rightarrow> ub_num_rows b = 1 | _ \<Rightarrow> False)
           | _ \<Rightarrow> False))"

fun decode_records ::
  "('d, 'v) s2_foreign \<Rightarrow> Schema \<Rightarrow> SourceRecord list \<Rightarrow> SourceRecord list \<Rightarrow> 'd \<Rightarrow> PluginError + 'd" where
  "decode_records F schema done [] d = Inr d"
| "decode_records F schema done (r # rs) d =
     (let buf = trim_ascii (sr_body r) in
      if buf = [] then Inl (decode_error (sr_stream r) (sr_seq_num r) ''record body is empty'')
      else
        (case feed F buf d of
           (Inl e, d') \<Rightarrow> Inl (decode_error (sr_stream r) (sr_seq_num r) e)
         | (Inr True, d') \<Rightarrow>
             (let offender = (case find (\<lambda>c. \<not> decodes_to_one_row F schema c) (done @ [r]) of
                                None \<Rightarrow> r | Some c \<Rightarrow> c) in
              Inl (decode_error (sr_stream offender) (sr_seq_num offender)
                     ''record body contains more than one JSON value''))
         | (Inr False, d') \<Rightarrow> decode_records F schema (done @ [r]) rs d'))"

definition decode_strict ::
  "('d, 'v) s2_foreign \<Rightarrow> Schema \<Rightarrow> SourceRecord list \<Rightarrow> PluginError + 'v user_batch" where
  "decode_strict F schema records =
     res_bind (map_err ArrowFailure (dec_build F schema (length records))) (\<lambda>d.
     res_bind (decode_records F schema [] records d) (\<lambda>d'.
     res_bind (map_err ArrowFailure (dec_flush F d')) (\<lambda>flushed.
     (let batch = (case flushed of None \<Rightarrow> empty_user_batch schema | Some b \<Rightarrow> b) in
      if ub_num_rows batch \<noteq> length records
      then Inl (Internal (''s2_source: decoded '' @ show_nat (ub_num_rows batch) @ '' rows from ''
             @ show_nat (length records) @ '' records; record bodies must each be a single JSON object''))
      else Inr batch))))"

text \<open>The records that decode on their own, with their positions.\<close>

fun decode_each ::
  "('d, 'v) s2_foreign \<Rightarrow> Schema \<Rightarrow> nat \<Rightarrow> SourceRecord list \<Rightarrow> 'v user_batch list \<times> nat list" where
  "decode_each F schema index [] = ([], [])"
| "decode_each F schema index (r # rs) =
     (let (batches, kept) = decode_each F schema (Suc index) rs in
      case decode_strict F schema [r] of
        Inr b \<Rightarrow> (b # batches, index # kept)
      | Inl _ \<Rightarrow> (batches, kept))"

definition decode_skipping ::
  "('d, 'v) s2_foreign \<Rightarrow> Schema \<Rightarrow> SourceRecord list \<Rightarrow> PluginError + 'v user_batch \<times> nat list" where
  "decode_skipping F schema records =
     (let (batches, kept) = decode_each F schema 0 records in
      if batches = [] then Inr (empty_user_batch schema, kept)
      else res_bind (map_err ArrowFailure (concat_batches F schema batches)) (\<lambda>b. Inr (b, kept)))"

section \<open>Conversion\<close>

definition raw_columns :: "('d, 'v) s2_foreign \<Rightarrow> SourceRecord list \<Rightarrow> 'v s2_column list" where
  "raw_columns F records =
     gs_op_array records # metadata_arrays records @
     [SUtf8 (map (headers_json F) records),
      SUtf8 (map (\<lambda>r. Some (from_utf8_lossy (sr_body r))) records)]"

definition convert_raw ::
  "('d, 'v) s2_foreign \<Rightarrow> RecordConverter \<Rightarrow> SourceRecord list \<Rightarrow> PluginError + 'v s2_column list" where
  "convert_raw F c records = map_err ArrowFailure (batch_try_new F (rc_schema c) (raw_columns F records))"

definition typed_columns :: "bool \<Rightarrow> SourceRecord list \<Rightarrow> 'v user_batch \<Rightarrow> 'v s2_column list" where
  "typed_columns include_metadata kept batch =
     gs_op_array kept # map SUser (ub_columns batch) @ (if include_metadata then metadata_arrays kept else [])"

definition decode_typed ::
  "('d, 'v) s2_foreign \<Rightarrow> TypedMode \<Rightarrow> SourceRecord list \<Rightarrow> PluginError + 'v user_batch \<times> SourceRecord list" where
  "decode_typed F m records =
     (case decode_strict F (user_schema m) records of
        Inr batch \<Rightarrow> Inr (batch, records)
      | Inl e \<Rightarrow>
          (case tm_on_malformed m of
             S2Error \<Rightarrow> Inl e
           | S2Skip \<Rightarrow>
               res_bind (decode_skipping F (user_schema m) records)
                 (\<lambda>(batch, kept). Inr (batch, map (\<lambda>i. records ! i) kept))))"

text \<open>The result is the list of columns; an empty input gives the empty batch.\<close>

definition s2_convert ::
  "('d, 'v) s2_foreign \<Rightarrow> RecordConverter \<Rightarrow> SourceRecord list \<Rightarrow> PluginError + 'v s2_column list option" where
  "s2_convert F c records =
     (if records = [] then Inr None
      else
        (case rc_typed c of
           None \<Rightarrow> res_bind (convert_raw F c records) (\<lambda>b. Inr (Some b))
         | Some m \<Rightarrow>
             res_bind (decode_typed F m records) (\<lambda>(batch, kept).
             res_bind (map_err ArrowFailure
               (batch_try_new F (rc_schema c) (typed_columns (tm_include_metadata m) kept batch)))
               (\<lambda>b. Inr (Some b)))))"

section \<open>Rows and records\<close>

definition ub_rows :: "'v user_batch \<Rightarrow> 'v list list" where
  "ub_rows b = map (\<lambda>i. map (\<lambda>c. c ! i) (ub_columns b)) [0..<ub_num_rows b]"

definition ub_rect :: "'v user_batch \<Rightarrow> bool" where
  "ub_rect b \<longleftrightarrow> list_all (\<lambda>c. length c = ub_num_rows b) (ub_columns b)"

text \<open>
  The laws of the arrow crate: the columns of a batch have one entry per row, and concatenating batches
  puts their rows one after the other.
\<close>

definition arrow_lawful :: "('d, 'v) s2_foreign \<Rightarrow> bool" where
  "arrow_lawful F \<longleftrightarrow>
     (\<forall>d b. dec_flush F d = Inr (Some b) \<longrightarrow> ub_rect b) \<and>
     (\<forall>schema bs b. concat_batches F schema bs = Inr b \<longrightarrow> ub_rect b \<and> ub_rows b = concat (map ub_rows bs))"

text \<open>A record whose body decodes to one row on its own, and that row.\<close>

definition decodes_alone :: "('d, 'v) s2_foreign \<Rightarrow> Schema \<Rightarrow> SourceRecord \<Rightarrow> bool" where
  "decodes_alone F schema r = (case decode_strict F schema [r] of Inl _ \<Rightarrow> False | Inr _ \<Rightarrow> True)"

definition row_of :: "('d, 'v) s2_foreign \<Rightarrow> Schema \<Rightarrow> SourceRecord \<Rightarrow> 'v list" where
  "row_of F schema r = (case decode_strict F schema [r] of Inl _ \<Rightarrow> [] | Inr b \<Rightarrow> hd (ub_rows b))"

lemma decode_strict_Inr:
  assumes "decode_strict F schema records = Inr b"
  shows "ub_num_rows b = length records" and "arrow_lawful F \<Longrightarrow> ub_rect b"
  using assms
  by (auto simp: decode_strict_def arrow_lawful_def empty_user_batch_def ub_rect_def list_all_iff Let_def outcome
      split: if_splits option.splits)

lemma ub_rows_one: "decode_strict F schema [r] = Inr b \<Longrightarrow> ub_rows b = [row_of F schema r]"
  using decode_strict_Inr(1) [of F schema "[r]" b] by (simp add: row_of_def ub_rows_def)

lemma decode_each_spec:
  "decode_each F schema index rs = (batches, kept) \<Longrightarrow>
   kept = map (\<lambda>i. index + i) (filter (\<lambda>i. decodes_alone F schema (rs ! i)) [0..<length rs]) \<and>
   concat (map ub_rows batches) = map (row_of F schema) (filter (decodes_alone F schema) rs)"
proof (induction rs arbitrary: index batches kept)
  case (Cons r rs)
  obtain bs ks where e: "decode_each F schema (Suc index) rs = (bs, ks)" by fastforce
  have index: "[0..<length (r # rs)] = 0 # map Suc [0..<length rs]"
    by (simp add: map_Suc_upt upt_conv_Cons del: upt_Suc)
  have upt: "filter (\<lambda>i. decodes_alone F schema ((r # rs) ! i)) [0..<length (r # rs)] =
      (if decodes_alone F schema r then [0] else []) @ map Suc (filter (\<lambda>i. decodes_alone F schema (rs ! i)) [0..<length rs])"
    unfolding index by (simp add: filter_map comp_def)
  have alone: "decodes_alone F schema r \<longleftrightarrow> \<not> isl (decode_strict F schema [r])"
    by (simp add: decodes_alone_def split: sum.splits)
  show ?case
    using Cons.IH [OF e] Cons.prems unfolding upt
    by (cases "decode_strict F schema [r]") (auto simp: alone comp_def e dest: ub_rows_one)
qed simp

lemma decode_skipping_spec:
  assumes "decode_skipping F schema rs = Inr (b, kept)" and "arrow_lawful F"
  shows "kept = filter (\<lambda>i. decodes_alone F schema (rs ! i)) [0..<length rs]"
    and "ub_rows b = map (row_of F schema) (filter (decodes_alone F schema) rs)" and "ub_rect b"
proof -
  obtain bs where e: "decode_each F schema 0 rs = (bs, kept)"
    using assms(1) by (auto simp: decode_skipping_def split_beta Let_def outcome prod_eq_iff split: if_splits)
  note each = decode_each_spec [OF e]
  show "kept = filter (\<lambda>i. decodes_alone F schema (rs ! i)) [0..<length rs]" using each by simp
  show "ub_rows b = map (row_of F schema) (filter (decodes_alone F schema) rs)" "ub_rect b"
    using assms e each
    by (auto simp: decode_skipping_def arrow_lawful_def ub_rows_def ub_rect_def list_all_iff empty_user_batch_def outcome
        split: if_splits)
qed

lemma map_nth_filter: "map (\<lambda>i. rs ! i) (filter (\<lambda>i. P (rs ! i)) [0..<length rs]) = filter P rs"
proof -
  have "filter P rs = filter P (map (\<lambda>i. rs ! i) [0..<length rs])" by (simp add: map_nth)
  then show ?thesis by (simp add: filter_map comp_def)
qed

lemma decode_typed_spec:
  assumes "decode_typed F m records = Inr (batch, kept)" and "arrow_lawful F"
  shows "ub_rect batch \<and> ub_num_rows batch = length kept \<and>
         (kept = records \<or> tm_on_malformed m = S2Skip \<and> kept = filter (decodes_alone F (user_schema m)) records)"
proof (cases "decode_strict F (user_schema m) records")
  case (Inr b)
  with assms decode_strict_Inr [OF Inr] show ?thesis by (simp add: decode_typed_def)
next
  case (Inl e)
  with assms(1) obtain ks where "tm_on_malformed m = S2Skip" "kept = map (\<lambda>i. records ! i) ks"
    and d: "decode_skipping F (user_schema m) records = Inr (batch, ks)"
    by (auto simp: decode_typed_def outcome split: S2OnMalformed.splits)
  moreover from decode_skipping_spec [OF d assms(2)] have "length (ub_rows batch) = length (filter (decodes_alone F (user_schema m)) records)"
    by simp
  ultimately show ?thesis
    using decode_skipping_spec [OF d assms(2)] map_nth_filter [of records "decodes_alone F (user_schema m)"]
    by (simp add: ub_rows_def)
qed

section \<open>Properties\<close>

text \<open>
  C24: dropping malformed records keeps rows and records aligned. When a batch does not decode as a whole
  and malformed records are skipped, the decoded rows are exactly the rows of the records that decode on
  their own, in order, and the other columns are built from those same records.
\<close>

theorem skipping_keeps_alignment:
  assumes "decode_skipping F schema records = Inr (batch, kept)" and "arrow_lawful F"
  shows "map (\<lambda>i. records ! i) kept = filter (decodes_alone F schema) records \<and>
         ub_rows batch = map (\<lambda>i. row_of F schema (records ! i)) kept"
proof -
  note spec = decode_skipping_spec [OF assms]
  have "map (\<lambda>i. records ! i) kept = filter (decodes_alone F schema) records"
    using map_nth_filter [of records "decodes_alone F schema"] spec(1) by simp
  moreover from this have "map (\<lambda>i. row_of F schema (records ! i)) kept = map (row_of F schema) (filter (decodes_alone F schema) records)"
    by (metis (no_types, lifting) comp_apply list.map_comp map_eq_conv)
  ultimately show ?thesis using spec(2) by simp
qed

text \<open>
  every column of a converted batch has one entry for each of the same records: all the records
  given, or with a schema that skips malformed ones a sublist of them; the first column is their row kinds.
\<close>

theorem converted_columns_agree:
  assumes "s2_convert F c records = Inr (Some columns)" and "arrow_lawful F"
  shows "\<exists>kept. hd columns = gs_op_array kept \<and> list_all (\<lambda>col. s2_column_length col = length kept) columns \<and>
           (kept = records \<or> (\<exists>m. rc_typed c = Some m \<and> tm_on_malformed m = S2Skip \<and>
              kept = filter (decodes_alone F (user_schema m)) records))"
proof (cases "rc_typed c")
  case None
  with assms(1) show ?thesis
    by (intro exI [of _ records])
       (auto simp: s2_convert_def convert_raw_def batch_try_new_def raw_columns_def gs_op_array_def metadata_arrays_def outcome
          split: if_splits option.splits)
next
  case (Some m)
  with assms(1) obtain batch kept where d: "decode_typed F m records = Inr (batch, kept)"
    and cols: "columns = typed_columns (tm_include_metadata m) kept batch"
    by (auto simp: s2_convert_def batch_try_new_def outcome split: if_splits option.splits)
  note spec = decode_typed_spec [OF d assms(2)]
  with Some cols show ?thesis
    by (intro exI [of _ kept])
       (auto simp: typed_columns_def gs_op_array_def metadata_arrays_def ub_rect_def list_all_iff)
qed

section \<open>A decoder\<close>

text \<open>
  A push decoder in the manner of the JSON decoder, for rows written between braces: its state is the
  budget of rows, the rows read and the text of a row that has been opened. A row may be split over
  several texts.
\<close>

record brace_state =
  bs_budget :: nat
  bs_rows :: "string list"
  bs_open :: "string option"

fun brace_read :: "bytes \<Rightarrow> nat \<Rightarrow> brace_state \<Rightarrow> (string + nat) \<times> brace_state" where
  "brace_read [] n st = (Inr n, st)"
| "brace_read (c # cs) n st =
     (case bs_open st of
        None \<Rightarrow>
          if length (bs_rows st) \<ge> bs_budget st then (Inr n, st)
          else if c = CHR 0x7B then brace_read cs (Suc n) (st\<lparr>bs_open := Some []\<rparr>)
          else (Inl ''expected a row'', st)
      | Some t \<Rightarrow>
          if c = CHR 0x7D then brace_read cs (Suc n) (st\<lparr>bs_open := None, bs_rows := bs_rows st @ [t]\<rparr>)
          else brace_read cs (Suc n) (st\<lparr>bs_open := Some (t @ [c])\<rparr>))"

definition brace_foreign :: "(brace_state, string) s2_foreign" where
  "brace_foreign =
     \<lparr>dec_build = \<lambda>schema n. Inr \<lparr>bs_budget = n, bs_rows = [], bs_open = None\<rparr>,
      dec_decode = \<lambda>d buf. brace_read buf 0 d,
      dec_flush = \<lambda>d. (if bs_open d \<noteq> None then Inl (InvalidArgumentError ''truncated row'')
                       else Inr (Some \<lparr>ub_columns = [bs_rows d], ub_num_rows = length (bs_rows d)\<rparr>)),
      concat_batches = \<lambda>schema bs.
        (let rows = concat (map (\<lambda>b. map concat (ub_rows b)) bs) in
         if list_all (\<lambda>b. length (ub_columns b) = 1) bs
         then Inr \<lparr>ub_columns = [rows], ub_num_rows = length rows\<rparr>
         else Inl (InvalidArgumentError ''columns'')),
      print_string_map = \<lambda>m. [],
      batch_invalid = \<lambda>schema columns. None\<rparr>"

lemma brace_lawful: "arrow_lawful brace_foreign"
proof -
  have one: "ub_rows b = map (\<lambda>r. [concat r]) (ub_rows b)" if "length (ub_columns b) = 1" for b :: "string user_batch"
    using that by (auto simp: ub_rows_def length_Suc_conv)
  have "concat (map ub_rows bs) = map (\<lambda>x. [x]) (concat (map (\<lambda>b. map concat (ub_rows b)) bs))"
    if "list_all (\<lambda>b. length (ub_columns b) = 1) bs" for bs :: "string user_batch list"
    using that
  proof (induction bs)
    case (Cons b bs)
    with one [of b] show ?case by (simp add: comp_def)
  qed simp
  then show ?thesis
    by (auto simp: arrow_lawful_def brace_foreign_def ub_rect_def ub_rows_def map_nth Let_def comp_def split: if_splits
        intro!: nth_equalityI)
qed

definition body_record :: "u64 \<Rightarrow> string \<Rightarrow> SourceRecord" where
  "body_record n body = \<lparr>sr_stream = ''a'', sr_seq_num = n, sr_timestamp = 0, sr_headers = [], sr_body = body\<rparr>"

lemmas brace_eval = brace_foreign_def decode_strict_def body_record_def trim_ascii_def is_ascii_whitespace_def feed.simps
  ub_rows_def decodes_alone_def row_of_def Let_def

text \<open>
  The count of rows does not show that rows and records correspond: a row split over two bodies and a body
  with two rows make up for each other, and none of the three bodies is a row on its own.
\<close>

lemma row_count_check_inexact:
  "let records = [body_record 0 [CHR 0x7B, CHR ''1''], body_record 1 [CHR 0x7D],
                  body_record 2 [CHR 0x7B, CHR ''2'', CHR 0x7D, CHR 0x7B, CHR ''3'', CHR 0x7D]]
   in (\<exists>b. decode_strict brace_foreign [] records = Inr b \<and> ub_rows b = [[''1''], [''2''], [''3'']]) \<and>
      \<not> list_ex (decodes_alone brace_foreign []) records"
  by (simp add: brace_eval)

definition mixed_records :: "SourceRecord list" where
  "mixed_records =
     [body_record 0 [CHR 0x7B, CHR ''1'', CHR 0x7D], body_record 1 ''bad'', body_record 2 [CHR 0x7B, CHR ''2'', CHR 0x7D]]"

lemma mixed_skipping:
  "decode_skipping brace_foreign [] mixed_records = Inr (\<lparr>ub_columns = [[''1'', ''2'']], ub_num_rows = 2\<rparr>, [0, 2])"
  by (simp add: brace_eval decode_skipping_def mixed_records_def)

theorem skipping_keeps_alignment_witness:
  "decode_skipping brace_foreign [] mixed_records = Inr (\<lparr>ub_columns = [[''1'', ''2'']], ub_num_rows = 2\<rparr>, [0, 2]) \<and>
   filter (decodes_alone brace_foreign []) mixed_records = [mixed_records ! 0, mixed_records ! 2] \<and>
   row_of brace_foreign [] (mixed_records ! 2) = [''2'']"
  using skipping_keeps_alignment [OF mixed_skipping brace_lawful] mixed_skipping by (simp add: ub_rows_def upt_conv_Cons)

theorem converted_columns_agree_witness:
  "let c = \<lparr>rc_schema = [], rc_typed = Some \<lparr>user_schema = [], tm_include_metadata = False, tm_on_malformed = S2Skip\<rparr>\<rparr>;
       columns = [SUtf8 [Some ''i'', Some ''i''], SUser [''1'', ''2'']]
   in s2_convert brace_foreign c mixed_records = Inr (Some columns) \<and>
      (\<exists>kept. hd columns = gs_op_array kept \<and> list_all (\<lambda>col. s2_column_length col = length kept) columns)"
proof -
  define c where "c = \<lparr>rc_schema = [], rc_typed = Some \<lparr>user_schema = [], tm_include_metadata = False, tm_on_malformed = S2Skip\<rparr>\<rparr>"
  have strict: "isl (decode_strict brace_foreign [] mixed_records)" by (simp add: brace_eval mixed_records_def)
  have conv: "s2_convert brace_foreign c mixed_records = Inr (Some [SUtf8 [Some ''i'', Some ''i''], SUser [''1'', ''2'']])"
    using strict mixed_skipping
    by (cases "decode_strict brace_foreign [] mixed_records")
       (auto simp: s2_convert_def decode_typed_def c_def typed_columns_def gs_op_array_def gs_op_def mixed_records_def
          body_record_def batch_try_new_def brace_foreign_def)
  from converted_columns_agree [OF conv brace_lawful] conv show ?thesis unfolding c_def Let_def by blast
qed

end
