(* ===== verification/S2Source.thy ===== *)
theory S2Source
  imports S2Convert PluginOptions Checkpoints Buffered
begin

text \<open>
  The S2 source: options (\<open>src/src/sources/s2/config.rs\<close>), the readers that follow the streams and the
  scan that discovers them (\<open>reader.rs\<close>), and the source with its checkpoint handling (\<open>source.rs\<close>).
  The S2 client, the state backend and the names' parsers are parameters; a background task is its local
  state and the function of one of its steps.
\<close>

section \<open>Options\<close>

datatype S2StartPosition = S2Earliest | S2Latest

record s2_parsers =
  parse_basin :: "string \<Rightarrow> string + string"
  parse_stream :: "string \<Rightarrow> string + string"
  parse_prefix :: "string \<Rightarrow> string + string"
  account_endpoint :: "string \<Rightarrow> string + string"
  basin_endpoint :: "string \<Rightarrow> string + string"
  endpoints_new :: "string \<Rightarrow> string \<Rightarrow> string + string"

record S2SourceConfig =
  s2c_basin :: string
  s2c_streams :: "string list"
  s2c_stream_prefix :: "string option"
  s2c_endpoints :: "string option"
  s2c_start_position :: S2StartPosition
  s2c_output :: OutputMode
  s2c_batch_size :: nat
  s2c_update_streams_interval_secs :: nat
  s2c_request_timeout_ms :: nat

definition s2_endpoints :: "s2_parsers \<Rightarrow> string \<Rightarrow> PluginError + string" where
  "s2_endpoints P endpoint =
     res_bind (map_err (\<lambda>e. Internal (''invalid S2 account endpoint: '' @ e)) (account_endpoint P endpoint)) (\<lambda>a.
     res_bind (map_err (\<lambda>e. Internal (''invalid S2 basin endpoint: '' @ e)) (basin_endpoint P endpoint)) (\<lambda>b.
     map_err (\<lambda>e. Internal (''invalid S2 endpoints: '' @ e)) (endpoints_new P a b)))"

definition optional_endpoints :: "s2_parsers \<Rightarrow> environment \<Rightarrow> PluginOptions \<Rightarrow> PluginError + string option" where
  "optional_endpoints P env o' =
     (let endpoint = get_or env o' ''endpoint'' '''' in
      if endpoint = '''' then Inr None
      else res_bind (s2_endpoints P endpoint) (\<lambda>e. Inr (Some e)))"

text \<open>Keeping the first occurrence of each name.\<close>

fun dedupe :: "string set \<Rightarrow> string list \<Rightarrow> string list" where
  "dedupe seen [] = []"
| "dedupe seen (s # ss) = (if s \<in> seen then dedupe seen ss else s # dedupe (insert s seen) ss)"

definition parse_streams :: "s2_parsers \<Rightarrow> environment \<Rightarrow> PluginOptions \<Rightarrow> PluginError + string list" where
  "parse_streams P env o' =
     collect_results (parse_value (parse_stream P) o' ''stream name'')
       (dedupe {} (filter (\<lambda>s. s \<noteq> []) (map trim (split_char CHR '','' (get_or env o' ''streams'' '''')))))"

definition s2_parse_start_position :: "environment \<Rightarrow> PluginOptions \<Rightarrow> PluginError + S2StartPosition" where
  "s2_parse_start_position env o' =
     (let v = to_ascii_lowercase (get_or env o' ''start_position'' ''earliest'') in
      if v = ''earliest'' then Inr S2Earliest
      else if v = ''latest'' then Inr S2Latest
      else Inl (Internal (''s2_source: start_position must be '' @ quoted ''earliest'' @ '' or ''
             @ quoted ''latest'' @ '', got '' @ quoted v)))"

definition raw_mode_only :: "string \<Rightarrow> PluginError" where
  "raw_mode_only key =
     Internal (''s2_source: '' @ key @ '' only applies when '' @ quoted ''schema''
       @ '' is set (raw mode always includes stream metadata)'')"

definition parse_output :: "environment \<Rightarrow> PluginOptions \<Rightarrow> PluginError + OutputMode" where
  "parse_output env o' =
     (let schema = get_or env o' ''schema'' '''';
          include = get_or env o' ''include_metadata'' '''';
          malformed = get_or env o' ''on_malformed'' '''' in
      if trim schema = []
      then (if include \<noteq> [] then Inl (raw_mode_only ''include_metadata'')
            else if malformed \<noteq> [] then Inl (raw_mode_only ''on_malformed'')
            else Inr Raw)
      else
        res_bind (if include = [] then Inr False
                  else map_err (\<lambda>e. Internal (''s2_source: invalid include_metadata: '' @ e)) (parse_bool include)) (\<lambda>im.
        res_bind (let m = to_ascii_lowercase malformed in
                  if m = [] \<or> m = ''error'' then Inr S2Error
                  else if m = ''skip'' then Inr S2Skip
                  else Inl (Internal (''s2_source: on_malformed must be '' @ quoted ''error'' @ '' or ''
                         @ quoted ''skip'' @ '', got '' @ quoted m))) (\<lambda>om.
        res_bind (parse_field_specs schema) (\<lambda>fs.
        Inr (Typed fs im om)))))"

definition s2_parse_config :: "s2_parsers \<Rightarrow> environment \<Rightarrow> PluginOptions \<Rightarrow> PluginError + S2SourceConfig" where
  "s2_parse_config P env o' =
     res_bind (get_option env o' ''basin'') (\<lambda>basin_text.
     res_bind (parse_value (parse_basin P) o' ''basin'' basin_text) (\<lambda>basin.
     res_bind (parse_streams P env o') (\<lambda>streams.
     res_bind (let prefix = trim (get_or env o' ''stream_prefix'' '''') in
               if prefix = [] then Inr None
               else res_bind (parse_value (parse_prefix P) o' ''stream_prefix'' prefix) (\<lambda>p. Inr (Some p))) (\<lambda>prefix.
     if streams = [] \<and> prefix = None
     then Inl (Internal (''s2_source: one of '' @ quoted ''streams'' @ '' or '' @ quoted ''stream_prefix'' @ '' is required''))
     else
       res_bind (optional_endpoints P env o') (\<lambda>endpoints.
       res_bind (s2_parse_start_position env o') (\<lambda>start.
       res_bind (parse_output env o') (\<lambda>output.
       res_bind (get_parsed env parse_non_zero o' ''batch_size'' ''1000'') (\<lambda>size.
       res_bind (get_parsed env parse_non_zero o' ''update_streams_interval_secs'' ''60'') (\<lambda>interval.
       res_bind (get_parsed env (parse_unsigned u64_max) o' ''request_timeout_ms'' ''5000'') (\<lambda>timeout.
       Inr \<lparr>s2c_basin = basin, s2c_streams = streams, s2c_stream_prefix = prefix,
            s2c_endpoints = endpoints, s2c_start_position = start, s2c_output = output,
            s2c_batch_size = size, s2c_update_streams_interval_secs = interval,
            s2c_request_timeout_ms = timeout\<rparr>))))))))))"

section \<open>Scanning a stream prefix\<close>

definition STREAM_LIST_PAGE_LIMIT :: nat where
  "STREAM_LIST_PAGE_LIMIT = 1000"

record PrefixScan =
  start_after :: "string option"
  seen :: "string set"

definition prefix_scan_default :: PrefixScan where
  "prefix_scan_default = \<lparr>start_after = None, seen = {}\<rparr>"

record ListStreamsInput =
  ls_prefix :: string
  ls_limit :: nat
  ls_start_after :: "string option"

definition list_input :: "string \<Rightarrow> PrefixScan \<Rightarrow> ListStreamsInput" where
  "list_input prefix scan =
     \<lparr>ls_prefix = prefix, ls_limit = STREAM_LIST_PAGE_LIMIT, ls_start_after = start_after scan\<rparr>"

text \<open>The complete set of names is returned only with the last page of a scan.\<close>

definition record_page :: "string list \<Rightarrow> string option \<Rightarrow> PrefixScan \<Rightarrow> string set option \<times> PrefixScan" where
  "record_page names next_start_after scan =
     (let all = seen scan \<union> set names in
      case next_start_after of
        Some s \<Rightarrow> (None, \<lparr>start_after = Some s, seen = all\<rparr>)
      | None \<Rightarrow> (Some all, \<lparr>start_after = None, seen = {}\<rparr>))"

record StreamInfo =
  si_name :: string
  si_deleted :: bool

record ListPage =
  lp_values :: "StreamInfo list"
  lp_has_more :: bool

section \<open>The readers\<close>

text \<open>A reader task is the sequence number it reads next and its reopen delay in seconds.\<close>

record ReaderTask =
  next_seq_num :: u64
  reopen_delay :: nat

record StreamReaders =
  exact_streams :: "string set"
  tasks :: "(string, ReaderTask) hash_map"
  positions :: "(string, u64) btree_map"

definition REOPEN_DELAY_MIN :: nat where "REOPEN_DELAY_MIN = 1"
definition REOPEN_DELAY_MAX :: nat where "REOPEN_DELAY_MAX = 30"

definition stream_readers_new :: "S2SourceConfig \<Rightarrow> StreamReaders" where
  "stream_readers_new cfg = \<lparr>exact_streams = set (s2c_streams cfg), tasks = [], positions = []\<rparr>"

text \<open>
  \<open>get_kv\<close> and \<open>check_tail\<close> are the answers of the state backend and of the service for a stream.
\<close>

record s2_answers =
  get_kv :: "string \<Rightarrow> string + u64 option"
  check_tail :: "string \<Rightarrow> string + u64"

definition start_seq_num :: "s2_answers \<Rightarrow> S2StartPosition \<Rightarrow> string \<Rightarrow> PluginError + u64" where
  "start_seq_num A fallback name =
     res_bind (map_err StateFailure (get_kv A name)) (\<lambda>saved.
     case saved of
       Some seq_num \<Rightarrow> Inr seq_num
     | None \<Rightarrow>
         (case fallback of
            S2Earliest \<Rightarrow> Inr 0
          | S2Latest \<Rightarrow>
              map_err (\<lambda>e. Internal (''s2_source: failed to check tail of stream '' @ quoted name @ '': '' @ e))
                (check_tail A name)))"

definition ensure_stream ::
  "s2_answers \<Rightarrow> S2StartPosition \<Rightarrow> string \<Rightarrow> StreamReaders \<Rightarrow> (PluginError + unit) \<times> StreamReaders" where
  "ensure_stream A fallback name rs =
     (if hm_get (tasks rs) name \<noteq> None then (Inr (), rs)
      else
        (case start_seq_num A fallback name of
           Inl e \<Rightarrow> (Inl e, rs)
         | Inr n \<Rightarrow>
             (Inr (), rs\<lparr>positions := bt_insert name n (positions rs),
                         tasks := hm_insert name \<lparr>next_seq_num = n, reopen_delay = REOPEN_DELAY_MIN\<rparr> (tasks rs)\<rparr>)))"

fun ensure_streams ::
  "s2_answers \<Rightarrow> S2StartPosition \<Rightarrow> string list \<Rightarrow> StreamReaders \<Rightarrow> (PluginError + unit) \<times> StreamReaders" where
  "ensure_streams A fallback [] rs = (Inr (), rs)"
| "ensure_streams A fallback (name # names) rs =
     (case ensure_stream A fallback name rs of
        (Inl e, rs') \<Rightarrow> (Inl e, rs')
      | (Inr _, rs') \<Rightarrow> ensure_streams A fallback names rs')"

text \<open>
  Stopping the readers of streams that a complete scan did not list. The first component has the calls of
  \<open>remove_kv\<close> on the state backend, which come after: a call for each stopped stream. Their failures are
  only logged.
\<close>

definition prune_unlisted_streams :: "string set \<Rightarrow> StreamReaders \<Rightarrow> string list \<times> StreamReaders" where
  "prune_unlisted_streams listed rs =
     (let removed = filter (\<lambda>name. name \<notin> listed \<and> name \<notin> exact_streams rs) (map fst (tasks rs)) in
      (removed,
       rs\<lparr>tasks := fold hm_remove removed (tasks rs), positions := fold bt_remove removed (positions rs)\<rparr>))"

text \<open>
  The live names of a page and where the next page starts: after the last item, even one that is being
  deleted.
\<close>

definition page_names :: "string + ListPage \<Rightarrow> PluginError + string list \<times> string option" where
  "page_names page =
     res_bind (map_err (\<lambda>e. Internal (''s2_source: failed to list streams page: '' @ e)) page) (\<lambda>p.
     res_bind (if lp_has_more p
               then (if lp_values p = []
                     then Inl (Internal ''s2_source: stream listing returned an empty page with has_more=true'')
                     else Inr (Some (si_name (last (lp_values p)))))
               else Inr None) (\<lambda>next.
     Inr (map si_name (filter (\<lambda>i. \<not> si_deleted i) (lp_values p)), next)))"

text \<open>
  One page of the listing; \<open>page\<close> is the service's answer to \<open>list_input\<close>. Beside the result are the calls of
  \<open>remove_kv\<close> that were made.
\<close>

definition refresh_streams_page ::
  "s2_answers \<Rightarrow> S2SourceConfig \<Rightarrow> string + ListPage \<Rightarrow> PrefixScan \<Rightarrow> StreamReaders
     \<Rightarrow> (PluginError + unit) \<times> string list \<times> PrefixScan \<times> StreamReaders" where
  "refresh_streams_page A cfg page scan rs =
     (case page_names page of
        Inl e \<Rightarrow> (Inl e, [], scan, rs)
      | Inr (names, next) \<Rightarrow>
          (case ensure_streams A (s2c_start_position cfg) names rs of
             (Inl e, rs') \<Rightarrow> (Inl e, [], scan, rs')
           | (Inr _, rs') \<Rightarrow>
               (case record_page names next scan of
                  (None, scan') \<Rightarrow> (Inr (), [], scan', rs')
                | (Some listed, scan') \<Rightarrow>
                    (let (kv_removals, rs'') = prune_unlisted_streams listed rs' in (Inr (), kv_removals, scan', rs'')))))"

text \<open>
  Starting: the configured streams, then with a prefix the first page. The scan returned is the one
  that the periodic task continues, with the calls of \<open>remove_kv\<close>.
\<close>

definition readers_start ::
  "s2_answers \<Rightarrow> S2SourceConfig \<Rightarrow> string + ListPage \<Rightarrow> StreamReaders
     \<Rightarrow> (PluginError + PrefixScan option) \<times> string list \<times> StreamReaders" where
  "readers_start A cfg page rs =
     (case ensure_streams A (s2c_start_position cfg) (s2c_streams cfg) rs of
        (Inl e, rs') \<Rightarrow> (Inl e, [], rs')
      | (Inr _, rs') \<Rightarrow>
          (if s2c_stream_prefix cfg = None then (Inr None, [], rs')
           else
             (case refresh_streams_page A cfg page prefix_scan_default rs' of
                (Inl e, kv_removals, scan, rs'') \<Rightarrow> (Inl e, kv_removals, rs'')
              | (Inr _, kv_removals, scan, rs'') \<Rightarrow> (Inr (Some scan), kv_removals, rs''))))"

text \<open>Positions only move forward, and only those of streams that have a reader.\<close>

definition record_emitted :: "(string, u64) btree_map \<Rightarrow> StreamReaders \<Rightarrow> StreamReaders" where
  "record_emitted updates rs =
     rs\<lparr>positions :=
       fold (\<lambda>(stream, n) ps. case bt_get ps stream of None \<Rightarrow> ps | Some p \<Rightarrow> bt_insert stream (max p n) ps)
         updates (positions rs)\<rparr>"

definition readers_shutdown :: "StreamReaders \<Rightarrow> StreamReaders" where
  "readers_shutdown rs = rs\<lparr>tasks := []\<rparr>"

text \<open>\<open>u64::saturating_add\<close> of one.\<close>

definition sat_inc :: "u64 \<Rightarrow> u64" where
  "sat_inc n = (if n = - 1 then - 1 else n + 1)"

record S2Record =
  s2_seq_num :: u64
  s2_timestamp :: u64
  s2_headers :: "(bytes \<times> bytes) list"
  s2_body :: bytes

definition source_record :: "string \<Rightarrow> S2Record \<Rightarrow> SourceRecord" where
  "source_record name r =
     \<lparr>sr_stream = name, sr_seq_num = s2_seq_num r, sr_timestamp = s2_timestamp r,
      sr_headers = s2_headers r, sr_body = s2_body r\<rparr>"

text \<open>
  What happens to a reader: its session yields a batch, or it does not open, fails or ends and is opened
  again at \<open>next_seq_num\<close> after a delay. The records returned are sent to the channel.
\<close>

datatype ReadEvent = SessionBatch "S2Record list" | SessionLost

fun read_stream_step :: "string \<Rightarrow> ReadEvent \<Rightarrow> ReaderTask \<Rightarrow> SourceRecord list option \<times> ReaderTask" where
  "read_stream_step name (SessionBatch records) t =
     (if records = [] then (None, t)
      else (Some (map (source_record name) records),
            t\<lparr>next_seq_num := sat_inc (s2_seq_num (last records)), reopen_delay := REOPEN_DELAY_MIN\<rparr>))"
| "read_stream_step name SessionLost t =
     (None, t\<lparr>reopen_delay := min (reopen_delay t * 2) REOPEN_DELAY_MAX\<rparr>)"

section \<open>The source\<close>

definition MAX_BUFFERED_BATCHES :: nat where
  "MAX_BUFFERED_BATCHES = 16"

record S2RecvState =
  s2_rx :: "SourceRecord list list"
  s2_carry :: "SourceRecord list"
  s2_pending_positions :: "(string, u64) btree_map"

record S2RunningState =
  s2_readers :: StreamReaders
  s2_recv :: S2RecvState
  s2_pending_epochs :: "(u64, (string, u64) btree_map) btree_map"
  s2_refresh_task :: "PrefixScan option"

definition s2_fill :: "nat \<Rightarrow> SourceRecord list option \<Rightarrow> S2RecvState \<Rightarrow> S2RecvState" where
  "s2_fill batch_size late r =
     (let (carry, q) = refill batch_size late (s2_rx r) (s2_carry r) in r\<lparr>s2_carry := carry, s2_rx := q\<rparr>)"

text \<open>The position of each stream after a batch: past its last row, found from the end.\<close>

definition batch_positions :: "SourceRecord list \<Rightarrow> (string, u64) btree_map" where
  "batch_positions rows =
     fold (\<lambda>r ps. if bt_get ps (sr_stream r) = None then bt_insert (sr_stream r) (sat_inc (sr_seq_num r)) ps else ps)
       (rev rows) []"

text \<open>The positions of the last batch become visible to checkpoints.\<close>

definition s2_confirm :: "S2RunningState \<Rightarrow> S2RunningState" where
  "s2_confirm st =
     (let delivered = s2_pending_positions (s2_recv st) in
      st\<lparr>s2_recv := (s2_recv st)\<lparr>s2_pending_positions := []\<rparr>,
         s2_readers := (if delivered \<noteq> [] then record_emitted delivered (s2_readers st) else s2_readers st)\<rparr>)"

definition s2_generate_batch ::
  "(SourceRecord list \<Rightarrow> PluginError + 'batch) \<Rightarrow> nat \<Rightarrow> bool \<Rightarrow> SourceRecord list option
     \<Rightarrow> S2RunningState \<Rightarrow> (PluginError + 'batch option) \<times> S2RunningState" where
  "s2_generate_batch convert batch_size running late st =
     (if \<not> running then (Inr None, st)
      else
        (let st1 = s2_confirm st;
             r = s2_fill batch_size late (s2_recv st1);
             st2 = st1\<lparr>s2_recv := r\<rparr>;
             n = min (length (s2_carry r)) batch_size;
             rows = take n (s2_carry r) in
         if n = 0 then (Inr None, st2)
         else
           (case convert rows of
              Inl e \<Rightarrow> (Inl e, st2)
            | Inr batch \<Rightarrow>
                (Inr (Some batch),
                 st2\<lparr>s2_recv := r\<lparr>s2_carry := drop n (s2_carry r),
                       s2_pending_positions := batch_positions rows\<rparr>\<rparr>))))"

definition s2_checkpoint_marker :: "u64 \<Rightarrow> S2RunningState \<Rightarrow> S2RunningState" where
  "s2_checkpoint_marker epoch st =
     st\<lparr>s2_pending_epochs := bt_insert epoch (positions (s2_readers st)) (s2_pending_epochs st)\<rparr>"

definition take_snapshot :: "u64 \<Rightarrow> S2RunningState \<Rightarrow> (string, u64) btree_map option \<times> S2RunningState" where
  "take_snapshot epoch st =
     (bt_get (s2_pending_epochs st) epoch,
      st\<lparr>s2_pending_epochs := bt_split_off epoch (bt_remove epoch (s2_pending_epochs st))\<rparr>)"

text \<open>
  The writes run together: with \<open>put_error\<close> some of them, those of the streams in \<open>written\<close>, may have
  taken effect. The result has the positions that were persisted.
\<close>

definition s2_checkpoint_finalizer ::
  "string option \<Rightarrow> string set \<Rightarrow> u64 \<Rightarrow> S2RunningState
     \<Rightarrow> (PluginError + unit) \<times> (string, u64) btree_map \<times> S2RunningState" where
  "s2_checkpoint_finalizer put_error written epoch st =
     (case take_snapshot epoch st of
        (None, st') \<Rightarrow> (Inr (), [], st')
      | (Some snapshot, st') \<Rightarrow>
          (let kept = bt_retain (\<lambda>stream. bt_get (positions (s2_readers st')) stream \<noteq> None) snapshot in
           case put_error of
             None \<Rightarrow> (Inr (), kept, st')
           | Some e \<Rightarrow> (Inl (StateFailure e), bt_retain (\<lambda>stream. stream \<in> written) kept, st')))"

interpretation s2: epoch_notes s2_pending_epochs "\<lambda>st. Some (positions (s2_readers st))"
  s2_checkpoint_marker take_snapshot
  by unfold_locales (simp_all add: s2_checkpoint_marker_def take_snapshot_def)

record S2Source =
  s2s_config :: S2SourceConfig
  s2s_access_token :: string
  s2s_converter :: RecordConverter
  s2s_inner :: "S2RunningState option"
  s2s_running :: bool

definition s2_source_new ::
  "s2_parsers \<Rightarrow> environment \<Rightarrow> (string, string) hash_map \<Rightarrow> PluginError + S2Source" where
  "s2_source_new P env options =
     (let opts = plugin_options_new options ''s2_source'' ''STREAMLING__PLUGIN__S2_SOURCE'' in
      res_bind (s2_parse_config P env opts) (\<lambda>config.
      res_bind (ok_or (Internal ''s2_source: access_token is not specified'') (get_secret env opts ''access_token'')) (\<lambda>token.
      res_bind (record_converter_new (s2c_output config)) (\<lambda>converter.
      Inr \<lparr>s2s_config = config, s2s_access_token = token, s2s_converter = converter,
           s2s_inner = None, s2s_running = True\<rparr>))))"

definition s2_terminate :: "S2Source \<Rightarrow> S2Source" where
  "s2_terminate s =
     s\<lparr>s2s_running := False,
       s2s_inner := map_option (\<lambda>st. st\<lparr>s2_readers := readers_shutdown (s2_readers st),
                                        s2_refresh_task := None\<rparr>) (s2s_inner s)\<rparr>"

text \<open>
  Initialization: \<open>client\<close> is the outcome of constructing the client, \<open>A\<close> and \<open>page\<close> the answers of
  backend and service. A failure leaves the source uninitialized. Beside the result are the calls of
  \<open>remove_kv\<close>.
\<close>

definition s2_initialize ::
  "(PluginError + unit) \<Rightarrow> s2_answers \<Rightarrow> string + ListPage \<Rightarrow> S2Source \<Rightarrow> (PluginError + unit) \<times> string list \<times> S2Source" where
  "s2_initialize client A page s =
     (case s2s_inner s of
        Some _ \<Rightarrow> (Inr (), [], s)
      | None \<Rightarrow>
          (case client of
             Inl e \<Rightarrow> (Inl e, [], s)
           | Inr _ \<Rightarrow>
               (case readers_start A (s2s_config s) page (stream_readers_new (s2s_config s)) of
                  (Inl e, kv_removals, rs) \<Rightarrow> (Inl e, kv_removals, s)
                | (Inr refresh, kv_removals, rs) \<Rightarrow>
                    (Inr (), kv_removals,
                     s\<lparr>s2s_inner := Some
                         \<lparr>s2_readers = rs,
                          s2_recv = \<lparr>s2_rx = [], s2_carry = [], s2_pending_positions = []\<rparr>,
                          s2_pending_epochs = [], s2_refresh_task = refresh\<rparr>\<rparr>))))"

end
