(* ===== verification/S2System.thy ===== *)
theory S2System
  imports S2Source
begin

text \<open>
  The S2 source running with the service, the state backend and the host, over any number of restarts:
  what the operations on the readers do stream by stream, then a step relation whose ghost fields record
  where each stream's reading began and which records were delivered. The main result is that a restart
  never skips a record that was not delivered, for every stream that was not pruned; configured streams
  never are.
\<close>

section \<open>Operations stream by stream\<close>

definition task_of :: "StreamReaders \<Rightarrow> string \<Rightarrow> ReaderTask option" where
  "task_of rs s = hm_get (tasks rs) s"

definition position_of :: "StreamReaders \<Rightarrow> string \<Rightarrow> u64 option" where
  "position_of rs s = bt_get (positions rs) s"

definition readers_ok :: "StreamReaders \<Rightarrow> bool" where
  "readers_ok rs \<longleftrightarrow> hm_ok (tasks rs) \<and> bt_ok (positions rs)"

text \<open>A reader was started for a stream that had none, or nothing changed for it.\<close>

definition started_or_same :: "s2_answers \<Rightarrow> S2StartPosition \<Rightarrow> string \<Rightarrow> StreamReaders \<Rightarrow> StreamReaders \<Rightarrow> bool" where
  "started_or_same A fallback s rs rs' \<longleftrightarrow>
     task_of rs' s = task_of rs s \<and> position_of rs' s = position_of rs s \<or>
     task_of rs s = None \<and>
       (\<exists>n. start_seq_num A fallback s = Inr n \<and> position_of rs' s = Some n \<and>
            task_of rs' s = Some \<lparr>next_seq_num = n, reopen_delay = REOPEN_DELAY_MIN\<rparr>)"

lemma started_or_same_refl [simp]: "started_or_same A fb s rs rs"
  by (simp add: started_or_same_def)

lemma started_or_same_trans:
  "started_or_same A fb s rs rs' \<Longrightarrow> started_or_same A fb s rs' rs'' \<Longrightarrow> started_or_same A fb s rs rs''"
  by (auto simp: started_or_same_def)

lemma ensure_stream_spec:
  assumes "ensure_stream A fb name rs = (res, rs')" and "readers_ok rs"
  shows "readers_ok rs' \<and> exact_streams rs' = exact_streams rs \<and> started_or_same A fb s rs rs'"
  using assms
  by (auto simp: ensure_stream_def readers_ok_def started_or_same_def task_of_def position_of_def
      split: if_splits sum.splits)

lemma ensure_streams_spec:
  "ensure_streams A fb names rs = (res, rs') \<Longrightarrow> readers_ok rs \<Longrightarrow>
   readers_ok rs' \<and> exact_streams rs' = exact_streams rs \<and> started_or_same A fb s rs rs'"
proof (induction names arbitrary: rs)
  case (Cons name names)
  obtain r1 rs1 where e: "ensure_stream A fb name rs = (r1, rs1)" by fastforce
  note first = ensure_stream_spec [OF e Cons.prems(2), of s]
  show ?case
  proof (cases r1)
    case (Inl x)
    with e Cons.prems first show ?thesis by simp
  next
    case (Inr u)
    with e Cons first show ?thesis by (fastforce intro: started_or_same_trans)
  qed
qed simp

lemma fold_remove_get:
  "hm_get (fold hm_remove ks m) k = (if k \<in> set ks then None else hm_get m k)"
  "bt_get (fold bt_remove ks m') k = (if k \<in> set ks then None else bt_get m' k)"
  by (induction ks arbitrary: m m') auto

lemma fold_remove_ok:
  "hm_ok m \<Longrightarrow> hm_ok (fold hm_remove ks m)"
  "bt_ok m' \<Longrightarrow> bt_ok (fold bt_remove ks m')"
  by (induction ks arbitrary: m m') auto

lemma prune_spec:
  assumes "prune_unlisted_streams listed rs = (removed, rs')" and "readers_ok rs"
  shows "readers_ok rs' \<and> exact_streams rs' = exact_streams rs \<and>
         set removed \<inter> (exact_streams rs \<union> listed) = {} \<and>
         task_of rs' s = (if s \<in> set removed then None else task_of rs s) \<and>
         position_of rs' s = (if s \<in> set removed then None else position_of rs s)"
  using assms
  by (auto simp: prune_unlisted_streams_def Let_def readers_ok_def task_of_def position_of_def
      fold_remove_get fold_remove_ok)

lemma refresh_cases [consumes 1, case_names failed partial pruned]:
  assumes "refresh_streams_page A cfg page scan rs = (res, removed, scan', rs')"
  obtains
    (failed) e names where "res = Inl e" "removed = []" "scan' = scan" "page_names page = Inl e \<and> names = [] \<or> (\<exists>nxt. page_names page = Inr (names, nxt))" "ensure_streams A (s2c_start_position cfg) names rs = (fst (ensure_streams A (s2c_start_position cfg) names rs), rs')"
  | (partial) names nxt where "page_names page = Inr (names, Some nxt)" "res = Inr ()" "removed = []"
      "ensure_streams A (s2c_start_position cfg) names rs = (Inr (), rs')"
      "record_page names (Some nxt) scan = (None, scan')"
  | (pruned) names rs1 listed where "page_names page = Inr (names, None)" "res = Inr ()"
      "ensure_streams A (s2c_start_position cfg) names rs = (Inr (), rs1)"
      "record_page names None scan = (Some listed, scan')" "prune_unlisted_streams listed rs1 = (removed, rs')"
proof (cases "page_names page")
  case (Inl e)
  with assms failed [of e "[]"] show ?thesis by (simp add: refresh_streams_page_def)
next
  case (Inr nn)
  then obtain names nxt where page: "page_names page = Inr (names, nxt)" by (cases nn) auto
  obtain r1 rs1 where e: "ensure_streams A (s2c_start_position cfg) names rs = (r1, rs1)" by fastforce
  show ?thesis
  proof (cases r1)
    case (Inl x)
    with assms page e failed [of x names] show ?thesis by (simp add: refresh_streams_page_def)
  next
    case (Inr u)
    with assms page e partial pruned show ?thesis
      by (cases nxt) (auto simp: refresh_streams_page_def record_page_def Let_def split: prod.splits)
  qed
qed

lemma refresh_spec:
  assumes "refresh_streams_page A cfg page scan rs = (res, removed, scan', rs')" and "readers_ok rs"
  shows "readers_ok rs' \<and> exact_streams rs' = exact_streams rs \<and> set removed \<inter> exact_streams rs = {} \<and>
         (s \<notin> set removed \<longrightarrow> started_or_same A (s2c_start_position cfg) s rs rs')"
  using assms(1)
proof (cases rule: refresh_cases)
  case (failed e names)
  with ensure_streams_spec [OF failed(5) assms(2), of s] show ?thesis by simp
next
  case (partial names nxt)
  with ensure_streams_spec [OF partial(4) assms(2), of s] show ?thesis by simp
next
  case (pruned names rs1 listed)
  with ensure_streams_spec [OF pruned(3) assms(2), of s] prune_spec [OF pruned(5), of s] show ?thesis
    by (auto simp: started_or_same_def)
qed

lemma fold_max_get:
  "bt_ok ps \<Longrightarrow> distinct (map fst us) \<Longrightarrow>
   (let ps' = fold (\<lambda>(stream, n) ps. case bt_get ps stream of None \<Rightarrow> ps | Some p \<Rightarrow> bt_insert stream (max p n) ps) us ps
    in bt_ok ps' \<and> bt_get ps' s = map_option (\<lambda>p. case bt_get us s of None \<Rightarrow> p | Some n \<Rightarrow> max p n) (bt_get ps s))"
proof (induction us arbitrary: ps)
  case (Cons u us)
  obtain k n where [simp]: "u = (k, n)" by fastforce
  have none: "bt_get us k = None" using Cons.prems by (simp add: map_of_eq_None_iff)
  show ?case
  proof (cases "bt_get ps k")
    case None
    with Cons.IH [of ps] Cons.prems none show ?thesis by (auto simp: Let_def)
  next
    case (Some p)
    with Cons.IH [of "bt_insert k (max p n) ps"] Cons.prems none show ?thesis by (auto simp: Let_def)
  qed
qed (simp add: option.map_ident)

lemma record_emitted_spec:
  assumes "readers_ok rs" and "bt_ok us"
  shows "readers_ok (record_emitted us rs)" "exact_streams (record_emitted us rs) = exact_streams rs"
    "task_of (record_emitted us rs) s = task_of rs s"
    "position_of (record_emitted us rs) s =
       map_option (\<lambda>p. case bt_get us s of None \<Rightarrow> p | Some n \<Rightarrow> max p n) (position_of rs s)"
  using fold_max_get [of "positions rs" us s] assms bt_ok_distinct [OF assms(2)]
  by (auto simp: record_emitted_def readers_ok_def task_of_def position_of_def Let_def)

text \<open>The positions of a batch: past the last row of each stream.\<close>

definition last_of :: "string \<Rightarrow> SourceRecord list \<Rightarrow> SourceRecord option" where
  "last_of s rows = find (\<lambda>r. sr_stream r = s) (rev rows)"

lemma batch_positions_spec:
  "bt_ok (batch_positions rows) \<and>
   bt_get (batch_positions rows) s = map_option (\<lambda>r. sat_inc (sr_seq_num r)) (last_of s rows)"
proof -
  have "bt_ok ps \<Longrightarrow>
    (let ps' = fold (\<lambda>r ps. if bt_get ps (sr_stream r) = None
                then bt_insert (sr_stream r) (sat_inc (sr_seq_num r)) ps else ps) rs ps
     in bt_ok ps' \<and> bt_get ps' s =
       (case bt_get ps s of Some p \<Rightarrow> Some p
        | None \<Rightarrow> map_option (\<lambda>r. sat_inc (sr_seq_num r)) (find (\<lambda>r. sr_stream r = s) rs)))" for rs ps
    by (induction rs arbitrary: ps) (auto simp: Let_def split: option.splits)
  from this [of "[]" "rev rows"] show ?thesis by (simp add: batch_positions_def last_of_def Let_def)
qed

lemma unat_inc: "n \<noteq> - 1 \<Longrightarrow> unat (n + 1 :: u64) = Suc (unat n)"
  using unatSuc [of n] max_word_wrap [of n] by (auto simp: add.commute)

lemma sat_inc_less: "x < sat_inc y \<Longrightarrow> x \<le> y"
  by (auto simp: sat_inc_def word_less_nat_alt word_le_nat_alt unat_inc split: if_splits)

lemma sat_inc_grows: "y < sat_inc y \<or> sat_inc y = - 1" "sat_inc (- 1) = - 1"
  by (auto simp: sat_inc_def word_less_nat_alt unat_inc)

lemma u64_top: "(x :: u64) \<le> - 1" "(- 1 \<le> x) \<longleftrightarrow> x = - 1"
  by (auto simp: word_order.extremum_unique)

section \<open>The running system\<close>

text \<open>
  The law of the service: a stream \<open>s\<close> holds the records \<open>L s\<close>, no two with the same sequence number,
  and a read session at \<open>n\<close> yields them from \<open>n\<close> on, in order and without a gap.
\<close>

type_synonym s2_log = "string \<Rightarrow> S2Record set"

definition log_lawful :: "s2_log \<Rightarrow> bool" where
  "log_lawful L \<longleftrightarrow> (\<forall>s. inj_on s2_seq_num (L s))"

definition session_lawful :: "s2_log \<Rightarrow> string \<Rightarrow> u64 \<Rightarrow> S2Record list \<Rightarrow> bool" where
  "session_lawful L s n records \<longleftrightarrow>
     records \<noteq> [] \<longrightarrow>
       set records = {r \<in> L s. n \<le> s2_seq_num r \<and> s2_seq_num r \<le> s2_seq_num (last records)} \<and>
       sorted_wrt (<) (map s2_seq_num records)"

fun event_lawful :: "s2_log \<Rightarrow> string \<Rightarrow> ReaderTask \<Rightarrow> ReadEvent \<Rightarrow> bool" where
  "event_lawful L s t (SessionBatch records) \<longleftrightarrow> session_lawful L s (next_seq_num t) records"
| "event_lawful L s t SessionLost \<longleftrightarrow> True"

text \<open>The law of the state backend: what it answers is what was last written.\<close>

definition backend_answers :: "(string \<Rightarrow> u64 option) \<Rightarrow> s2_answers \<Rightarrow> bool" where
  "backend_answers kv A \<longleftrightarrow> (\<forall>s v. get_kv A s = Inr v \<longrightarrow> v = kv s)"

text \<open>
  The system: the running source, the persisted positions, and four ghost fields. \<open>ss_origin\<close> is where
  the reading of a stream began, \<open>ss_held\<close> the rows of the batch the host has not confirmed, \<open>ss_delivered\<close>
  the records of confirmed batches of all runs, \<open>ss_gone\<close> the streams that were ever pruned.
\<close>

record s2_system =
  ss_run :: S2RunningState
  ss_up :: bool
  ss_kv :: "string \<Rightarrow> u64 option"
  ss_origin :: "string \<Rightarrow> u64 option"
  ss_held :: "SourceRecord list"
  ss_delivered :: "SourceRecord set"
  ss_gone :: "string set"

abbreviation ss_readers :: "s2_system \<Rightarrow> StreamReaders" where
  "ss_readers sys \<equiv> s2_readers (ss_run sys)"

text \<open>A reading begins anew when a reader starts and no position is persisted for its stream.\<close>

definition origin_after ::
  "(string \<Rightarrow> u64 option) \<Rightarrow> StreamReaders \<Rightarrow> StreamReaders \<Rightarrow> (string \<Rightarrow> u64 option) \<Rightarrow> string \<Rightarrow> u64 option" where
  "origin_after kv rs rs' origin s =
     (if task_of rs s = None \<and> task_of rs' s \<noteq> None \<and> (kv s = None \<or> origin s = None)
      then position_of rs' s else origin s)"

definition send_records :: "string \<Rightarrow> SourceRecord list option \<Rightarrow> ReaderTask \<Rightarrow> S2RunningState \<Rightarrow> S2RunningState" where
  "send_records s out t run =
     run\<lparr>s2_readers := (s2_readers run)\<lparr>tasks := hm_insert s t (tasks (s2_readers run))\<rparr>,
         s2_recv := (s2_recv run)\<lparr>s2_rx := s2_rx (s2_recv run) @ (case out of None \<Rightarrow> [] | Some b \<Rightarrow> [b])\<rparr>\<rparr>"

definition after_restart :: "string set \<Rightarrow> StreamReaders \<Rightarrow> S2RunningState \<Rightarrow> string set \<Rightarrow> s2_system \<Rightarrow> s2_system" where
  "after_restart removed rs run cleared sys =
     sys\<lparr>ss_run := run, ss_up := True, ss_kv := (\<lambda>s. if s \<in> cleared then None else ss_kv sys s),
         ss_origin := origin_after (ss_kv sys) rs (s2_readers run) (ss_origin sys),
         ss_gone := ss_gone sys \<union> removed\<rparr>"

text \<open>
  The steps. A batch that arrives while the source waits is one that was sent just before; the channel's
  capacity only delays sends, and leaving it out allows more behaviours. The writes of a finalizer and the
  removals of a pruned position may fail.
\<close>

inductive s2_step :: "s2_log \<Rightarrow> S2Source \<Rightarrow> (SourceRecord list \<Rightarrow> PluginError + 'b) \<Rightarrow> s2_system \<Rightarrow> s2_system \<Rightarrow> bool"
  for L src convert
where
  read: "ss_up sys \<Longrightarrow> task_of (ss_readers sys) s = Some t \<Longrightarrow> event_lawful L s t ev \<Longrightarrow>
    read_stream_step s ev t = (out, t') \<Longrightarrow>
    s2_step L src convert sys (sys\<lparr>ss_run := send_records s out t' (ss_run sys)\<rparr>)"
| pull: "ss_up sys \<Longrightarrow>
    s2_generate_batch (with_rows convert) (s2c_batch_size (s2s_config src)) True None (ss_run sys) = (res, run') \<Longrightarrow>
    s2_step L src convert sys
      (sys\<lparr>ss_run := run', ss_delivered := ss_delivered sys \<union> set (ss_held sys), ss_held := returned_rows res\<rparr>)"
| mark: "s2_step L src convert sys (sys\<lparr>ss_run := s2_checkpoint_marker e (ss_run sys)\<rparr>)"
| finalize: "s2_checkpoint_finalizer put_error written e (ss_run sys) = (res, persisted, run') \<Longrightarrow>
    s2_step L src convert sys (sys\<lparr>ss_run := run', ss_kv := ss_kv sys ++ bt_get persisted\<rparr>)"
| refresh: "ss_up sys \<Longrightarrow> s2_refresh_task (ss_run sys) = Some scan \<Longrightarrow> backend_answers (ss_kv sys) A \<Longrightarrow>
    refresh_streams_page A (s2s_config src) page scan (ss_readers sys) = (res, removed, scan', rs') \<Longrightarrow>
    cleared \<subseteq> set removed \<Longrightarrow>
    s2_step L src convert sys
      (after_restart (set removed) (ss_readers sys)
         ((ss_run sys)\<lparr>s2_readers := rs', s2_refresh_task := Some scan'\<rparr>) cleared sys)"
| stop: "ss_up sys \<Longrightarrow>
    s2_step L src convert sys
      (sys\<lparr>ss_up := False, ss_run := (ss_run sys)\<lparr>s2_readers := readers_shutdown (ss_readers sys), s2_refresh_task := None\<rparr>\<rparr>)"
| restart: "backend_answers (ss_kv sys) A \<Longrightarrow> s2s_inner src = None \<Longrightarrow>
    s2_initialize (Inr ()) A page src = (Inr (), removed, src') \<Longrightarrow> s2s_inner src' = Some run' \<Longrightarrow>
    cleared \<subseteq> set removed \<Longrightarrow>
    s2_step L src convert sys
      (after_restart (set removed) (stream_readers_new (s2s_config src)) run' cleared (sys\<lparr>ss_held := []\<rparr>))"

definition s2_idle :: "(string \<Rightarrow> u64 option) \<Rightarrow> s2_system" where
  "s2_idle kv =
     \<lparr>ss_run = \<lparr>s2_readers = \<lparr>exact_streams = {}, tasks = [], positions = []\<rparr>,
                s2_recv = \<lparr>s2_rx = [], s2_carry = [], s2_pending_positions = []\<rparr>,
                s2_pending_epochs = [], s2_refresh_task = None\<rparr>,
      ss_up = False, ss_kv = kv, ss_origin = (\<lambda>_. None), ss_held = [], ss_delivered = {}, ss_gone = {}\<rparr>"

definition s2_reachable ::
  "s2_log \<Rightarrow> S2Source \<Rightarrow> (SourceRecord list \<Rightarrow> PluginError + 'b) \<Rightarrow> (string \<Rightarrow> u64 option) \<Rightarrow> s2_system \<Rightarrow> bool" where
  "s2_reachable L src convert kv sys \<longleftrightarrow> (s2_step L src convert)\<^sup>*\<^sup>* (s2_idle kv) sys"

section \<open>The invariant\<close>

definition covered ::
  "s2_log \<Rightarrow> SourceRecord set \<Rightarrow> (string \<Rightarrow> u64 option) \<Rightarrow> string \<Rightarrow> u64 \<Rightarrow> bool" where
  "covered L D origin s p \<longleftrightarrow>
     (\<forall>n x. origin s = Some n \<longrightarrow> x \<in> L s \<longrightarrow> n \<le> s2_seq_num x \<longrightarrow> s2_seq_num x < p \<longrightarrow> source_record s x \<in> D)"

lemma covered_mono: "covered L D origin s p \<Longrightarrow> D \<subseteq> D' \<Longrightarrow> covered L D' origin s p"
  by (auto simp: covered_def)

lemma covered_start: "origin s = Some p \<Longrightarrow> covered L D origin s p"
  by (auto simp: covered_def)

lemma covered_max: "covered L D origin s p \<Longrightarrow> covered L D origin s p' \<Longrightarrow> covered L D origin s (max p p')"
  by (auto simp: max_def)

text \<open>What holds of a reader and of the records \<open>q\<close> of its stream that are on their way to the host.\<close>

definition reading_ok ::
  "s2_log \<Rightarrow> SourceRecord set \<Rightarrow> (string \<Rightarrow> u64 option) \<Rightarrow> string \<Rightarrow> ReaderTask \<Rightarrow> SourceRecord list \<Rightarrow> bool" where
  "reading_ok L D origin s t q \<longleftrightarrow>
     origin s \<noteq> None \<and> sorted (map sr_seq_num q) \<and> set q \<subseteq> source_record s ` L s \<and>
     (\<forall>r \<in> set q. sr_seq_num r < next_seq_num t \<or> next_seq_num t = - 1) \<and>
     covered L (D \<union> set q) origin s (next_seq_num t)"

lemma source_record_simps [simp]:
  "sr_stream (source_record s x) = s" "sr_seq_num (source_record s x) = s2_seq_num x"
  by (simp_all add: source_record_def)

lemma reading_ok_deliver:
  "reading_ok L D origin s t (h @ w) \<Longrightarrow> set h \<subseteq> D' \<Longrightarrow> D \<subseteq> D' \<Longrightarrow> reading_ok L D' origin s t w"
  by (auto simp: reading_ok_def sorted_append elim!: covered_mono)

lemma confirm_covered:
  assumes ok: "reading_ok L D origin s t (h @ w)" and "log_lawful L" and "r \<in> set h"
    and max: "\<forall>r' \<in> set w. sr_seq_num r \<le> sr_seq_num r'"
  shows "covered L (D \<union> set h) origin s (sat_inc (sr_seq_num r))"
  unfolding covered_def
proof (intro allI impI)
  fix n x
  assume x: "origin s = Some n" "x \<in> L s" "n \<le> s2_seq_num x" "s2_seq_num x < sat_inc (sr_seq_num r)"
  from assms(1,3) obtain y where y: "y \<in> L s" "r = source_record s y" by (auto simp: reading_ok_def)
  have le: "s2_seq_num x \<le> s2_seq_num y" using sat_inc_less x(4) y by simp
  have "s2_seq_num x < next_seq_num t"
  proof (cases "next_seq_num t = - 1")
    case True
    then show ?thesis using x(4) le u64_top by (metis order_less_le_trans)
  next
    case False
    with ok \<open>r \<in> set h\<close> have "sr_seq_num r < next_seq_num t" by (auto simp: reading_ok_def)
    then have "s2_seq_num y < next_seq_num t" using y by simp
    with le show ?thesis by simp
  qed
  with ok x have mem: "source_record s x \<in> D \<union> set (h @ w)" unfolding reading_ok_def covered_def by blast
  moreover have "source_record s x = r" if "source_record s x \<in> set w"
  proof -
    from max that y have "s2_seq_num y \<le> s2_seq_num x" by auto
    with le have "s2_seq_num x = s2_seq_num y" by simp
    with \<open>log_lawful L\<close> x(2) y show ?thesis by (auto simp: log_lawful_def inj_on_def)
  qed
  ultimately show "source_record s x \<in> D \<union> set h" using \<open>r \<in> set h\<close> by auto
qed

lemma reading_bound:
  assumes "reading_ok L D origin s t q" and "next_seq_num t \<le> l" and "r \<in> set q"
  shows "sr_seq_num r \<le> next_seq_num t" "sr_seq_num r < sat_inc l \<or> sat_inc l = - 1"
proof -
  from assms have or: "sr_seq_num r < next_seq_num t \<or> next_seq_num t = - 1" by (auto simp: reading_ok_def)
  then show "sr_seq_num r \<le> next_seq_num t" using u64_top by auto
  from or show "sr_seq_num r < sat_inc l \<or> sat_inc l = - 1"
  proof
    assume "sr_seq_num r < next_seq_num t"
    with assms(2) have "sr_seq_num r < l" by simp
    with sat_inc_grows(1) [of l] show ?thesis by auto
  next
    assume "next_seq_num t = - 1"
    with assms(2) have "l = - 1" using u64_top(2) [of l] by simp
    with sat_inc_grows(2) show ?thesis by simp
  qed
qed

lemma reading_ok_batch:
  assumes ok: "reading_ok L D origin s t q" and law: "session_lawful L s (next_seq_num t) records"
    and "records \<noteq> []" and t': "next_seq_num t' = sat_inc (s2_seq_num (last records))"
  shows "reading_ok L D origin s t' (q @ map (source_record s) records)"
proof -
  let ?n = "next_seq_num t" and ?l = "s2_seq_num (last records)"
  have recs: "set records = {r \<in> L s. ?n \<le> s2_seq_num r \<and> s2_seq_num r \<le> ?l}"
    "sorted_wrt (<) (map s2_seq_num records)"
    using law \<open>records \<noteq> []\<close> by (simp_all add: session_lawful_def)
  have "?n \<le> ?l" using recs(1) last_in_set [OF \<open>records \<noteq> []\<close>] by auto
  note q = reading_bound [OF ok \<open>?n \<le> ?l\<close>]
  have "covered L (D \<union> set (q @ map (source_record s) records)) origin s (sat_inc ?l)"
    unfolding covered_def
  proof (intro allI impI)
    fix n x
    assume x: "origin s = Some n" "x \<in> L s" "n \<le> s2_seq_num x" "s2_seq_num x < sat_inc ?l"
    show "source_record s x \<in> D \<union> set (q @ map (source_record s) records)"
    proof (cases "s2_seq_num x < ?n")
      case True
      with ok x have "source_record s x \<in> D \<union> set q" unfolding reading_ok_def covered_def by blast
      then show ?thesis by auto
    next
      case False
      with x recs(1) sat_inc_less [OF x(4)] show ?thesis by auto
    qed
  qed
  moreover have "sorted (map sr_seq_num (q @ map (source_record s) records))"
    using ok recs q(1) strict_sorted_imp_sorted [OF recs(2)]
    by (auto simp: reading_ok_def sorted_append comp_def intro: order_trans)
  moreover have "s2_seq_num r < sat_inc ?l \<or> sat_inc ?l = - 1" if "r \<in> set records" for r
    using that recs(1) sat_inc_grows(1) [of ?l] by auto
  ultimately show ?thesis using ok q(2) recs(1) t' by (auto simp: reading_ok_def)
qed

definition of_stream :: "string \<Rightarrow> SourceRecord list \<Rightarrow> SourceRecord list" where
  "of_stream s q = filter (\<lambda>r. sr_stream r = s) q"

definition s2_buffered :: "S2RunningState \<Rightarrow> SourceRecord list" where
  "s2_buffered run = s2_carry (s2_recv run) @ concat (s2_rx (s2_recv run))"

text \<open>What holds of a position that is noted, visible or persisted.\<close>

abbreviation position_ok :: "s2_log \<Rightarrow> s2_system \<Rightarrow> string \<Rightarrow> u64 \<Rightarrow> bool" where
  "position_ok L sys \<equiv> covered L (ss_delivered sys) (ss_origin sys)"

definition note_ok :: "s2_log \<Rightarrow> s2_system \<Rightarrow> (string, u64) btree_map \<Rightarrow> nat \<Rightarrow> bool" where
  "note_ok L sys snapshot n \<longleftrightarrow>
     (\<forall>s p. s \<notin> ss_gone sys \<longrightarrow> bt_get snapshot s = Some p \<longrightarrow>
        position_ok L sys s p \<and> (ss_up sys \<longrightarrow> task_of (ss_readers sys) s \<noteq> None))"

definition stream_ok :: "s2_log \<Rightarrow> s2_system \<Rightarrow> string \<Rightarrow> bool" where
  "stream_ok L sys s \<longleftrightarrow>
     (\<forall>t. task_of (ss_readers sys) s = Some t \<longrightarrow>
        reading_ok L (ss_delivered sys) (ss_origin sys) s t (of_stream s (ss_held sys @ s2_buffered (ss_run sys)))) \<and>
     (ss_up sys \<longrightarrow> task_of (ss_readers sys) s = None \<longrightarrow>
        of_stream s (ss_held sys @ s2_buffered (ss_run sys)) = [] \<and> position_of (ss_readers sys) s = None) \<and>
     (\<forall>p. position_of (ss_readers sys) s = Some p \<longrightarrow> position_ok L sys s p) \<and>
     (\<forall>p. ss_kv sys s = Some p \<longrightarrow> position_ok L sys s p)"

definition s2_inv :: "s2_log \<Rightarrow> S2Source \<Rightarrow> s2_system \<Rightarrow> bool" where
  "s2_inv L src sys \<longleftrightarrow>
     readers_ok (ss_readers sys) \<and>
     (ss_up sys \<longrightarrow> exact_streams (ss_readers sys) = set (s2c_streams (s2s_config src))) \<and>
     ss_gone sys \<inter> set (s2c_streams (s2s_config src)) = {} \<and>
     s2_pending_positions (s2_recv (ss_run sys)) = batch_positions (ss_held sys) \<and>
     notes_good (note_ok L sys) (\<lambda>_. 0) (s2_pending_epochs (ss_run sys)) \<and>
     (\<forall>s. s \<notin> ss_gone sys \<longrightarrow> stream_ok L sys s)"

lemma s2_invD:
  assumes "s2_inv L src sys"
  shows "readers_ok (ss_readers sys)"
    and "ss_up sys \<Longrightarrow> exact_streams (ss_readers sys) = set (s2c_streams (s2s_config src))"
    and "ss_gone sys \<inter> set (s2c_streams (s2s_config src)) = {}"
    and "s2_pending_positions (s2_recv (ss_run sys)) = batch_positions (ss_held sys)"
    and "notes_good (note_ok L sys) (\<lambda>_. 0) (s2_pending_epochs (ss_run sys))"
    and "s \<notin> ss_gone sys \<Longrightarrow> stream_ok L sys s"
  using assms by (simp_all add: s2_inv_def)

lemma of_stream_append [simp]: "of_stream s (xs @ ys) = of_stream s xs @ of_stream s ys"
  by (simp add: of_stream_def)

lemma of_stream_sent: "of_stream s (map (source_record s') rs) = (if s' = s then map (source_record s') rs else [])"
  by (induction rs) (auto simp: of_stream_def)

lemma s2_inv_idle: "s2_inv L src (s2_idle kv)"
  by (simp add: s2_inv_def s2_idle_def readers_ok_def batch_positions_def stream_ok_def task_of_def
      position_of_def covered_def)

text \<open>Reading.\<close>

lemma send_records_fields:
  "s2_pending_epochs (send_records s out t run) = s2_pending_epochs run"
  "s2_pending_positions (s2_recv (send_records s out t run)) = s2_pending_positions (s2_recv run)"
  "exact_streams (s2_readers (send_records s out t run)) = exact_streams (s2_readers run)"
  "position_of (s2_readers (send_records s out t run)) = position_of (s2_readers run)"
  "readers_ok (s2_readers run) \<Longrightarrow> readers_ok (s2_readers (send_records s out t run))"
  "task_of (s2_readers (send_records s out t run)) = (task_of (s2_readers run))(s \<mapsto> t)"
  "s2_buffered (send_records s out t run) = s2_buffered run @ (case out of None \<Rightarrow> [] | Some b \<Rightarrow> b)"
  by (auto simp: send_records_def position_of_def task_of_def readers_ok_def s2_buffered_def fun_eq_iff split: option.splits)

lemma read_stream_reading_ok:
  assumes "read_stream_step s ev t = (out, t')" and "event_lawful L s t ev"
    and ok: "reading_ok L D origin s t q"
  shows "reading_ok L D origin s t' (q @ (case out of None \<Rightarrow> [] | Some b \<Rightarrow> b))"
proof (cases ev)
  case (SessionBatch records)
  then show ?thesis
    using assms reading_ok_batch [of L D origin s t q records t'] by (cases "records = []") auto
next
  case SessionLost
  with assms show ?thesis by (auto simp: reading_ok_def)
qed

lemma read_stream_out:
  "read_stream_step s ev t = (out, t') \<Longrightarrow>
   \<exists>rs. (case out of None \<Rightarrow> [] | Some b \<Rightarrow> b) = map (source_record s) rs"
  by (cases ev) (auto split: if_splits intro: exI [of _ "[]"])

lemma s2_inv_read:
  assumes inv: "s2_inv L src sys" and t: "task_of (ss_readers sys) s = Some t" and ev: "event_lawful L s t ev"
    and step: "read_stream_step s ev t = (out, t')"
  shows "s2_inv L src (sys\<lparr>ss_run := send_records s out t' (ss_run sys)\<rparr>)"
proof -
  let ?sys = "sys\<lparr>ss_run := send_records s out t' (ss_run sys)\<rparr>"
  let ?out = "case out of None \<Rightarrow> [] | Some b \<Rightarrow> b"
  obtain rs where rs: "?out = map (source_record s) rs" using read_stream_out [OF step] by blast
  have "note_ok L sys p n \<Longrightarrow> note_ok L ?sys p n" for p n
    by (auto simp: note_ok_def send_records_fields)
  then have noted: "notes_good (note_ok L ?sys) (\<lambda>_. 0) (s2_pending_epochs (ss_run sys))"
    using s2_invD(5) [OF inv] by (rule notes_good_mono [rotated])
  have "stream_ok L ?sys s'" if gone: "s' \<notin> ss_gone sys" for s'
  proof (cases "s' = s")
    case True
    have "reading_ok L (ss_delivered sys) (ss_origin sys) s t (of_stream s (ss_held sys @ s2_buffered (ss_run sys)))"
      using s2_invD(6) [OF inv gone] t True by (simp add: stream_ok_def)
    from read_stream_reading_ok [OF step ev this] show ?thesis
      using s2_invD(6) [OF inv gone] True rs by (simp add: stream_ok_def send_records_fields of_stream_sent)
  next
    case False
    then show ?thesis
      using s2_invD(6) [OF inv gone] rs by (simp add: stream_ok_def send_records_fields of_stream_sent)
  qed
  with noted s2_invD(1-4) [OF inv] show ?thesis by (simp add: s2_inv_def send_records_fields)
qed

text \<open>Pulling a batch.\<close>

lemma s2_generate_batch_conserves:
  assumes "s2_generate_batch (with_rows convert) n True None run = (res, run')"
  shows "returned_rows res @ s2_buffered run' = s2_buffered run"
    and "s2_pending_positions (s2_recv run') = batch_positions (returned_rows res)"
    and "s2_readers run' = s2_readers (s2_confirm run)"
    and "s2_pending_epochs run' = s2_pending_epochs run"
proof -
  define r where "r = s2_fill n None (s2_recv (s2_confirm run))"
  have r: "s2_carry r @ concat (s2_rx r) = s2_buffered run" "s2_pending_positions r = []"
    using refill_conserves [of None "s2_rx (s2_recv run)" "s2_carry (s2_recv run)" n]
    by (simp_all add: r_def s2_fill_def s2_confirm_def s2_buffered_def split_beta Let_def)
  define m where "m = min (length (s2_carry r)) n"
  have cases: "(res, run') = (if m = 0 then (Inr None, (s2_confirm run)\<lparr>s2_recv := r\<rparr>)
      else case with_rows convert (take m (s2_carry r)) of
        Inl e \<Rightarrow> (Inl e, (s2_confirm run)\<lparr>s2_recv := r\<rparr>)
      | Inr b \<Rightarrow> (Inr (Some b), (s2_confirm run)\<lparr>s2_recv := r\<lparr>s2_carry := drop m (s2_carry r),
            s2_pending_positions := batch_positions (take m (s2_carry r))\<rparr>\<rparr>))"
    using assms(1) unfolding s2_generate_batch_def Let_def r_def [symmetric] m_def [symmetric]
    by (auto split: if_splits sum.splits)
  have epochs: "s2_pending_epochs (s2_confirm run) = s2_pending_epochs run" by (simp add: s2_confirm_def Let_def)
  show "returned_rows res @ s2_buffered run' = s2_buffered run"
    "s2_pending_positions (s2_recv run') = batch_positions (returned_rows res)"
    "s2_readers run' = s2_readers (s2_confirm run)"
    "s2_pending_epochs run' = s2_pending_epochs run"
    using cases r epochs
    by (auto simp: returned_rows_def s2_buffered_def with_rows_def res_bind_Inr_iff res_bind_Inl_iff
        batch_positions_def simp flip: append_assoc split: if_splits sum.splits)
qed

lemma last_of_Some:
  assumes "last_of s rows = Some r"
  shows "r \<in> set (of_stream s rows)"
  using assms by (auto simp: last_of_def of_stream_def find_Some_iff) (metis nth_mem set_rev length_rev)

lemma s2_confirm_readers:
  assumes "s2_pending_positions (s2_recv run) = batch_positions held" and "readers_ok (s2_readers run)"
  shows "readers_ok (s2_readers (s2_confirm run))"
    "exact_streams (s2_readers (s2_confirm run)) = exact_streams (s2_readers run)"
    "task_of (s2_readers (s2_confirm run)) s = task_of (s2_readers run) s"
    "position_of (s2_readers (s2_confirm run)) s =
       map_option (\<lambda>p. case last_of s held of None \<Rightarrow> p | Some r \<Rightarrow> max p (sat_inc (sr_seq_num r)))
         (position_of (s2_readers run) s)"
proof -
  have b: "bt_ok (batch_positions held)" using batch_positions_spec by simp
  have confirm: "s2_readers (s2_confirm run) = record_emitted (batch_positions held) (s2_readers run)"
    using assms(1) by (simp add: s2_confirm_def record_emitted_def Let_def)
  show "readers_ok (s2_readers (s2_confirm run))"
    "exact_streams (s2_readers (s2_confirm run)) = exact_streams (s2_readers run)"
    "task_of (s2_readers (s2_confirm run)) s = task_of (s2_readers run) s"
    "position_of (s2_readers (s2_confirm run)) s =
       map_option (\<lambda>p. case last_of s held of None \<Rightarrow> p | Some r \<Rightarrow> max p (sat_inc (sr_seq_num r)))
         (position_of (s2_readers run) s)"
    using record_emitted_spec [OF assms(2) b] conjunct2 [OF batch_positions_spec [of held s]]
    unfolding confirm by (auto split: option.splits intro!: option.map_cong)
qed

lemma pull_stream_ok:
  assumes ok: "stream_ok L sys s" and "ss_up sys" and "log_lawful L"
    and tasks: "task_of (s2_readers run') s = task_of (ss_readers sys) s"
    and pos: "position_of (s2_readers run') s =
       map_option (\<lambda>p. case last_of s (ss_held sys) of None \<Rightarrow> p | Some r \<Rightarrow> max p (sat_inc (sr_seq_num r)))
         (position_of (ss_readers sys) s)"
    and rows: "rows @ s2_buffered run' = s2_buffered (ss_run sys)"
  shows "stream_ok L (sys\<lparr>ss_run := run', ss_delivered := ss_delivered sys \<union> set (ss_held sys), ss_held := rows\<rparr>) s"
proof -
  let ?D = "ss_delivered sys" and ?h = "of_stream s (ss_held sys)" and ?w = "of_stream s (s2_buffered (ss_run sys))"
  have reading: "reading_ok L ?D (ss_origin sys) s t (?h @ ?w)" if "task_of (ss_readers sys) s = Some t" for t
    using ok that by (simp add: stream_ok_def)
  have sub: "set ?h \<subseteq> ?D \<union> set (ss_held sys)" by (auto simp: of_stream_def)
  have "covered L (?D \<union> set (ss_held sys)) (ss_origin sys) s (sat_inc (sr_seq_num r))"
    if r: "last_of s (ss_held sys) = Some r" and t: "task_of (ss_readers sys) s = Some t" for r t
  proof -
    have "\<forall>r' \<in> set ?w. sr_seq_num r \<le> sr_seq_num r'"
      using reading [OF t] last_of_Some [OF r] by (auto simp: reading_ok_def sorted_append)
    from confirm_covered [OF reading [OF t] \<open>log_lawful L\<close> last_of_Some [OF r] this] show ?thesis
      by (rule covered_mono) (use sub in blast)
  qed
  moreover have "task_of (ss_readers sys) s \<noteq> None" if "position_of (ss_readers sys) s \<noteq> None"
    using ok that \<open>ss_up sys\<close> by (auto simp: stream_ok_def)
  ultimately have "covered L (?D \<union> set (ss_held sys)) (ss_origin sys) s p"
    if "position_of (s2_readers run') s = Some p" for p
    using that ok covered_mono [of L ?D "ss_origin sys" s _ "?D \<union> set (ss_held sys)"] unfolding pos stream_ok_def
    by (auto split: option.splits intro!: covered_max)
  moreover have "reading_ok L (?D \<union> set (ss_held sys)) (ss_origin sys) s t ?w"
    if "task_of (ss_readers sys) s = Some t" for t
    using reading_ok_deliver [OF reading [OF that] sub] by simp
  ultimately show ?thesis
    using ok tasks pos arg_cong [OF rows, of "of_stream s"] unfolding stream_ok_def
    by (auto intro: covered_mono)
qed

lemma s2_inv_pull:
  assumes inv: "s2_inv L src sys" and "ss_up sys" and "log_lawful L"
    and gen: "s2_generate_batch (with_rows convert) n True None (ss_run sys) = (res, run')"
  shows "s2_inv L src (sys\<lparr>ss_run := run', ss_delivered := ss_delivered sys \<union> set (ss_held sys), ss_held := returned_rows res\<rparr>)"
    (is "s2_inv L src ?sys")
proof -
  note run' = s2_generate_batch_conserves [OF gen]
  note readers = s2_confirm_readers [OF s2_invD(4) [OF inv] s2_invD(1) [OF inv], folded run'(3)]
  have "note_ok L sys p m \<Longrightarrow> note_ok L ?sys p m" for p m
    by (auto simp: note_ok_def readers(3) intro: covered_mono)
  then have noted: "notes_good (note_ok L ?sys) (\<lambda>_. 0) (s2_pending_epochs run')"
    using s2_invD(5) [OF inv] unfolding run'(4) by (rule notes_good_mono [rotated])
  have "stream_ok L ?sys s" if "s \<notin> ss_gone sys" for s
    using pull_stream_ok [OF s2_invD(6) [OF inv that] assms(2,3) readers(3,4) run'(1)] .
  with noted readers(1,2) run'(2) s2_invD(2,3) [OF inv] show ?thesis by (simp add: s2_inv_def)
qed

text \<open>Checkpoints.\<close>

lemma visible_note_ok:
  assumes "s2_inv L src sys"
  shows "note_ok L sys (positions (ss_readers sys)) n"
  using s2_invD(6) [OF assms] by (fastforce simp: note_ok_def stream_ok_def position_of_def)

lemma s2_inv_frame:
  assumes "s2_inv L src sys" and "s2_readers run' = ss_readers sys" and "s2_recv run' = s2_recv (ss_run sys)"
    and "notes_good (note_ok L sys) (\<lambda>_. 0) (s2_pending_epochs run')"
    and "\<And>s p. s \<notin> ss_gone sys \<Longrightarrow> kv' s = Some p \<Longrightarrow> position_ok L sys s p"
  shows "s2_inv L src (sys\<lparr>ss_run := run', ss_kv := kv'\<rparr>)"
proof -
  have "note_ok L (sys\<lparr>ss_run := run', ss_kv := kv'\<rparr>) = note_ok L sys"
    using assms(2) by (simp add: note_ok_def fun_eq_iff)
  then show ?thesis
    using assms by (simp add: s2_inv_def stream_ok_def s2_buffered_def)
qed

lemma s2_inv_mark:
  assumes inv: "s2_inv L src sys"
  shows "s2_inv L src (sys\<lparr>ss_run := s2_checkpoint_marker e (ss_run sys)\<rparr>)"
proof -
  have "notes_good (note_ok L sys) (\<lambda>_. 0) (s2_pending_epochs (s2_checkpoint_marker e (ss_run sys)))"
    using s2.mark_good [OF s2_invD(5) [OF inv], of 0 e] visible_note_ok [OF inv, of 0] by (simp add: fun_upd_idem)
  from s2_inv_frame [OF inv _ _ this, of "ss_kv sys"] s2_invD(6) [OF inv] show ?thesis
    by (simp add: s2_checkpoint_marker_def stream_ok_def)
qed

lemma finalizer_spec:
  assumes "s2_checkpoint_finalizer put_error written e run = (res, persisted, run')"
  shows "run' = snd (take_snapshot e run)"
    and "bt_get persisted s = Some p \<Longrightarrow>
      \<exists>snapshot. fst (take_snapshot e run) = Some snapshot \<and> bt_get snapshot s = Some p \<and> position_of (s2_readers run) s \<noteq> None"
  using assms
  by (auto simp: s2_checkpoint_finalizer_def Let_def take_snapshot_def position_of_def split: option.splits if_splits)

lemma s2_inv_finalize:
  assumes inv: "s2_inv L src sys"
    and fin: "s2_checkpoint_finalizer put_error written e (ss_run sys) = (res, persisted, run')"
  shows "s2_inv L src (sys\<lparr>ss_run := run', ss_kv := ss_kv sys ++ bt_get persisted\<rparr>)"
proof -
  obtain taken where taken: "take_snapshot e (ss_run sys) = (taken, run')"
    using finalizer_spec(1) [OF fin] by (metis prod.collapse)
  note good = s2.settle_good [OF s2_invD(5) [OF inv] taken]
  have run': "s2_readers run' = ss_readers sys" "s2_recv run' = s2_recv (ss_run sys)"
    using taken by (auto simp: take_snapshot_def)
  have "position_ok L sys s p" if gone: "s \<notin> ss_gone sys" and kv: "(ss_kv sys ++ bt_get persisted) s = Some p" for s p
  proof (cases "bt_get persisted s")
    case None
    with kv s2_invD(6) [OF inv gone] show ?thesis by (auto simp: stream_ok_def map_add_def)
  next
    case (Some q)
    with kv have "bt_get persisted s = Some p" by (simp add: map_add_def)
    from finalizer_spec(2) [OF fin this] good(2) taken gone show ?thesis by (auto simp: note_ok_def)
  qed
  from s2_inv_frame [OF inv run' good(1) this] show ?thesis .
qed

text \<open>Starting and pruning readers.\<close>

lemma covered_cong: "origin s = origin' s \<Longrightarrow> covered L D origin s p = covered L D origin' s p"
  by (simp add: covered_def)

lemma reading_ok_cong: "origin s = origin' s \<Longrightarrow> reading_ok L D origin s t q = reading_ok L D origin' s t q"
  by (simp add: reading_ok_def covered_def)

lemma stream_ok_same:
  assumes "stream_ok L sys s" and "ss_origin sys' s = ss_origin sys s" and "ss_delivered sys' = ss_delivered sys"
    and "task_of (ss_readers sys') s = task_of (ss_readers sys) s"
    and "position_of (ss_readers sys') s = position_of (ss_readers sys) s"
    and "of_stream s (ss_held sys' @ s2_buffered (ss_run sys')) = of_stream s (ss_held sys @ s2_buffered (ss_run sys))"
    and "ss_kv sys' s = ss_kv sys s" and "ss_up sys' = ss_up sys"
  shows "stream_ok L sys' s"
  using assms covered_cong [of "ss_origin sys'" s "ss_origin sys"] reading_ok_cong [of "ss_origin sys'" s "ss_origin sys"]
  by (simp add: stream_ok_def)

lemma started_stream_ok:
  assumes kv: "\<And>p. ss_kv sys s = Some p \<Longrightarrow> position_ok L sys s p" and A: "backend_answers (ss_kv sys) A"
    and new: "task_of rs s = None" "start_seq_num A fb s = Inr n" "position_of (s2_readers run') s = Some n"
      "task_of (s2_readers run') s = Some \<lparr>next_seq_num = n, reopen_delay = REOPEN_DELAY_MIN\<rparr>"
    and empty: "of_stream s (ss_held sys @ s2_buffered run') = []" and "s \<notin> cleared"
  shows "stream_ok L (after_restart removed rs run' cleared sys) s"
proof -
  have n: "n = p" if "ss_kv sys s = Some p" for p
    using new(2) A that by (auto simp: start_seq_num_def res_bind_Inr_iff map_err_Inr_iff backend_answers_def split: option.splits)
  let ?origin = "origin_after (ss_kv sys) rs (s2_readers run') (ss_origin sys)"
  have "covered L (ss_delivered sys) ?origin s n"
  proof (cases "ss_kv sys s = None \<or> ss_origin sys s = None")
    case True
    then show ?thesis using new by (intro covered_start) (simp add: origin_after_def)
  next
    case False
    then have "?origin s = ss_origin sys s" by (auto simp: origin_after_def)
    from False kv n show ?thesis by (auto simp: covered_cong [of ?origin s "ss_origin sys"] \<open>?origin s = ss_origin sys s\<close>)
  qed
  moreover have "?origin s \<noteq> None" using new by (auto simp: origin_after_def)
  ultimately show ?thesis
    using new empty n by (auto simp: stream_ok_def after_restart_def reading_ok_def)
qed

lemma after_restart_stream_ok:
  assumes ok: "stream_ok L sys s" and up: "ss_up sys" and A: "backend_answers (ss_kv sys) A"
    and new: "started_or_same A fb s (ss_readers sys) (s2_readers run')"
    and run': "s2_recv run' = s2_recv (ss_run sys)" and "s \<notin> cleared"
  shows "stream_ok L (after_restart removed (ss_readers sys) run' cleared sys) s"
    (is "stream_ok L ?sys s")
proof -
  have buf: "s2_buffered run' = s2_buffered (ss_run sys)" using run' by (simp add: s2_buffered_def)
  from new consider
    (same) "task_of (s2_readers run') s = task_of (ss_readers sys) s" "position_of (s2_readers run') s = position_of (ss_readers sys) s"
  | (new) n where "task_of (ss_readers sys) s = None" "start_seq_num A fb s = Inr n" "position_of (s2_readers run') s = Some n"
      "task_of (s2_readers run') s = Some \<lparr>next_seq_num = n, reopen_delay = REOPEN_DELAY_MIN\<rparr>"
    by (auto simp: started_or_same_def)
  then show ?thesis
  proof cases
    case same
    show ?thesis
      by (rule stream_ok_same [OF ok]) (use same buf up \<open>s \<notin> cleared\<close> in \<open>auto simp: after_restart_def origin_after_def\<close>)
  next
    case new
    show ?thesis
      by (rule started_stream_ok [OF _ A new]) (use ok new buf up \<open>s \<notin> cleared\<close> in \<open>auto simp: stream_ok_def\<close>)
  qed
qed

lemma s2_inv_refresh:
  assumes inv: "s2_inv L src sys" and up: "ss_up sys" and A: "backend_answers (ss_kv sys) A"
    and page: "refresh_streams_page A (s2s_config src) page scan (ss_readers sys) = (res, removed, scan', rs')"
    and cleared: "cleared \<subseteq> set removed"
  shows "s2_inv L src (after_restart (set removed) (ss_readers sys)
           ((ss_run sys)\<lparr>s2_readers := rs', s2_refresh_task := Some scan'\<rparr>) cleared sys)"
    (is "s2_inv L src ?sys")
proof -
  note spec = refresh_spec [OF page s2_invD(1) [OF inv]]
  have "stream_ok L ?sys s" if "s \<notin> ss_gone sys \<union> set removed" for s
    by (rule after_restart_stream_ok [OF _ up A, of L s "s2c_start_position (s2s_config src)"])
       (use spec [of s] s2_invD(6) [OF inv, of s] that cleared in auto)
  moreover have "note_ok L ?sys p n" if nt: "note_ok L sys p n" for p n
    unfolding note_ok_def
  proof (intro allI impI)
    fix s q
    assume s: "s \<notin> ss_gone ?sys" "bt_get p s = Some q"
    with nt up have ok: "position_ok L sys s q" "task_of (ss_readers sys) s \<noteq> None"
      by (auto simp: note_ok_def after_restart_def)
    then have "ss_origin ?sys s = ss_origin sys s" by (auto simp: after_restart_def origin_after_def)
    with ok s spec [of s] show "position_ok L ?sys s q \<and> (ss_up ?sys \<longrightarrow> task_of (ss_readers ?sys) s \<noteq> None)"
      by (auto simp: after_restart_def covered_def started_or_same_def)
  qed
  then have "notes_good (note_ok L ?sys) (\<lambda>_. 0) (s2_pending_epochs (ss_run sys))"
    using s2_invD(5) [OF inv] by (rule notes_good_mono [rotated])
  ultimately show ?thesis
    using spec s2_invD(1-4) [OF inv] up by (auto simp: s2_inv_def after_restart_def)
qed

lemma readers_start_spec:
  assumes "readers_start A cfg page (stream_readers_new cfg) = (Inr scan, removed, rs')"
  shows "readers_ok rs' \<and> exact_streams rs' = set (s2c_streams cfg) \<and> set removed \<inter> set (s2c_streams cfg) = {} \<and>
         (s \<notin> set removed \<longrightarrow> started_or_same A (s2c_start_position cfg) s (stream_readers_new cfg) rs')"
proof -
  have new: "readers_ok (stream_readers_new cfg)" "exact_streams (stream_readers_new cfg) = set (s2c_streams cfg)"
    by (simp_all add: readers_ok_def stream_readers_new_def)
  obtain r1 rs1 where e: "ensure_streams A (s2c_start_position cfg) (s2c_streams cfg) (stream_readers_new cfg) = (r1, rs1)"
    by fastforce
  note first = ensure_streams_spec [OF e new(1), of s, unfolded new(2)]
  show ?thesis
  proof (cases "rs' = rs1 \<and> removed = []")
    case False
    with assms e obtain scan' where
      "refresh_streams_page A cfg page prefix_scan_default rs1 = (Inr (), removed, scan', rs')"
      by (auto simp: readers_start_def split: sum.splits if_splits prod.splits)
    from refresh_spec [OF this, of s] first show ?thesis
      by (auto intro: started_or_same_trans)
  qed (use first in auto)
qed

lemma s2_initialize_Inr:
  assumes "s2_initialize (Inr ()) A page src = (Inr (), removed, src')" and "s2s_inner src = None"
    and "s2s_inner src' = Some run'"
  obtains scan where
    "readers_start A (s2s_config src) page (stream_readers_new (s2s_config src)) = (Inr scan, removed, s2_readers run')"
    "s2_recv run' = \<lparr>s2_rx = [], s2_carry = [], s2_pending_positions = []\<rparr>" "s2_pending_epochs run' = []"
  using assms by (auto simp: s2_initialize_def split: sum.splits prod.splits)

lemma s2_inv_restart:
  assumes inv: "s2_inv L src sys" and A: "backend_answers (ss_kv sys) A" and src: "s2s_inner src = None"
    and init: "s2_initialize (Inr ()) A page src = (Inr (), removed, src')" "s2s_inner src' = Some run'"
    and cleared: "cleared \<subseteq> set removed"
  shows "s2_inv L src (after_restart (set removed) (stream_readers_new (s2s_config src)) run' cleared (sys\<lparr>ss_held := []\<rparr>))"
    (is "s2_inv L src ?sys")
proof -
  obtain scan where start:
    "readers_start A (s2s_config src) page (stream_readers_new (s2s_config src)) = (Inr scan, removed, s2_readers run')"
    and run': "s2_recv run' = \<lparr>s2_rx = [], s2_carry = [], s2_pending_positions = []\<rparr>" "s2_pending_epochs run' = []"
    using s2_initialize_Inr [OF init(1) src init(2)] by blast
  note spec = readers_start_spec [OF start]
  let ?rs = "stream_readers_new (s2s_config src)" and ?cut = "sys\<lparr>ss_held := []\<rparr>"
  have buf: "s2_buffered run' = []" using run' by (simp add: s2_buffered_def)
  have none: "task_of ?rs s = None" "position_of ?rs s = None" for s
    by (simp_all add: stream_readers_new_def task_of_def position_of_def)
  have "stream_ok L ?sys s" if s: "s \<notin> ss_gone sys \<union> set removed" for s
  proof -
    have kv: "\<And>p. ss_kv ?cut s = Some p \<Longrightarrow> position_ok L ?cut s p"
      using s2_invD(6) [OF inv, of s] s by (auto simp: stream_ok_def)
    have A0: "backend_answers (ss_kv ?cut) A" using A by simp
    have c: "s \<notin> cleared" using s cleared by auto
    from spec [of s] s have "started_or_same A (s2c_start_position (s2s_config src)) s ?rs (s2_readers run')" by auto
    then show ?thesis
      unfolding started_or_same_def
    proof (elim disjE conjE exE)
      assume "task_of (s2_readers run') s = task_of ?rs s" "position_of (s2_readers run') s = position_of ?rs s"
      with none have same: "task_of (s2_readers run') s = None" "position_of (s2_readers run') s = None" by simp_all
      show ?thesis
        using kv c by (simp add: stream_ok_def after_restart_def origin_after_def of_stream_def covered_def buf same)
    qed (rule started_stream_ok [OF kv A0 _ _ _ _ _ c], simp_all add: buf of_stream_def)
  qed
  with spec run' s2_invD(3) [OF inv] show ?thesis
    by (auto simp: s2_inv_def after_restart_def batch_positions_def)
qed

lemma s2_inv_stop:
  assumes inv: "s2_inv L src sys"
  shows "s2_inv L src (sys\<lparr>ss_up := False, ss_run := (ss_run sys)\<lparr>s2_readers := readers_shutdown (ss_readers sys), s2_refresh_task := None\<rparr>\<rparr>)"
    (is "s2_inv L src ?sys")
proof -
  have "note_ok L sys p n \<Longrightarrow> note_ok L ?sys p n" for p n by (simp add: note_ok_def)
  then have "notes_good (note_ok L ?sys) (\<lambda>_. 0) (s2_pending_epochs (ss_run sys))"
    using s2_invD(5) [OF inv] by (rule notes_good_mono [rotated])
  with inv show ?thesis
    by (auto simp: s2_inv_def stream_ok_def readers_shutdown_def readers_ok_def task_of_def position_of_def)
qed

lemma s2_inv_step:
  assumes "s2_step L src convert sys sys'" and "log_lawful L" and "s2_inv L src sys"
  shows "s2_inv L src sys'"
  using assms
  by (cases rule: s2_step.cases)
     (auto intro: s2_inv_read s2_inv_pull s2_inv_mark s2_inv_finalize s2_inv_refresh s2_inv_restart s2_inv_stop)

lemma s2_inv_reachable:
  assumes "s2_reachable L src convert kv sys" and "log_lawful L"
  shows "s2_inv L src sys"
  using assms(1) unfolding s2_reachable_def
  by (induction rule: rtranclp_induct) (use assms(2) s2_inv_idle s2_inv_step in blast)+

section \<open>Scans\<close>












section \<open>Properties\<close>

text \<open>
  C22: a restart skips no record that was not delivered. In every reachable state, over any number of
  restarts and whatever fails on the way: if a position is persisted for a configured stream, or for a
  discovered one that was never pruned, then every record of the stream from where its reading began up
  to that position has been delivered to the host.
\<close>

theorem s2_restart_skips_nothing:
  assumes "s2_reachable L src convert kv sys" and "log_lawful L"
    and "s \<in> set (s2c_streams (s2s_config src)) \<or> s \<notin> ss_gone sys"
    and "ss_kv sys s = Some p" and "ss_origin sys s = Some n"
    and "x \<in> L s" and "n \<le> s2_seq_num x" and "s2_seq_num x < p"
  shows "source_record s x \<in> ss_delivered sys"
proof -
  have inv: "s2_inv L src sys" by (rule s2_inv_reachable [OF assms(1,2)])
  have "s \<notin> ss_gone sys" using s2_invD(3) [OF inv] assms(3) by auto
  from s2_invD(6) [OF inv this] assms(4-) show ?thesis by (auto simp: stream_ok_def covered_def)
qed


text \<open>
  A stream that is deleted, pruned, created again under its name and found by a later scan starts at 0,
  but rows of its old incarnation that were handed out before then push its position past records of
  the new one that were never delivered.
\<close>

lemma recreated_stream_skips_records:
  "let stale = \<lparr>sr_stream = ''a'', sr_seq_num = 500, sr_timestamp = 0, sr_headers = [], sr_body = []\<rparr>;
       rs = \<lparr>exact_streams = {}, tasks = [(''a'', \<lparr>next_seq_num = 501, reopen_delay = 1\<rparr>)], positions = [(''a'', 500)]\<rparr>;
       pruned = snd (prune_unlisted_streams {} rs);
       again = snd (ensure_stream \<lparr>get_kv = \<lambda>_. Inr None, check_tail = \<lambda>_. Inr 0\<rparr> S2Earliest ''a'' pruned);
       late = record_emitted (batch_positions [stale]) again
   in bt_get (positions again) ''a'' = Some 0 \<and> bt_get (positions late) ''a'' = Some 501"
  by (simp add: prune_unlisted_streams_def bt_remove_def ensure_stream_def start_seq_num_def batch_positions_def
      record_emitted_def sat_inc_def Let_def max_def)

section \<open>Witnesses\<close>

definition one_record :: S2Record where
  "one_record = \<lparr>s2_seq_num = 0, s2_timestamp = 0, s2_headers = [], s2_body = ''x''\<rparr>"

definition one_log :: s2_log where
  "one_log s = (if s = ''a'' then {one_record} else {})"

definition one_config :: S2SourceConfig where
  "one_config =
     \<lparr>s2c_basin = ''b'', s2c_streams = [''a''], s2c_stream_prefix = None, s2c_endpoints = None,
      s2c_start_position = S2Earliest, s2c_output = Raw, s2c_batch_size = 10,
      s2c_update_streams_interval_secs = 60, s2c_request_timeout_ms = 5000\<rparr>"

definition one_source :: S2Source where
  "one_source =
     \<lparr>s2s_config = one_config, s2s_access_token = ''t'', s2s_converter = \<lparr>rc_schema = [], rc_typed = None\<rparr>,
      s2s_inner = None, s2s_running = True\<rparr>"

definition one_readers :: "u64 \<Rightarrow> u64 \<Rightarrow> StreamReaders" where
  "one_readers cursor pos =
     \<lparr>exact_streams = {''a''}, tasks = [(''a'', \<lparr>next_seq_num = cursor, reopen_delay = 1\<rparr>)],
      positions = [(''a'', pos)]\<rparr>"

definition one_system ::
  "u64 \<Rightarrow> u64 \<Rightarrow> SourceRecord list list \<Rightarrow> (string, u64) btree_map \<Rightarrow> (u64, (string, u64) btree_map) btree_map
     \<Rightarrow> (string \<Rightarrow> u64 option) \<Rightarrow> SourceRecord list \<Rightarrow> SourceRecord set \<Rightarrow> s2_system" where
  "one_system cursor pos rx pending epochs kv held delivered =
     \<lparr>ss_run = \<lparr>s2_readers = one_readers cursor pos,
                s2_recv = \<lparr>s2_rx = rx, s2_carry = [], s2_pending_positions = pending\<rparr>,
                s2_pending_epochs = epochs, s2_refresh_task = None\<rparr>,
      ss_up = True, ss_kv = kv, ss_origin = [''a'' \<mapsto> 0], ss_held = held, ss_delivered = delivered, ss_gone = {}\<rparr>"

abbreviation one_row :: SourceRecord where
  "one_row \<equiv> source_record ''a'' one_record"

abbreviation one_step :: "s2_system \<Rightarrow> s2_system \<Rightarrow> bool" where
  "one_step \<equiv> s2_step one_log one_source (\<lambda>rows. Inr (length rows))"

lemma one_start: "one_step (s2_idle Map.empty) (one_system 0 0 [] [] [] Map.empty [] {})"
proof -
  define A where "A = \<lparr>get_kv = \<lambda>_. Inr None, check_tail = \<lambda>_. Inr 0\<rparr>"
  define run where "run = ss_run (one_system 0 0 [] [] [] Map.empty [] {})"
  have init: "s2_initialize (Inr ()) A (Inl []) one_source = (Inr (), [], one_source\<lparr>s2s_inner := Some run\<rparr>)"
    by (simp add: s2_initialize_def one_source_def one_config_def readers_start_def stream_readers_new_def
        ensure_stream_def start_seq_num_def A_def run_def one_system_def one_readers_def REOPEN_DELAY_MIN_def)
  have "one_step (s2_idle Map.empty)
     (after_restart (set []) (stream_readers_new (s2s_config one_source)) run {} ((s2_idle Map.empty)\<lparr>ss_held := []\<rparr>))"
    by (rule s2_step.restart [OF _ _ init]) (simp_all add: backend_answers_def A_def s2_idle_def one_source_def)
  moreover have "after_restart (set []) (stream_readers_new (s2s_config one_source)) run {} ((s2_idle Map.empty)\<lparr>ss_held := []\<rparr>) =
      one_system 0 0 [] [] [] Map.empty [] {}"
    by (auto simp: after_restart_def run_def one_system_def s2_idle_def origin_after_def task_of_def position_of_def
        stream_readers_new_def one_readers_def one_source_def one_config_def fun_eq_iff)
  ultimately show ?thesis by simp
qed

lemma one_read: "one_step (one_system 0 0 [] [] [] Map.empty [] {}) (one_system 1 0 [[one_row]] [] [] Map.empty [] {})"
proof -
  let ?sys = "one_system 0 0 [] [] [] Map.empty [] {}"
  have "one_step ?sys (?sys\<lparr>ss_run := send_records ''a'' (Some [one_row]) \<lparr>next_seq_num = 1, reopen_delay = 1\<rparr> (ss_run ?sys)\<rparr>)"
    by (rule s2_step.read [of _ _ "\<lparr>next_seq_num = 0, reopen_delay = 1\<rparr>" _ "SessionBatch [one_record]"])
       (auto simp: one_system_def one_readers_def task_of_def session_lawful_def one_log_def one_record_def
          sat_inc_def REOPEN_DELAY_MIN_def)
  then show ?thesis by (simp add: one_system_def one_readers_def send_records_def)
qed

lemma one_pull: "one_step (one_system 1 0 [[one_row]] [] [] Map.empty [] {}) (one_system 1 0 [] [(''a'', 1)] [] Map.empty [one_row] {})"
proof -
  let ?sys = "one_system 1 0 [[one_row]] [] [] Map.empty [] {}"
  have "s2_generate_batch (with_rows (\<lambda>rows. Inr (length rows))) (s2c_batch_size (s2s_config one_source)) True None (ss_run ?sys) =
      (Inr (Some ([one_row], 1)), ss_run (one_system 1 0 [] [(''a'', 1)] [] Map.empty [one_row] {}))"
    by (simp add: s2_generate_batch_def s2_confirm_def s2_fill_def refill_def with_rows_def one_system_def
        batch_positions_def sat_inc_def one_record_def one_source_def one_config_def Let_def)
  from s2_step.pull [OF _ this, of one_log] show ?thesis
    by (simp add: one_system_def returned_rows_def)
qed

lemma one_confirm: "one_step (one_system 1 0 [] [(''a'', 1)] [] Map.empty [one_row] {}) (one_system 1 1 [] [] [] Map.empty [] {one_row})"
proof -
  let ?sys = "one_system 1 0 [] [(''a'', 1)] [] Map.empty [one_row] {}"
  have "s2_generate_batch (with_rows (\<lambda>rows. Inr (length rows))) (s2c_batch_size (s2s_config one_source)) True None (ss_run ?sys) =
      (Inr None, ss_run (one_system 1 1 [] [] [] Map.empty [] {one_row}))"
    by (simp add: s2_generate_batch_def s2_confirm_def s2_fill_def refill_def one_system_def record_emitted_def
        one_readers_def max_def one_source_def one_config_def Let_def)
  from s2_step.pull [OF _ this, of one_log] show ?thesis by (simp add: one_system_def returned_rows_def)
qed

lemma one_checkpoint:
  "one_step (one_system 1 1 [] [] [] Map.empty [] {one_row}) (one_system 1 1 [] [] [(7, [(''a'', 1)])] Map.empty [] {one_row})"
  "one_step (one_system 1 1 [] [] [(7, [(''a'', 1)])] Map.empty [] {one_row}) (one_system 1 1 [] [] [] [''a'' \<mapsto> 1] [] {one_row})"
proof -
  show "one_step (one_system 1 1 [] [] [] Map.empty [] {one_row}) (one_system 1 1 [] [] [(7, [(''a'', 1)])] Map.empty [] {one_row})"
    using s2_step.mark [of one_log one_source "\<lambda>rows. Inr (length rows)" "one_system 1 1 [] [] [] Map.empty [] {one_row}" 7]
    by (simp add: one_system_def s2_checkpoint_marker_def one_readers_def)
  let ?sys = "one_system 1 1 [] [] [(7, [(''a'', 1)])] Map.empty [] {one_row}"
  have "s2_checkpoint_finalizer None {} 7 (ss_run ?sys) =
      (Inr (), [(''a'', 1)], ss_run (one_system 1 1 [] [] [] [''a'' \<mapsto> 1] [] {one_row}))"
    by (simp add: s2_checkpoint_finalizer_def take_snapshot_def one_system_def one_readers_def bt_retain_def
        bt_remove_def bt_split_off_def Let_def)
  from s2_step.finalize [OF this, of one_log one_source "\<lambda>rows. Inr (length rows)"]
  show "one_step ?sys (one_system 1 1 [] [] [] [''a'' \<mapsto> 1] [] {one_row})" by (simp add: one_system_def)
qed

lemma one_stream_run:
  "s2_reachable one_log one_source (\<lambda>rows. Inr (length rows)) Map.empty (one_system 1 1 [] [] [] [''a'' \<mapsto> 1] [] {one_row})"
  unfolding s2_reachable_def
  using one_start one_read one_pull one_confirm one_checkpoint
  by (meson rtranclp.rtrancl_into_rtrancl rtranclp.rtrancl_refl)

lemma one_log_lawful: "log_lawful one_log"
  by (simp add: log_lawful_def one_log_def)

text \<open>One record is read, delivered and checkpointed: the persisted position 1 covers it.\<close>

theorem s2_restart_skips_nothing_witness:
  "s2_reachable one_log one_source (\<lambda>rows. Inr (length rows)) Map.empty (one_system 1 1 [] [] [] [''a'' \<mapsto> 1] [] {one_row}) \<and>
   source_record ''a'' one_record \<in> ss_delivered (one_system 1 1 [] [] [] [''a'' \<mapsto> 1] [] {one_row})"
proof
  show "source_record ''a'' one_record \<in> ss_delivered (one_system 1 1 [] [] [] [''a'' \<mapsto> 1] [] {one_row})"
    by (rule s2_restart_skips_nothing [OF one_stream_run one_log_lawful, of _ 1 0])
       (simp_all add: one_system_def one_source_def one_config_def one_log_def one_record_def)
qed (rule one_stream_run)


end
