(* ===== verification/S2Sink.thy ===== *)
theory S2Sink
  imports S2Source
begin

text \<open>
  The S2 sink: options and stream templates (\<open>src/src/sinks/s2/config.rs\<close>), the rows of a batch as append
  records, their routing to streams, and the producers whose outstanding tickets a checkpoint waits for
  (\<open>src/src/sinks/s2/sink.rs\<close>). The producer and its tickets, the printing of rows as JSON and the array
  formatter belong to other crates and are parameters.
\<close>

section \<open>Options and templates\<close>

datatype Segment = Literal string | Column string

datatype StreamTarget = FixedStream string | Template "Segment list"

record S2SinkConfig =
  s2k_basin :: string
  s2k_target :: StreamTarget
  s2k_ensure_stream :: bool
  s2k_request_timeout :: nat
  s2k_linger :: nat
  s2k_endpoints :: "string option"

abbreviation OPEN :: char where "OPEN \<equiv> CHR 0x7B"
abbreviation CLOSE :: char where "CLOSE \<equiv> CHR 0x7D"

text \<open>The name of a placeholder up to its closing brace, and what follows.\<close>

fun scan_column :: "string \<Rightarrow> string \<Rightarrow> (string \<times> string) option" where
  "scan_column column [] = None"
| "scan_column column (c # cs) =
     (if c = CLOSE then Some (column, cs) else if c = OPEN then None else scan_column (column @ [c]) cs)"

lemma scan_column_length: "scan_column col cs = Some (col', rest) \<Longrightarrow> length rest < length cs"
  by (induction col cs rule: scan_column.induct) (auto split: if_splits)

definition push_literal :: "string \<Rightarrow> Segment list \<Rightarrow> Segment list" where
  "push_literal literal segments = (if literal = [] then segments else segments @ [Literal literal])"

function template_loop :: "string \<Rightarrow> Segment list \<Rightarrow> string \<Rightarrow> string \<Rightarrow> PluginError + Segment list" where
  "template_loop template segments literal [] = Inr (push_literal literal segments)"
| "template_loop template segments literal (c # cs) =
     (if c = OPEN
      then
        (case scan_column [] cs of
           None \<Rightarrow> Inl (Internal (''s2_sink: unclosed '' @ quoted [OPEN] @ '' in stream_template '' @ quoted template))
         | Some (column, rest) \<Rightarrow>
             if column = []
             then Inl (Internal (''s2_sink: empty column placeholder in stream_template '' @ quoted template))
             else template_loop template (push_literal literal segments @ [Column column]) [] rest)
      else if c = CLOSE
      then Inl (Internal (''s2_sink: unmatched '' @ quoted [CLOSE] @ '' in stream_template '' @ quoted template))
      else template_loop template segments (literal @ [c]) cs)"
  by pat_completeness auto

termination template_loop
  by (relation "measure (\<lambda>(template, segments, literal, cs). length cs)")
     (auto dest: scan_column_length)

definition parse_stream_template :: "string \<Rightarrow> PluginError + Segment list" where
  "parse_stream_template template =
     res_bind (template_loop template [] [] template) (\<lambda>segments.
     if segments = [] then Inl (Internal ''s2_sink: stream_template cannot be empty'') else Inr segments)"

definition stream_target_from_options :: "s2_parsers \<Rightarrow> environment \<Rightarrow> PluginOptions \<Rightarrow> PluginError + StreamTarget" where
  "stream_target_from_options P env o' =
     (let stream = get_or env o' ''stream'' ''''; template = get_or env o' ''stream_template'' '''' in
      if stream \<noteq> [] \<and> template = []
      then res_bind (parse_value (parse_stream P) o' ''stream name'' stream) (\<lambda>s. Inr (FixedStream s))
      else if stream = [] \<and> template \<noteq> []
      then res_bind (parse_stream_template template) (\<lambda>t. Inr (Template t))
      else if stream \<noteq> []
      then Inl (Internal (''s2_sink: '' @ quoted ''stream'' @ '' and '' @ quoted ''stream_template'' @ '' are mutually exclusive''))
      else Inl (Internal (''s2_sink: one of '' @ quoted ''stream'' @ '' or '' @ quoted ''stream_template'' @ '' is required'')))"

definition s2_sink_parse_config :: "s2_parsers \<Rightarrow> environment \<Rightarrow> PluginOptions \<Rightarrow> PluginError + S2SinkConfig" where
  "s2_sink_parse_config P env o' =
     res_bind (get_option env o' ''basin'') (\<lambda>basin_text.
     res_bind (parse_value (parse_basin P) o' ''basin'' basin_text) (\<lambda>basin.
     res_bind (stream_target_from_options P env o') (\<lambda>target.
     res_bind (get_parsed env parse_bool o' ''ensure_stream'' ''true'') (\<lambda>ensure.
     res_bind (get_parsed env (parse_unsigned u64_max) o' ''request_timeout_ms'' ''5000'') (\<lambda>timeout.
     res_bind (get_parsed env (parse_unsigned u64_max) o' ''linger_ms'' ''5'') (\<lambda>linger.
     res_bind (optional_endpoints P env o') (\<lambda>endpoints.
     Inr \<lparr>s2k_basin = basin, s2k_target = target, s2k_ensure_stream = ensure,
          s2k_request_timeout = timeout, s2k_linger = linger, s2k_endpoints = endpoints\<rparr>)))))))"

section \<open>Rows as records\<close>

text \<open>
  A column as the sink sees it: its values when it is a string array, and otherwise the rendering of a
  row, which may fail; \<open>sc_formatter\<close> is the outcome of making a formatter.
\<close>

record sink_column =
  sc_strings :: "string option list option"
  sc_len :: nat
  sc_is_null :: "nat \<Rightarrow> bool"
  sc_render :: "nat \<Rightarrow> string + string"
  sc_formatter :: "string option"

record sink_batch =
  sb_num_rows :: nat
  sb_columns :: "(string \<times> sink_column) list"

definition column_by_name :: "sink_batch \<Rightarrow> string \<Rightarrow> sink_column option" where
  "column_by_name b name = map_of (sb_columns b) name"

definition to_op :: "(string \<Rightarrow> RowKind option) \<Rightarrow> string \<Rightarrow> PluginError + string" where
  "to_op parse_kind v =
     ok_or (Internal (''invalid '' @ quoted STREAMLING_COLUMN_NAME_OP @ '' row kind '' @ quoted v @ '' (expected i/u/d)''))
       (dbz_op_from_row_kind parse_kind v)"

definition dbz_ops_from_batch :: "(string \<Rightarrow> RowKind option) \<Rightarrow> sink_batch \<Rightarrow> PluginError + string list" where
  "dbz_ops_from_batch parse_kind b =
     res_bind (ok_or (Internal (''batch is missing the '' @ quoted STREAMLING_COLUMN_NAME_OP @ '' column''))
                (column_by_name b STREAMLING_COLUMN_NAME_OP)) (\<lambda>column.
     case sc_strings column of
       Some strings \<Rightarrow> collect_results (\<lambda>op. to_op parse_kind (case op of None \<Rightarrow> [] | Some v \<Rightarrow> v)) strings
     | None \<Rightarrow>
         collect_results
           (\<lambda>row. if sc_is_null column row then to_op parse_kind []
                  else res_bind (map_err (\<lambda>e. Internal (''failed to read '' @ quoted STREAMLING_COLUMN_NAME_OP
                                   @ '' at row '' @ show_nat row @ '': '' @ e)) (sc_render column row))
                         (to_op parse_kind))
           [0..<sc_len column])"

text \<open>The first column of that name is left out; the projection of the others cannot fail.\<close>

fun drop_column :: "string \<Rightarrow> (string \<times> 'c) list \<Rightarrow> (string \<times> 'c) list" where
  "drop_column name [] = []"
| "drop_column name ((n, c) # cs) = (if n = name then cs else (n, c) # drop_column name cs)"

definition without_op_column :: "sink_batch \<Rightarrow> sink_batch" where
  "without_op_column b = b\<lparr>sb_columns := drop_column STREAMLING_COLUMN_NAME_OP (sb_columns b)\<rparr>"

record AppendRecord =
  ar_body :: bytes
  ar_headers :: "(bytes \<times> bytes) list"

text \<open>\<open>record_error\<close> and \<open>header_error\<close> are the checks of the record constructor and of its headers.\<close>

record s2_record_api =
  record_error :: "bytes \<Rightarrow> string option"
  header_error :: "bytes \<Rightarrow> (bytes \<times> bytes) list \<Rightarrow> string option"

definition append_record :: "s2_record_api \<Rightarrow> bytes \<times> string \<Rightarrow> PluginError + AppendRecord" where
  "append_record R ro =
     (let (row, op) = ro; headers = [(DBZ_OP_HEADER, op)] in
      case record_error R row of
        Some e \<Rightarrow> Inl (Internal (''failed to build S2 AppendRecord (row '' @ show_nat (length row) @ '' bytes): '' @ e))
      | None \<Rightarrow>
          (case header_error R row headers of
             Some e \<Rightarrow> Inl (Internal (''failed to set S2 record header: '' @ e))
           | None \<Rightarrow> Inr \<lparr>ar_body = row, ar_headers = headers\<rparr>))"

definition append_records_from_json_rows ::
  "s2_record_api \<Rightarrow> bytes list \<Rightarrow> string list \<Rightarrow> PluginError + AppendRecord list" where
  "append_records_from_json_rows R json_rows ops =
     (if length ops \<noteq> length json_rows
      then Inl (Internal (''op count '' @ show_nat (length ops) @ '' does not match row count '' @ show_nat (length json_rows)))
      else collect_results (append_record R) (zip json_rows ops))"

section \<open>Routing\<close>

definition template_columns :: "Segment list \<Rightarrow> string list" where
  "template_columns segments = List.map_filter (\<lambda>s. case s of Column name \<Rightarrow> Some name | Literal _ \<Rightarrow> None) segments"

definition check_column :: "sink_batch \<Rightarrow> string \<Rightarrow> PluginError + string \<times> sink_column" where
  "check_column b name =
     res_bind (ok_or (Internal (''s2_sink: stream_template column '' @ quoted name @ '' not found in batch''))
                (column_by_name b name)) (\<lambda>column.
     case sc_formatter column of
       Some e \<Rightarrow> Inl (Internal (''s2_sink: cannot render stream_template column '' @ quoted name @ '': '' @ e))
     | None \<Rightarrow> Inr (name, column))"

text \<open>
  The name of a row's stream, segment by segment; a value must not be null or contain a slash. The columns
  given are those of the template, so the lookup of one succeeds.
\<close>

fun render_segments :: "(string \<times> sink_column) list \<Rightarrow> nat \<Rightarrow> Segment list \<Rightarrow> string \<Rightarrow> PluginError + string" where
  "render_segments columns row [] name = Inr name"
| "render_segments columns row (Literal l # segs) name = render_segments columns row segs (name @ l)"
| "render_segments columns row (Column c # segs) name =
     (case map_of columns c of
        None \<Rightarrow> Inl (Internal ''unreachable'')
      | Some column \<Rightarrow>
          if sc_is_null column row
          then Inl (Internal (''s2_sink: stream_template column '' @ quoted c @ '' is null at row '' @ show_nat row))
          else
            res_bind (map_err (\<lambda>e. Internal (''s2_sink: failed to render stream_template column '' @ quoted c
                        @ '' at row '' @ show_nat row @ '': '' @ e)) (sc_render column row)) (\<lambda>v.
            if CHR ''/'' \<in> set v
            then Inl (Internal (''s2_sink: stream_template column '' @ quoted c @ '' value '' @ quoted v @ '' at row ''
                   @ show_nat row @ '' contains '' @ quoted ''/'' @ '', which would escape the stream namespace''))
            else render_segments columns row segs (name @ v)))"

text \<open>The rows in turn, with the names that were already parsed.\<close>

fun resolve_rows ::
  "(string \<Rightarrow> string + string) \<Rightarrow> Segment list \<Rightarrow> (string \<times> sink_column) list \<Rightarrow> (string, string) hash_map
     \<Rightarrow> nat list \<Rightarrow> PluginError + string list" where
  "resolve_rows parse segments columns parsed [] = Inr []"
| "resolve_rows parse segments columns parsed (row # rows) =
     res_bind (render_segments columns row segments []) (\<lambda>name.
     case hm_get parsed name of
       Some stream \<Rightarrow> res_bind (resolve_rows parse segments columns parsed rows) (\<lambda>rest. Inr (stream # rest))
     | None \<Rightarrow>
         res_bind (map_err (\<lambda>e. Internal (''s2_sink: stream_template resolved to invalid stream name ''
                     @ quoted name @ '': '' @ e)) (parse name)) (\<lambda>stream.
         res_bind (resolve_rows parse segments columns (hm_insert name stream parsed) rows) (\<lambda>rest.
         Inr (stream # rest))))"

definition resolve_streams ::
  "(string \<Rightarrow> string + string) \<Rightarrow> Segment list \<Rightarrow> sink_batch \<Rightarrow> PluginError + string list" where
  "resolve_streams parse segments b =
     res_bind (collect_results (check_column b) (template_columns segments)) (\<lambda>columns.
     resolve_rows parse segments columns [] [0..<sb_num_rows b])"

text \<open>Consecutive records of one stream form a run; \<open>rev_runs\<close> is the vector with its last element first.\<close>

fun group_loop :: "(string \<times> 'r list) list \<Rightarrow> ('r \<times> string) list \<Rightarrow> (string \<times> 'r list) list" where
  "group_loop rev_runs [] = rev rev_runs"
| "group_loop rev_runs ((record, stream) # rest) =
     (case rev_runs of
        (latest, run) # earlier \<Rightarrow>
          if latest = stream then group_loop ((latest, run @ [record]) # earlier) rest
          else group_loop ((stream, [record]) # rev_runs) rest
      | [] \<Rightarrow> group_loop [(stream, [record])] rest)"

definition group_by_stream :: "'r list \<Rightarrow> string list \<Rightarrow> (string \<times> 'r list) list" where
  "group_by_stream records streams = group_loop [] (zip records streams)"

definition route ::
  "(string \<Rightarrow> string + string) \<Rightarrow> StreamTarget \<Rightarrow> AppendRecord list \<Rightarrow> sink_batch
     \<Rightarrow> PluginError + (string \<times> AppendRecord list) list" where
  "route parse target records b =
     (case target of
        FixedStream stream \<Rightarrow> Inr [(stream, records)]
      | Template segments \<Rightarrow>
          res_bind (resolve_streams parse segments b) (\<lambda>streams.
          if length streams \<noteq> length records
          then Inl (Internal (''resolved stream count '' @ show_nat (length streams) @ '' does not match record count ''
                 @ show_nat (length records)))
          else Inr (group_by_stream records streams)))"

section \<open>Producers\<close>

text \<open>
  What one call of the sink sees of the SDK: \<open>submit\<close> hands a record to a producer and gives a ticket,
  \<open>poll\<close> says whether a ticket is settled, \<open>await\<close> waits for it, \<open>close_error\<close> and \<open>ensure_error\<close> are the
  failures of closing a producer and of creating a stream.
\<close>

record 't producer_api =
  submit :: "string \<Rightarrow> AppendRecord \<Rightarrow> string + 't"
  poll :: "'t \<Rightarrow> (string + u64) option"
  await :: "'t \<Rightarrow> string + u64"
  close_error :: "string \<Rightarrow> string option"
  ensure_error :: "string \<Rightarrow> string option"

record 't ProducerState =
  ps_pending :: "'t list"
  ps_last_used :: nat

type_synonym 't producers = "(string, 't ProducerState) hash_map"

definition PRODUCER_IDLE_TTL :: nat where
  "PRODUCER_IDLE_TTL = 300000"

definition append_failed :: "string \<Rightarrow> string \<Rightarrow> PluginError" where
  "append_failed stream e =
     Internal (''stream '' @ quoted stream @ '': failed to append pending S2 Producer record: '' @ e)"

text \<open>The settled tickets at the front are dropped; a failed one is dropped and reported.\<close>

fun drain_ready_record_tickets ::
  "'t producer_api \<Rightarrow> string \<Rightarrow> 't list \<Rightarrow> (PluginError + nat) \<times> 't list" where
  "drain_ready_record_tickets api stream [] = (Inr 0, [])"
| "drain_ready_record_tickets api stream (t # ts) =
     (case poll api t of
        None \<Rightarrow> (Inr 0, t # ts)
      | Some (Inr ack) \<Rightarrow>
          (case drain_ready_record_tickets api stream ts of
             (Inr n, rest) \<Rightarrow> (Inr (Suc n), rest)
           | (Inl e, rest) \<Rightarrow> (Inl e, rest))
      | Some (Inl e) \<Rightarrow> (Inl (append_failed stream e), ts))"

fun drain_producers :: "'t producer_api \<Rightarrow> 't producers \<Rightarrow> (PluginError + nat) \<times> 't producers" where
  "drain_producers api [] = (Inr 0, [])"
| "drain_producers api ((stream, p) # ps) =
     (case drain_ready_record_tickets api stream (ps_pending p) of
        (Inl e, rest) \<Rightarrow> (Inl e, (stream, p\<lparr>ps_pending := rest\<rparr>) # ps)
      | (Inr n, rest) \<Rightarrow>
          (case drain_producers api ps of
             (Inl e, ps') \<Rightarrow> (Inl e, (stream, p\<lparr>ps_pending := rest\<rparr>) # ps')
           | (Inr m, ps') \<Rightarrow> (Inr (n + m), (stream, p\<lparr>ps_pending := rest\<rparr>) # ps')))"

definition ensure_producer ::
  "'t producer_api \<Rightarrow> bool \<Rightarrow> nat \<Rightarrow> string \<Rightarrow> 't producers \<Rightarrow> (PluginError + unit) \<times> 't producers" where
  "ensure_producer api ensure now stream ps =
     (if hm_get ps stream \<noteq> None then (Inr (), ps)
      else
        (case (if ensure then ensure_error api stream else None) of
           Some e \<Rightarrow> (Inl (Internal (''failed to ensure S2 stream '' @ quoted stream @ '': '' @ e)), ps)
         | None \<Rightarrow> (Inr (), hm_insert stream \<lparr>ps_pending = [], ps_last_used = now\<rparr> ps)))"

text \<open>A run of records: every ticket is queued as soon as it is given.\<close>

fun submit_run ::
  "'t producer_api \<Rightarrow> string \<Rightarrow> AppendRecord list \<Rightarrow> 't list \<Rightarrow> (PluginError + unit) \<times> 't list" where
  "submit_run api stream [] pending = (Inr (), pending)"
| "submit_run api stream (r # rs) pending =
     (case submit api stream r of
        Inl e \<Rightarrow> (Inl (Internal (''failed to submit record to S2 Producer for stream '' @ quoted stream @ '': '' @ e)), pending)
      | Inr t \<Rightarrow> submit_run api stream rs (pending @ [t]))"

definition pending_of :: "'t producers \<Rightarrow> string \<Rightarrow> 't list" where
  "pending_of ps stream = (case hm_get ps stream of None \<Rightarrow> [] | Some p \<Rightarrow> ps_pending p)"

fun submit_runs ::
  "'t producer_api \<Rightarrow> bool \<Rightarrow> nat \<Rightarrow> (string \<times> AppendRecord list) list \<Rightarrow> 't producers
     \<Rightarrow> (PluginError + unit) \<times> 't producers" where
  "submit_runs api ensure now [] ps = (Inr (), ps)"
| "submit_runs api ensure now ((stream, run) # runs) ps =
     (case ensure_producer api ensure now stream ps of
        (Inl e, ps1) \<Rightarrow> (Inl e, ps1)
      | (Inr _, ps1) \<Rightarrow>
          (case submit_run api stream run (pending_of ps1 stream) of
             (res, pending) \<Rightarrow>
               let ps2 = hm_insert stream \<lparr>ps_pending = pending, ps_last_used = now\<rparr> ps1 in
               case res of Inl e \<Rightarrow> (Inl e, ps2) | Inr _ \<Rightarrow> submit_runs api ensure now runs ps2))"

definition submit_records ::
  "'t producer_api \<Rightarrow> bool \<Rightarrow> nat \<Rightarrow> (string \<times> AppendRecord list) list \<Rightarrow> 't producers
     \<Rightarrow> (PluginError + nat \<times> nat) \<times> 't producers" where
  "submit_records api ensure now runs ps =
     (case drain_producers api ps of
        (Inl e, ps1) \<Rightarrow> (Inl e, ps1)
      | (Inr acknowledged, ps1) \<Rightarrow>
          (case submit_runs api ensure now runs ps1 of
             (Inl e, ps2) \<Rightarrow> (Inl e, ps2)
           | (Inr _, ps2) \<Rightarrow> (Inr (sum_list (map (\<lambda>(s, p). length (ps_pending p)) ps2), acknowledged), ps2)))"

text \<open>Every ticket is awaited, and the first failure is reported at the end.\<close>

definition await_record_tickets :: "'t producer_api \<Rightarrow> string \<Rightarrow> 't list \<Rightarrow> PluginError + nat" where
  "await_record_tickets api stream tickets =
     (case List.map_filter (\<lambda>t. case await api t of Inl e \<Rightarrow> Some e | Inr _ \<Rightarrow> None) tickets of
        e # _ \<Rightarrow> Inl (append_failed stream e)
      | [] \<Rightarrow> Inr (length tickets))"

fun sum_results :: "nat \<Rightarrow> PluginError option \<Rightarrow> (PluginError + nat) list \<Rightarrow> PluginError + nat" where
  "sum_results total_count first_error [] = (case first_error of Some e \<Rightarrow> Inl e | None \<Rightarrow> Inr total_count)"
| "sum_results total_count first_error (Inr n # rs) = sum_results (total_count + n) first_error rs"
| "sum_results total_count first_error (Inl e # rs) =
     sum_results total_count (case first_error of Some f \<Rightarrow> Some f | None \<Rightarrow> Some e) rs"

definition sum_or_first_error :: "(PluginError + nat) list \<Rightarrow> PluginError + nat" where
  "sum_or_first_error results = sum_results 0 None results"

definition flush_pending_records :: "'t producer_api \<Rightarrow> 't producers \<Rightarrow> (PluginError + nat) \<times> 't producers" where
  "flush_pending_records api ps =
     (sum_or_first_error (map (\<lambda>(stream, p). await_record_tickets api stream (ps_pending p)) ps),
      map (\<lambda>(stream, p). (stream, p\<lparr>ps_pending := []\<rparr>)) ps)"

definition is_idle :: "nat \<Rightarrow> 't ProducerState \<Rightarrow> bool" where
  "is_idle now p \<longleftrightarrow> ps_pending p = [] \<and> now - ps_last_used p \<ge> PRODUCER_IDLE_TTL"

definition take_idle_producers :: "nat \<Rightarrow> 't producers \<Rightarrow> string list \<times> 't producers" where
  "take_idle_producers now ps =
     (map fst (filter (\<lambda>(s, p). is_idle now p) ps), filter (\<lambda>(s, p). \<not> is_idle now p) ps)"

section \<open>The sink\<close>

record 't S2Sink =
  sk_config :: S2SinkConfig
  sk_access_token :: string
  sk_stream_id :: string
  sk_producers :: "'t producers option"
  sk_running :: bool

definition s2_sink_new :: "s2_parsers \<Rightarrow> environment \<Rightarrow> (string, string) hash_map \<Rightarrow> PluginError + 't S2Sink" where
  "s2_sink_new P env options =
     (let opts = plugin_options_new options ''s2_sink'' ''STREAMLING__PLUGIN__S2_SINK'' in
      res_bind (s2_sink_parse_config P env opts) (\<lambda>config.
      res_bind (ok_or (Internal ''s2_sink: access_token is not specified'') (get_secret env opts ''access_token'')) (\<lambda>token.
      Inr \<lparr>sk_config = config, sk_access_token = token,
           sk_stream_id = s2k_basin config @ ''/'' @
             (case s2k_target config of
                FixedStream stream \<Rightarrow> stream
              | Template _ \<Rightarrow> get_or env opts ''stream_template'' ''<template>''),
           sk_producers = None, sk_running = True\<rparr>)))"

definition with_stream_context :: "'t S2Sink \<Rightarrow> PluginError \<Rightarrow> PluginError" where
  "with_stream_context s e =
     (case e of Internal msg \<Rightarrow> Internal (''stream '' @ quoted (sk_stream_id s) @ '': '' @ msg) | _ \<Rightarrow> e)"

definition sink_state :: "'t S2Sink \<Rightarrow> PluginError + 't producers" where
  "sink_state s = ok_or (Internal ''S2 sink is not initialized'') (sk_producers s)"

text \<open>\<open>data_client\<close> and \<open>control_client\<close> are the outcomes of constructing the two clients.\<close>

definition s2_sink_initialize ::
  "(PluginError + unit) \<Rightarrow> (PluginError + unit) \<Rightarrow> 't producer_api \<Rightarrow> nat \<Rightarrow> 't S2Sink \<Rightarrow> (PluginError + unit) \<times> 't S2Sink" where
  "s2_sink_initialize data_client control_client api now s =
     (if sk_producers s \<noteq> None then (Inr (), s)
      else
        (case res_bind data_client (\<lambda>_. control_client) of
           Inl e \<Rightarrow> (Inl e, s)
         | Inr _ \<Rightarrow>
             (case s2k_target (sk_config s) of
                Template _ \<Rightarrow> (Inr (), s\<lparr>sk_producers := Some []\<rparr>)
              | FixedStream stream \<Rightarrow>
                  (case ensure_producer api (s2k_ensure_stream (sk_config s)) now stream [] of
                     (Inl e, ps) \<Rightarrow> (Inl (with_stream_context s e), s)
                   | (Inr _, ps) \<Rightarrow> (Inr (), s\<lparr>sk_producers := Some ps\<rparr>)))))"

text \<open>
  \<open>parse_kind\<close>, \<open>json\<close>, \<open>R\<close> and \<open>parse\<close> are the host's row kinds, the JSON printer, the record checks and
  the parser of stream names.
\<close>

definition batch_runs ::
  "(string \<Rightarrow> RowKind option) \<Rightarrow> (sink_batch \<Rightarrow> string + bytes list) \<Rightarrow> s2_record_api \<Rightarrow> (string \<Rightarrow> string + string)
     \<Rightarrow> StreamTarget \<Rightarrow> sink_batch \<Rightarrow> PluginError + (string \<times> AppendRecord list) list" where
  "batch_runs parse_kind json R parse target b =
     res_bind (dbz_ops_from_batch parse_kind b) (\<lambda>ops.
     res_bind (map_err (\<lambda>e. Internal (''failed to convert batch to JSON: '' @ e)) (json (without_op_column b))) (\<lambda>rows.
     res_bind (append_records_from_json_rows R rows ops) (\<lambda>records.
     route parse target records b)))"

definition s2_process_batch ::
  "(string \<Rightarrow> RowKind option) \<Rightarrow> (sink_batch \<Rightarrow> string + bytes list) \<Rightarrow> s2_record_api \<Rightarrow> (string \<Rightarrow> string + string)
     \<Rightarrow> 't producer_api \<Rightarrow> nat \<Rightarrow> sink_batch \<Rightarrow> 't S2Sink \<Rightarrow> (PluginError + unit) \<times> 't S2Sink" where
  "s2_process_batch parse_kind json R parse api now b s =
     (if \<not> sk_running s then (Inl (Internal ''S2 sink is not running, cannot process batch''), s)
      else if sb_num_rows b = 0 then (Inr (), s)
      else
        (case res_bind (batch_runs parse_kind json R parse (s2k_target (sk_config s)) b) (\<lambda>runs.
              res_bind (sink_state s) (\<lambda>ps. Inr (runs, ps)))
         of
           Inl e \<Rightarrow> (Inl (with_stream_context s e), s)
         | Inr (runs, ps) \<Rightarrow>
             (case submit_records api (s2k_ensure_stream (sk_config s)) now runs ps of
                (Inl e, ps') \<Rightarrow> (Inl (with_stream_context s e), s\<lparr>sk_producers := Some ps'\<rparr>)
              | (Inr _, ps') \<Rightarrow> (Inr (), s\<lparr>sk_producers := Some ps'\<rparr>))))"

text \<open>The marker returns when every outstanding record is acknowledged; then idle template producers are closed.\<close>

definition s2_sink_checkpoint_marker :: "'t producer_api \<Rightarrow> nat \<Rightarrow> 't S2Sink \<Rightarrow> (PluginError + unit) \<times> 't S2Sink" where
  "s2_sink_checkpoint_marker api now s =
     (case sink_state s of
        Inl e \<Rightarrow> (Inl (with_stream_context s e), s)
      | Inr ps \<Rightarrow>
          (case flush_pending_records api ps of
             (Inl e, ps') \<Rightarrow> (Inl (with_stream_context s e), s\<lparr>sk_producers := Some ps'\<rparr>)
           | (Inr _, ps') \<Rightarrow>
               (Inr (),
                s\<lparr>sk_producers := Some (case s2k_target (sk_config s) of
                    Template _ \<Rightarrow> snd (take_idle_producers now ps') | FixedStream _ \<Rightarrow> ps')\<rparr>)))"

definition s2_sink_terminate :: "'t producer_api \<Rightarrow> 't S2Sink \<Rightarrow> (PluginError + unit) \<times> 't S2Sink" where
  "s2_sink_terminate api s =
     (case sk_producers s of
        None \<Rightarrow> (Inr (), s\<lparr>sk_running := False\<rparr>)
      | Some ps \<Rightarrow>
          (res_bind
             (sum_or_first_error (concat (map (\<lambda>(stream, p).
                [await_record_tickets api stream (ps_pending p),
                 (case close_error api stream of
                    None \<Rightarrow> Inr 0
                  | Some e \<Rightarrow> Inl (Internal (''stream '' @ quoted stream @ '': failed to close S2 Producer: '' @ e)))]) ps)))
             (\<lambda>_. Inr ()),
           s\<lparr>sk_running := False, sk_producers := Some []\<rparr>))"

section \<open>Outstanding tickets\<close>

definition all_pending :: "'t producers \<Rightarrow> 't set" where
  "all_pending ps = (\<Union>(s, p) \<in> set ps. set (ps_pending p))"

lemma all_pending_simps [simp]:
  "all_pending [] = {}"
  "all_pending ((s, p) # ps) = set (ps_pending p) \<union> all_pending ps"
  by (simp_all add: all_pending_def)

text \<open>The law of the service: every ticket has one fate, which polling and awaiting report.\<close>

definition api_lawful :: "('t \<Rightarrow> string + u64) \<Rightarrow> 't producer_api \<Rightarrow> bool" where
  "api_lawful fate api \<longleftrightarrow>
     (\<forall>t r. poll api t = Some r \<longrightarrow> r = fate t) \<and> (\<forall>t. await api t = fate t)"

abbreviation acknowledged :: "('t \<Rightarrow> string + u64) \<Rightarrow> 't \<Rightarrow> bool" where
  "acknowledged fate t \<equiv> \<not> isl (fate t)"

lemma drain_tickets_spec:
  assumes "api_lawful fate api"
  shows "drain_ready_record_tickets api stream ts = (Inr n, rest) \<Longrightarrow>
           \<exists>front. ts = front @ rest \<and> length front = n \<and> list_all (acknowledged fate) front"
proof (induction ts arbitrary: n)
  case (Cons t ts)
  show ?case
  proof (cases "poll api t")
    case None
    with Cons.prems show ?thesis by auto
  next
    case (Some r)
    with assms have "r = fate t" by (auto simp: api_lawful_def)
    with Some Cons.prems obtain m ack where m: "drain_ready_record_tickets api stream ts = (Inr m, rest)" "n = Suc m" "fate t = Inr ack"
      by (cases r) (auto split: prod.splits sum.splits)
    from Cons.IH [OF m(1)] obtain front where "ts = front @ rest" "length front = m" "list_all (acknowledged fate) front" by blast
    with m show ?thesis by (intro exI [of _ "t # front"]) simp
  qed
qed simp

lemma drain_producers_spec:
  assumes "api_lawful fate api"
  shows "drain_producers api ps = (Inr n, ps') \<Longrightarrow>
           map fst ps' = map fst ps \<and> (\<forall>t \<in> all_pending ps. t \<in> all_pending ps' \<or> acknowledged fate t) \<and>
           (\<exists>front. pending_of ps s = front @ pending_of ps' s \<and> list_all (acknowledged fate) front)"
proof (induction ps arbitrary: n ps')
  case (Cons sp ps)
  obtain k p where [simp]: "sp = (k, p)" by fastforce
  from Cons.prems obtain m1 rest m2 ps2 where
    d: "drain_ready_record_tickets api k (ps_pending p) = (Inr m1, rest)" and
    r: "drain_producers api ps = (Inr m2, ps2)" and ps': "ps' = (k, p\<lparr>ps_pending := rest\<rparr>) # ps2"
    by (auto split: prod.splits sum.splits)
  from drain_tickets_spec [OF assms d] obtain front where
    f: "ps_pending p = front @ rest" "list_all (acknowledged fate) front" by blast
  from Cons.IH [OF r] f ps' show ?case
    by (auto simp: pending_of_def list_all_iff)
qed (simp add: pending_of_def)

lemma all_pending_insert:
  "set (pending_of ps s) \<subseteq> set pending \<Longrightarrow>
   all_pending ps \<union> set pending \<subseteq> all_pending (hm_insert s \<lparr>ps_pending = pending, ps_last_used = now\<rparr> ps)"
  by (induction ps) (auto simp: pending_of_def)

lemma pending_of_insert:
  "pending_of (hm_insert s \<lparr>ps_pending = pending, ps_last_used = now\<rparr> ps) s' = (if s' = s then pending else pending_of ps s')"
  by (simp add: pending_of_def)

lemma ensure_producer_spec:
  assumes "ensure_producer api ensure now s ps = (res, ps')"
  shows "all_pending ps \<subseteq> all_pending ps'" "pending_of ps' s' = pending_of ps s'"
proof -
  show "all_pending ps \<subseteq> all_pending ps'"
    using assms all_pending_insert [of ps s "[]" now]
    by (auto simp: ensure_producer_def pending_of_def split: if_splits option.splits)
  show "pending_of ps' s' = pending_of ps s'"
    using assms by (auto simp: ensure_producer_def pending_of_def split: if_splits option.splits)
qed

lemma submit_run_spec:
  "submit_run api s rs pending = (res, pending') \<Longrightarrow>
   (\<exists>new. pending' = pending @ new) \<and>
   (res = Inr () \<longrightarrow> (\<exists>new. pending' = pending @ new \<and> list_all2 (\<lambda>r t. submit api s r = Inr t) rs new))"
  by (induction rs arbitrary: pending) (fastforce split: sum.splits)+

definition records_for :: "string \<Rightarrow> (string \<times> 'r list) list \<Rightarrow> 'r list" where
  "records_for s runs = concat (map snd (filter (\<lambda>(s', run). s' = s) runs))"

lemma submit_runs_pending:
  "submit_runs api ensure now runs ps = (res, ps') \<Longrightarrow> all_pending ps \<subseteq> all_pending ps'"
proof (induction runs arbitrary: ps)
  case (Cons sr runs)
  obtain s run where [simp]: "sr = (s, run)" by fastforce
  obtain r1 ps1 where e: "ensure_producer api ensure now s ps = (r1, ps1)" by fastforce
  obtain r2 pending where r: "submit_run api s run (pending_of ps1 s) = (r2, pending)" by fastforce
  let ?ps2 = "hm_insert s \<lparr>ps_pending = pending, ps_last_used = now\<rparr> ps1"
  have "all_pending ps \<subseteq> all_pending ps1" using ensure_producer_spec(1) [OF e] .
  moreover have "all_pending ps1 \<subseteq> all_pending ?ps2"
    using all_pending_insert [of ps1 s pending now] submit_run_spec [OF r] by auto
  ultimately show ?case
    using Cons e r by (cases r1; cases r2) (auto simp: Let_def)
qed simp

lemma submit_runs_spec:
  "submit_runs api ensure now runs ps = (Inr (), ps') \<Longrightarrow>
   \<exists>new. pending_of ps' s = pending_of ps s @ new \<and> list_all2 (\<lambda>r t. submit api s r = Inr t) (records_for s runs) new"
proof (induction runs arbitrary: ps)
  case (Cons sr runs)
  obtain s1 run where [simp]: "sr = (s1, run)" by fastforce
  from Cons.prems obtain ps1 where e: "ensure_producer api ensure now s1 ps = (Inr (), ps1)"
    by (auto split: prod.splits sum.splits)
  from Cons.prems e obtain pending where r: "submit_run api s1 run (pending_of ps1 s1) = (Inr (), pending)"
    by (auto simp: Let_def split: prod.splits sum.splits)
  let ?ps2 = "hm_insert s1 \<lparr>ps_pending = pending, ps_last_used = now\<rparr> ps1"
  from Cons.prems e r have "submit_runs api ensure now runs ?ps2 = (Inr (), ps')" by (simp add: Let_def)
  from Cons.IH [OF this] obtain new where
    new: "pending_of ps' s = pending_of ?ps2 s @ new" "list_all2 (\<lambda>r t. submit api s r = Inr t) (records_for s runs) new" by blast
  from submit_run_spec [OF r] obtain new1 where
    "pending = pending_of ps1 s1 @ new1" "list_all2 (\<lambda>r t. submit api s1 r = Inr t) run new1" by blast
  with new ensure_producer_spec(2) [OF e] show ?case
    by (cases "s = s1") (auto simp: pending_of_insert records_for_def intro: list_all2_appendI)
qed (simp add: records_for_def)

lemma sum_results_Inr: "sum_results n first rs = Inr m \<longleftrightarrow> first = None \<and> list_all (\<lambda>r. \<not> isl r) rs \<and> m = n + sum_list (map projr rs)"
  by (induction n first rs rule: sum_results.induct) (auto split: option.splits)

lemma await_tickets_Inr:
  "await_record_tickets api s ts = Inr n \<longleftrightarrow> n = length ts \<and> list_all (\<lambda>t. \<not> isl (await api t)) ts"
proof -
  have "List.map_filter (\<lambda>t. case await api t of Inl e \<Rightarrow> Some e | Inr _ \<Rightarrow> None) ts = [] \<longleftrightarrow> list_all (\<lambda>t. \<not> isl (await api t)) ts"
    by (induction ts) (auto simp: List.map_filter_def split: sum.splits)
  then show ?thesis by (auto simp: await_record_tickets_def split: list.splits)
qed

lemma awaited_all:
  assumes "sum_or_first_error results = Inr n" and "api_lawful fate api"
    and "\<And>s p. (s, p) \<in> set ps \<Longrightarrow> await_record_tickets api s (ps_pending p) \<in> set results"
    and "t \<in> all_pending ps"
  shows "acknowledged fate t"
proof -
  from assms(4) obtain s p where sp: "(s, p) \<in> set ps" "t \<in> set (ps_pending p)" by (auto simp: all_pending_def)
  from assms(1) assms(3) [OF sp(1)] obtain m where "await_record_tickets api s (ps_pending p) = Inr m"
    by (cases "await_record_tickets api s (ps_pending p)") (auto simp: sum_or_first_error_def sum_results_Inr list_all_iff)
  with sp(2) assms(2) show ?thesis by (auto simp: await_tickets_Inr list_all_iff api_lawful_def)
qed

lemma flush_spec:
  assumes "flush_pending_records api ps = (Inr n, ps')" and "api_lawful fate api" and "t \<in> all_pending ps"
  shows "acknowledged fate t"
  by (rule awaited_all [OF _ assms(2) _ assms(3)]) (use assms(1) in \<open>force simp: flush_pending_records_def\<close>)+

section \<open>Properties\<close>

text \<open>
  a submitted batch is queued completely and in order. When the records of a batch are submitted
  without an error, each producer's queue is what was not yet acknowledged of it, followed by exactly
  one ticket for each record routed to its stream, in the order of the records.
\<close>

theorem s2_records_queued_in_order:
  assumes "submit_records api ensure now runs ps = (Inr x, ps')" and "api_lawful fate api"
  shows "\<exists>front rest new. pending_of ps s = front @ rest \<and> list_all (acknowledged fate) front \<and>
           pending_of ps' s = rest @ new \<and> list_all2 (\<lambda>r t. submit api s r = Inr t) (records_for s runs) new"
proof -
  from assms(1) obtain n ps1 where d: "drain_producers api ps = (Inr n, ps1)"
    and r: "submit_runs api ensure now runs ps1 = (Inr (), ps')"
    by (auto simp: submit_records_def split: sum.splits prod.splits)
  from drain_producers_spec [OF assms(2) d, of s] submit_runs_spec [OF r, of s] show ?thesis by auto
qed

lemma records_for_simps:
  "records_for s [] = []"
  "records_for s ((s', run) # runs) = (if s' = s then run else []) @ records_for s runs"
  "records_for s (runs @ runs') = records_for s runs @ records_for s runs'"
  by (simp_all add: records_for_def)

lemma group_loop_spec:
  "records_for s (group_loop rev_runs pairs) =
   records_for s (rev rev_runs) @ map fst (filter (\<lambda>(r, s'). s' = s) pairs)"
  by (induction rev_runs pairs rule: group_loop.induct) (auto simp: records_for_simps split: list.splits)

definition runs_ok :: "(string \<times> 'r list) list \<Rightarrow> bool" where
  "runs_ok runs \<longleftrightarrow> distinct_adj (map fst runs) \<and> list_all (\<lambda>(s, run). 0 < length run) runs"

lemma runs_ok_rev [simp]: "runs_ok (rev runs) = runs_ok runs"
  by (simp add: runs_ok_def rev_map [symmetric])

lemma runs_ok_simps:
  "runs_ok []"
  "runs_ok [(s, run)] \<longleftrightarrow> run \<noteq> []"
  "runs_ok ((s, run) # (s', run') # runs) \<longleftrightarrow> s \<noteq> s' \<and> run \<noteq> [] \<and> runs_ok ((s', run') # runs)"
  by (auto simp: runs_ok_def)

lemma runs_ok_extend: "runs_ok ((s, run) # runs) \<Longrightarrow> run' \<noteq> [] \<Longrightarrow> runs_ok ((s, run') # runs)"
  by (simp add: runs_ok_def)

lemma group_loop_runs: "runs_ok rev_runs \<Longrightarrow> runs_ok (group_loop rev_runs pairs)"
proof (induction pairs arbitrary: rev_runs)
  case (Cons pair pairs)
  obtain r s where [simp]: "pair = (r, s)" by fastforce
  show ?case
  proof (cases rev_runs)
    case Nil
    with Cons.IH [of "[(s, [r])]"] show ?thesis by (simp add: runs_ok_simps)
  next
    case (Cons a earlier)
    obtain s' run where a: "a = (s', run)" by fastforce
    show ?thesis
      using Cons a Cons.prems Cons.IH [of "(s', run @ [r]) # earlier"] Cons.IH [of "(s, [r]) # (s', run) # earlier"]
        runs_ok_extend [of s' run earlier "run @ [r]"]
      by (auto simp: runs_ok_simps)
  qed
qed simp

text \<open>
  routing keeps every record on its own stream and in order. The runs that a batch is grouped into
  are non-empty and no two adjacent ones are for the same stream, and together they send to each stream
  exactly the records resolved to it, in the order of the rows.
\<close>

theorem group_by_stream_keeps_order:
  "distinct_adj (map fst (group_by_stream records streams)) \<and>
   list_all (\<lambda>(s, run). 0 < length run) (group_by_stream records streams) \<and>
   records_for s (group_by_stream records streams) = map fst (filter (\<lambda>(r, s'). s' = s) (zip records streams))"
  using group_loop_spec [of s "[]" "zip records streams"] group_loop_runs [of "[]" "zip records streams"]
  by (simp add: group_by_stream_def records_for_simps runs_ok_simps runs_ok_def)

section \<open>The sink under any sequence of calls\<close>

text \<open>
  What a batch asks of the service: one submission for each of its records, to the stream of its row. The list
  has the service's answers.
\<close>

definition row_streams ::
  "(string \<Rightarrow> string + string) \<Rightarrow> StreamTarget \<Rightarrow> sink_batch \<Rightarrow> AppendRecord list \<Rightarrow> PluginError + string list" where
  "row_streams parse target b records =
     (case target of
        FixedStream stream \<Rightarrow> Inr (map (\<lambda>_. stream) records)
      | Template segments \<Rightarrow> resolve_streams parse segments b)"

definition submissions ::
  "(string \<Rightarrow> RowKind option) \<Rightarrow> (sink_batch \<Rightarrow> string + bytes list) \<Rightarrow> s2_record_api \<Rightarrow> (string \<Rightarrow> string + string)
     \<Rightarrow> 't producer_api \<Rightarrow> StreamTarget \<Rightarrow> sink_batch \<Rightarrow> (string + 't) list" where
  "submissions parse_kind json R parse api target b =
     (case (dbz_ops_from_batch parse_kind b, json (without_op_column b)) of
        (Inr ops, Inr rows) \<Rightarrow>
          (case append_records_from_json_rows R rows ops of
             Inr records \<Rightarrow>
               (case row_streams parse target b records of
                  Inr streams \<Rightarrow> map2 (\<lambda>r stream. submit api stream r) records streams
                | Inl _ \<Rightarrow> [])
           | Inl _ \<Rightarrow> [])
      | _ \<Rightarrow> [])"

lemma runs_cover_submissions:
  assumes "batch_runs parse_kind json R parse target b = Inr runs"
    and "x \<in> set (submissions parse_kind json R parse api target b)"
  shows "\<exists>s r. r \<in> set (records_for s runs) \<and> x = submit api s r"
proof -
  from assms(1) obtain ops rows records where parts: "dbz_ops_from_batch parse_kind b = Inr ops" "json (without_op_column b) = Inr rows"
    "append_records_from_json_rows R rows ops = Inr records" and route: "route parse target records b = Inr runs"
    by (auto simp: batch_runs_def outcome)
  show ?thesis
  proof (cases target)
    case (FixedStream stream)
    then have "x \<in> set (map2 (\<lambda>r stream. submit api stream r) records (map (\<lambda>_. stream) records))"
      using assms(2) parts by (simp add: submissions_def row_streams_def)
    then obtain r s' where pair: "(r, s') \<in> set (zip records (map (\<lambda>_. stream) records))" "x = submit api s' r"
      by auto
    from set_zip_leftD [OF pair(1)] set_zip_rightD [OF pair(1)] pair(2)
    have "r \<in> set records" "x = submit api stream r" by auto
    with route FixedStream show ?thesis by (auto simp: route_def records_for_simps)
  next
    case (Template segments)
    then obtain streams where streams: "resolve_streams parse segments b = Inr streams" and runs: "runs = group_by_stream records streams"
      using route by (auto simp: route_def outcome split: if_splits)
    then obtain r stream where "(r, stream) \<in> set (zip records streams)" "x = submit api stream r"
      using assms(2) parts Template by (auto simp: submissions_def row_streams_def)
    with group_by_stream_keeps_order [of records streams stream] runs show ?thesis by force
  qed
qed

text \<open>
  The sink under any sequence of calls. \<open>sn_submitted\<close> has the service's answers to the records of all batches
  so far, \<open>sn_failed\<close> says whether a call returned an error.
\<close>

record 't sink_system =
  sn_sink :: "'t S2Sink"
  sn_submitted :: "(string + 't) set"
  sn_failed :: bool

definition tickets :: "'t S2Sink \<Rightarrow> 't set" where
  "tickets s = (case sk_producers s of None \<Rightarrow> {} | Some ps \<Rightarrow> all_pending ps)"

definition after_call :: "PluginError + unit \<Rightarrow> 't S2Sink \<Rightarrow> (string + 't) list \<Rightarrow> 't sink_system \<Rightarrow> 't sink_system" where
  "after_call res s' answers sys =
     sys\<lparr>sn_sink := s', sn_submitted := sn_submitted sys \<union> set answers, sn_failed := sn_failed sys \<or> isl res\<rparr>"

inductive sink_step :: "('t \<Rightarrow> string + u64) \<Rightarrow> 't sink_system \<Rightarrow> 't sink_system \<Rightarrow> bool"
  for fate
where
  init: "s2_sink_initialize data control api now (sn_sink sys) = (res, s') \<Longrightarrow>
    sink_step fate sys (after_call res s' [] sys)"
| batch: "api_lawful fate api \<Longrightarrow> s2_process_batch parse_kind json R parse api now b (sn_sink sys) = (res, s') \<Longrightarrow>
    answers = (if sb_num_rows b = 0 then [] else submissions parse_kind json R parse api (s2k_target (sk_config (sn_sink sys))) b) \<Longrightarrow>
    sink_step fate sys (after_call res s' answers sys)"
| marker: "api_lawful fate api \<Longrightarrow> s2_sink_checkpoint_marker api now (sn_sink sys) = (res, s') \<Longrightarrow>
    sink_step fate sys (after_call res s' [] sys)"
| stop: "api_lawful fate api \<Longrightarrow> s2_sink_terminate api (sn_sink sys) = (res, s') \<Longrightarrow>
    sink_step fate sys (after_call res s' [] sys)"

definition sink_reachable :: "('t \<Rightarrow> string + u64) \<Rightarrow> 't S2Sink \<Rightarrow> 't sink_system \<Rightarrow> bool" where
  "sink_reachable fate s sys \<longleftrightarrow> (sink_step fate)\<^sup>*\<^sup>* \<lparr>sn_sink = s, sn_submitted = {}, sn_failed = False\<rparr> sys"

text \<open>A call that succeeds forgets a ticket only when its record is acknowledged.\<close>

definition keeps_tickets :: "('t \<Rightarrow> string + u64) \<Rightarrow> 't S2Sink \<Rightarrow> 't S2Sink \<Rightarrow> bool" where
  "keeps_tickets fate s s' \<longleftrightarrow> (\<forall>t \<in> tickets s. t \<in> tickets s' \<or> acknowledged fate t)"

lemma init_keeps: "s2_sink_initialize data control api now s = (Inr (), s') \<Longrightarrow> keeps_tickets fate s s'"
  by (auto simp: s2_sink_initialize_def keeps_tickets_def tickets_def
      split: if_splits sum.splits StreamTarget.splits prod.splits)

lemma batch_keeps:
  assumes "s2_process_batch parse_kind json R parse api now b s = (Inr (), s')" and law: "api_lawful fate api"
  shows "keeps_tickets fate s s'"
proof (cases "s' = s")
  case True
  then show ?thesis by (simp add: keeps_tickets_def)
next
  case False
  with assms(1) obtain runs ps x ps' where ps: "sk_producers s = Some ps"
    and sub: "submit_records api (s2k_ensure_stream (sk_config s)) now runs ps = (Inr x, ps')" and s': "sk_producers s' = Some ps'"
    by (auto simp: s2_process_batch_def sink_state_def outcome split: if_splits sum.splits prod.splits)
  from sub obtain n ps1 r where d: "drain_producers api ps = (Inr n, ps1)"
    and r: "submit_runs api (s2k_ensure_stream (sk_config s)) now runs ps1 = (r, ps')"
    by (auto simp: submit_records_def split: sum.splits prod.splits)
  from drain_producers_spec [OF law d] submit_runs_pending [OF r] ps s' show ?thesis
    by (auto simp: keeps_tickets_def tickets_def)
qed

lemma marker_flushes:
  assumes "s2_sink_checkpoint_marker api now s = (Inr (), s')" and "api_lawful fate api" and "t \<in> tickets s"
  shows "acknowledged fate t"
proof -
  from assms(1) obtain ps n ps' where "sk_producers s = Some ps" "flush_pending_records api ps = (Inr n, ps')"
    by (auto simp: s2_sink_checkpoint_marker_def sink_state_def outcome split: sum.splits prod.splits)
  with flush_spec [of api ps n ps' fate t] assms(2,3) show ?thesis by (simp add: tickets_def)
qed

lemma stop_flushes:
  assumes "s2_sink_terminate api s = (Inr (), s')" and "api_lawful fate api" and "t \<in> tickets s"
  shows "acknowledged fate t"
proof (cases "sk_producers s")
  case (Some ps)
  from assms(3) Some have t: "t \<in> all_pending ps" by (simp add: tickets_def)
  from assms(1) Some obtain n where n: "sum_or_first_error (concat (map (\<lambda>(stream, p).
      [await_record_tickets api stream (ps_pending p),
       (case close_error api stream of
          None \<Rightarrow> Inr 0
        | Some e \<Rightarrow> Inl (Internal (''stream '' @ quoted stream @ '': failed to close S2 Producer: '' @ e)))]) ps)) = Inr n"
    by (auto simp: s2_sink_terminate_def res_bind_Inr_iff)
  show ?thesis by (rule awaited_all [OF n assms(2) _ t]) force
qed (use assms(3) in \<open>simp add: tickets_def\<close>)

lemma marker_keeps:
  "s2_sink_checkpoint_marker api now s = (Inr (), s') \<Longrightarrow> api_lawful fate api \<Longrightarrow> keeps_tickets fate s s'"
  unfolding keeps_tickets_def by (blast dest: marker_flushes)

lemma stop_keeps: "s2_sink_terminate api s = (Inr (), s') \<Longrightarrow> api_lawful fate api \<Longrightarrow> keeps_tickets fate s s'"
  unfolding keeps_tickets_def by (blast dest: stop_flushes)

text \<open>A batch that succeeds has a ticket for each of its records, and the sink holds it.\<close>

lemma pending_of_subset: "set (pending_of ps s) \<subseteq> all_pending ps"
proof (cases "map_of ps s")
  case (Some p)
  from map_of_SomeD [OF this] Some show ?thesis by (force simp: pending_of_def all_pending_def)
qed (simp add: pending_of_def)

lemma batch_holds:
  assumes "s2_process_batch parse_kind json R parse api now b s = (Inr (), s')" and "sb_num_rows b \<noteq> 0"
    and "x \<in> set (submissions parse_kind json R parse api (s2k_target (sk_config s)) b)"
  shows "\<exists>t. x = Inr t \<and> t \<in> tickets s'"
proof -
  from assms(1,2) obtain runs ps y ps' where runs: "batch_runs parse_kind json R parse (s2k_target (sk_config s)) b = Inr runs"
    and sub: "submit_records api (s2k_ensure_stream (sk_config s)) now runs ps = (Inr y, ps')" and s': "sk_producers s' = Some ps'"
    by (auto simp: s2_process_batch_def sink_state_def outcome split: if_splits sum.splits prod.splits)
  from sub obtain ps1 where r: "submit_runs api (s2k_ensure_stream (sk_config s)) now runs ps1 = (Inr (), ps')"
    by (auto simp: submit_records_def split: sum.splits prod.splits)
  obtain stream rec where rec: "rec \<in> set (records_for stream runs)" "x = submit api stream rec"
    using runs_cover_submissions [OF runs assms(3)] by blast
  obtain new where new: "pending_of ps' stream = pending_of ps1 stream @ new"
    "list_all2 (\<lambda>r t. submit api stream r = Inr t) (records_for stream runs) new"
    using submit_runs_spec [OF r] by blast
  obtain i where "i < length (records_for stream runs)" "rec = records_for stream runs ! i"
    using rec(1) by (auto simp: in_set_conv_nth)
  with new(2) rec(2) have "new ! i \<in> set new" "x = Inr (new ! i)"
    by (simp_all add: list_all2_conv_all_nth)
  with new(1) pending_of_subset [of ps' stream] s' show ?thesis by (auto simp: tickets_def)
qed

definition held_or_durable :: "('t \<Rightarrow> string + u64) \<Rightarrow> 't S2Sink \<Rightarrow> string + 't \<Rightarrow> bool" where
  "held_or_durable fate s x \<longleftrightarrow> (\<exists>t. x = Inr t \<and> (t \<in> tickets s \<or> acknowledged fate t))"

lemma keeps_held: "keeps_tickets fate s s' \<Longrightarrow> held_or_durable fate s x \<Longrightarrow> held_or_durable fate s' x"
  by (auto simp: keeps_tickets_def held_or_durable_def)

lemma sink_step_holds:
  assumes "sink_step fate sys sys'" and "\<not> sn_failed sys'" and "\<forall>x \<in> sn_submitted sys. held_or_durable fate (sn_sink sys) x"
  shows "\<forall>x \<in> sn_submitted sys'. held_or_durable fate (sn_sink sys') x"
  using assms(1)
proof (cases rule: sink_step.cases)
  case (init data control api now res s')
  with assms(2) have "res = Inr ()" by (cases res) (auto simp: after_call_def)
  then have "keeps_tickets fate (sn_sink sys) s'" using init_keeps init(2) by blast
  with assms(3) show ?thesis unfolding init(1) by (auto simp: after_call_def intro: keeps_held)
next
  case (batch api parse_kind json R parse now b res s' answers)
  with assms(2) have res: "res = Inr ()" by (cases res) (auto simp: after_call_def)
  have "held_or_durable fate s' x" if "x \<in> set answers" for x
    using batch_holds [OF batch(3) [unfolded res], of x] batch(4) that by (auto simp: held_or_durable_def split: if_splits)
  moreover have "keeps_tickets fate (sn_sink sys) s'" by (rule batch_keeps [OF batch(3) [unfolded res] batch(2)])
  ultimately show ?thesis using assms(3) unfolding batch(1) by (auto simp: after_call_def intro: keeps_held)
next
  case (marker api now res s')
  with assms(2) have "res = Inr ()" by (cases res) (auto simp: after_call_def)
  then have "keeps_tickets fate (sn_sink sys) s'" using marker_keeps marker(2,3) by blast
  with assms(3) show ?thesis unfolding marker(1) by (auto simp: after_call_def intro: keeps_held)
next
  case (stop api res s')
  with assms(2) have "res = Inr ()" by (cases res) (auto simp: after_call_def)
  then have "keeps_tickets fate (sn_sink sys) s'" using stop_keeps stop(2,3) by blast
  with assms(3) show ?thesis unfolding stop(1) by (auto simp: after_call_def intro: keeps_held)
qed

lemma reachable_held:
  assumes "sink_reachable fate s sys" and "\<not> sn_failed sys"
  shows "\<forall>x \<in> sn_submitted sys. held_or_durable fate (sn_sink sys) x"
  using assms unfolding sink_reachable_def
proof (induction rule: rtranclp_induct)
  case (step sys sys')
  from step(2,4) have "\<not> sn_failed sys" by (cases rule: sink_step.cases) (auto simp: after_call_def)
  with sink_step_holds [OF step(2,4)] step.IH show ?case by blast
qed simp

text \<open>
  C25: an acknowledged checkpoint is durable. In every state of the sink that some sequence of calls leads
  to, if no call has returned an error and the checkpoint marker now succeeds, then every record of every
  batch so far was submitted to the stream of its row, the service gave it a ticket, and it has acknowledged it.
\<close>

theorem s2_marker_is_durable:
  assumes "sink_reachable fate s sys" and "\<not> sn_failed sys" and "api_lawful fate api"
    and "s2_sink_checkpoint_marker api now (sn_sink sys) = (Inr (), s')" and "x \<in> sn_submitted sys"
  shows "\<exists>t seq_num. x = Inr t \<and> fate t = Inr seq_num"
proof -
  obtain t where t: "x = Inr t" "acknowledged fate t"
    using reachable_held [OF assms(1,2)] marker_flushes [OF assms(4,3)] assms(5) by (fastforce simp: held_or_durable_def)
  then show ?thesis by (cases "fate t") auto
qed

fun print_segment :: "Segment \<Rightarrow> string" where
  "print_segment (Literal l) = l"
| "print_segment (Column c) = [OPEN] @ c @ [CLOSE]"

text \<open>The segment lists that templates stand for.\<close>

fun segment_ok :: "Segment \<Rightarrow> bool" where
  "segment_ok (Literal l) = (l \<noteq> [] \<and> OPEN \<notin> set l \<and> CLOSE \<notin> set l)"
| "segment_ok (Column c) = (c \<noteq> [] \<and> OPEN \<notin> set c \<and> CLOSE \<notin> set c)"

definition starts_literal :: "Segment list \<Rightarrow> bool" where
  "starts_literal segs = (case segs of Literal _ # _ \<Rightarrow> True | _ \<Rightarrow> False)"

fun alternating :: "Segment list \<Rightarrow> bool" where
  "alternating [] = True"
| "alternating (Literal l # segs) = (\<not> starts_literal segs \<and> alternating segs)"
| "alternating (Column c # segs) = alternating segs"

definition template_text :: "Segment list \<Rightarrow> string" where
  "template_text segs = concat (map print_segment segs)"

lemma scan_column_print:
  "OPEN \<notin> set c \<Longrightarrow> CLOSE \<notin> set c \<Longrightarrow> scan_column acc (c @ CLOSE # rest) = Some (acc @ c, rest)"
  by (induction c arbitrary: acc) auto

lemma scan_column_Some:
  "scan_column acc cs = Some (col, rest) \<Longrightarrow> \<exists>c. col = acc @ c \<and> cs = c @ CLOSE # rest \<and> OPEN \<notin> set c \<and> CLOSE \<notin> set c"
  by (induction acc cs rule: scan_column.induct) (auto split: if_splits)

lemma template_loop_literal:
  "OPEN \<notin> set l \<Longrightarrow> CLOSE \<notin> set l \<Longrightarrow>
   template_loop template segs acc (l @ rest) = template_loop template segs (acc @ l) rest"
  by (induction l arbitrary: acc) auto

lemma template_loop_print:
  "list_all segment_ok segs \<Longrightarrow> alternating segs \<Longrightarrow> literal = [] \<or> \<not> starts_literal segs \<Longrightarrow>
   template_loop template acc literal (template_text segs) = Inr (push_literal literal acc @ segs)"
proof (induction segs arbitrary: acc literal)
  case (Cons seg segs)
  show ?case
  proof (cases seg)
    case (Literal l)
    with Cons.prems have "literal = []" by (simp add: starts_literal_def)
    with Literal Cons.prems Cons.IH [of l acc] template_loop_literal [of l template acc "[]" "template_text segs"]
    show ?thesis by (simp add: template_text_def push_literal_def)
  next
    case (Column c)
    with Cons.prems Cons.IH [of "[]" "push_literal literal acc @ [Column c]"] scan_column_print [of c "[]" "template_text segs"]
    show ?thesis by (simp add: template_text_def push_literal_def)
  qed
qed (simp add: template_text_def)

definition closed :: "Segment list \<Rightarrow> bool" where
  "closed segs \<longleftrightarrow> segs = [] \<or> \<not> starts_literal [last segs]"

lemma alternating_append: "closed acc \<Longrightarrow> alternating (acc @ segs) \<longleftrightarrow> alternating acc \<and> alternating segs"
  by (induction acc rule: alternating.induct)
     (auto simp: closed_def starts_literal_def split: list.splits Segment.splits if_splits)

lemma template_text_append: "template_text (segs @ segs') = template_text segs @ template_text segs'"
  by (simp add: template_text_def)

lemma push_literal_ok:
  assumes "list_all segment_ok acc" and "alternating acc" and "closed acc" and "OPEN \<notin> set literal" and "CLOSE \<notin> set literal"
  shows "list_all segment_ok (push_literal literal acc)" "alternating (push_literal literal acc)"
    "template_text (push_literal literal acc) = template_text acc @ literal"
  using assms by (simp_all add: push_literal_def alternating_append template_text_append starts_literal_def template_text_def)

lemma push_column_ok:
  assumes "list_all segment_ok segs" and "alternating segs" and "segment_ok (Column c)"
  shows "list_all segment_ok (segs @ [Column c])" "alternating (segs @ [Column c])" "closed (segs @ [Column c])"
proof -
  show "alternating (segs @ [Column c])"
    using assms(2) by (induction segs rule: alternating.induct) (auto simp: starts_literal_def split: list.splits Segment.splits)
qed (use assms in \<open>simp_all add: closed_def starts_literal_def\<close>)

lemma template_loop_Inr:
  assumes "template_loop template acc literal cs = Inr segs" and "OPEN \<notin> set literal" and "CLOSE \<notin> set literal"
    and "list_all segment_ok acc" and "alternating acc" and "closed acc"
  shows "template_text segs = template_text acc @ literal @ cs \<and> list_all segment_ok segs \<and> alternating segs"
  using assms
proof (induction template acc literal cs rule: template_loop.induct)
  case (1 template acc literal)
  with push_literal_ok [of acc literal] show ?case by simp
next
  case (2 template acc literal c cs)
  show ?case
  proof (cases "c = OPEN")
    case True
    with "2.prems"(1) obtain col rest where sc: "scan_column [] cs = Some (col, rest)" "col \<noteq> []"
      and loop: "template_loop template (push_literal literal acc @ [Column col]) [] rest = Inr segs"
      by (auto split: option.splits if_splits)
    from scan_column_Some [OF sc(1)] have cs: "cs = col @ CLOSE # rest" "segment_ok (Column col)" using sc(2) by auto
    note lit = push_literal_ok [OF "2.prems"(4-6) "2.prems"(2,3)]
    note col = push_column_ok [OF lit(1,2) cs(2)]
    from "2.IH"(1) [OF True sc(1) refl sc(2) loop _ _ col] cs lit(3) True show ?thesis
      by (simp add: template_text_append) (simp add: template_text_def)
  next
    case False
    with "2.prems"(1) have "c \<noteq> CLOSE" by auto
    with False 2 show ?thesis by auto
  qed
qed

text \<open>
  C26: a stream template and its segments determine each other. A text parses as a template exactly when it
  is the printed form of a non-empty list of segments in which names and literals are non-empty and free
  of braces and no two literals are adjacent, and then the parser returns that list.
\<close>

theorem stream_template_roundtrip:
  "parse_stream_template t = Inr segs \<longleftrightarrow>
   t = template_text segs \<and> segs \<noteq> [] \<and> list_all segment_ok segs \<and> alternating segs"
proof
  assume "parse_stream_template t = Inr segs"
  then have "template_loop t [] [] t = Inr segs" "segs \<noteq> []"
    by (auto simp: parse_stream_template_def outcome split: if_splits)
  with template_loop_Inr [OF this(1)] show "t = template_text segs \<and> segs \<noteq> [] \<and> list_all segment_ok segs \<and> alternating segs"
    by (simp add: closed_def template_text_def)
next
  assume "t = template_text segs \<and> segs \<noteq> [] \<and> list_all segment_ok segs \<and> alternating segs"
  then show "parse_stream_template t = Inr segs"
    using template_loop_print [of segs "[]" t "[]"] by (simp add: parse_stream_template_def push_literal_def)
qed

section \<open>Stream names\<close>

definition literal_text :: "Segment list \<Rightarrow> string" where
  "literal_text segs = concat (map (\<lambda>s. case s of Literal l \<Rightarrow> l | Column _ \<Rightarrow> []) segs)"

lemma render_segments_slashes:
  "render_segments columns row segs name = Inr text \<Longrightarrow>
   filter (\<lambda>c. c = CHR ''/'') text = filter (\<lambda>c. c = CHR ''/'') (name @ literal_text segs)"
proof (induction columns row segs name rule: render_segments.induct)
  case (3 columns row c segs name)
  then obtain column v where "map_of columns c = Some column" "CHR ''/'' \<notin> set v" "sc_render column row = Inr v"
    "\<not> sc_is_null column row" "render_segments columns row segs (name @ v) = Inr text"
    by (auto simp: outcome split: option.splits if_splits)
  moreover from this have "filter (\<lambda>c. c = CHR ''/'') v = []" by (auto simp: filter_empty_conv)
  ultimately show ?case using "3.IH" by (simp add: literal_text_def)
qed (simp_all add: literal_text_def)

lemma resolve_rows_Inr:
  "resolve_rows parse segs columns parsed rows = Inr streams \<Longrightarrow>
   (\<And>name s. hm_get parsed name = Some s \<Longrightarrow> parse name = Inr s) \<Longrightarrow>
   list_all2 (\<lambda>row s. \<exists>name. render_segments columns row segs [] = Inr name \<and> parse name = Inr s) rows streams"
proof (induction rows arbitrary: parsed streams)
  case (Cons row rows)
  from Cons.prems(1) obtain name where name: "render_segments columns row segs [] = Inr name"
    by (auto simp: outcome)
  show ?case
  proof (cases "hm_get parsed name")
    case (Some s)
    with Cons name show ?thesis by (auto simp: outcome)
  next
    case None
    with Cons.prems(1) name obtain s rest where s: "parse name = Inr s" "streams = s # rest"
      "resolve_rows parse segs columns (hm_insert name s parsed) rows = Inr rest"
      by (auto simp: outcome)
    have "list_all2 (\<lambda>row s. \<exists>name. render_segments columns row segs [] = Inr name \<and> parse name = Inr s) rows rest"
      by (rule Cons.IH [OF s(3)]) (use s(1) Cons.prems(2) in \<open>auto split: if_splits\<close>)
    with s name show ?thesis by auto
  qed
qed simp

text \<open>
  C27: a row cannot leave the namespace of its template. When the streams of a batch resolve, there is one
  for each row; the name is what the row renders to, parsed afresh, and its slashes are exactly those of
  the literal parts of the template, whatever the column values are.
\<close>

theorem resolved_names_stay_in_namespace:
  assumes "resolve_streams parse segs b = Inr streams"
    and "\<And>name s. parse name = Inr s \<Longrightarrow> s = name"
  shows "length streams = sb_num_rows b \<and>
         list_all (\<lambda>s. parse s = Inr s \<and> filter (\<lambda>c. c = CHR ''/'') s = filter (\<lambda>c. c = CHR ''/'') (literal_text segs)) streams"
proof -
  from assms(1) obtain columns where r: "resolve_rows parse segs columns [] [0..<sb_num_rows b] = Inr streams"
    by (auto simp: resolve_streams_def outcome)
  have all: "list_all2 (\<lambda>row s. \<exists>name. render_segments columns row segs [] = Inr name \<and> parse name = Inr s) [0..<sb_num_rows b] streams"
    by (rule resolve_rows_Inr [OF r]) simp
  have "parse s = Inr s \<and> filter (\<lambda>c. c = CHR ''/'') s = filter (\<lambda>c. c = CHR ''/'') (literal_text segs)" if "s \<in> set streams" for s
  proof -
    from that obtain i where "i < length streams" "s = streams ! i" by (auto simp: in_set_conv_nth)
    with list_all2_nthD2 [OF all, of i] obtain row name where n: "render_segments columns row segs [] = Inr name" "parse name = Inr s"
      by blast
    with render_segments_slashes [OF n(1)] assms(2) [OF n(2)] show ?thesis by simp
  qed
  with list_all2_lengthD [OF all] show ?thesis by (simp add: list_all_iff)
qed

section \<open>Sink and source\<close>

text \<open>The record that the source reads for an appended one.\<close>

definition as_read :: "string \<Rightarrow> u64 \<Rightarrow> u64 \<Rightarrow> AppendRecord \<Rightarrow> SourceRecord" where
  "as_read stream seq_num timestamp r =
     source_record stream \<lparr>s2_seq_num = seq_num, s2_timestamp = timestamp, s2_headers = ar_headers r, s2_body = ar_body r\<rparr>"

text \<open>What the engine's parser of row kinds is documented to accept.\<close>

definition kinds_lawful :: "(string \<Rightarrow> RowKind option) \<Rightarrow> bool" where
  "kinds_lawful parse_kind \<longleftrightarrow>
     (\<forall>v k. parse_kind v = Some k \<longleftrightarrow> v = (case k of KInsert \<Rightarrow> ''i'' | KUpdate \<Rightarrow> ''u'' | KDelete \<Rightarrow> ''d''))"

text \<open>
  row kinds survive the stream. If the sink accepts a row kind and appends a row with it, the source
  that reads the record restores the same row kind and the same body, at whatever position it reads it.
\<close>

theorem row_kind_roundtrip:
  assumes "kinds_lawful parse_kind" and "to_op parse_kind kind = Inr op" and "append_record R (row, op) = Inr r"
  shows "gs_op (as_read stream seq_num timestamp r) = kind \<and> sr_body (as_read stream seq_num timestamp r) = row"
proof -
  obtain k where k: "parse_kind kind = Some k" "op = (case k of KInsert \<Rightarrow> ''c'' | KUpdate \<Rightarrow> ''u'' | KDelete \<Rightarrow> ''d'')"
    using assms(2) by (auto simp: to_op_def dbz_op_from_row_kind_def outcome split: option.splits)
  moreover have "kind = (case k of KInsert \<Rightarrow> ''i'' | KUpdate \<Rightarrow> ''u'' | KDelete \<Rightarrow> ''d'')"
    using assms(1) k(1) by (simp add: kinds_lawful_def)
  moreover have "r = \<lparr>ar_body = row, ar_headers = [(DBZ_OP_HEADER, op)]\<rparr>"
    using assms(3) by (auto simp: append_record_def Let_def split: option.splits)
  ultimately show ?thesis
    by (cases k) (simp_all add: as_read_def source_record_def gs_op_def row_kind_from_dbz_op_def)
qed

section \<open>Witnesses\<close>

definition one_api :: "nat producer_api" where
  "one_api = \<lparr>submit = \<lambda>s r. Inr 7, poll = \<lambda>t. None, await = \<lambda>t. Inr 3, close_error = \<lambda>s. None, ensure_error = \<lambda>s. None\<rparr>"

definition one_sink :: "nat producers option \<Rightarrow> nat S2Sink" where
  "one_sink ps =
     \<lparr>sk_config = \<lparr>s2k_basin = ''b'', s2k_target = FixedStream ''a'', s2k_ensure_stream = True, s2k_request_timeout = 5000,
                   s2k_linger = 5, s2k_endpoints = None\<rparr>,
      sk_access_token = ''t'', sk_stream_id = ''b/a'', sk_producers = ps, sk_running = True\<rparr>"

definition one_batch :: sink_batch where
  "one_batch =
     \<lparr>sb_num_rows = 1,
      sb_columns = [(''_gs_op'', \<lparr>sc_strings = Some [Some ''i''], sc_len = 1, sc_is_null = \<lambda>_. False, sc_render = \<lambda>_. Inr ''i'', sc_formatter = None\<rparr>),
                    (''tenant'', \<lparr>sc_strings = Some [Some ''x''], sc_len = 1, sc_is_null = \<lambda>_. False, sc_render = \<lambda>_. Inr ''x'', sc_formatter = None\<rparr>)]\<rparr>"

definition plain_kinds :: "string \<Rightarrow> RowKind option" where
  "plain_kinds v = (if v = ''i'' then Some KInsert else if v = ''u'' then Some KUpdate else if v = ''d'' then Some KDelete else None)"

definition plain_records :: s2_record_api where
  "plain_records = \<lparr>record_error = \<lambda>_. None, header_error = \<lambda>_ _. None\<rparr>"

lemma one_api_lawful: "api_lawful (\<lambda>_. Inr 3) one_api"
  by (simp add: api_lawful_def one_api_def)

lemma one_sink_run:
  "sink_reachable (\<lambda>_. Inr 3) (one_sink None)
     \<lparr>sn_sink = one_sink (Some [(''a'', \<lparr>ps_pending = [7], ps_last_used = 0\<rparr>)]), sn_submitted = {Inr 7}, sn_failed = False\<rparr>"
proof -
  let ?s0 = "\<lparr>sn_sink = one_sink None, sn_submitted = {}, sn_failed = False\<rparr> :: nat sink_system"
  let ?ps = "[(''a'', \<lparr>ps_pending = [], ps_last_used = 0\<rparr>)]"
  let ?s1 = "\<lparr>sn_sink = one_sink (Some ?ps), sn_submitted = {}, sn_failed = False\<rparr> :: nat sink_system"
  have "s2_sink_initialize (Inr ()) (Inr ()) one_api 0 (sn_sink ?s0) = (Inr (), one_sink (Some ?ps))"
    by (simp add: s2_sink_initialize_def one_sink_def ensure_producer_def one_api_def)
  from sink_step.init [OF this, of "\<lambda>_. Inr 3"] have "sink_step (\<lambda>_. Inr 3) ?s0 ?s1"
    by (simp add: after_call_def tickets_def one_sink_def)
  moreover have "s2_process_batch plain_kinds (\<lambda>_. Inr [''x'']) plain_records (\<lambda>n. Inr n) one_api 0 one_batch (sn_sink ?s1) =
      (Inr (), one_sink (Some [(''a'', \<lparr>ps_pending = [7], ps_last_used = 0\<rparr>)]))"
    by (simp add: s2_process_batch_def batch_runs_def dbz_ops_from_batch_def column_by_name_def one_batch_def
        STREAMLING_COLUMN_NAME_OP_def to_op_def dbz_op_from_row_kind_def plain_kinds_def
        append_records_from_json_rows_def append_record_def plain_records_def route_def one_sink_def sink_state_def
        submit_records_def ensure_producer_def pending_of_def one_api_def Let_def)
  from sink_step.batch [OF one_api_lawful this refl]
  have "sink_step (\<lambda>_. Inr 3) ?s1 \<lparr>sn_sink = one_sink (Some [(''a'', \<lparr>ps_pending = [7], ps_last_used = 0\<rparr>)]), sn_submitted = {Inr 7}, sn_failed = False\<rparr>"
    by (simp add: after_call_def one_sink_def submissions_def row_streams_def dbz_ops_from_batch_def column_by_name_def one_batch_def
        STREAMLING_COLUMN_NAME_OP_def to_op_def dbz_op_from_row_kind_def plain_kinds_def append_records_from_json_rows_def
        append_record_def plain_records_def one_api_def Let_def)
  ultimately show ?thesis unfolding sink_reachable_def by (meson rtranclp.rtrancl_into_rtrancl rtranclp.rtrancl_refl)
qed

theorem s2_marker_is_durable_witness:
  "s2_sink_checkpoint_marker one_api 0 (one_sink (Some [(''a'', \<lparr>ps_pending = [7], ps_last_used = 0\<rparr>)])) =
     (Inr (), one_sink (Some [(''a'', \<lparr>ps_pending = [], ps_last_used = 0\<rparr>)])) \<and>
   (\<exists>seq_num :: u64. (Inr 3 :: string + u64) = Inr seq_num)"
proof -
  have m: "s2_sink_checkpoint_marker one_api 0 (one_sink (Some [(''a'', \<lparr>ps_pending = [7], ps_last_used = 0\<rparr>)])) =
     (Inr (), one_sink (Some [(''a'', \<lparr>ps_pending = [], ps_last_used = 0\<rparr>)]))"
    by (simp add: s2_sink_checkpoint_marker_def sink_state_def one_sink_def flush_pending_records_def
        sum_or_first_error_def await_record_tickets_def List.map_filter_def one_api_def)
  with s2_marker_is_durable [OF one_sink_run _ one_api_lawful, of 0 _ "Inr 7"] show ?thesis by simp
qed

theorem s2_records_queued_in_order_witness:
  "let r = \<lparr>ar_body = ''x'', ar_headers = []\<rparr>; ps' = [(''a'', \<lparr>ps_pending = [7], ps_last_used = 0\<rparr>)] in
   submit_records one_api False 0 [(''a'', [r])] [] = (Inr (1, 0), ps') \<and>
   (\<exists>rest new. pending_of ps' ''a'' = rest @ new \<and> length new = length (records_for ''a'' [(''a'', [r])]))"
proof -
  let ?r = "\<lparr>ar_body = ''x'', ar_headers = []\<rparr>" and ?ps' = "[(''a'', \<lparr>ps_pending = [7], ps_last_used = 0\<rparr>)]"
  have s: "submit_records one_api False 0 [(''a'', [?r])] [] = (Inr (1, 0), ?ps')"
    by (simp add: submit_records_def ensure_producer_def pending_of_def one_api_def Let_def)
  from s2_records_queued_in_order [OF s one_api_lawful, of "''a''"] s show ?thesis
    unfolding Let_def by (metis list_all2_lengthD)
qed

theorem resolved_names_stay_in_namespace_witness:
  "resolve_streams (\<lambda>n. Inr n) [Literal ''events/'', Column ''tenant''] one_batch = Inr [''events/x''] \<and>
   filter (\<lambda>c. c = CHR ''/'') ''events/x'' = ''/''"
proof -
  have r: "resolve_streams (\<lambda>n. Inr n) [Literal ''events/'', Column ''tenant''] one_batch = Inr [''events/x'']"
    by (simp add: resolve_streams_def template_columns_def check_column_def column_by_name_def one_batch_def List.map_filter_def)
  from resolved_names_stay_in_namespace [OF r] r show ?thesis by (simp add: literal_text_def)
qed

theorem row_kind_roundtrip_witness:
  "to_op plain_kinds ''d'' = Inr ''d'' \<and>
   gs_op (as_read ''a'' 4 0 \<lparr>ar_body = ''x'', ar_headers = [(DBZ_OP_HEADER, ''d'')]\<rparr>) = ''d''"
proof -
  have k: "kinds_lawful plain_kinds" by (auto simp: kinds_lawful_def plain_kinds_def split: RowKind.splits if_splits)
  have o: "to_op plain_kinds ''d'' = Inr ''d''" by (simp add: to_op_def dbz_op_from_row_kind_def plain_kinds_def)
  have a: "append_record plain_records (''x'', ''d'') = Inr \<lparr>ar_body = ''x'', ar_headers = [(DBZ_OP_HEADER, ''d'')]\<rparr>"
    by (simp add: append_record_def plain_records_def)
  from row_kind_roundtrip [OF k o a, of "''a''" 4 0] o show ?thesis by simp
qed

end
