(* ===== verification/Calendar.thy ===== *)
theory Calendar
  imports Prelude "HOL-Library.Signed_Division"
begin

text \<open>
  Dates and times of the MySQL sink, from \<open>src/src/sinks/mysql/sink.rs\<close>: the conversion of a day number to
  a civil date and its text, against the Gregorian calendar as reference. Rust's integer division and
  remainder truncate towards zero (\<open>sdiv\<close>, \<open>smod\<close>); an \<open>as\<close> conversion keeps the low bits, and arithmetic
  on \<open>i32\<close> wraps, as in a release build.
\<close>

section \<open>The code\<close>

text \<open>The year, month and day of a day number; day 0 is the first of January 1970.\<close>

definition year_of_era :: "int \<Rightarrow> int" where
  "year_of_era doe = (doe - doe div 1460 + doe div 36524 - doe div 146096) div 365"

definition civil_from_days :: "int \<Rightarrow> int \<times> int \<times> int" where
  "civil_from_days days_since_epoch =
     (let total_days = days_since_epoch + 719468;
          era = (if total_days \<ge> 0 then total_days sdiv 146097 else (total_days - 146096) sdiv 146097);
          doe = as_u32 (total_days - era * 146097);
          yoe = year_of_era doe;
          y = yoe + era * 400;
          doy = doe - (365 * yoe + yoe div 4 - yoe div 100);
          mp = (5 * doy + 2) div 153;
          d = doy - (153 * mp + 2) div 5 + 1;
          m = (if mp < 10 then mp + 3 else mp - 9);
          y' = (if m \<le> 2 then y + 1 else y)
      in (y', m, d))"

text \<open>Zero padding to a width, the sign included.\<close>

definition show_padded :: "nat \<Rightarrow> int \<Rightarrow> string" where
  "show_padded w i =
     (let digits = show_nat (nat \<bar>i\<bar>); sign = (if i < 0 then ''-'' else '''') in
      sign @ replicate (w - length sign - length digits) CHR ''0'' @ digits)"

definition format_date_from_days :: "int \<Rightarrow> string" where
  "format_date_from_days days =
     (let (y, m, d) = civil_from_days days in
      show_padded 4 y @ ''-'' @ show_padded 2 m @ ''-'' @ show_padded 2 d)"

definition format_timestamp :: "int \<Rightarrow> int \<Rightarrow> string" where
  "format_timestamp epoch_secs nanos =
     (let days0 = epoch_secs sdiv 86400; secs0 = epoch_secs smod 86400;
          days = (if secs0 < 0 then days0 - 1 else days0);
          day_secs = (if secs0 < 0 then secs0 + 86400 else secs0);
          hours = day_secs sdiv 3600;
          minutes = (day_secs smod 3600) sdiv 60;
          seconds = day_secs smod 60;
          date = format_date_from_days (as_i32 (as_i32 (days + 719163) - 719163));
          clock = date @ '' '' @ show_padded 2 hours @ '':'' @ show_padded 2 minutes @ '':'' @ show_padded 2 seconds
      in if nanos > 0 then clock @ ''.'' @ show_padded 6 (nanos div 1000) else clock)"

section \<open>The calendar\<close>

definition leap :: "int \<Rightarrow> bool" where
  "leap y \<longleftrightarrow> 4 dvd y \<and> (\<not> 100 dvd y \<or> 400 dvd y)"

definition month_length :: "int \<Rightarrow> int \<Rightarrow> int" where
  "month_length y m = (if m = 2 then (if leap y then 29 else 28) else if m \<in> {4, 6, 9, 11} then 30 else 31)"

definition valid_date :: "int \<times> int \<times> int \<Rightarrow> bool" where
  "valid_date date = (case date of (y, m, d) \<Rightarrow> 1 \<le> m \<and> m \<le> 12 \<and> 1 \<le> d \<and> d \<le> month_length y m)"

text \<open>The days before a year, counted from the year 1, and those of its months before a month.\<close>

definition days_before_year :: "int \<Rightarrow> int" where
  "days_before_year y = 365 * (y - 1) + (y - 1) div 4 - (y - 1) div 100 + (y - 1) div 400"

definition days_before_month :: "int \<Rightarrow> int \<Rightarrow> int" where
  "days_before_month y m = sum_list (map (month_length y) [1..m - 1])"

definition day_number :: "int \<times> int \<times> int \<Rightarrow> int" where
  "day_number date = (case date of (y, m, d) \<Rightarrow> days_before_year y + days_before_month y m + d - 1 - days_before_year 1970)"

lemma div_step:
  fixes y k :: int
  assumes "k > 0"
  shows "y div k = (y - 1) div k + (if k dvd y then 1 else 0)"
proof -
  define q r where "q = y div k" and "r = y mod k"
  have y: "y = k * q + r" "0 \<le> r" "r < k" using assms by (simp_all add: q_def r_def)
  show ?thesis
  proof (cases "r = 0")
    case True
    then have "(y - 1) div k = q - 1" using y assms by (intro int_div_pos_eq [of _ _ _ "k - 1"]) (auto simp: algebra_simps)
    with True show ?thesis by (simp add: q_def r_def dvd_eq_mod_eq_0)
  next
    case False
    then have "(y - 1) div k = q" using y by (intro int_div_pos_eq [of _ _ _ "r - 1"]) auto
    with False show ?thesis by (simp add: q_def r_def dvd_eq_mod_eq_0)
  qed
qed

lemma count_inclusion:
  fixes a b c :: int
  assumes "Q \<longrightarrow> P" and "R \<longrightarrow> Q"
  shows "(a + (if P then 1 else 0)) - (b + (if Q then 1 else 0)) + (c + (if R then 1 else 0)) =
         a - b + c + (if P \<and> (\<not> Q \<or> R) then 1 else 0)"
  using assms by (cases P; cases Q; cases R) simp_all

lemma leap_days: "y div 4 - y div 100 + y div 400 = (y - 1) div 4 - (y - 1) div 100 + (y - 1) div 400 + (if leap y then 1 else 0)"
proof -
  have "(100 :: int) dvd 400" "(4 :: int) dvd 100" by simp_all
  then have mono: "400 dvd y \<longrightarrow> 100 dvd y" "100 dvd y \<longrightarrow> 4 dvd y" by (blast intro: dvd_trans)+
  show ?thesis
    unfolding div_step [of 4 y, simplified] div_step [of 100 y, simplified] div_step [of 400 y, simplified] leap_def
    using mono(2,1) by (rule count_inclusion)
qed

section \<open>Years of an era\<close>

text \<open>The first day of a year of the era, years starting in March.\<close>

definition year_start :: "int \<Rightarrow> int" where
  "year_start y = 365 * y + y div 4 - y div 100"

lemma year_bounds:
  "list_all (\<lambda>y. year_of_era (year_start y) = y \<and> year_of_era (year_start (y + 1) - 1) = y) [0..398]"
  by code_simp

lemma year_start_range: "list_all (\<lambda>y. 0 \<le> year_start y \<and> year_start y \<le> 146096) [0..399]"
  by code_simp

lemma last_year_bounds: "year_of_era (year_start 399) = 399" "year_of_era 146096 = 399"
  by code_simp+

lemma year_of_era_mono_step:
  assumes "0 \<le> doe" and "doe < 146096"
  shows "year_of_era doe \<le> year_of_era (doe + 1)"
proof -
  let ?g = "\<lambda>x :: int. x - x div 1460 + x div 36524 - x div 146096"
  have step: "(doe + 1) div k = doe div k + (if k dvd (doe + 1) then 1 else 0)" if "k > 0" for k :: int
    using div_step [OF that, of "doe + 1"] by simp
  have "(if (1460 :: int) dvd (doe + 1) then 1 else 0) + (if (146096 :: int) dvd (doe + 1) then 1 else 0) \<le> (1 :: int)"
  proof (cases "(146096 :: int) dvd (doe + 1)")
    case True
    then have "doe + 1 = 146096" using assms zdvd_imp_le [of 146096 "doe + 1"] by simp
    then show ?thesis by simp
  qed simp
  moreover have "(0 :: int) \<le> (if (36524 :: int) dvd (doe + 1) then 1 else 0)" by simp
  ultimately have "?g doe \<le> ?g (doe + 1)"
    using step [of 1460] step [of 36524] step [of 146096] by linarith
  then show ?thesis unfolding year_of_era_def by (rule zdiv_mono1) simp
qed

lemma year_of_era_mono:
  assumes "0 \<le> a" and "a \<le> b" and "b \<le> 146096"
  shows "year_of_era a \<le> year_of_era b"
  using assms(2,3)
proof (induction b rule: int_ge_induct)
  case (step i)
  with assms(1) year_of_era_mono_step [of i] show ?case by simp
qed simp

text \<open>Every day of an era lies in the year that is computed for it.\<close>

lemma year_of_era_bounds:
  assumes "0 \<le> doe" and "doe \<le> 146096"
  shows "0 \<le> year_of_era doe" "year_of_era doe \<le> 399" "year_start (year_of_era doe) \<le> doe"
    "year_of_era doe < 399 \<Longrightarrow> doe < year_start (year_of_era doe + 1)"
proof -
  let ?y = "year_of_era doe"
  show y: "0 \<le> ?y" "?y \<le> 399"
    using year_of_era_mono [of 0 doe] year_of_era_mono [of doe 146096] assms last_year_bounds(2)
    by (simp_all add: year_of_era_def)
  have bounds: "year_of_era (year_start z) = z \<and> year_of_era (year_start (z + 1) - 1) = z" if "0 \<le> z" "z \<le> 398" for z
    using year_bounds that by (simp add: list_all_iff)
  have start: "year_of_era (year_start z) = z" if "0 \<le> z" "z \<le> 399" for z
    using bounds [of z] that last_year_bounds(1) by (cases "z = 399") auto
  have range: "0 \<le> year_start z" "year_start z \<le> 146096" if "0 \<le> z" "z \<le> 399" for z
    using year_start_range that by (simp_all add: list_all_iff)
  show "year_start ?y \<le> doe"
  proof (rule ccontr)
    assume less: "\<not> year_start ?y \<le> doe"
    with assms have "?y \<noteq> 0" by (auto simp: year_start_def)
    with y bounds [of "?y - 1"] have "year_of_era (year_start ?y - 1) = ?y - 1" by simp
    with year_of_era_mono [of doe "year_start ?y - 1"] less assms(1) range(2) [OF y] show False by simp
  qed
  show "doe < year_start (?y + 1)" if "?y < 399"
  proof (rule ccontr)
    assume "\<not> doe < year_start (?y + 1)"
    with year_of_era_mono [of "year_start (?y + 1)" doe] start [of "?y + 1"] range(1) [of "?y + 1"] y(1) that assms(2)
    show False by simp
  qed
qed

text \<open>The months of a year that starts in March: the month and day of each of its days.\<close>

definition month_day :: "int \<Rightarrow> int \<times> int" where
  "month_day doy =
     (let mp = (5 * doy + 2) div 153 in
      (if mp < 10 then mp + 3 else mp - 9, doy - (153 * mp + 2) div 5 + 1))"

text \<open>The days from the first of March to the first of a month of the same March year.\<close>

definition march_offset :: "int \<Rightarrow> int" where
  "march_offset m = (if m \<ge> 3 then days_before_month 1 m - 59 else 306 + days_before_month 1 m)"

lemma month_day_table:
  "list_all (\<lambda>doy. case month_day doy of (m, d) \<Rightarrow>
     1 \<le> m \<and> m \<le> 12 \<and> 1 \<le> d \<and> (if m = 2 then d \<le> (if doy = 365 then 29 else 28) else d \<le> month_length 1 m) \<and>
     march_offset m + d - 1 = doy) [0..365]"
  by code_simp

lemma month_lengths_leap:
  "distinct ms \<Longrightarrow> sum_list (map (month_length y) ms) = sum_list (map (month_length 1) ms) + (if 2 \<in> set ms \<and> leap y then 1 else 0)"
proof (induction ms)
  case (Cons m ms)
  have "\<not> leap 1" by (simp add: leap_def)
  with Cons show ?case by (cases "m = 2") (auto simp: month_length_def)
qed simp

lemma days_before_month_leap: "days_before_month y m = days_before_month 1 m + (if 3 \<le> m \<and> leap y then 1 else 0)"
  using month_lengths_leap [of "[1..m - 1]" y] by (simp add: days_before_month_def)

lemma month_day_spec:
  assumes "0 \<le> doy" and "doy \<le> 365" and "month_day doy = (m, d)"
  shows "1 \<le> m" "m \<le> 12" "1 \<le> d" "m \<noteq> 2 \<Longrightarrow> d \<le> month_length y m" "m = 2 \<Longrightarrow> d \<le> (if doy = 365 then 29 else 28)"
    "march_offset m + d - 1 = doy"
proof -
  have "case month_day doy of (m, d) \<Rightarrow>
     1 \<le> m \<and> m \<le> 12 \<and> 1 \<le> d \<and> (if m = 2 then d \<le> (if doy = 365 then 29 else 28) else d \<le> month_length 1 m) \<and>
     march_offset m + d - 1 = doy"
    using month_day_table assms(1,2) by (simp add: list_all_iff)
  with assms(3) show "1 \<le> m" "m \<le> 12" "1 \<le> d" "m \<noteq> 2 \<Longrightarrow> d \<le> month_length y m" "m = 2 \<Longrightarrow> d \<le> (if doy = 365 then 29 else 28)"
    "march_offset m + d - 1 = doy"
    by (auto simp: month_length_def split: if_splits)
qed

text \<open>The days before the first of March of a year.\<close>

definition march_start :: "int \<Rightarrow> int" where
  "march_start y = 365 * y + y div 4 - y div 100 + y div 400"

lemma march_start_era:
  assumes "0 \<le> y" and "y \<le> 399"
  shows "march_start (y + 400 * era) = year_start y + 146097 * era"
proof -
  have "(y + 400 * era) div 4 = y div 4 + 100 * era" "(y + 400 * era) div 100 = y div 100 + 4 * era"
    "(y + 400 * era) div 400 = era"
    using div_mult_self4 [of 4 y "100 * era"] div_mult_self4 [of 100 y "4 * era"] div_mult_self4 [of 400 y era] assms
    by (simp_all add: div_pos_pos_trivial)
  then show ?thesis by (simp add: march_start_def year_start_def)
qed

lemma day_number_march:
  assumes "1 \<le> m" and "m \<le> 12"
  shows "day_number (if m \<le> 2 then y + 1 else y, m, d) = march_start y + (march_offset m + d - 1) - 719468"
proof (cases "m \<le> 2")
  case True
  then show ?thesis
    using days_before_month_leap [of "y + 1"]
    by (simp add: day_number_def march_offset_def days_before_year_def march_start_def)
next
  case False
  then show ?thesis
    using days_before_month_leap [of y] leap_days [of y]
    by (simp add: day_number_def march_offset_def days_before_year_def march_start_def)
qed

lemma leap_period: "leap (y + 400 * era) = leap y"
proof -
  have "(k :: int) dvd y + 400 * era \<longleftrightarrow> k dvd y" if "k dvd 400" for k
    using that by (simp add: dvd_add_left_iff)
  from this [of 4] this [of 100] this [of 400] show ?thesis by (simp add: leap_def)
qed

lemma last_day_of_year:
  assumes "0 \<le> doe" and "doe \<le> 146096"
  defines "yoe \<equiv> year_of_era doe"
  shows "0 \<le> doe - year_start yoe" "doe - year_start yoe \<le> 365" "doe - year_start yoe = 365 \<Longrightarrow> leap (yoe + 1)"
proof -
  note b = year_of_era_bounds [OF assms(1,2), folded yoe_def]
  show "0 \<le> doe - year_start yoe" using b(3) by simp
  have step: "year_start (yoe + 1) = year_start yoe + 365 + (if 4 dvd (yoe + 1) then 1 else 0) - (if 100 dvd (yoe + 1) then 1 else 0)"
    using div_step [of 4 "yoe + 1"] div_step [of 100 "yoe + 1"] by (simp add: year_start_def)
  have "doe - year_start yoe \<le> 365 \<and> (doe - year_start yoe = 365 \<longrightarrow> leap (yoe + 1))"
  proof (cases "yoe = 399")
    case True
    then show ?thesis using assms(2) by (simp add: year_start_def leap_def)
  next
    case False
    with b(2,4) have "doe < year_start (yoe + 1)" by simp
    with step show ?thesis by (auto simp: leap_def split: if_splits)
  qed
  then show "doe - year_start yoe \<le> 365" "doe - year_start yoe = 365 \<Longrightarrow> leap (yoe + 1)" by blast+
qed

lemma floor_era:
  fixes t :: int
  shows "(if t \<ge> 0 then t sdiv 146097 else (t - 146096) sdiv 146097) = t div 146097"
proof (cases "t \<ge> 0")
  case True
  then show ?thesis by (cases "t = 0") (simp_all add: signed_divide_int_def)
next
  case False
  have "(146096 - t) div 146097 = - (t div 146097)"
  proof (rule int_div_pos_eq)
    show "146096 - t = 146097 * - (t div 146097) + (146096 - t mod 146097)"
      using mult_div_mod_eq [of 146097 t] by linarith
    show "0 \<le> 146096 - t mod 146097" using pos_mod_bound [of 146097 t] by simp
    show "146096 - t mod 146097 < 146097" using pos_mod_sign [of 146097 t] by simp
  qed
  with False show ?thesis by (simp add: signed_divide_int_def)
qed

lemma civil_from_days_eq:
  "civil_from_days n =
     (let t = n + 719468; era = t div 146097; doe = t mod 146097; yoe = year_of_era doe;
          (m, d) = month_day (doe - year_start yoe); y = yoe + 400 * era in
      (if m \<le> 2 then y + 1 else y, m, d))"
proof -
  let ?t = "n + 719468"
  have doe: "as_u32 (?t - ?t div 146097 * 146097) = ?t mod 146097"
    using pos_mod_sign [of 146097 ?t] pos_mod_bound [of 146097 ?t]
    by (simp add: as_u32_def minus_div_mult_eq_mod mod_pos_pos_trivial)
  show ?thesis
    unfolding civil_from_days_def Let_def floor_era doe month_day_def year_start_def
    by (simp add: mult.commute)
qed

lemma civil_from_days_valid:
  "valid_date (civil_from_days n) \<and> day_number (civil_from_days n) = n"
proof -
  define t era doe yoe where "t = n + 719468" and "era = t div 146097" and "doe = t mod 146097" and "yoe = year_of_era doe"
  define y where "y = yoe + 400 * era"
  obtain m d where md: "month_day (doe - year_start yoe) = (m, d)" by fastforce
  have civil: "civil_from_days n = (if m \<le> 2 then y + 1 else y, m, d)"
    using md by (simp add: civil_from_days_eq t_def [symmetric] era_def [symmetric] doe_def [symmetric] yoe_def [symmetric] y_def)
  have doe: "0 \<le> doe" "doe \<le> 146096" using pos_mod_bound [of 146097 t] by (simp_all add: doe_def)
  note yoe = year_of_era_bounds [OF doe, folded yoe_def]
  note doy = last_day_of_year [OF doe, folded yoe_def]
  note spec = month_day_spec [OF doy(1,2) md]
  have "d \<le> month_length (if m \<le> 2 then y + 1 else y) m"
  proof (cases "m = 2")
    case True
    have "leap (y + 1) = leap (yoe + 1)" using leap_period [of "yoe + 1" era] by (simp add: y_def algebra_simps)
    with True spec(5) doy(3) show ?thesis by (auto simp: month_length_def split: if_splits)
  qed (use spec(4) in simp)
  moreover have "day_number (if m \<le> 2 then y + 1 else y, m, d) = n"
    using day_number_march [OF spec(1,2), of y d] spec(6) march_start_era [OF yoe(1,2), of era, folded y_def]
      mult_div_mod_eq [of 146097 t, folded era_def doe_def] t_def by linarith
  ultimately show ?thesis using spec(1-3) by (simp add: civil valid_date_def)
qed

section \<open>Uniqueness of the date\<close>

lemma days_before_year_step: "days_before_year (y + 1) = days_before_year y + 365 + (if leap y then 1 else 0)"
  using leap_days [of y] by (simp add: days_before_year_def)

lemma days_before_year_mono:
  assumes "y < y'"
  shows "days_before_year (y + 1) \<le> days_before_year y'"
proof -
  from assms have "y + 1 \<le> y'" by simp
  then show ?thesis
  proof (induction y' rule: int_ge_induct)
    case (step i)
    then show ?case using days_before_year_step [of i] by (simp split: if_splits)
  qed simp
qed

lemma month_length_pos: "0 < month_length y m"
  by (simp add: month_length_def)

lemma days_before_month_step: "1 \<le> m \<Longrightarrow> days_before_month y (m + 1) = days_before_month y m + month_length y m"
  by (simp add: days_before_month_def upto_rec2)

lemma days_before_month_mono:
  assumes "1 \<le> m" and "m < m'"
  shows "days_before_month y (m + 1) \<le> days_before_month y m'"
proof -
  from assms have "m + 1 \<le> m'" by simp
  then show ?thesis
  proof (induction m' rule: int_ge_induct)
    case (step i)
    then show ?case using days_before_month_step [of i y] month_length_pos [of y i] assms(1) by simp
  qed simp
qed

lemma year_length: "days_before_month y 13 = 365 + (if leap y then 1 else 0)"
proof -
  have "days_before_month 1 13 = 365" by code_simp
  with days_before_month_leap [of y 13] show ?thesis by simp
qed

lemma day_of_year_bounds:
  assumes "valid_date (y, m, d)"
  shows "0 \<le> days_before_month y m + d - 1" "days_before_month y m + d \<le> days_before_month y (m + 1)"
    "days_before_month y m + d \<le> 365 + (if leap y then 1 else 0)"
proof -
  have "0 \<le> days_before_month y m"
    unfolding days_before_month_def using month_length_pos by (intro sum_list_nonneg) (auto intro: less_imp_le)
  with assms show "0 \<le> days_before_month y m + d - 1" by (simp add: valid_date_def)
  show le: "days_before_month y m + d \<le> days_before_month y (m + 1)"
    using assms days_before_month_step [of m y] by (simp add: valid_date_def)
  have "days_before_month y (m + 1) \<le> days_before_month y 13"
    using assms days_before_month_mono [of m 13 y] by (simp add: valid_date_def)
  with le year_length [of y] show "days_before_month y m + d \<le> 365 + (if leap y then 1 else 0)" by simp
qed

lemma day_number_year_less:
  assumes "valid_date (y, m, d)" and "valid_date (y', m', d')" and "y < y'"
  shows "day_number (y, m, d) < day_number (y', m', d')"
  using day_of_year_bounds [OF assms(1)] day_of_year_bounds(1) [OF assms(2)]
    days_before_year_mono [OF assms(3)] days_before_year_step [of y]
  by (simp add: day_number_def)

lemma day_number_month_less:
  assumes "valid_date (y, m, d)" and "valid_date (y, m', d')" and "m < m'"
  shows "day_number (y, m, d) < day_number (y, m', d')"
  using day_of_year_bounds(2) [OF assms(1)] days_before_month_mono [of m m' y] assms
  by (simp add: day_number_def valid_date_def)

lemma day_number_inj:
  assumes "valid_date a" and "valid_date b" and "day_number a = day_number b"
  shows "a = b"
proof -
  obtain y m d y' m' d' where ab: "a = (y, m, d)" "b = (y', m', d')" by (cases a; cases b) auto
  have "y = y'"
    using day_number_year_less assms unfolding ab by (metis less_irrefl linorder_less_linear)
  moreover have "m = m'"
    using day_number_month_less assms unfolding ab calculation by (metis less_irrefl linorder_less_linear)
  ultimately show ?thesis using assms(3) by (simp add: ab day_number_def)
qed

lemma civil_from_days_unique:
  assumes "valid_date date" and "day_number date = n"
  shows "civil_from_days n = date"
  using day_number_inj [OF _ assms(1)] civil_from_days_valid [of n] assms(2) by simp

text \<open>
  C28: the date of a day number is right. For every day number the computed year, month and day are a valid
  date of the Gregorian calendar, namely the one and only date with that day number.
\<close>

theorem civil_from_days_correct:
  "civil_from_days n = date \<longleftrightarrow> valid_date date \<and> day_number date = n"
  using civil_from_days_valid [of n] civil_from_days_unique by blast

section \<open>The clock\<close>

lemma sdiv_pos: "(0 :: int) \<le> a \<Longrightarrow> 0 < b \<Longrightarrow> a sdiv b = a div b"
  by (cases "a = 0") (simp_all add: signed_divide_int_def)

lemma smod_pos: "(0 :: int) \<le> a \<Longrightarrow> 0 < b \<Longrightarrow> a smod b = a mod b"
  by (cases "a = 0") (simp_all add: signed_modulo_int_def)

text \<open>Floor division, which the code writes with a correction of negative remainders.\<close>

lemma smod_day:
  fixes s :: int
  shows "s smod 86400 = (if s < 0 then - ((- s) mod 86400) else s mod 86400)"
  by (cases "s = 0") (auto simp: signed_modulo_int_def)

lemma floor_day:
  fixes s :: int
  shows "(if s smod 86400 < 0 then s sdiv 86400 - 1 else s sdiv 86400) = s div 86400"
    and "(if s smod 86400 < 0 then s smod 86400 + 86400 else s smod 86400) = s mod 86400"
proof -
  have "(if s smod 86400 < 0 then s sdiv 86400 - 1 else s sdiv 86400) = s div 86400 \<and>
        (if s smod 86400 < 0 then s smod 86400 + 86400 else s smod 86400) = s mod 86400"
  proof (cases "s < 0")
    case True
    then show ?thesis by (auto simp: smod_day signed_divide_int_def zmod_zminus1_eq_if zdiv_zminus1_eq_if)
  next
    case False
    then show ?thesis by (simp add: sdiv_pos smod_pos)
  qed
  then show "(if s smod 86400 < 0 then s sdiv 86400 - 1 else s sdiv 86400) = s div 86400"
    and "(if s smod 86400 < 0 then s smod 86400 + 86400 else s smod 86400) = s mod 86400" by simp_all
qed

lemma as_i32_as_i32: "as_i32 (as_i32 (x + c) - c) = as_i32 x"
  by (simp add: as_i32_def mod_simps algebra_simps)

lemma as_i32_id: "- (2 ^ 31) \<le> x \<Longrightarrow> x < 2 ^ 31 \<Longrightarrow> as_i32 x = x"
  by (simp add: as_i32_def)

lemma format_timestamp_spec:
  assumes "- (2 ^ 31) \<le> secs div 86400" and "secs div 86400 < 2 ^ 31"
    and "valid_date (y, m, d)" and "day_number (y, m, d) = secs div 86400"
  shows "format_timestamp secs nanos =
     show_padded 4 y @ ''-'' @ show_padded 2 m @ ''-'' @ show_padded 2 d @ '' '' @
     show_padded 2 (secs mod 86400 div 3600) @ '':'' @ show_padded 2 (secs mod 3600 div 60) @ '':'' @
     show_padded 2 (secs mod 60) @ (if nanos > 0 then ''.'' @ show_padded 6 (nanos div 1000) else [])"
proof -
  have civil: "civil_from_days (secs div 86400) = (y, m, d)"
    using assms(3,4) by (rule civil_from_days_unique)
  have mods: "secs mod 86400 mod 3600 = secs mod 3600" "secs mod 86400 mod 60 = secs mod 60"
    by (simp_all add: mod_mod_cancel)
  have date: "as_i32 (as_i32 (secs div 86400 + 719163) - 719163) = secs div 86400"
    unfolding as_i32_as_i32 using assms(1,2) by (rule as_i32_id)
  show ?thesis
    unfolding format_timestamp_def Let_def floor_day date
    by (simp add: format_date_from_days_def civil sdiv_pos smod_pos mods)
qed

end
