(* ===== verification/MySqlSink.thy ===== *)
theory MySqlSink
  imports Calendar CdcArrow PluginOptions
begin

text \<open>
  The MySQL sink, \<open>src/src/sinks/mysql/sink.rs\<close>: column types, the values bound to a statement, the
  statements themselves and the processing of a batch. The server and what other crates print are
  parameters.
\<close>

section \<open>Column types\<close>

definition COLUMN_NAME_OP :: string where
  "COLUMN_NAME_OP = ''_gs_op''"

fun pk_needs_key_length :: "DataType \<Rightarrow> bool" where
  "pk_needs_key_length DUtf8 = True"
| "pk_needs_key_length DLargeUtf8 = True"
| "pk_needs_key_length DUtf8View = True"
| "pk_needs_key_length DBinary = True"
| "pk_needs_key_length DLargeBinary = True"
| "pk_needs_key_length _ = False"

text \<open>\<open>as u8\<close> of a scale; precision and scale are limited to what the server accepts.\<close>

definition decimal_args :: "nat \<Rightarrow> int \<Rightarrow> nat \<times> nat" where
  "decimal_args p s = (let p' = min p 65 in (p', min (min (nat (s mod 2 ^ 8)) 30) p'))"

definition decimal_type :: "nat \<Rightarrow> int \<Rightarrow> string" where
  "decimal_type p s = (let (p', s') = decimal_args p s in ''DECIMAL('' @ show_nat p' @ '', '' @ show_nat s' @ '')'')"

fun arrow_to_mysql_type :: "DataType \<Rightarrow> string" where
  "arrow_to_mysql_type DBoolean = ''BOOLEAN''"
| "arrow_to_mysql_type DInt8 = ''TINYINT''"
| "arrow_to_mysql_type DInt16 = ''SMALLINT''"
| "arrow_to_mysql_type DInt32 = ''INT''"
| "arrow_to_mysql_type DInt64 = ''BIGINT''"
| "arrow_to_mysql_type DUInt8 = ''TINYINT UNSIGNED''"
| "arrow_to_mysql_type DUInt16 = ''SMALLINT UNSIGNED''"
| "arrow_to_mysql_type DUInt32 = ''INT UNSIGNED''"
| "arrow_to_mysql_type DUInt64 = ''BIGINT UNSIGNED''"
| "arrow_to_mysql_type DFloat16 = ''FLOAT''"
| "arrow_to_mysql_type DFloat32 = ''FLOAT''"
| "arrow_to_mysql_type DFloat64 = ''DOUBLE''"
| "arrow_to_mysql_type DUtf8 = ''TEXT''"
| "arrow_to_mysql_type DLargeUtf8 = ''TEXT''"
| "arrow_to_mysql_type DUtf8View = ''TEXT''"
| "arrow_to_mysql_type DBinary = ''LONGBLOB''"
| "arrow_to_mysql_type DLargeBinary = ''LONGBLOB''"
| "arrow_to_mysql_type (DFixedSizeBinary n) = ''LONGBLOB''"
| "arrow_to_mysql_type DDate32 = ''DATE''"
| "arrow_to_mysql_type DDate64 = ''DATE''"
| "arrow_to_mysql_type (DTimestamp u tz) = ''DATETIME(6)''"
| "arrow_to_mysql_type (DTime32 u) = ''TIME(6)''"
| "arrow_to_mysql_type (DTime64 u) = ''TIME(6)''"
| "arrow_to_mysql_type (DDecimal128 p s) = decimal_type p s"
| "arrow_to_mysql_type (DDecimal256 p s) = decimal_type p s"
| "arrow_to_mysql_type (DStruct fs) = ''JSON''"
| "arrow_to_mysql_type (DList f) = ''JSON''"
| "arrow_to_mysql_type (DLargeList f) = ''JSON''"
| "arrow_to_mysql_type (DFixedSizeList f n) = ''JSON''"
| "arrow_to_mysql_type (DMap f keys_sorted) = ''JSON''"
| "arrow_to_mysql_type _ = ''TEXT''"

section \<open>Values\<close>

text \<open>
  A non-null value of a column, as its array holds it: integers of every width, the days of a \<open>Date32\<close>, the
  milliseconds of a \<open>Date64\<close>, the ticks of a timestamp and the unscaled integer of a decimal are numbers.
\<close>

datatype 'x cell_value = VBool bool | VNum int | VFloat 'x | VText string | VBytes string | VNested

text \<open>Seconds and nanoseconds of a timestamp; the nanoseconds are converted to \<open>u32\<close>.\<close>

fun extract_timestamp :: "int \<Rightarrow> TimeUnit \<Rightarrow> int \<times> int" where
  "extract_timestamp v Second = (v, 0)"
| "extract_timestamp v Millisecond = (v sdiv 1000, as_u32 ((v smod 1000) * 1000000))"
| "extract_timestamp v Microsecond = (v sdiv 1000000, as_u32 ((v smod 1000000) * 1000))"
| "extract_timestamp v Nanosecond = (v sdiv 1000000000, as_u32 (v smod 1000000000))"

definition format_decimal :: "string \<Rightarrow> nat \<Rightarrow> string" where
  "format_decimal raw scale =
     (if scale = 0 then raw
      else
        (case split_once CHR ''.'' raw of
           Some (whole, dec_part) \<Rightarrow>
             if length dec_part \<ge> scale then whole @ ''.'' @ take scale dec_part
             else raw @ replicate (scale - length dec_part) CHR ''0''
         | None \<Rightarrow> raw @ ''.'' @ replicate scale CHR ''0''))"

text \<open>\<open>as usize\<close> of a scale.\<close>

definition scale_usize :: "int \<Rightarrow> nat" where
  "scale_usize s = nat (s mod 2 ^ 64)"

text \<open>What the array's debug printing and the printing of a float give.\<close>

record 'x mysql_foreign =
  debug_value :: "DataType \<Rightarrow> 'x cell_value \<Rightarrow> string"
  print_float :: "'x \<Rightarrow> string"

definition extract_string_value :: "'x mysql_foreign \<Rightarrow> DataType \<Rightarrow> 'x cell_value \<Rightarrow> string" where
  "extract_string_value F dt v =
     (case (dt, v) of
        (DUtf8, VText s) \<Rightarrow> s
      | (DLargeUtf8, VText s) \<Rightarrow> s
      | (DUtf8View, VText s) \<Rightarrow> s
      | (DInt64, VNum n) \<Rightarrow> show_int n
      | (DFloat64, VFloat x) \<Rightarrow> print_float F x
      | _ \<Rightarrow> debug_value F dt v)"

datatype 'x bound = BoundBool bool | BoundInt nat int | BoundFloat 'x | BoundText string | BoundBytes string | BoundNull string

fun bind_typed_null :: "DataType \<Rightarrow> 'x bound" where
  "bind_typed_null DBoolean = BoundNull ''bool''"
| "bind_typed_null DInt8 = BoundNull ''i8''"
| "bind_typed_null DInt16 = BoundNull ''i16''"
| "bind_typed_null DInt32 = BoundNull ''i32''"
| "bind_typed_null DInt64 = BoundNull ''i64''"
| "bind_typed_null DUInt8 = BoundNull ''i16''"
| "bind_typed_null DUInt16 = BoundNull ''i32''"
| "bind_typed_null DUInt32 = BoundNull ''i64''"
| "bind_typed_null DFloat32 = BoundNull ''f32''"
| "bind_typed_null DFloat64 = BoundNull ''f64''"
| "bind_typed_null DBinary = BoundNull ''bytes''"
| "bind_typed_null DLargeBinary = BoundNull ''bytes''"
| "bind_typed_null (DFixedSizeBinary n) = BoundNull ''bytes''"
| "bind_typed_null _ = BoundNull ''string''"

definition bind_number :: "DataType \<Rightarrow> int \<Rightarrow> 'x bound option" where
  "bind_number dt n =
     (case dt of
        DInt8 \<Rightarrow> Some (BoundInt 8 n)
      | DInt16 \<Rightarrow> Some (BoundInt 16 n)
      | DInt32 \<Rightarrow> Some (BoundInt 32 n)
      | DInt64 \<Rightarrow> Some (BoundInt 64 n)
      | DUInt8 \<Rightarrow> Some (BoundInt 16 n)
      | DUInt16 \<Rightarrow> Some (BoundInt 32 n)
      | DUInt32 \<Rightarrow> Some (BoundInt 64 n)
      | DUInt64 \<Rightarrow> Some (BoundText (show_int n))
      | DDate32 \<Rightarrow> Some (BoundText (format_date_from_days n))
      | DDate64 \<Rightarrow> Some (BoundText (format_timestamp (n sdiv 1000) 0))
      | DTimestamp u tz \<Rightarrow> (let (secs, nanos) = extract_timestamp n u in Some (BoundText (format_timestamp secs nanos)))
      | DDecimal128 p s \<Rightarrow> Some (BoundText (format_decimal (show_int n) (scale_usize s)))
      | DDecimal256 p s \<Rightarrow> Some (BoundText (format_decimal (show_int n) (scale_usize s)))
      | _ \<Rightarrow> None)"

definition bind_arrow_value :: "'x mysql_foreign \<Rightarrow> DataType \<Rightarrow> 'x cell_value option \<Rightarrow> 'x bound" where
  "bind_arrow_value F dt v =
     (case v of
        None \<Rightarrow> bind_typed_null dt
      | Some c \<Rightarrow>
          (case (dt, c) of
             (DBoolean, VBool b) \<Rightarrow> BoundBool b
           | (DFloat32, VFloat x) \<Rightarrow> BoundFloat x
           | (DFloat64, VFloat x) \<Rightarrow> BoundFloat x
           | (DUtf8, VText s) \<Rightarrow> BoundText s
           | (DLargeUtf8, VText s) \<Rightarrow> BoundText s
           | (DUtf8View, VText s) \<Rightarrow> BoundText s
           | (DBinary, VBytes s) \<Rightarrow> BoundBytes s
           | (DLargeBinary, VBytes s) \<Rightarrow> BoundBytes s
           | (DFixedSizeBinary n, VBytes s) \<Rightarrow> BoundBytes s
           | (_, VNum n) \<Rightarrow> (case bind_number dt n of Some b \<Rightarrow> b | None \<Rightarrow> BoundText (extract_string_value F dt c))
           | _ \<Rightarrow> BoundText (extract_string_value F dt c)))"

section \<open>Statements\<close>

definition backticked :: "string \<Rightarrow> string" where
  "backticked name = [CHR 0x60] @ name @ [CHR 0x60]"

definition table_name :: "string \<Rightarrow> string \<Rightarrow> string" where
  "table_name database table = backticked database @ ''.'' @ backticked table"

definition column_definition :: "Field \<Rightarrow> string" where
  "column_definition f =
     backticked (field_name f) @ '' '' @ arrow_to_mysql_type (data_type f) @ (if nullable f then '''' else '' NOT NULL'')"

definition sink_fields :: "Schema \<Rightarrow> Field list" where
  "sink_fields schema = filter (\<lambda>f. field_name f \<noteq> COLUMN_NAME_OP) schema"

definition sink_column_names :: "Schema \<Rightarrow> string list" where
  "sink_column_names schema = map field_name (sink_fields schema)"

definition sink_column_indices :: "Schema \<Rightarrow> nat list" where
  "sink_column_indices schema = filter (\<lambda>i. field_name (schema ! i) \<noteq> COLUMN_NAME_OP) [0..<length schema]"

definition create_table_sql :: "string \<Rightarrow> string \<Rightarrow> Schema \<Rightarrow> string list \<Rightarrow> string" where
  "create_table_sql database table schema pk =
     ''CREATE TABLE IF NOT EXISTS '' @ table_name database table @ '' ('' @
     join_with '', '' (map column_definition (sink_fields schema)) @
     (if pk = [] then ''''
      else '', PRIMARY KEY ('' @
        join_with '', '' (map (\<lambda>c. backticked c @
          (case index_of schema c of
             Some i \<Rightarrow> if pk_needs_key_length (data_type (schema ! i)) then ''(255)'' else ''''
           | None \<Rightarrow> '''')) pk) @ '')'') @
     '')''"

definition row_placeholders :: "nat \<Rightarrow> string" where
  "row_placeholders n = ''('' @ join_with '', '' (replicate n ''?'') @ '')''"

definition insert_sql :: "string \<Rightarrow> string \<Rightarrow> string \<Rightarrow> string list \<Rightarrow> nat \<Rightarrow> string" where
  "insert_sql verb database table columns n =
     verb @ '' INTO '' @ table_name database table @ '' ('' @ join_with '', '' (map backticked columns) @ '') VALUES '' @
     join_with '', '' (replicate n (row_placeholders (length columns)))"

definition update_clause :: "string list \<Rightarrow> string list \<Rightarrow> string" where
  "update_clause columns pk =
     (let cols = filter (\<lambda>c. c \<notin> set pk) columns in
      if cols = [] then ''''
      else '' ON DUPLICATE KEY UPDATE '' @
        join_with '', '' (map (\<lambda>c. backticked c @ '' = VALUES('' @ backticked c @ '')'') cols))"

definition upsert_sql :: "string \<Rightarrow> string \<Rightarrow> string list \<Rightarrow> string list \<Rightarrow> string \<Rightarrow> nat \<Rightarrow> string" where
  "upsert_sql database table columns pk on_conflict n =
     (if pk = [] then insert_sql ''INSERT'' database table columns n
      else if on_conflict = ''nothing'' then insert_sql ''INSERT IGNORE'' database table columns n
      else insert_sql ''INSERT'' database table columns n @ update_clause columns pk)"

definition delete_sql :: "string \<Rightarrow> string \<Rightarrow> string list \<Rightarrow> nat \<Rightarrow> string" where
  "delete_sql database table pk n =
     ''DELETE FROM '' @ table_name database table @ '' WHERE '' @
     join_with '' OR '' (replicate n (''('' @ join_with '' AND '' (map (\<lambda>c. backticked c @ '' = ?'') pk) @ '')''))"

section \<open>The sink\<close>

text \<open>
  A batch: the type of each column and its value at each row, and the text of the op column at each row, which
  is read only when that column is a string array.
\<close>

record 'x mysql_batch =
  mb_num_rows :: nat
  mb_type :: "nat \<Rightarrow> DataType"
  mb_cell :: "nat \<Rightarrow> nat \<Rightarrow> 'x cell_value option"
  mb_op :: "nat \<Rightarrow> string"

record 'x statement =
  st_sql :: string
  st_binds :: "'x bound list"

record MySqlSink =
  ms_opts :: PluginOptions
  ms_schema :: Schema
  ms_pool :: bool
  ms_running :: bool

definition mysql_sink_new :: "Schema \<Rightarrow> (string, string) hash_map \<Rightarrow> MySqlSink" where
  "mysql_sink_new schema options =
     \<lparr>ms_opts = plugin_options_new options ''mysql_sink'' ''STREAMLING__PLUGIN__MYSQL_SINK'', ms_schema = schema,
      ms_pool = False, ms_running = True\<rparr>"

definition primary_key_columns :: "environment \<Rightarrow> MySqlSink \<Rightarrow> string list" where
  "primary_key_columns env s =
     (case get_option env (ms_opts s) ''primary_key'' of
        Inl _ \<Rightarrow> []
      | Inr pk \<Rightarrow> filter (\<lambda>c. c \<noteq> []) (map trim (split_char CHR '','' pk)))"

definition pool :: "MySqlSink \<Rightarrow> PluginError + unit" where
  "pool s = (if ms_pool s then Inr () else Inl (Internal ''MySQL connection pool not initialized''))"

definition bind_rows :: "'x mysql_foreign \<Rightarrow> nat list \<Rightarrow> nat list \<Rightarrow> 'x mysql_batch \<Rightarrow> 'x bound list" where
  "bind_rows F columns rows b =
     concat (map (\<lambda>row. map (\<lambda>col. bind_arrow_value F (mb_type b col) (mb_cell b col row)) columns) rows)"

text \<open>
  The outcome of a call of the sink, with the statements that it sent to the server in order, a failed one
  last; \<open>exec\<close> is the server's answer to a statement, \<open>None\<close> when it succeeds.
\<close>

type_synonym 'x sent = "(PluginError + unit) \<times> 'x statement list"

definition send :: "('x statement \<Rightarrow> string option) \<Rightarrow> string \<Rightarrow> 'x statement \<Rightarrow> 'x sent" where
  "send exec what st =
     (case exec st of None \<Rightarrow> (Inr (), [st]) | Some e \<Rightarrow> (Inl (Internal (''failed to execute '' @ what @ '': '' @ e)), [st]))"

text \<open>The pool, the table and the database, in the order in which they are looked up.\<close>

definition target :: "environment \<Rightarrow> MySqlSink \<Rightarrow> PluginError + string \<times> string" where
  "target env s =
     res_bind (pool s) (\<lambda>_.
     res_bind (get_option env (ms_opts s) ''table'') (\<lambda>table.
     res_bind (get_option env (ms_opts s) ''database'') (\<lambda>database. Inr (table, database))))"

definition upsert_statement ::
  "'x mysql_foreign \<Rightarrow> environment \<Rightarrow> MySqlSink \<Rightarrow> 'x mysql_batch \<Rightarrow> string \<Rightarrow> string \<Rightarrow> nat list \<Rightarrow> 'x statement" where
  "upsert_statement F env s b table database rows =
     \<lparr>st_sql = upsert_sql database table (sink_column_names (ms_schema s)) (primary_key_columns env s)
                 (get_or env (ms_opts s) ''on_conflict'' ''update'') (length rows),
      st_binds = bind_rows F (sink_column_indices (ms_schema s)) rows b\<rparr>"

definition pk_indices :: "environment \<Rightarrow> MySqlSink \<Rightarrow> nat list" where
  "pk_indices env s = List.map_filter (index_of (ms_schema s)) (primary_key_columns env s)"

definition delete_statement ::
  "'x mysql_foreign \<Rightarrow> environment \<Rightarrow> MySqlSink \<Rightarrow> 'x mysql_batch \<Rightarrow> string \<Rightarrow> string \<Rightarrow> nat list \<Rightarrow> 'x statement" where
  "delete_statement F env s b table database rows =
     \<lparr>st_sql = delete_sql database table (primary_key_columns env s) (length rows),
      st_binds = bind_rows F (pk_indices env s) rows b\<rparr>"

definition execute_upsert ::
  "'x mysql_foreign \<Rightarrow> environment \<Rightarrow> ('x statement \<Rightarrow> string option) \<Rightarrow> MySqlSink \<Rightarrow> 'x mysql_batch \<Rightarrow> nat list \<Rightarrow> 'x sent" where
  "execute_upsert F env exec s b rows =
     (if rows = [] then (Inr (), [])
      else
        (case target env s of
           Inl e \<Rightarrow> (Inl e, [])
         | Inr (table, database) \<Rightarrow>
             send exec (''INSERT into '' @ table_name database table) (upsert_statement F env s b table database rows)))"

definition execute_delete ::
  "'x mysql_foreign \<Rightarrow> environment \<Rightarrow> ('x statement \<Rightarrow> string option) \<Rightarrow> MySqlSink \<Rightarrow> 'x mysql_batch \<Rightarrow> nat list \<Rightarrow> 'x sent" where
  "execute_delete F env exec s b rows =
     (if rows = [] \<or> primary_key_columns env s = [] then (Inr (), [])
      else
        (case target env s of
           Inl e \<Rightarrow> (Inl e, [])
         | Inr (table, database) \<Rightarrow>
             if pk_indices env s = [] then (Inr (), [])
             else send exec (''DELETE from '' @ table_name database table) (delete_statement F env s b table database rows)))"

text \<open>A loop over chunks that stops at the first error.\<close>

fun for_chunks :: "('c \<Rightarrow> 'x sent) \<Rightarrow> 'c list \<Rightarrow> 'x sent" where
  "for_chunks f [] = (Inr (), [])"
| "for_chunks f (c # cs) =
     (case f c of
        (Inl e, sts) \<Rightarrow> (Inl e, sts)
      | (Inr _, sts) \<Rightarrow> (case for_chunks f cs of (res, sts') \<Rightarrow> (res, sts @ sts')))"

text \<open>\<open>slice::chunks\<close>, which panics for a size of zero.\<close>

function chunk_list :: "nat \<Rightarrow> 'a list \<Rightarrow> 'a list list" where
  "chunk_list n xs = (if xs = [] \<or> n = 0 then [] else take n xs # chunk_list n (drop n xs))"
  by pat_completeness auto

termination chunk_list
  by (relation "measure (\<lambda>(n, xs). length xs)") auto

declare chunk_list.simps [simp del]

definition split_rows :: "Schema \<Rightarrow> 'x mysql_batch \<Rightarrow> nat list \<times> nat list" where
  "split_rows schema b =
     (let rows = [0..<mb_num_rows b] in
      case index_of schema COLUMN_NAME_OP of
        Some op_idx \<Rightarrow>
          if mb_type b op_idx = DUtf8 then (filter (\<lambda>r. mb_op b r \<noteq> ''d'') rows, filter (\<lambda>r. mb_op b r = ''d'') rows)
          else (rows, [])
      | None \<Rightarrow> (rows, []))"

definition chunk_size :: "environment \<Rightarrow> MySqlSink \<Rightarrow> nat" where
  "chunk_size env s =
     (case parse_unsigned u64_max (get_or env (ms_opts s) ''batch_size'' ''1000'') of Inl _ \<Rightarrow> 1000 | Inr n \<Rightarrow> n)"

text \<open>\<open>None\<close> is the panic of a chunk size of zero. The upserts of a batch run before its deletes.\<close>

definition mysql_process_batch ::
  "'x mysql_foreign \<Rightarrow> environment \<Rightarrow> ('x statement \<Rightarrow> string option) \<Rightarrow> MySqlSink \<Rightarrow> 'x mysql_batch \<Rightarrow> 'x sent option" where
  "mysql_process_batch F env exec s b =
     (if mb_num_rows b = 0 then Some (Inr (), [])
      else
        (let (insert_indices, delete_indices) = split_rows (ms_schema s) b; size = chunk_size env s in
         if size = 0 then None
         else
           Some (case for_chunks (execute_upsert F env exec s b) (chunk_list size insert_indices) of
                   (Inl e, sts) \<Rightarrow> (Inl e, sts)
                 | (Inr _, sts) \<Rightarrow>
                     (case for_chunks (execute_delete F env exec s b) (chunk_list size delete_indices) of
                        (res, sts') \<Rightarrow> (res, sts @ sts')))))"

definition ssl_mode :: "string \<Rightarrow> string" where
  "ssl_mode sslmode =
     (if sslmode = ''required'' then ''Required''
      else if sslmode = ''verify_ca'' \<or> sslmode = ''verify-ca'' then ''VerifyCa''
      else if sslmode = ''verify_identity'' \<or> sslmode = ''verify-identity'' then ''VerifyIdentity''
      else if sslmode = ''preferred'' then ''Preferred'' else ''Disabled'')"

record connect_options =
  co_host :: string
  co_port :: nat
  co_user :: string
  co_password :: string
  co_database :: string
  co_ssl_mode :: string

text \<open>\<open>found\<close> is the answer to the query of the catalog: whether it returned a row.\<close>

definition table_exists :: "environment \<Rightarrow> (string \<Rightarrow> string \<Rightarrow> string + bool) \<Rightarrow> MySqlSink \<Rightarrow> PluginError + bool" where
  "table_exists env found s =
     res_bind (get_option env (ms_opts s) ''table'') (\<lambda>table.
     res_bind (get_option env (ms_opts s) ''database'') (\<lambda>database.
     map_err (\<lambda>e. Internal (''failed to check table existence: '' @ e)) (found database table)))"

definition create_table_if_needed ::
  "environment \<Rightarrow> (string \<Rightarrow> string \<Rightarrow> string + bool) \<Rightarrow> (string \<Rightarrow> string option) \<Rightarrow> MySqlSink \<Rightarrow> PluginError + unit" where
  "create_table_if_needed env found exec s =
     res_bind (table_exists env found s) (\<lambda>there.
     if there then Inr ()
     else
       res_bind (get_option env (ms_opts s) ''table'') (\<lambda>table.
       res_bind (get_option env (ms_opts s) ''database'') (\<lambda>database.
       (case exec (create_table_sql database table (ms_schema s) (primary_key_columns env s)) of
          None \<Rightarrow> Inr ()
        | Some e \<Rightarrow> Inl (Internal (''failed to create table '' @ table_name database table @ '': '' @ e))))))"

text \<open>\<open>connect\<close>, \<open>found\<close> and \<open>exec\<close> are the server's answers.\<close>

definition mysql_initialize ::
  "environment \<Rightarrow> (connect_options \<Rightarrow> string option) \<Rightarrow> (string \<Rightarrow> string \<Rightarrow> string + bool) \<Rightarrow> (string \<Rightarrow> string option) \<Rightarrow> MySqlSink
     \<Rightarrow> (PluginError + unit) \<times> MySqlSink" where
  "mysql_initialize env connect found exec s =
     (if ms_pool s then (Inr (), s)
      else
        (let o' = ms_opts s in
         case
           res_bind (get_option env o' ''host'') (\<lambda>host.
           res_bind (map_err (\<lambda>_. Internal ''invalid port value'') (parse_unsigned u16_max (get_or env o' ''port'' ''3306''))) (\<lambda>port.
           res_bind (get_option env o' ''user'') (\<lambda>user.
           res_bind (get_option env o' ''password'') (\<lambda>password.
           res_bind (get_option env o' ''database'') (\<lambda>database.
           (case connect \<lparr>co_host = host, co_port = port, co_user = user, co_password = password,
                         co_database = database, co_ssl_mode = ssl_mode (get_or env o' ''sslmode'' ''preferred'')\<rparr> of
              Some e \<Rightarrow> Inl (Internal (''failed to connect to MySQL: '' @ e))
            | None \<Rightarrow> create_table_if_needed env found exec s))))))
         of
           Inl e \<Rightarrow> (Inl e, s)
         | Inr _ \<Rightarrow> (Inr (), s\<lparr>ms_pool := True\<rparr>)))"

definition mysql_terminate :: "MySqlSink \<Rightarrow> MySqlSink" where
  "mysql_terminate s = s\<lparr>ms_running := False\<rparr>"

section \<open>Timestamps\<close>

fun ticks :: "TimeUnit \<Rightarrow> int" where
  "ticks Second = 1"
| "ticks Millisecond = 1000"
| "ticks Microsecond = 1000000"
| "ticks Nanosecond = 1000000000"

lemma whole_sdiv: "(b :: int) > 0 \<Longrightarrow> 0 \<le> v \<or> b dvd v \<Longrightarrow> v sdiv b = v div b"
  by (cases "v = 0"; cases "0 \<le> v") (auto simp: sdiv_pos signed_divide_int_def zdiv_zminus1_eq_if)

lemma whole_smod: "(b :: int) > 0 \<Longrightarrow> 0 \<le> v \<or> b dvd v \<Longrightarrow> v smod b = v mod b"
  by (cases "v = 0"; cases "0 \<le> v") (auto simp: smod_pos signed_modulo_int_def)

lemma extract_timestamp_floor:
  assumes "0 \<le> v \<or> ticks u dvd v"
  shows "extract_timestamp v u = (v div ticks u, (v mod ticks u) * (1000000000 div ticks u))"
proof -
  have small: "as_u32 x = x" if "0 \<le> x" "x < 1000000000" for x
    using that by (simp add: as_u32_def)
  have "0 \<le> v mod ticks u" "v mod ticks u < ticks u" by (cases u; simp)+
  with assms show ?thesis
    by (cases u) (simp_all add: whole_sdiv whole_smod small)
qed

text \<open>
  C29: a timestamp is written as the instant it is. For a value that is not negative, or is a whole number of
  seconds, and whose day fits 32 bits, the text bound to the statement is the civil date of that day, the time
  of day, and the microseconds when there is a fraction.
\<close>

theorem mysql_timestamp_text:
  assumes "0 \<le> v \<or> ticks u dvd v"
    and "- (2 ^ 31) \<le> v div ticks u div 86400" and "v div ticks u div 86400 < 2 ^ 31"
    and "valid_date (y, m, d)" and "day_number (y, m, d) = v div ticks u div 86400"
  shows "bind_arrow_value F (DTimestamp u tz) (Some (VNum v)) =
     BoundText (show_padded 4 y @ ''-'' @ show_padded 2 m @ ''-'' @ show_padded 2 d @ '' '' @
       show_padded 2 (v div ticks u mod 86400 div 3600) @ '':'' @ show_padded 2 (v div ticks u mod 3600 div 60) @ '':'' @
       show_padded 2 (v div ticks u mod 60) @
       (if ticks u dvd v then [] else ''.'' @ show_padded 6 (v mod ticks u * 1000000 div ticks u)))"
proof -
  have "0 < ticks u" by (cases u) simp_all
  then have nonneg: "0 \<le> v mod ticks u" by simp
  have micros: "v mod ticks u * (1000000000 div ticks u) div 1000 = v mod ticks u * 1000000 div ticks u"
    by (cases u) simp_all
  have frac: "0 < v mod ticks u * (1000000000 div ticks u) \<longleftrightarrow> \<not> ticks u dvd v"
    using nonneg by (cases u) (auto simp: dvd_eq_mod_eq_0)
  show ?thesis
    using format_timestamp_spec [OF assms(2-5)]
    by (simp add: bind_arrow_value_def bind_number_def extract_timestamp_floor [OF assms(1)] micros frac)
qed

theorem mysql_timestamp_text_witness:
  "bind_arrow_value \<lparr>debug_value = (\<lambda>_ _. []), print_float = (\<lambda>_ :: unit. [])\<rparr> (DTimestamp Millisecond None) (Some (VNum 1709210096789)) = BoundText ''2024-02-29 12:34:56.789000''"
proof -
  have "bind_arrow_value \<lparr>debug_value = (\<lambda>_ _. []), print_float = (\<lambda>_ :: unit. [])\<rparr> (DTimestamp Millisecond None) (Some (VNum 1709210096789)) =
     BoundText (show_padded 4 2024 @ ''-'' @ show_padded 2 2 @ ''-'' @ show_padded 2 29 @ '' '' @
       show_padded 2 12 @ '':'' @ show_padded 2 34 @ '':'' @ show_padded 2 56 @ ''.'' @ show_padded 6 789000)"
    using mysql_timestamp_text [of 1709210096789 Millisecond 2024 2 29 _ None]
    by (simp add: valid_date_def month_length_def leap_def day_number_def days_before_year_def days_before_month_def upto_rec1)
  also have "show_padded 4 2024 @ ''-'' @ show_padded 2 2 @ ''-'' @ show_padded 2 29 @ '' '' @
       show_padded 2 12 @ '':'' @ show_padded 2 34 @ '':'' @ show_padded 2 56 @ ''.'' @ show_padded 6 789000 =
     ''2024-02-29 12:34:56.789000''"
    by (simp add: show_padded_def show_nat.simps char_of_def bit_0)
  finally show ?thesis .
qed

text \<open>
  An instant before 1970 with a fraction of a second is not: the remainder is negative and its conversion to
  \<open>u32\<close> wraps, so one millisecond before the epoch is written after it, with seven digits of microseconds.
\<close>

lemma negative_fraction_wraps:
  "(bind_number (DTimestamp Millisecond None) (- 1) :: unit bound option) = Some (BoundText ''1970-01-01 00:00:00.4293967'')"
proof -
  have "extract_timestamp (- 1) Millisecond = (0, 4293967296)"
    by (simp add: signed_divide_int_def signed_modulo_int_def as_u32_def)
  moreover have "format_timestamp 0 4293967296 = show_padded 4 1970 @ ''-'' @ show_padded 2 1 @ ''-'' @ show_padded 2 1 @ '' '' @
     show_padded 2 0 @ '':'' @ show_padded 2 0 @ '':'' @ show_padded 2 0 @ ''.'' @ show_padded 6 4293967"
    by (subst format_timestamp_spec [of 0 1970 1 1])
       (simp_all add: valid_date_def month_length_def day_number_def days_before_month_def)
  moreover have "show_padded 4 1970 @ ''-'' @ show_padded 2 1 @ ''-'' @ show_padded 2 1 @ '' '' @
     show_padded 2 0 @ '':'' @ show_padded 2 0 @ '':'' @ show_padded 2 0 @ ''.'' @ show_padded 6 4293967 = ''1970-01-01 00:00:00.4293967''"
    by (simp add: show_padded_def show_nat.simps char_of_def bit_0)
  ultimately show ?thesis by (simp add: bind_number_def)
qed

text \<open>A decimal is written as its unscaled integer with zeros after the point: 12.34 becomes 1234.00.\<close>

lemma decimal_unscaled: "(bind_number (DDecimal128 10 2) 1234 :: unit bound option) = Some (BoundText ''1234.00'')"
  by code_simp

text \<open>The precision and scale of a column are within what the server accepts.\<close>

lemma decimal_args_bounds: "decimal_args p s = (p', s') \<Longrightarrow> p' \<le> 65 \<and> s' \<le> 30 \<and> s' \<le> p'"
  by (auto simp: decimal_args_def Let_def min_def)

section \<open>Placeholders and values\<close>

text \<open>The placeholders of a statement: question marks outside quoted identifiers.\<close>

fun placeholders :: "bool \<Rightarrow> string \<Rightarrow> nat \<times> bool" where
  "placeholders q [] = (0, q)"
| "placeholders q (c # cs) =
     (if c = CHR 0x60 then placeholders (\<not> q) cs
      else (case placeholders q cs of (n, q') \<Rightarrow> (if c = CHR ''?'' \<and> \<not> q then Suc n else n, q')))"

definition holds_marks :: "nat \<Rightarrow> string \<Rightarrow> bool" where
  "holds_marks n s \<longleftrightarrow> placeholders False s = (n, False)"

lemma placeholders_append:
  "placeholders q (a @ b) = (case placeholders q a of (m, q') \<Rightarrow> case placeholders q' b of (n, q'') \<Rightarrow> (m + n, q''))"
  by (induction q a rule: placeholders.induct) (auto split: prod.splits)

lemma marks_append: "holds_marks m a \<Longrightarrow> holds_marks n b \<Longrightarrow> holds_marks (m + n) (a @ b)"
  by (simp add: holds_marks_def placeholders_append)

lemma placeholders_quoted: "CHR 0x60 \<notin> set name \<Longrightarrow> placeholders True name = (0, True)"
  by (induction name) auto

lemma marks_backticked: "CHR 0x60 \<notin> set name \<Longrightarrow> holds_marks 0 (backticked name)"
  by (simp add: holds_marks_def backticked_def placeholders_append placeholders_quoted)

lemma marks_join:
  assumes "holds_marks 0 sep" and "\<And>p. p \<in> set ps \<Longrightarrow> holds_marks n p"
  shows "holds_marks (length ps * n) (join_with sep ps)"
  using assms
proof (induction sep ps rule: join_with.induct)
  case (3 sep x y xs)
  then have "holds_marks (n + (0 + length (y # xs) * n)) (x @ sep @ join_with sep (y # xs))"
    by (intro marks_append) auto
  then show ?case by (simp add: algebra_simps)
qed (simp_all add: holds_marks_def)

lemma marks_replicate: "holds_marks 0 sep \<Longrightarrow> holds_marks n p \<Longrightarrow> holds_marks (k * n) (join_with sep (replicate k p))"
  using marks_join [of sep "replicate k p" n] by simp

lemma marks_map: "holds_marks 0 sep \<Longrightarrow> (\<And>x. x \<in> set xs \<Longrightarrow> holds_marks n (f x)) \<Longrightarrow> holds_marks (length xs * n) (join_with sep (map f xs))"
  using marks_join [of sep "map f xs" n] by auto

lemma marks_literals:
  "holds_marks 0 '', ''" "holds_marks 0 '' OR ''" "holds_marks 0 '' AND ''" "holds_marks 0 ''.''" "holds_marks 0 '' ('' "
  "holds_marks 0 '') VALUES ''" "holds_marks 0 ''INSERT INTO ''" "holds_marks 0 ''INSERT IGNORE INTO ''" "holds_marks 0 ''('' "
  "holds_marks 0 '')''" "holds_marks 1 ''?''" "holds_marks 1 '' = ?''" "holds_marks 0 '' = VALUES(''" "holds_marks 0 []"
  "holds_marks 0 '' ON DUPLICATE KEY UPDATE ''" "holds_marks 0 ''DELETE FROM ''" "holds_marks 0 '' WHERE ''"
  by (simp_all add: holds_marks_def)

text \<open>Identifiers that hold no backtick.\<close>

definition plain :: "string \<Rightarrow> bool" where
  "plain name \<longleftrightarrow> CHR 0x60 \<notin> set name"

lemma marks_table: "plain database \<Longrightarrow> plain table \<Longrightarrow> holds_marks 0 (table_name database table)"
  unfolding table_name_def plain_def
  by (rule marks_append [of 0 _ 0, simplified] marks_backticked marks_literals | assumption)+

lemma marks_row: "holds_marks n (row_placeholders n)"
  unfolding row_placeholders_def
  using marks_append [OF marks_literals(9) marks_append [OF marks_replicate [OF marks_literals(1,11), of n] marks_literals(10)]]
  by simp

lemma marks_insert:
  assumes "holds_marks 0 (verb @ '' INTO '')" "plain database" "plain table" "list_all plain columns"
  shows "holds_marks (n * length columns) (insert_sql verb database table columns n)"
proof -
  have cols: "holds_marks 0 (join_with '', '' (map backticked columns))"
    using marks_map [OF marks_literals(1), of columns 0 backticked] assms(4) by (auto simp: marks_backticked plain_def list_all_iff)
  show ?thesis
    unfolding insert_sql_def
    using marks_append [OF assms(1) marks_append [OF marks_table [OF assms(2,3)] marks_append [OF marks_literals(5)
          marks_append [OF cols marks_append [OF marks_literals(6) marks_replicate [OF marks_literals(1) marks_row, of n "length columns"]]]]]]
    by simp
qed

lemma marks_update: "list_all plain columns \<Longrightarrow> holds_marks 0 (update_clause columns pk)"
proof -
  assume plain: "list_all plain columns"
  let ?cols = "filter (\<lambda>c. c \<notin> set pk) columns"
  have piece: "holds_marks 0 (backticked c @ '' = VALUES('' @ backticked c @ '')'')" if "c \<in> set ?cols" for c
    using marks_append [OF marks_backticked marks_append [OF marks_literals(13) marks_append [OF marks_backticked marks_literals(10)]], of c c]
      plain that by (auto simp: plain_def list_all_iff)
  have "holds_marks 0 (join_with '', '' (map (\<lambda>c. backticked c @ '' = VALUES('' @ backticked c @ '')'') ?cols))"
    using marks_map [OF marks_literals(1), of ?cols 0] piece by simp
  from marks_append [OF marks_literals(15) this] show ?thesis
    by (simp add: update_clause_def Let_def marks_literals)
qed

lemma marks_upsert:
  assumes "plain database" "plain table" "list_all plain columns"
  shows "holds_marks (n * length columns) (upsert_sql database table columns pk on_conflict n)"
  using marks_insert [of "''INSERT''", OF _ assms] marks_insert [of "''INSERT IGNORE''", OF _ assms]
    marks_append [OF marks_insert [of "''INSERT''", OF _ assms] marks_update [OF assms(3)]]
  by (simp add: upsert_sql_def marks_literals)

lemma marks_delete:
  assumes "plain database" "plain table" "list_all plain pk"
  shows "holds_marks (n * length pk) (delete_sql database table pk n)"
proof -
  have "holds_marks 1 (backticked c @ '' = ?'')" if "c \<in> set pk" for c
    using marks_append [OF marks_backticked marks_literals(12), of c] assms(3) that by (auto simp: plain_def list_all_iff)
  from marks_map [OF marks_literals(3), of pk 1, OF this]
  have "holds_marks (length pk) (''('' @ join_with '' AND '' (map (\<lambda>c. backticked c @ '' = ?'') pk) @ '')'')"
    using marks_append [OF marks_literals(9) marks_append [OF _ marks_literals(10)]] by fastforce
  from marks_replicate [OF marks_literals(2) this, of n] show ?thesis
    unfolding delete_sql_def
    using marks_append [OF marks_literals(16) marks_append [OF marks_table [OF assms(1,2)] marks_append [OF marks_literals(17)]]]
    by fastforce
qed

lemma for_chunks_sent: "st \<in> set (snd (for_chunks f cs)) \<Longrightarrow> \<exists>c \<in> set cs. st \<in> set (snd (f c))"
  by (induction f cs rule: for_chunks.induct) (force split: prod.splits sum.splits)+

lemma for_chunks_Inr:
  "for_chunks f cs = (Inr u, sts) \<Longrightarrow> sts = concat (map (\<lambda>c. snd (f c)) cs) \<and> list_all (\<lambda>c. fst (f c) = Inr ()) cs"
  by (induction f cs arbitrary: sts rule: for_chunks.induct) (auto split: prod.splits sum.splits)

lemma send_sent: "snd (send exec what st) = [st]"
  by (simp add: send_def split: option.split)

lemma execute_upsert_sent:
  "st \<in> set (snd (execute_upsert F env exec s b rows)) \<Longrightarrow>
     \<exists>table database. target env s = Inr (table, database) \<and> st = upsert_statement F env s b table database rows"
  by (auto simp: execute_upsert_def send_sent split: if_splits sum.splits)

lemma execute_delete_sent:
  "st \<in> set (snd (execute_delete F env exec s b rows)) \<Longrightarrow>
     \<exists>table database. target env s = Inr (table, database) \<and> st = delete_statement F env s b table database rows"
  by (auto simp: execute_delete_def send_sent split: if_splits sum.splits)

text \<open>Every statement of a batch is the upsert or the delete of some of its rows.\<close>

lemma process_batch_sent:
  assumes "mysql_process_batch F env exec s b = Some (res, sts)" and "st \<in> set sts"
  shows "\<exists>table database rows. target env s = Inr (table, database) \<and>
     (st = upsert_statement F env s b table database rows \<or> st = delete_statement F env s b table database rows)"
  using assms
  by (auto simp: mysql_process_batch_def Let_def split: if_splits prod.splits sum.splits)
     (metis execute_upsert_sent execute_delete_sent for_chunks_sent snd_conv)+

lemma sink_fields_nth: "map (\<lambda>i. schema ! i) (sink_column_indices schema) = sink_fields schema"
proof -
  have "map (\<lambda>i. schema ! i) (filter (\<lambda>i. P (schema ! i)) [0..<length schema]) = filter P schema" for P
    using filter_map [of P "\<lambda>i. schema ! i" "[0..<length schema]"] map_nth [of schema] by (simp add: comp_def)
  then show ?thesis by (simp add: sink_column_indices_def sink_fields_def)
qed

lemma length_sink_column_indices: "length (sink_column_indices schema) = length (sink_column_names schema)"
  using arg_cong [OF sink_fields_nth, of length schema] by (simp add: sink_column_names_def)

lemma length_bind_rows: "length (bind_rows F columns rows b) = length rows * length columns"
  by (induction rows) (simp_all add: bind_rows_def)

lemma length_pk_indices:
  "set (primary_key_columns env s) \<subseteq> field_name ` set (ms_schema s) \<Longrightarrow> length (pk_indices env s) = length (primary_key_columns env s)"
proof -
  have "length (List.map_filter f xs) = length xs" if "\<And>x. x \<in> set xs \<Longrightarrow> \<exists>y. f x = Some y" for f :: "string \<Rightarrow> nat option" and xs
    using that by (induction xs) (auto simp: map_filter_simps split: option.splits)
  then show "length (pk_indices env s) = length (primary_key_columns env s)"
    if "set (primary_key_columns env s) \<subseteq> field_name ` set (ms_schema s)"
    using that index_of_Some unfolding pk_indices_def by blast
qed

definition plain_names :: "environment \<Rightarrow> MySqlSink \<Rightarrow> bool" where
  "plain_names env s \<longleftrightarrow>
     (case target env s of Inl _ \<Rightarrow> True | Inr (table, database) \<Rightarrow> plain table \<and> plain database) \<and>
     list_all plain (sink_column_names (ms_schema s)) \<and> list_all plain (primary_key_columns env s)"

text \<open>
  C30: every statement has a value for each of its placeholders and no more. When no identifier holds a backtick
  and every primary key column is a column of the schema, the number of values bound to any statement that the
  processing of a batch sends, whether it succeeds or not, is the number of question marks outside quoted
  identifiers, and no quoted identifier is left open.
\<close>

theorem mysql_binds_match:
  assumes "mysql_process_batch F env exec s b = Some (res, sts)" and "st \<in> set sts"
    and "plain_names env s" and "set (primary_key_columns env s) \<subseteq> field_name ` set (ms_schema s)"
  shows "placeholders False (st_sql st) = (length (st_binds st), False)"
proof -
  obtain table database rows where target: "target env s = Inr (table, database)"
    and st: "st = upsert_statement F env s b table database rows \<or> st = delete_statement F env s b table database rows"
    using process_batch_sent [OF assms(1,2)] by blast
  have plain: "plain database" "plain table" "list_all plain (sink_column_names (ms_schema s))" "list_all plain (primary_key_columns env s)"
    using assms(3) target by (simp_all add: plain_names_def)
  from st show ?thesis
  proof
    assume "st = upsert_statement F env s b table database rows"
    then show ?thesis
      using marks_upsert [OF plain(1-3)]
      by (simp add: upsert_statement_def holds_marks_def length_bind_rows length_sink_column_indices)
  next
    assume "st = delete_statement F env s b table database rows"
    then show ?thesis
      using marks_delete [OF plain(1,2,4)]
      by (simp add: delete_statement_def holds_marks_def length_bind_rows length_pk_indices [OF assms(4)])
  qed
qed

section \<open>Examples\<close>

definition sample_sink :: MySqlSink where
  "sample_sink =
     (mysql_sink_new
        [\<lparr>field_name = ''id'', data_type = DInt64, nullable = False\<rparr>, \<lparr>field_name = ''v'', data_type = DUtf8, nullable = True\<rparr>,
         \<lparr>field_name = ''_gs_op'', data_type = DUtf8, nullable = False\<rparr>]
        [(''table'', ''t''), (''database'', ''db''), (''primary_key'', ''id''), (''batch_size'', ''2'')])\<lparr>ms_pool := True\<rparr>"

definition sample_batch :: "(int \<times> string \<times> string) list \<Rightarrow> unit mysql_batch" where
  "sample_batch rows =
     \<lparr>mb_num_rows = length rows, mb_type = (\<lambda>c. data_type (ms_schema sample_sink ! c)),
      mb_cell = (\<lambda>c r. Some (if c = 0 then VNum (fst (rows ! r)) else if c = 1 then VText (fst (snd (rows ! r))) else VText (snd (snd (rows ! r))))),
      mb_op = (\<lambda>r. snd (snd (rows ! r)))\<rparr>"

definition sample_foreign :: "unit mysql_foreign" where
  "sample_foreign = \<lparr>debug_value = (\<lambda>_ _. ''?''), print_float = (\<lambda>_. ''0'')\<rparr>"

lemma sample_columns:
  "primary_key_columns (\<lambda>_. None) sample_sink = [''id'']" "pk_indices (\<lambda>_. None) sample_sink = [0]"
  "sink_column_indices (ms_schema sample_sink) = [0, 1]" "sink_column_names (ms_schema sample_sink) = [''id'', ''v'']"
  "get_or (\<lambda>_. None) (ms_opts sample_sink) ''on_conflict'' ''update'' = ''update''"
  "target (\<lambda>_. None) sample_sink = Inr (''t'', ''db'')"
  by code_simp+

definition sample_run :: "(int \<times> string \<times> string) list \<Rightarrow> unit sent option" where
  "sample_run rows = mysql_process_batch sample_foreign (\<lambda>_. None) (\<lambda>_. None) sample_sink (sample_batch rows)"

definition sample_rows :: "(int \<times> string \<times> string) list" where
  "sample_rows = [(1, ''a'', ''i''), (2, ''b'', ''i''), (1, ''c'', ''u''), (2, ''b'', ''d'')]"

lemma sample_chunk_size: "chunk_size (\<lambda>_. None) sample_sink = 2"
proof -
  have "get_or (\<lambda>_. None) (ms_opts sample_sink) ''batch_size'' ''1000'' = ''2''" by code_simp
  then show ?thesis by (simp add: chunk_size_def parse_unsigned_def is_digit_def)
qed

lemma sample_run_eq:
  "sample_run rows =
     (if mb_num_rows (sample_batch rows) = 0 then Some (Inr (), [])
      else
        (let (insert_indices, delete_indices) = split_rows (ms_schema sample_sink) (sample_batch rows) in
         Some (case for_chunks (execute_upsert sample_foreign (\<lambda>_. None) (\<lambda>_. None) sample_sink (sample_batch rows)) (chunk_list 2 insert_indices) of
                 (Inl e, sts) \<Rightarrow> (Inl e, sts)
               | (Inr _, sts) \<Rightarrow>
                   (case for_chunks (execute_delete sample_foreign (\<lambda>_. None) (\<lambda>_. None) sample_sink (sample_batch rows)) (chunk_list 2 delete_indices) of
                      (res, sts') \<Rightarrow> (res, sts @ sts')))))"
  by (simp add: sample_run_def mysql_process_batch_def sample_chunk_size)

lemma sample_run_ok: "sample_run sample_rows = Some (Inr (), snd (the (sample_run sample_rows)))"
proof -
  have "map_option fst (sample_run sample_rows) = Some (Inr ())" unfolding sample_run_eq by code_simp
  then show ?thesis by (auto simp: map_option_case split: option.splits)
qed

theorem mysql_binds_match_witness:
  "placeholders False (st_sql (hd (snd (the (sample_run sample_rows))))) =
     (length (st_binds (hd (snd (the (sample_run sample_rows))))), False)"
proof (rule mysql_binds_match [OF sample_run_ok [unfolded sample_run_def [of sample_rows]], folded sample_run_def])
  show "hd (snd (the (sample_run sample_rows))) \<in> set (snd (the (sample_run sample_rows)))"
    unfolding sample_run_eq by code_simp
  show "plain_names (\<lambda>_. None) sample_sink" "set (primary_key_columns (\<lambda>_. None) sample_sink) \<subseteq> field_name ` set (ms_schema sample_sink)"
    by code_simp+
qed

text \<open>
  The restriction on keys is needed: a row that is deleted and then written again in the same batch is gone
  after it, since the deletions of a batch run last.
\<close>

lemma rewritten_key_is_lost:
  "map (\<lambda>st. (take 6 (st_sql st), st_binds st)) (snd (the (sample_run [(1, ''old'', ''d''), (1, ''new'', ''i'')]))) =
     [(''INSERT'', [BoundInt 64 1, BoundText ''new'']), (''DELETE'', [BoundInt 64 1])]"
  unfolding sample_run_eq by code_simp

text \<open>A batch size of zero is accepted as an option and panics on the first batch that has rows.\<close>

lemma zero_batch_size_panics:
  assumes "get_or env (ms_opts s) ''batch_size'' ''1000'' = ''0''" and "mb_num_rows b > 0"
  shows "mysql_process_batch F env exec s b = None"
proof -
  have "parse_unsigned u64_max ''0'' = Inr 0" by (simp add: parse_unsigned_def is_digit_def)
  with assms show ?thesis by (simp add: mysql_process_batch_def chunk_size_def split: prod.split)
qed

end
