(* ===== verification/MySqlServer.thy ===== *)
theory MySqlServer
  imports MySqlSink
begin

text \<open>
  The MySQL sink on a server, \<open>src/src/sinks/mysql/sink.rs\<close>. The server gets texts and bound values: the
  reading of a statement is defined here from its text, without the functions that the sink builds it with, and
  the law on the server is about statements so read. The result is the effect of a batch on the table.
\<close>

section \<open>Reading a statement\<close>

text \<open>The tokens of a text: names in backticks, words of letters, and single characters. Spaces separate.\<close>

datatype sql_token = SqlName string | SqlWord string | SqlMark char

datatype lex_mode = Between | InWord string | InName string

definition letter :: "char \<Rightarrow> bool" where
  "letter c \<longleftrightarrow> (let n = of_char c :: nat in (65 \<le> n \<and> n \<le> 90) \<or> (97 \<le> n \<and> n \<le> 122))"

definition lex_between :: "char \<Rightarrow> sql_token list \<times> lex_mode" where
  "lex_between c =
     (if c = CHR 0x60 then ([], InName [])
      else if letter c then ([], InWord [c])
      else if c = CHR '' '' then ([], Between)
      else ([SqlMark c], Between))"

fun lex_char :: "lex_mode \<Rightarrow> char \<Rightarrow> sql_token list \<times> lex_mode" where
  "lex_char Between c = lex_between c"
| "lex_char (InName n) c = (if c = CHR 0x60 then ([SqlName n], Between) else ([], InName (n @ [c])))"
| "lex_char (InWord w) c =
     (if letter c then ([], InWord (w @ [c])) else (case lex_between c of (ts, m) \<Rightarrow> (SqlWord w # ts, m)))"

fun lex_sql :: "lex_mode \<Rightarrow> string \<Rightarrow> sql_token list \<times> lex_mode" where
  "lex_sql m [] = ([], m)"
| "lex_sql m (c # cs) =
     (case lex_char m c of (ts, m') \<Rightarrow> (case lex_sql m' cs of (ts', m'') \<Rightarrow> (ts @ ts', m'')))"

text \<open>\<open>None\<close> for a name that is left open.\<close>

definition sql_tokens :: "string \<Rightarrow> sql_token list option" where
  "sql_tokens text =
     (case lex_sql Between text of
        (ts, Between) \<Rightarrow> Some ts
      | (ts, InWord w) \<Rightarrow> Some (ts @ [SqlWord w])
      | (ts, InName n) \<Rightarrow> None)"

text \<open>
  The two statements, as the server's manual gives them: an insert of \<open>n\<close> rows of placeholders for the listed
  columns, with the columns to update when the key is there already, and a delete of the rows that agree with one of
  \<open>n\<close> groups of placeholders on the listed columns.
\<close>

fun separated :: "sql_token list \<Rightarrow> sql_token list list \<Rightarrow> sql_token list" where
  "separated sep [] = []"
| "separated sep [x] = x"
| "separated sep (x # y # xs) = x @ sep @ separated sep (y # xs)"

definition parenthesised :: "sql_token list \<Rightarrow> sql_token list" where
  "parenthesised ts = SqlMark CHR ''('' # ts @ [SqlMark CHR '')'']"

definition commas :: "sql_token list list \<Rightarrow> sql_token list" where
  "commas = separated [SqlMark CHR '','']"

definition table_tokens :: "string \<Rightarrow> string \<Rightarrow> sql_token list" where
  "table_tokens database table = [SqlName database, SqlMark CHR ''.'', SqlName table]"

definition insert_tokens :: "string \<Rightarrow> string \<Rightarrow> string list \<Rightarrow> string list \<Rightarrow> nat \<Rightarrow> sql_token list" where
  "insert_tokens database table columns updates n =
     [SqlWord ''INSERT'', SqlWord ''INTO''] @ table_tokens database table @
     parenthesised (commas (map (\<lambda>c. [SqlName c]) columns)) @
     SqlWord ''VALUES'' # commas (replicate n (parenthesised (commas (replicate (length columns) [SqlMark CHR ''?''])))) @
     (if updates = [] then []
      else map SqlWord [''ON'', ''DUPLICATE'', ''KEY'', ''UPDATE''] @
        commas (map (\<lambda>c. [SqlName c, SqlMark CHR ''='', SqlWord ''VALUES''] @ parenthesised [SqlName c]) updates))"

definition delete_tokens :: "string \<Rightarrow> string \<Rightarrow> string list \<Rightarrow> nat \<Rightarrow> sql_token list" where
  "delete_tokens database table columns n =
     [SqlWord ''DELETE'', SqlWord ''FROM''] @ table_tokens database table @
     SqlWord ''WHERE'' # separated [SqlWord ''OR'']
       (replicate n (parenthesised (separated [SqlWord ''AND''] (map (\<lambda>c. [SqlName c, SqlMark CHR ''='', SqlMark CHR ''?'']) columns))))"

section \<open>What a statement does\<close>

text \<open>
  A table: the rows by the identity of their primary key, each with the values of its other columns. A column with
  no value holds its default. \<open>ident\<close> is the identity of the key's values, which is the server's to decide
  (collations, key lengths). The bound values are cut into one list per row, in order.
\<close>

type_synonym ('k, 'x) mysql_table = "'k \<rightharpoonup> (string \<rightharpoonup> 'x bound)"

fun value_rows :: "nat \<Rightarrow> nat \<Rightarrow> 'a list \<Rightarrow> 'a list list" where
  "value_rows 0 width xs = []"
| "value_rows (Suc n) width xs = take width xs # value_rows n width (drop width xs)"

fun is_null :: "'x bound \<Rightarrow> bool" where
  "is_null (BoundNull t) = True"
| "is_null _ = False"

definition key_values :: "string list \<Rightarrow> string list \<Rightarrow> 'x bound list \<Rightarrow> 'x bound list" where
  "key_values pk columns vs = map (\<lambda>c. the (map_of (zip columns vs) c)) pk"

text \<open>A row whose key is there already is updated, and refused when the statement has no columns to update.\<close>

definition insert_row ::
  "('x bound list \<Rightarrow> 'k) \<Rightarrow> string list \<Rightarrow> string list \<Rightarrow> string list \<Rightarrow> 'x bound list \<Rightarrow> ('k, 'x) mysql_table
     \<Rightarrow> ('k, 'x) mysql_table option" where
  "insert_row ident pk columns updates vs t =
     (let k = ident (key_values pk columns vs); row = map_of (zip columns vs) in
      case t k of
        None \<Rightarrow> Some (t(k \<mapsto> row |` (- set pk)))
      | Some old \<Rightarrow> if updates = [] then None else Some (t(k \<mapsto> old ++ (row |` set updates))))"

fun insert_rows ::
  "('x bound list \<Rightarrow> 'k) \<Rightarrow> string list \<Rightarrow> string list \<Rightarrow> string list \<Rightarrow> 'x bound list list \<Rightarrow> ('k, 'x) mysql_table
     \<Rightarrow> ('k, 'x) mysql_table option" where
  "insert_rows ident pk columns updates [] t = Some t"
| "insert_rows ident pk columns updates (vs # rows) t =
     Option.bind (insert_row ident pk columns updates vs t) (insert_rows ident pk columns updates rows)"

definition delete_row ::
  "('x bound list \<Rightarrow> 'k) \<Rightarrow> string list \<Rightarrow> string list \<Rightarrow> 'x bound list \<Rightarrow> ('k, 'x) mysql_table \<Rightarrow> ('k, 'x) mysql_table" where
  "delete_row ident pk columns vs t = t(ident (key_values pk columns vs) := None)"

text \<open>
  What the server promises for a table with primary key \<open>pk\<close> and no other unique key: a statement that
  reads as an insert or a delete on that table, has a value for each placeholder and no null among the key's,
  and is accepted, has its documented effect. An insert names all columns of the key, a delete here exactly those. \<open>Inl\<close> is a refusal.
\<close>

definition server_lawful ::
  "('x statement \<Rightarrow> ('k, 'x) mysql_table \<Rightarrow> string + ('k, 'x) mysql_table) \<Rightarrow> ('x bound list \<Rightarrow> 'k) \<Rightarrow> string \<Rightarrow> string \<Rightarrow> string list
     \<Rightarrow> bool" where
  "server_lawful server ident database table pk \<longleftrightarrow>
     (\<forall>st t t' columns n. server st t = Inr t' \<and> n > 0 \<and> length (st_binds st) = n * length columns \<and>
        list_all (\<lambda>vs. \<not> list_ex is_null (key_values pk columns vs)) (value_rows n (length columns) (st_binds st)) \<longrightarrow>
        (\<forall>updates. set pk \<subseteq> set columns \<and> sql_tokens (st_sql st) = Some (insert_tokens database table columns updates n) \<longrightarrow>
           insert_rows ident pk columns updates (value_rows n (length columns) (st_binds st)) t = Some t') \<and>
        (set columns = set pk \<and> sql_tokens (st_sql st) = Some (delete_tokens database table columns n) \<longrightarrow>
           t' = fold (delete_row ident pk columns) (value_rows n (length columns) (st_binds st)) t))"

text \<open>Statements one after the other; a refusal ends the run.\<close>

fun run_statements :: "('s \<Rightarrow> 't \<Rightarrow> string + 't) \<Rightarrow> 's list \<Rightarrow> 't \<Rightarrow> string + 't" where
  "run_statements server [] t = Inr t"
| "run_statements server (st # sts) t = (case server st t of Inl e \<Rightarrow> Inl e | Inr t' \<Rightarrow> run_statements server sts t')"

lemma run_statements_append:
  "run_statements server (xs @ ys) t = (case run_statements server xs t of Inl e \<Rightarrow> Inl e | Inr t' \<Rightarrow> run_statements server ys t')"
  by (induction xs arbitrary: t) (simp_all split: sum.split)

section \<open>What the sink's statements read as\<close>

definition lexes :: "string \<Rightarrow> sql_token list \<Rightarrow> bool" where
  "lexes s ts \<longleftrightarrow> lex_sql Between s = (ts, Between)"

lemma lexes_tokens: "lexes s ts \<Longrightarrow> sql_tokens s = Some ts"
  by (simp add: lexes_def sql_tokens_def)

lemma lex_sql_append:
  "lex_sql m (a @ b) = (case lex_sql m a of (ts, m') \<Rightarrow> case lex_sql m' b of (ts', m'') \<Rightarrow> (ts @ ts', m''))"
  by (induction m a rule: lex_sql.induct) (auto split: prod.splits)

lemma lexes_append: "lexes a xs \<Longrightarrow> lexes b ys \<Longrightarrow> lexes (a @ b) (xs @ ys)"
  by (simp add: lexes_def lex_sql_append)

lemma lex_name: "CHR 0x60 \<notin> set name \<Longrightarrow> lex_sql (InName acc) (name @ [CHR 0x60]) = ([SqlName (acc @ name)], Between)"
  by (induction name arbitrary: acc) auto

lemma lexes_backticked: "plain name \<Longrightarrow> lexes (backticked name) [SqlName name]"
  using lex_name [of name "[]"] by (simp add: lexes_def backticked_def plain_def lex_between_def)

lemma lexes_join:
  "lexes sep ts \<Longrightarrow> list_all2 lexes ps tss \<Longrightarrow> lexes (join_with sep ps) (separated ts tss)"
proof (induction ts tss arbitrary: ps rule: separated.induct)
  case (3 ts x y xs)
  then obtain p q qs where "ps = p # q # qs" "lexes p x" "list_all2 lexes (q # qs) (y # xs)"
    by (auto simp: list_all2_Cons2)
  with 3 show ?case by (auto intro!: lexes_append)
qed (auto simp: list_all2_Cons2 lexes_def)

lemma lexes_join_map:
  "lexes sep ts \<Longrightarrow> (\<And>x. x \<in> set xs \<Longrightarrow> lexes (f x) (g x)) \<Longrightarrow> lexes (join_with sep (map f xs)) (separated ts (map g xs))"
  by (rule lexes_join) (auto simp: list_all2_conv_all_nth)

lemma lexes_join_replicate:
  "lexes sep ts \<Longrightarrow> lexes s x \<Longrightarrow> lexes (join_with sep (replicate n s)) (separated ts (replicate n x))"
  by (rule lexes_join) (auto simp: list_all2_conv_all_nth)

lemma lexes_literals:
  "lexes '', '' [SqlMark CHR '','']" "lexes '' OR '' [SqlWord ''OR'']" "lexes '' AND '' [SqlWord ''AND'']"
  "lexes ''.'' [SqlMark CHR ''.'']" "lexes '' ('' [SqlMark CHR ''('']" "lexes '') VALUES '' [SqlMark CHR '')'', SqlWord ''VALUES'']"
  "lexes ''INSERT INTO '' [SqlWord ''INSERT'', SqlWord ''INTO'']" "lexes ''('' [SqlMark CHR ''('']" "lexes '')'' [SqlMark CHR '')'']"
  "lexes ''?'' [SqlMark CHR ''?'']" "lexes '' = ?'' [SqlMark CHR ''='', SqlMark CHR ''?'']"
  "lexes '' = VALUES('' [SqlMark CHR ''='', SqlWord ''VALUES'', SqlMark CHR ''('']"
  "lexes '' ON DUPLICATE KEY UPDATE '' [SqlWord ''ON'', SqlWord ''DUPLICATE'', SqlWord ''KEY'', SqlWord ''UPDATE'']"
  "lexes ''DELETE FROM '' [SqlWord ''DELETE'', SqlWord ''FROM'']" "lexes '' WHERE '' [SqlWord ''WHERE'']" "lexes [] []"
  by (simp_all add: lexes_def lex_between_def letter_def)

lemma lexes_parenthesised: "lexes s ts \<Longrightarrow> lexes (''('' @ s @ '')'') (parenthesised ts)"
  using lexes_append [OF lexes_literals(8) lexes_append [OF _ lexes_literals(9)], of s ts] by (simp add: parenthesised_def)

lemma lexes_table: "plain database \<Longrightarrow> plain table \<Longrightarrow> lexes (table_name database table) (table_tokens database table)"
  using lexes_append [OF lexes_backticked lexes_append [OF lexes_literals(4) lexes_backticked], of database table]
  by (simp add: table_name_def table_tokens_def)

lemma lexes_row: "lexes (row_placeholders n) (parenthesised (commas (replicate n [SqlMark CHR ''?''])))"
  unfolding row_placeholders_def commas_def
  by (intro lexes_parenthesised lexes_join_replicate lexes_literals)

lemma lexes_insert:
  assumes "plain database" "plain table" "list_all plain columns"
  shows "lexes (insert_sql ''INSERT'' database table columns n) (insert_tokens database table columns [] n)"
proof -
  have cols: "lexes (join_with '', '' (map backticked columns)) (commas (map (\<lambda>c. [SqlName c]) columns))"
    unfolding commas_def using assms(3) by (intro lexes_join_map lexes_literals lexes_backticked) (simp add: list_all_iff)
  have rows: "lexes (join_with '', '' (replicate n (row_placeholders (length columns))))
      (commas (replicate n (parenthesised (commas (replicate (length columns) [SqlMark CHR ''?''])))))"
    using lexes_join_replicate [OF lexes_literals(1) lexes_row] by (simp add: commas_def)
  from lexes_append [OF lexes_literals(7) lexes_append [OF lexes_table [OF assms(1,2)] lexes_append [OF lexes_literals(5)
        lexes_append [OF cols lexes_append [OF lexes_literals(6) rows]]]]]
  show ?thesis by (simp add: insert_sql_def insert_tokens_def parenthesised_def)
qed

lemma lexes_update:
  assumes "list_all plain columns"
  shows "lexes (join_with '', '' (map (\<lambda>c. backticked c @ '' = VALUES('' @ backticked c @ '')'') columns))
    (commas (map (\<lambda>c. [SqlName c, SqlMark CHR ''='', SqlWord ''VALUES''] @ parenthesised [SqlName c]) columns))"
  unfolding commas_def
proof (intro lexes_join_map lexes_literals)
  fix c
  assume "c \<in> set columns"
  with assms have "plain c" by (simp add: list_all_iff)
  from lexes_append [OF lexes_backticked [OF this] lexes_append [OF lexes_literals(12) lexes_append [OF lexes_backticked [OF this] lexes_literals(9)]]]
  show "lexes (backticked c @ '' = VALUES('' @ backticked c @ '')'') ([SqlName c, SqlMark CHR ''='', SqlWord ''VALUES''] @ parenthesised [SqlName c])"
    by (simp add: parenthesised_def)
qed

lemma upsert_reads:
  assumes "plain database" "plain table" "list_all plain columns" "pk \<noteq> []" "on_conflict \<noteq> ''nothing''"
  shows "sql_tokens (upsert_sql database table columns pk on_conflict n) =
    Some (insert_tokens database table columns (filter (\<lambda>c. c \<notin> set pk) columns) n)"
proof (rule lexes_tokens)
  let ?upd = "filter (\<lambda>c. c \<notin> set pk) columns"
  have "list_all plain ?upd" using assms(3) by (simp add: list_all_iff)
  from lexes_append [OF lexes_insert [OF assms(1-3)] lexes_append [OF lexes_literals(13) lexes_update [OF this]], of n]
    lexes_insert [OF assms(1-3), of n]
  show "lexes (upsert_sql database table columns pk on_conflict n) (insert_tokens database table columns ?upd n)"
    using assms(4,5) by (cases "?upd = []") (simp_all add: upsert_sql_def update_clause_def insert_tokens_def Let_def)
qed

lemma delete_reads:
  assumes "plain database" "plain table" "list_all plain pk"
  shows "sql_tokens (delete_sql database table pk n) = Some (delete_tokens database table pk n)"
proof (rule lexes_tokens)
  have "lexes (backticked c @ '' = ?'') [SqlName c, SqlMark CHR ''='', SqlMark CHR ''?'']" if "c \<in> set pk" for c
    using lexes_append [OF lexes_backticked lexes_literals(11), of c] assms(3) that by (simp add: list_all_iff)
  then have "lexes (join_with '' OR '' (replicate n (''('' @ join_with '' AND '' (map (\<lambda>c. backticked c @ '' = ?'') pk) @ '')'')))
    (separated [SqlWord ''OR''] (replicate n (parenthesised
      (separated [SqlWord ''AND''] (map (\<lambda>c. [SqlName c, SqlMark CHR ''='', SqlMark CHR ''?'']) pk)))))"
    by (intro lexes_join_replicate lexes_literals lexes_parenthesised lexes_join_map)
  from lexes_append [OF lexes_literals(14) lexes_append [OF lexes_table [OF assms(1,2)] lexes_append [OF lexes_literals(15) this]]]
  show "lexes (delete_sql database table pk n) (delete_tokens database table pk n)"
    by (simp add: delete_sql_def delete_tokens_def)
qed

section \<open>What the bound values mean\<close>

text \<open>A row of a batch: the value of a column, by its name, as it is bound.\<close>

definition column_value :: "'x mysql_foreign \<Rightarrow> MySqlSink \<Rightarrow> 'x mysql_batch \<Rightarrow> nat \<Rightarrow> string \<rightharpoonup> 'x bound" where
  "column_value F s b r c = map_option (\<lambda>i. bind_arrow_value F (mb_type b i) (mb_cell b i r)) (index_of (ms_schema s) c)"

text \<open>A row's key, as the server identifies it, and the values of its other columns; the op column is not stored.\<close>

definition row_key :: "('x bound list \<Rightarrow> 'k) \<Rightarrow> 'x mysql_foreign \<Rightarrow> MySqlSink \<Rightarrow> string list \<Rightarrow> 'x mysql_batch \<Rightarrow> nat \<Rightarrow> 'k" where
  "row_key ident F s pk b r = ident (map (\<lambda>c. the (column_value F s b r c)) pk)"

definition stored_values :: "'x mysql_foreign \<Rightarrow> MySqlSink \<Rightarrow> string list \<Rightarrow> 'x mysql_batch \<Rightarrow> nat \<Rightarrow> string \<rightharpoonup> 'x bound" where
  "stored_values F s pk b r = column_value F s b r |` (- insert COLUMN_NAME_OP (set pk))"

lemma index_of_nth: "index_of schema name = Some i \<Longrightarrow> i < length schema \<and> field_name (schema ! i) = name"
  by (induction schema arbitrary: i) (auto split: if_splits)

lemma index_of_None: "index_of schema name = None \<longleftrightarrow> name \<notin> field_name ` set schema"
  by (induction schema) auto

lemma map_of_names:
  "map_of (map (\<lambda>i. (field_name (schema ! i), g i)) [0..<length schema]) = (\<lambda>c. map_option g (index_of schema c))"
proof (induction schema arbitrary: g)
  case (Cons f fs)
  have "[0..<length (f # fs)] = 0 # map Suc [0..<length fs]" by (simp add: map_Suc_upt upt_conv_Cons del: upt_Suc)
  with Cons [of "\<lambda>i. g (Suc i)"] show ?case
    by (auto simp: fun_eq_iff comp_def map_option.compositionality simp del: upt_Suc)
qed simp

lemma map_of_filter_keys: "map_of (filter (\<lambda>(k, v). P k) xs) = map_of xs |` {k. P k}"
  by (induction xs) (auto simp: fun_eq_iff restrict_map_def)

lemma upsert_values:
  "map_of (zip (sink_column_names (ms_schema s)) (map (\<lambda>i. bind_arrow_value F (mb_type b i) (mb_cell b i r)) (sink_column_indices (ms_schema s)))) =
   column_value F s b r |` (- {COLUMN_NAME_OP})"
proof -
  let ?g = "\<lambda>i. bind_arrow_value F (mb_type b i) (mb_cell b i r)"
  let ?is = "sink_column_indices (ms_schema s)"
  have "sink_column_names (ms_schema s) = map (\<lambda>i. field_name (ms_schema s ! i)) ?is"
    using arg_cong [OF sink_fields_nth, of "map field_name" "ms_schema s"] by (simp add: sink_column_names_def comp_def)
  then have "zip (sink_column_names (ms_schema s)) (map ?g ?is) = map (\<lambda>i. (field_name (ms_schema s ! i), ?g i)) ?is"
    by (simp add: zip_map_map zip_same_conv_map)
  also have "\<dots> = filter (\<lambda>(c, v). c \<noteq> COLUMN_NAME_OP) (map (\<lambda>i. (field_name (ms_schema s ! i), ?g i)) [0..<length (ms_schema s)])"
    by (simp add: sink_column_indices_def filter_map comp_def)
  finally show ?thesis
    by (simp add: map_of_filter_keys map_of_names column_value_def [abs_def] fun_eq_iff restrict_map_def)
qed

lemma pk_indices_map:
  "set (primary_key_columns env s) \<subseteq> field_name ` set (ms_schema s) \<Longrightarrow>
   pk_indices env s = map (the \<circ> index_of (ms_schema s)) (primary_key_columns env s)"
proof -
  have "List.map_filter f xs = map (the \<circ> f) xs" if "\<And>x. x \<in> set xs \<Longrightarrow> \<exists>y. f x = Some y" for f :: "string \<Rightarrow> nat option" and xs
    using that by (induction xs) (force simp: map_filter_simps)+
  then show "pk_indices env s = map (the \<circ> index_of (ms_schema s)) (primary_key_columns env s)"
    if "set (primary_key_columns env s) \<subseteq> field_name ` set (ms_schema s)"
    using that index_of_Some unfolding pk_indices_def by blast
qed

lemma value_rows_bind:
  "value_rows (length rows) (length columns) (bind_rows F columns rows b) =
   map (\<lambda>r. map (\<lambda>i. bind_arrow_value F (mb_type b i) (mb_cell b i r)) columns) rows"
  by (induction rows) (simp_all add: bind_rows_def)

lemma bound_not_null: "v \<noteq> None \<Longrightarrow> \<not> is_null (bind_arrow_value F dt v)"
  by (auto simp: bind_arrow_value_def bind_number_def Let_def split: DataType.splits cell_value.splits prod.splits)

definition keyed :: "MySqlSink \<Rightarrow> string list \<Rightarrow> 'x mysql_batch \<Rightarrow> nat \<Rightarrow> bool" where
  "keyed s pk b r \<longleftrightarrow> list_all (\<lambda>c. case index_of (ms_schema s) c of None \<Rightarrow> False | Some i \<Rightarrow> mb_cell b i r \<noteq> None) pk"

lemma key_not_null: "keyed s pk b r \<Longrightarrow> \<not> list_ex is_null (map (\<lambda>c. the (column_value F s b r c)) pk)"
  by (auto simp: keyed_def list_all_iff list_ex_iff column_value_def bound_not_null split: option.splits)

section \<open>The effect of a batch\<close>

definition is_delete :: "MySqlSink \<Rightarrow> 'x mysql_batch \<Rightarrow> nat \<Rightarrow> bool" where
  "is_delete s b r \<longleftrightarrow>
     (case index_of (ms_schema s) COLUMN_NAME_OP of None \<Rightarrow> False | Some i \<Rightarrow> mb_type b i = DUtf8 \<and> mb_op b r = ''d'')"

text \<open>
  What the pipeline means by a row: a deletion of its key, or its values under its key. A column of the table
  that the sink does not write is left as it is.
\<close>

definition row_effect ::
  "('x bound list \<Rightarrow> 'k) \<Rightarrow> 'x mysql_foreign \<Rightarrow> MySqlSink \<Rightarrow> string list \<Rightarrow> 'x mysql_batch \<Rightarrow> nat \<Rightarrow> ('k, 'x) mysql_table \<Rightarrow> ('k, 'x) mysql_table" where
  "row_effect ident F s pk b r t =
     (let k = row_key ident F s pk b r in
      if is_delete s b r then t(k := None)
      else t(k \<mapsto> (case t k of None \<Rightarrow> Map.empty | Some old \<Rightarrow> old) ++ stored_values F s pk b r))"

lemma fold_partition:
  assumes "sorted_wrt (\<lambda>i j. P i \<and> \<not> P j \<longrightarrow> f i \<circ> f j = f j \<circ> f i) xs"
  shows "fold f xs = fold f (filter P xs) \<circ> fold f (filter (\<lambda>x. \<not> P x) xs)"
  using assms
proof (induction xs)
  case (Cons x xs)
  show ?case
  proof (cases "P x")
    case True
    with Cons.prems have "f x \<circ> fold f (filter (\<lambda>x. \<not> P x) xs) = fold f (filter (\<lambda>x. \<not> P x) xs) \<circ> f x"
      by (intro fold_commute) (auto simp: comp_def)
    from fun_cong [OF this] True Cons show ?thesis by (simp add: fun_eq_iff)
  next
    case False
    with Cons show ?thesis by (simp add: comp_assoc)
  qed
qed simp

lemma row_effects_commute:
  assumes "is_delete s b i" and "\<not> is_delete s b j" and "row_key ident F s pk b i \<noteq> row_key ident F s pk b j"
  shows "row_effect ident F s pk b i \<circ> row_effect ident F s pk b j = row_effect ident F s pk b j \<circ> row_effect ident F s pk b i"
  using assms by (auto simp: fun_eq_iff row_effect_def Let_def)

lemma chunk_list_concat: "n > 0 \<Longrightarrow> concat (chunk_list n xs) = xs"
  by (induction n xs rule: chunk_list.induct) (simp add: chunk_list.simps)

lemma chunk_list_sizes: "c \<in> set (chunk_list n xs) \<Longrightarrow> c \<noteq> [] \<and> length c \<le> n"
  by (induction n xs rule: chunk_list.induct) (subst (asm) (2) chunk_list.simps, auto split: if_splits)

lemma chunk_rows: "n > 0 \<Longrightarrow> c \<in> set (chunk_list n rows) \<Longrightarrow> c \<noteq> [] \<and> set c \<subseteq> set rows"
  using chunk_list_sizes [of c n rows] arg_cong [OF chunk_list_concat [of n rows], of set] by auto

lemma split_rows_filter:
  "split_rows (ms_schema s) b = (filter (\<lambda>r. \<not> is_delete s b r) [0..<mb_num_rows b], filter (is_delete s b) [0..<mb_num_rows b])"
  by (auto simp: split_rows_def is_delete_def Let_def split: option.split intro!: filter_cong)

text \<open>What is asked of a sink's configuration and of the rows: names without backticks, and a key that the sink writes.\<close>

definition keyed_sink :: "environment \<Rightarrow> MySqlSink \<Rightarrow> bool" where
  "keyed_sink env s \<longleftrightarrow>
     plain_names env s \<and> get_or env (ms_opts s) ''on_conflict'' ''update'' \<noteq> ''nothing'' \<and>
     primary_key_columns env s \<noteq> [] \<and> set (primary_key_columns env s) \<subseteq> set (sink_column_names (ms_schema s))"

lemma keyed_sink_fields:
  "keyed_sink env s \<Longrightarrow> set (primary_key_columns env s) \<subseteq> field_name ` set (ms_schema s) \<and> COLUMN_NAME_OP \<notin> set (primary_key_columns env s)"
  by (auto simp: keyed_sink_def sink_column_names_def sink_fields_def)

lemma insert_rows_effect:
  assumes "insert_rows ident pk columns updates (map f rows) t = Some t'"
    and "\<And>r u u'. r \<in> set rows \<Longrightarrow> insert_row ident pk columns updates (f r) u = Some u' \<Longrightarrow> u' = g r u"
  shows "t' = fold g rows t"
  using assms
proof (induction rows arbitrary: t)
  case (Cons r rows)
  then obtain u where "insert_row ident pk columns updates (f r) t = Some u" "insert_rows ident pk columns updates (map f rows) u = Some t'"
    by (auto split: Option.bind_splits)
  with Cons.IH [of u] Cons.prems(2) show ?case by auto
qed simp

lemma upsert_effect:
  assumes law: "server_lawful server ident database table (primary_key_columns env s)" and "target env s = Inr (table, database)"
    and sink: "keyed_sink env s" and "rows \<noteq> []"
    and rows: "\<And>r. r \<in> set rows \<Longrightarrow> keyed s (primary_key_columns env s) b r \<and> \<not> is_delete s b r"
    and "server (upsert_statement F env s b table database rows) t = Inr t'"
  shows "t' = fold (row_effect ident F s (primary_key_columns env s) b) rows t"
proof -
  let ?pk = "primary_key_columns env s" and ?cols = "sink_column_names (ms_schema s)"
  let ?upd = "filter (\<lambda>c. c \<notin> set ?pk) ?cols"
  let ?vals = "\<lambda>r. map (\<lambda>i. bind_arrow_value F (mb_type b i) (mb_cell b i r)) (sink_column_indices (ms_schema s))"
  have pk: "set ?pk \<subseteq> set ?cols" and noop: "COLUMN_NAME_OP \<notin> set ?pk"
    using sink keyed_sink_fields [OF sink] by (auto simp: keyed_sink_def)
  have cut: "value_rows (length rows) (length ?cols) (st_binds (upsert_statement F env s b table database rows)) = map ?vals rows"
    using value_rows_bind [of rows "sink_column_indices (ms_schema s)" F b] by (simp add: upsert_statement_def length_sink_column_indices)
  have key: "key_values ?pk ?cols (?vals r) = map (\<lambda>c. the (column_value F s b r c)) ?pk" for r
    using noop by (auto simp: key_values_def upsert_values restrict_map_def)
  have "sql_tokens (st_sql (upsert_statement F env s b table database rows)) = Some (insert_tokens database table ?cols ?upd (length rows))"
    using upsert_reads [of database table ?cols ?pk] sink assms(2) by (simp add: upsert_statement_def keyed_sink_def plain_names_def)
  moreover have "list_all (\<lambda>vs. \<not> list_ex is_null (key_values ?pk ?cols vs)) (map ?vals rows)"
    using rows key_not_null by (fastforce simp: list_all_iff key)
  ultimately have run: "insert_rows ident ?pk ?cols ?upd (map ?vals rows) t = Some t'"
    using law [unfolded server_lawful_def, rule_format, of "upsert_statement F env s b table database rows" t t' "length rows" ?cols]
      assms(4,6) pk cut
    by (simp add: upsert_statement_def length_bind_rows length_sink_column_indices)
  have written: "c \<in> set ?cols \<longleftrightarrow> index_of (ms_schema s) c \<noteq> None \<and> c \<noteq> COLUMN_NAME_OP" for c
    by (auto simp: index_of_None sink_column_names_def sink_fields_def)
  have new: "map_of (zip ?cols (?vals r)) |` (- set ?pk) = stored_values F s ?pk b r" for r
    by (auto simp: upsert_values stored_values_def fun_eq_iff restrict_map_def)
  have upd: "map_of (zip ?cols (?vals r)) |` set ?upd = stored_values F s ?pk b r" for r
    unfolding upsert_values by (auto simp: stored_values_def fun_eq_iff restrict_map_def column_value_def written)
  have "u' = row_effect ident F s ?pk b r u"
    if "r \<in> set rows" and step: "insert_row ident ?pk ?cols ?upd (?vals r) u = Some u'" for r u u'
    using step rows [OF that(1)] unfolding insert_row_def Let_def key new upd
    by (auto simp: row_effect_def row_key_def Let_def split: option.splits if_splits)
  from insert_rows_effect [OF run this] show ?thesis .
qed

lemma delete_effect:
  assumes law: "server_lawful server ident database table (primary_key_columns env s)" and "target env s = Inr (table, database)"
    and sink: "keyed_sink env s" and "rows \<noteq> []"
    and rows: "\<And>r. r \<in> set rows \<Longrightarrow> keyed s (primary_key_columns env s) b r \<and> is_delete s b r"
    and "server (delete_statement F env s b table database rows) t = Inr t'"
  shows "t' = fold (row_effect ident F s (primary_key_columns env s) b) rows t"
proof -
  let ?pk = "primary_key_columns env s"
  let ?vals = "\<lambda>r. map (\<lambda>i. bind_arrow_value F (mb_type b i) (mb_cell b i r)) (pk_indices env s)"
  have fields: "set ?pk \<subseteq> field_name ` set (ms_schema s)" using keyed_sink_fields [OF sink] by simp
  have cut: "value_rows (length rows) (length ?pk) (st_binds (delete_statement F env s b table database rows)) = map ?vals rows"
    using value_rows_bind [of rows "pk_indices env s" F b] by (simp add: delete_statement_def length_pk_indices [OF fields])
  have known: "\<exists>i. index_of (ms_schema s) c = Some i" if "c \<in> set ?pk" for c
    using fields that index_of_Some by blast
  have key: "key_values ?pk ?pk (?vals r) = map (\<lambda>c. the (column_value F s b r c)) ?pk" for r
  proof -
    have "the (map_of (zip ?pk (?vals r)) c) = the (column_value F s b r c)" if "c \<in> set ?pk" for c
      using known [OF that] that by (auto simp: pk_indices_map [OF fields] map_of_zip_map column_value_def)
    then show ?thesis by (simp add: key_values_def)
  qed
  have "sql_tokens (st_sql (delete_statement F env s b table database rows)) = Some (delete_tokens database table ?pk (length rows))"
    using delete_reads [of database table ?pk] sink assms(2) by (simp add: delete_statement_def keyed_sink_def plain_names_def)
  moreover have "list_all (\<lambda>vs. \<not> list_ex is_null (key_values ?pk ?pk vs)) (map ?vals rows)"
    using rows key_not_null by (fastforce simp: list_all_iff key)
  ultimately have "t' = fold (delete_row ident ?pk ?pk) (map ?vals rows) t"
    using law [unfolded server_lawful_def, rule_format, of "delete_statement F env s b table database rows" t t' "length rows" ?pk]
      assms(4,6) cut
    by (simp add: delete_statement_def length_bind_rows length_pk_indices [OF fields])
  also have "\<dots> = fold (row_effect ident F s ?pk b) rows t"
    unfolding fold_map using rows by (intro fold_cong) (simp_all add: fun_eq_iff delete_row_def key row_effect_def row_key_def Let_def)
  finally show ?thesis .
qed

lemma chunks_effect:
  assumes "for_chunks f (chunk_list n rows) = (Inr u, sts)" and "n > 0" and "run_statements server sts t = Inr t'"
    and "\<And>c t t'. c \<noteq> [] \<Longrightarrow> set c \<subseteq> set rows \<Longrightarrow> fst (f c) = Inr () \<Longrightarrow> run_statements server (snd (f c)) t = Inr t' \<Longrightarrow> t' = fold g c t"
  shows "t' = fold g rows t"
proof -
  note ok = for_chunks_Inr [OF assms(1)]
  have "t' = fold g (concat cs) t"
    if "set cs \<subseteq> set (chunk_list n rows)" "list_all (\<lambda>c. fst (f c) = Inr ()) cs"
      "run_statements server (concat (map (\<lambda>c. snd (f c)) cs)) t = Inr t'" for cs t t'
    using that
  proof (induction cs arbitrary: t)
    case (Cons c cs)
    then obtain t1 where t1: "run_statements server (snd (f c)) t = Inr t1"
      "run_statements server (concat (map (\<lambda>c. snd (f c)) cs)) t1 = Inr t'"
      by (auto simp: run_statements_append split: sum.splits)
    have "t1 = fold g c t"
      using Cons.prems(1,2) t1(1) chunk_rows [OF assms(2), of c rows] by (intro assms(4)) auto
    with Cons t1(2) show ?case by simp
  qed simp
  from this [of "chunk_list n rows" t t'] ok assms(3) chunk_list_concat [OF assms(2), of rows] show ?thesis by simp
qed

text \<open>The statements of a batch that succeeds write its upserts, then its deletions.\<close>

lemma process_batch_effect:
  assumes law: "server_lawful server ident database table (primary_key_columns env s)" "target env s = Inr (table, database)"
    and run: "mysql_process_batch F env exec s b = Some (Inr u, sts)" "run_statements server sts t = Inr t'"
    and sink: "keyed_sink env s" and keys: "list_all (keyed s (primary_key_columns env s) b) [0..<mb_num_rows b]"
  shows "t' = fold (row_effect ident F s (primary_key_columns env s) b) (filter (is_delete s b) [0..<mb_num_rows b])
     (fold (row_effect ident F s (primary_key_columns env s) b) (filter (\<lambda>r. \<not> is_delete s b r) [0..<mb_num_rows b]) t)"
proof (cases "mb_num_rows b = 0")
  case True
  with run show ?thesis by (simp add: mysql_process_batch_def)
next
  case False
  let ?n = "chunk_size env s"
  let ?ins = "filter (\<lambda>r. \<not> is_delete s b r) [0..<mb_num_rows b]" and ?del = "filter (is_delete s b) [0..<mb_num_rows b]"
  obtain sts1 sts2 where n: "?n > 0"
    and ins: "for_chunks (execute_upsert F env exec s b) (chunk_list ?n ?ins) = (Inr (), sts1)"
    and del: "for_chunks (execute_delete F env exec s b) (chunk_list ?n ?del) = (Inr (), sts2)" and sts: "sts = sts1 @ sts2"
    using run(1) False by (auto simp: mysql_process_batch_def split_rows_filter Let_def split: if_splits prod.splits sum.splits)
  obtain t1 where t1: "run_statements server sts1 t = Inr t1" "run_statements server sts2 t1 = Inr t'"
    using run(2) sts by (auto simp: run_statements_append split: sum.splits)
  have pk: "primary_key_columns env s \<noteq> []" "pk_indices env s \<noteq> []"
    using sink length_pk_indices [of env s] keyed_sink_fields [OF sink] by (auto simp: keyed_sink_def)
  have "t1 = fold (row_effect ident F s (primary_key_columns env s) b) ?ins t"
  proof (rule chunks_effect [OF ins n t1(1)])
    fix c t t' assume c: "c \<noteq> []" "set c \<subseteq> set ?ins" and res: "run_statements server (snd (execute_upsert F env exec s b c)) t = Inr t'"
    from c res law(2) have "server (upsert_statement F env s b table database c) t = Inr t'"
      by (simp add: execute_upsert_def send_sent split: sum.splits)
    with c keys show "t' = fold (row_effect ident F s (primary_key_columns env s) b) c t"
      by (intro upsert_effect [OF law sink]) (auto simp: list_all_iff)
  qed
  moreover have "t' = fold (row_effect ident F s (primary_key_columns env s) b) ?del t1"
  proof (rule chunks_effect [OF del n t1(2)])
    fix c t t' assume c: "c \<noteq> []" "set c \<subseteq> set ?del" and res: "run_statements server (snd (execute_delete F env exec s b c)) t = Inr t'"
    from c res law(2) pk have "server (delete_statement F env s b table database c) t = Inr t'"
      by (simp add: execute_delete_def send_sent split: sum.splits)
    with c keys show "t' = fold (row_effect ident F s (primary_key_columns env s) b) c t"
      by (intro delete_effect [OF law sink]) (auto simp: list_all_iff)
  qed
  ultimately show ?thesis by simp
qed

text \<open>
  C31: a batch that succeeds leaves the table as its rows in order would. The server is any that gives the
  statements, as they read, their documented effect; the sink has no name with a backtick, updates on conflict,
  and writes a non-empty primary key; no row has a null in its key, and no row writes a key that an earlier row of
  the batch deletes. Then, whatever the size of the chunks, when the server accepts the statements of a batch that
  succeeds, the table after them is the one that the rows give when each is applied in turn.
\<close>

theorem mysql_batch_in_row_order:
  assumes "target env s = Inr (table, database)" and "server_lawful server ident database table (primary_key_columns env s)"
    and "mysql_process_batch F env exec s b = Some (Inr (), sts)" and "run_statements server sts t = Inr t'"
    and "keyed_sink env s" and "list_all (keyed s (primary_key_columns env s) b) [0..<mb_num_rows b]"
    and "sorted_wrt (\<lambda>i j. is_delete s b i \<and> \<not> is_delete s b j \<longrightarrow>
           row_key ident F s (primary_key_columns env s) b i \<noteq> row_key ident F s (primary_key_columns env s) b j) [0..<mb_num_rows b]"
  shows "t' = fold (row_effect ident F s (primary_key_columns env s) b) [0..<mb_num_rows b] t"
proof -
  let ?eff = "row_effect ident F s (primary_key_columns env s) b"
  have "fold ?eff [0..<mb_num_rows b] =
      fold ?eff (filter (is_delete s b) [0..<mb_num_rows b]) \<circ> fold ?eff (filter (\<lambda>r. \<not> is_delete s b r) [0..<mb_num_rows b])"
    by (rule fold_partition, rule sorted_wrt_mono_rel [OF _ assms(7)]) (blast intro: row_effects_commute)
  with process_batch_effect [OF assms(2,1,3-6)] show ?thesis by simp
qed

section \<open>Examples\<close>

text \<open>How often a mark occurs, and the names, which tell how many rows and columns a statement has.\<close>

definition marks :: "char \<Rightarrow> sql_token list \<Rightarrow> nat" where
  "marks c ts = length (filter (\<lambda>t. t = SqlMark c) ts)"

definition names_of :: "sql_token list \<Rightarrow> string list" where
  "names_of ts = concat (map (\<lambda>t. case t of SqlName n \<Rightarrow> [n] | _ \<Rightarrow> []) ts)"

text \<open>A server that has the sample table and takes only the two statements on its two columns.\<close>

definition sample_server ::
  "unit statement \<Rightarrow> (unit bound list, unit) mysql_table \<Rightarrow> string + (unit bound list, unit) mysql_table" where
  "sample_server st t =
     (case sql_tokens (st_sql st) of
        None \<Rightarrow> Inl ''syntax error''
      | Some ts \<Rightarrow>
          let n = marks CHR ''('' ts in
          if ts = insert_tokens ''db'' ''t'' [''id'', ''v''] [''v''] (n - 2) then
            (case insert_rows id [''id''] [''id'', ''v''] [''v''] (value_rows (n - 2) 2 (st_binds st)) t of
               None \<Rightarrow> Inl ''duplicate key''
             | Some t' \<Rightarrow> Inr t')
          else if ts = delete_tokens ''db'' ''t'' [''id''] n then
            Inr (fold (delete_row id [''id''] [''id'']) (value_rows n 1 (st_binds st)) t)
          else Inl ''no such statement'')"

lemma measures_separated:
  "marks c (separated sep xs) = sum_list (map (marks c) xs) + (length xs - 1) * marks c sep"
  "names_of sep = [] \<Longrightarrow> names_of (separated sep xs) = concat (map names_of xs)"
  by (induction sep xs rule: separated.induct) (simp_all add: marks_def names_of_def algebra_simps)

lemma measures_simps:
  "marks m [] = 0" "marks m (SqlName n # ts) = marks m ts" "marks m (SqlWord w # ts) = marks m ts"
  "marks m (SqlMark c # ts) = (if c = m then Suc (marks m ts) else marks m ts)" "marks m (xs @ ys) = marks m xs + marks m ys"
  "names_of [] = []" "names_of (SqlName n # ts) = n # names_of ts" "names_of (SqlWord w # ts) = names_of ts"
  "names_of (SqlMark c # ts) = names_of ts" "names_of (xs @ ys) = names_of xs @ names_of ys"
  by (simp_all add: marks_def names_of_def)

lemma insert_measures:
  "marks CHR ''('' (insert_tokens database table columns updates n) = 1 + n + length updates"
  "marks CHR ''='' (insert_tokens database table columns updates n) = length updates"
  "names_of (insert_tokens database table columns updates n) =
     database # table # columns @ concat (map (\<lambda>c. [c, c]) updates)"
  by (simp_all add: insert_tokens_def table_tokens_def parenthesised_def commas_def measures_simps measures_separated comp_def
      sum_list_replicate map_replicate_const)

lemma delete_measures:
  "marks CHR ''('' (delete_tokens database table columns n) = n"
  "marks CHR ''='' (delete_tokens database table columns n) = n * length columns"
  by (simp_all add: delete_tokens_def table_tokens_def parenthesised_def measures_simps measures_separated comp_def
      sum_list_replicate map_replicate_const)

lemma insert_not_delete: "insert_tokens database table columns updates n \<noteq> delete_tokens database' table' columns' n'"
  by (simp add: insert_tokens_def delete_tokens_def)

lemma sample_insert_unique:
  assumes "insert_tokens ''db'' ''t'' columns updates n = insert_tokens ''db'' ''t'' [''id'', ''v''] [''v''] m"
  shows "columns = [''id'', ''v''] \<and> updates = [''v''] \<and> n = m"
proof -
  have "length updates = 1" and n: "1 + n + length updates = 1 + m + 1"
    using arg_cong [OF assms, of "marks CHR ''=''"] arg_cong [OF assms, of "marks CHR ''(''"] by (simp_all add: insert_measures)
  then obtain u where u: "updates = [u]" by (auto simp: length_Suc_conv)
  have "columns @ [u, u] = [''id'', ''v''] @ [''v'', ''v'']"
    using arg_cong [OF assms, of names_of] u by (simp add: insert_measures)
  then have "columns = [''id'', ''v'']" "u = ''v''" by (simp_all only: append_eq_append_conv list.size list.inject simp_thms)
  with u n show ?thesis by simp
qed

lemma sample_delete_unique:
  assumes "delete_tokens ''db'' ''t'' columns n = delete_tokens ''db'' ''t'' [''id''] m" and "n > 0" and "set columns = {''id''}"
  shows "columns = [''id''] \<and> n = m"
proof -
  have "n = m" and "n * length columns = m"
    using arg_cong [OF assms(1), of "marks CHR ''=''"] arg_cong [OF assms(1), of "marks CHR ''(''"] by (simp_all add: delete_measures)
  with assms(2,3) show ?thesis by (cases columns) auto
qed

lemma sample_server_lawful: "server_lawful sample_server id ''db'' ''t'' [''id'']"
  unfolding server_lawful_def
proof (intro allI impI conjI; (elim conjE)?)
  fix st t t' columns n updates
  assume ok: "sample_server st t = Inr t'" and reads: "sql_tokens (st_sql st) = Some (insert_tokens ''db'' ''t'' columns updates n)"
  let ?ts = "insert_tokens ''db'' ''t'' columns updates n"
  from ok have same: "?ts = insert_tokens ''db'' ''t'' [''id'', ''v''] [''v''] (marks CHR ''('' ?ts - 2)"
    by (simp add: sample_server_def reads insert_not_delete Let_def split: if_splits)
  have "insert_rows id [''id''] [''id'', ''v''] [''v''] (value_rows (marks CHR ''('' ?ts - 2) 2 (st_binds st)) t = Some t'"
    using ok same by (simp add: sample_server_def reads Let_def split: if_splits option.splits)
  with sample_insert_unique [OF same]
  show "insert_rows id [''id''] columns updates (value_rows n (length columns) (st_binds st)) t = Some t'"
    by (simp add: insert_measures numeral_2_eq_2)
next
  fix st t t' columns n
  assume ok: "sample_server st t = Inr t'" and reads: "sql_tokens (st_sql st) = Some (delete_tokens ''db'' ''t'' columns n)"
    and n: "(0 :: nat) < n" and columns: "set columns = set [''id'']"
  have same: "delete_tokens ''db'' ''t'' columns n = delete_tokens ''db'' ''t'' [''id''] n"
    and t': "t' = fold (delete_row id [''id''] [''id'']) (value_rows n 1 (st_binds st)) t"
    using ok by (simp_all add: sample_server_def reads Let_def insert_not_delete [symmetric] delete_measures split: if_splits)
  from sample_delete_unique [OF same n] columns t'
  show "t' = fold (delete_row id [''id''] columns) (value_rows n (length columns) (st_binds st)) t" by simp
qed

text \<open>Two rows in the first chunk, one in the second, which updates, and a deletion of the other.\<close>

definition sample_statements :: "unit statement list" where
  "sample_statements = snd (the (sample_run sample_rows))"

lemma sample_statements_eq:
  "map (\<lambda>st. (st_sql st, st_binds st)) sample_statements =
     [(''INSERT INTO '' @ table_name ''db'' ''t'' @ '' ('' @ backticked ''id'' @ '', '' @ backticked ''v'' @ '') VALUES (?, ?), (?, ?) ON DUPLICATE KEY UPDATE '' @
       backticked ''v'' @ '' = VALUES('' @ backticked ''v'' @ '')'', [BoundInt 64 1, BoundText ''a'', BoundInt 64 2, BoundText ''b'']),
      (''INSERT INTO '' @ table_name ''db'' ''t'' @ '' ('' @ backticked ''id'' @ '', '' @ backticked ''v'' @ '') VALUES (?, ?) ON DUPLICATE KEY UPDATE '' @
       backticked ''v'' @ '' = VALUES('' @ backticked ''v'' @ '')'', [BoundInt 64 1, BoundText ''c'']),
      (''DELETE FROM '' @ table_name ''db'' ''t'' @ '' WHERE ('' @ backticked ''id'' @ '' = ?)'', [BoundInt 64 2])]"
  unfolding sample_statements_def sample_run_eq by code_simp

lemma sample_accepted: "\<not> isl (run_statements sample_server sample_statements Map.empty)"
  unfolding sample_statements_def sample_run_eq by code_simp

theorem mysql_batch_in_row_order_witness:
  "\<exists>t'. run_statements sample_server sample_statements Map.empty = Inr t' \<and>
     t' = fold (row_effect id sample_foreign sample_sink [''id''] (sample_batch sample_rows)) [0..<4] Map.empty"
proof -
  obtain t' where t': "run_statements sample_server sample_statements Map.empty = Inr t'"
    using sample_accepted by (cases "run_statements sample_server sample_statements Map.empty") auto
  have "mb_num_rows (sample_batch sample_rows) = 4" "keyed_sink (\<lambda>_. None) sample_sink"
    "list_all (keyed sample_sink [''id''] (sample_batch sample_rows)) [0..<4]" by code_simp+
  moreover have "sorted_wrt (\<lambda>i j. is_delete sample_sink (sample_batch sample_rows) i \<and> \<not> is_delete sample_sink (sample_batch sample_rows) j \<longrightarrow>
      row_key id sample_foreign sample_sink [''id''] (sample_batch sample_rows) i \<noteq>
      row_key id sample_foreign sample_sink [''id''] (sample_batch sample_rows) j) [0..<4]"
    by code_simp
  ultimately show ?thesis
    using mysql_batch_in_row_order [OF sample_columns(6), of sample_server id sample_foreign "\<lambda>_. None" "sample_batch sample_rows" sample_statements Map.empty t']
      sample_server_lawful sample_run_ok t'
    by (simp add: sample_columns sample_run_def sample_statements_def)
qed

end
