(* ===== verification/S3Sink.thy ===== *)
theory S3Sink
  imports CdcArrow PluginOptions "HOL-Library.Multiset"
begin

text \<open>
  The S3 sink: \<open>src/src/sinks/s3/partitioning.rs\<close>, \<open>src/src/sinks/s3/sink.rs\<close> and
  \<open>src/src/utils/parquet_compression.rs\<close>. Record batches, the Parquet writer and the object store belong to
  other crates and are parameters; a batch is any type \<open>'b\<close>.
\<close>

section \<open>Compression\<close>

datatype Compression = ZSTD int | GZIP nat | BROTLI nat | SNAPPY | LZ4_RAW | UNCOMPRESSED

datatype CompressionError = UnknownCodec | InvalidLevel string | LevelNotSupported

definition SUPPORTED_CODECS :: string where
  "SUPPORTED_CODECS = ''zstd, gzip, brotli, snappy, lz4_raw or uncompressed''"

definition LEVELED_CODECS :: string where
  "LEVELED_CODECS = ''zstd, gzip or brotli''"

text \<open>The ranges of levels are those of the Parquet crate: the error for a level it refuses.\<close>

record level_checks =
  zstd_level :: "int \<Rightarrow> string option"
  gzip_level :: "nat \<Rightarrow> string option"
  brotli_level :: "nat \<Rightarrow> string option"

definition with_level :: "('l \<Rightarrow> string option) \<Rightarrow> ('l \<Rightarrow> Compression) \<Rightarrow> 'l \<Rightarrow> CompressionError + Compression" where
  "with_level check c l = (case check l of None \<Rightarrow> Inr (c l) | Some e \<Rightarrow> Inl (InvalidLevel e))"

definition or_level :: "nat option \<Rightarrow> nat \<Rightarrow> nat" where
  "or_level level d = (case level of None \<Rightarrow> d | Some l \<Rightarrow> l)"

definition parquet_compression :: "level_checks \<Rightarrow> string \<Rightarrow> nat option \<Rightarrow> CompressionError + Compression" where
  "parquet_compression L codec level =
     (let name = to_ascii_lowercase (trim codec) in
      if name = ''zstd'' then with_level (zstd_level L) ZSTD (as_i32 (int (or_level level 3)))
      else if name = ''gzip'' then with_level (gzip_level L) GZIP (or_level level 6)
      else if name = ''brotli'' then with_level (brotli_level L) BROTLI (or_level level 1)
      else if name \<in> {''snappy'', ''lz4_raw'', ''uncompressed''} \<and> level \<noteq> None then Inl LevelNotSupported
      else if name = ''snappy'' then Inr SNAPPY
      else if name = ''lz4_raw'' then Inr LZ4_RAW
      else if name = ''uncompressed'' then Inr UNCOMPRESSED
      else Inl UnknownCodec)"

definition compression_message :: "string \<Rightarrow> nat option \<Rightarrow> CompressionError \<Rightarrow> PluginError" where
  "compression_message codec level e =
     Internal (case e of
        UnknownCodec \<Rightarrow> ''s3_sink: invalid compression '' @ quoted codec @ '': expected '' @ SUPPORTED_CODECS
      | InvalidLevel e' \<Rightarrow>
          ''s3_sink: invalid compression_level '' @ quoted (show_nat (or_level level 0)) @ '' for '' @ codec @ '': '' @ e'
      | LevelNotSupported \<Rightarrow>
          ''s3_sink: compression_level '' @ quoted (show_nat (or_level level 0)) @ '' is not supported for '' @ codec @
          '': only '' @ LEVELED_CODECS @ '' take a level'')"

definition parse_compression_options :: "level_checks \<Rightarrow> environment \<Rightarrow> PluginOptions \<Rightarrow> PluginError + Compression" where
  "parse_compression_options L env o' =
     (let codec = get_or env o' ''compression'' ''uncompressed'' in
      res_bind
        (case lookup env o' ''compression_level'' of
           None \<Rightarrow> Inr None
         | Some v \<Rightarrow> res_bind (parse_value (parse_unsigned (2 ^ 32 - 1)) o' ''compression_level'' v) (\<lambda>l. Inr (Some l))) (\<lambda>level.
      map_err (compression_message codec level) (parquet_compression L codec level)))"

section \<open>Partitions\<close>

record PartitionConfig =
  pc_columns :: "string list"
  pc_indices :: "nat list"

definition HIVE_DEFAULT_PARTITION :: string where
  "HIVE_DEFAULT_PARTITION = ''__HIVE_DEFAULT_PARTITION__''"

text \<open>The first element that occurred before.\<close>

fun first_duplicate :: "string set \<Rightarrow> string list \<Rightarrow> string option" where
  "first_duplicate seen [] = None"
| "first_duplicate seen (x # xs) = (if x \<in> seen then Some x else first_duplicate (insert x seen) xs)"

definition ascii_alphanumeric :: "char \<Rightarrow> bool" where
  "ascii_alphanumeric c \<longleftrightarrow>
     (let n = (of_char c :: nat) in (48 \<le> n \<and> n \<le> 57) \<or> (65 \<le> n \<and> n \<le> 90) \<or> (97 \<le> n \<and> n \<le> 122))"

text \<open>\<open>alphabetic\<close> says whether the characters of a name beyond ASCII are all alphanumeric.\<close>

definition hive_name :: "(string \<Rightarrow> bool) \<Rightarrow> string \<Rightarrow> bool" where
  "hive_name alphabetic name \<longleftrightarrow>
     list_all (\<lambda>c. (of_char c :: nat) < 128 \<longrightarrow> ascii_alphanumeric c \<or> c = CHR ''_'') name \<and>
     (list_all (\<lambda>c. (of_char c :: nat) < 128) name \<or> alphabetic name)"

fun column_positions :: "(string list \<Rightarrow> string) \<Rightarrow> Schema \<Rightarrow> string list \<Rightarrow> PluginError + nat list" where
  "column_positions debug schema [] = Inr []"
| "column_positions debug schema (c # cs) =
     (case index_of schema c of
        None \<Rightarrow> Inl (Internal (''partition column '' @ quoted c @ '' not found in schema. Available columns: '' @ debug (map field_name schema)))
      | Some i \<Rightarrow> res_bind (column_positions debug schema cs) (\<lambda>is. Inr (i # is)))"

definition partition_config_parse ::
  "(string \<Rightarrow> bool) \<Rightarrow> (string list \<Rightarrow> string) \<Rightarrow> string option \<Rightarrow> Schema \<Rightarrow> PluginError + PartitionConfig option" where
  "partition_config_parse alphabetic debug partition_columns schema =
     (case partition_columns of
        None \<Rightarrow> Inr None
      | Some raw \<Rightarrow>
          if trim raw = [] then Inr None
          else
            (let columns = filter (\<lambda>c. c \<noteq> []) (map trim (split_char CHR '','' raw)) in
             if columns = [] then Inr None
             else
               (case first_duplicate {} columns of
                  Some c \<Rightarrow> Inl (Internal (''duplicate partition column: '' @ quoted c))
                | None \<Rightarrow>
                    (case List.find (\<lambda>c. \<not> hive_name alphabetic c) columns of
                       Some c \<Rightarrow>
                         Inl (Internal (''partition column name '' @ quoted c @
                           '' contains invalid characters. Only alphanumeric characters and underscores are allowed.''))
                     | None \<Rightarrow>
                         res_bind (column_positions debug schema columns) (\<lambda>indices.
                         Inr (Some \<lparr>pc_columns = columns, pc_indices = indices\<rparr>))))))"

text \<open>
  What the sink uses of record batches, of the percent encoding and of the Parquet writer. A \<open>HashMap\<close> is
  iterated in an order of its own.
\<close>

record 'b s3_foreign =
  num_rows :: "'b \<Rightarrow> nat"
  value_is_null :: "'b \<Rightarrow> nat \<Rightarrow> nat \<Rightarrow> bool"
  value_text :: "'b \<Rightarrow> nat \<Rightarrow> nat \<Rightarrow> string + string"
  take_rows :: "'b \<Rightarrow> nat list \<Rightarrow> PluginError + 'b"
  url_encode :: "string \<Rightarrow> string"
  writer_fails :: "Compression \<Rightarrow> 'b \<Rightarrow> string option"
  write_fails :: "Compression \<Rightarrow> 'b \<Rightarrow> string option"
  written_file :: "Compression \<Rightarrow> 'b \<Rightarrow> string + string"
  map_order :: "(string \<times> nat list) list \<Rightarrow> (string \<times> nat list) list"

definition array_value_to_string :: "'b s3_foreign \<Rightarrow> 'b \<Rightarrow> nat \<Rightarrow> nat \<Rightarrow> PluginError + string" where
  "array_value_to_string F b col row = map_err (\<lambda>e. Internal (''failed to format partition value: '' @ e)) (value_text F b col row)"

definition partition_part :: "'b s3_foreign \<Rightarrow> 'b \<Rightarrow> nat \<Rightarrow> string \<times> nat \<Rightarrow> PluginError + string" where
  "partition_part F b row nc =
     (case nc of (name, col) \<Rightarrow>
        if value_is_null F b col row then Inr (name @ ''='' @ HIVE_DEFAULT_PARTITION)
        else res_bind (array_value_to_string F b col row) (\<lambda>v. Inr (name @ ''='' @ url_encode F v)))"

definition build_partition_key :: "'b s3_foreign \<Rightarrow> 'b \<Rightarrow> PartitionConfig \<Rightarrow> nat \<Rightarrow> PluginError + string" where
  "build_partition_key F b config row =
     res_bind (collect_results (partition_part F b row) (zip (pc_columns config) (pc_indices config))) (\<lambda>parts.
     Inr (join_with ''/'' parts))"

definition push_row :: "string \<Rightarrow> nat \<Rightarrow> (string, nat list) hash_map \<Rightarrow> (string, nat list) hash_map" where
  "push_row k row groups =
     (case hm_get groups k of None \<Rightarrow> hm_insert k [row] groups | Some rows \<Rightarrow> hm_insert k (rows @ [row]) groups)"

fun group_rows ::
  "'b s3_foreign \<Rightarrow> 'b \<Rightarrow> PartitionConfig \<Rightarrow> nat list \<Rightarrow> (string, nat list) hash_map \<Rightarrow> PluginError + (string, nat list) hash_map" where
  "group_rows F b config [] groups = Inr groups"
| "group_rows F b config (row # rows) groups =
     res_bind (build_partition_key F b config row) (\<lambda>k.
     group_rows F b config rows (push_row k (row mod 2 ^ 32) groups))"

definition partition_batch :: "'b s3_foreign \<Rightarrow> 'b \<Rightarrow> PartitionConfig \<Rightarrow> PluginError + (string \<times> 'b) list" where
  "partition_batch F b config =
     (if num_rows F b = 0 then Inr []
      else
        res_bind (group_rows F b config [0..<num_rows F b] []) (\<lambda>groups.
        case map_order F groups of
          [(k, _)] \<Rightarrow> Inr [(k, b)]
        | gs \<Rightarrow> collect_results (\<lambda>(k, rows). res_bind (take_rows F b rows) (\<lambda>sub. Inr (k, sub))) gs))"

section \<open>The sink\<close>

record S3Sink =
  s3_opts :: PluginOptions
  s3_schema :: Schema
  s3_store :: "string option"
  s3_bucket :: "string option"
  s3_prefix :: "string option option"
  s3_partition_config :: "PartitionConfig option option"
  s3_compression :: "Compression option"
  s3_running :: bool

definition s3_sink_new :: "Schema \<Rightarrow> (string, string) hash_map \<Rightarrow> S3Sink" where
  "s3_sink_new schema options =
     \<lparr>s3_opts = plugin_options_new options ''s3_sink'' ''STREAMLING__PLUGIN__S3_SINK'', s3_schema = schema,
      s3_store = None, s3_bucket = None, s3_prefix = None, s3_partition_config = None, s3_compression = None, s3_running = True\<rparr>"

text \<open>\<open>OnceLock::set\<close>: the first value stays.\<close>

definition set_once :: "'v \<Rightarrow> 'v option \<Rightarrow> 'v option" where
  "set_once v cell = (case cell of None \<Rightarrow> Some v | Some w \<Rightarrow> Some w)"

text \<open>The answer of the store to a put: stored, a transient failure (\<open>Generic\<close>), or another one.\<close>

datatype put_answer = Stored | Generic string | Permanent string

definition MAX_RETRY_ATTEMPTS :: nat where
  "MAX_RETRY_ATTEMPTS = 10"

definition INITIAL_RETRY_BACKOFF :: nat where
  "INITIAL_RETRY_BACKOFF = 100"

definition MAX_RETRY_BACKOFF :: nat where
  "MAX_RETRY_BACKOFF = 30000"

fun is_retriable_s3_error :: "put_answer \<Rightarrow> bool" where
  "is_retriable_s3_error (Generic e) = True"
| "is_retriable_s3_error _ = False"

fun put_error :: "put_answer \<Rightarrow> string" where
  "put_error (Generic e) = e"
| "put_error (Permanent e) = e"
| "put_error Stored = []"

text \<open>
  The attempts to put one object, with the delays slept between them in milliseconds; \<open>put i\<close> is the answer
  to the \<open>i\<close>-th attempt, counted from one.
\<close>

function put_loop :: "(nat \<Rightarrow> put_answer) \<Rightarrow> nat \<Rightarrow> nat \<Rightarrow> (PluginError + unit) \<times> nat list" where
  "put_loop put attempt backoff =
     (let attempt = attempt + 1 in
      if put attempt = Stored then (Inr (), [])
      else if \<not> is_retriable_s3_error (put attempt) \<or> attempt \<ge> MAX_RETRY_ATTEMPTS
      then (Inl (Internal (''Failed to upload to S3: '' @ put_error (put attempt))), [])
      else (case put_loop put attempt (min (backoff * 2) MAX_RETRY_BACKOFF) of (res, delays) \<Rightarrow> (res, backoff # delays)))"
  by pat_completeness auto

termination put_loop
  by (relation "measure (\<lambda>(put, attempt, backoff). MAX_RETRY_ATTEMPTS - attempt)") auto

declare put_loop.simps [simp del]

text \<open>
  An object is stored under the key as it is built. The source passes it through the path type of the object
  store, which may spell a key differently; that type is not modelled.
\<close>

definition upload_to_s3 :: "S3Sink \<Rightarrow> (nat \<Rightarrow> put_answer) \<Rightarrow> (PluginError + unit) \<times> nat list" where
  "upload_to_s3 s put =
     (if s3_store s = None then (Inl (Internal ''S3 store is not initialized''), [])
      else if s3_bucket s = None then (Inl (Internal ''Bucket is not initialized''), [])
      else put_loop put 0 INITIAL_RETRY_BACKOFF)"

text \<open>\<open>uuid\<close> is the fresh identifier of the file.\<close>

definition build_key :: "S3Sink \<Rightarrow> string \<Rightarrow> string option \<Rightarrow> string" where
  "build_key s uuid segment =
     (let filename = ''batch_'' @ uuid @ ''.parquet'';
          prefix = (case s3_prefix s of Some p \<Rightarrow> p | None \<Rightarrow> None) in
      case (prefix, segment) of
        (Some p, Some seg) \<Rightarrow> p @ ''/'' @ seg @ ''/'' @ filename
      | (Some p, None) \<Rightarrow> p @ ''/'' @ filename
      | (None, Some seg) \<Rightarrow> seg @ ''/'' @ filename
      | (None, None) \<Rightarrow> filename)"

text \<open>Creating the writer, writing the batch and closing the writer, which completes the file.\<close>

definition serialize_to_parquet :: "'b s3_foreign \<Rightarrow> 'b \<Rightarrow> Compression \<Rightarrow> PluginError + string" where
  "serialize_to_parquet F b compression =
     (case writer_fails F compression b of
        Some e \<Rightarrow> Inl (Internal (''Failed to create Parquet writer: '' @ e))
      | None \<Rightarrow>
          (case write_fails F compression b of
             Some e \<Rightarrow> Inl (Internal (''Failed to write batch to Parquet: '' @ e))
           | None \<Rightarrow> map_err (\<lambda>e. Internal (''Failed to close Parquet writer: '' @ e)) (written_file F compression b)))"

definition serialize_blocking ::
  "'b s3_foreign \<Rightarrow> (string \<times> 'b) list \<Rightarrow> Compression \<Rightarrow> PluginError + (string \<times> string) list" where
  "serialize_blocking F items compression =
     collect_results (\<lambda>(k, b). res_bind (serialize_to_parquet F b compression) (\<lambda>data. Inr (k, data))) items"

fun first_error :: "(PluginError + unit) list \<Rightarrow> PluginError + unit" where
  "first_error [] = Inr ()"
| "first_error (r # rs) = res_bind r (\<lambda>_. first_error rs)"

text \<open>
  The uploads of a batch run concurrently, each to its end; \<open>put\<close> answers the attempts for an object, \<open>finish\<close>
  is the order in which they finish, and the objects that were stored are returned with the outcome. \<open>None\<close> is
  a call that never returns: with a concurrency of zero no upload is ever started.
\<close>

type_synonym object = "string \<times> string"

definition upload_all ::
  "S3Sink \<Rightarrow> (object \<Rightarrow> nat \<Rightarrow> put_answer) \<Rightarrow> (object list \<Rightarrow> object list) \<Rightarrow> object list \<Rightarrow> (PluginError + unit) \<times> object list" where
  "upload_all s put finish uploads =
     (let done = finish uploads in
      (first_error (map (\<lambda>u. fst (upload_to_s3 s (put u))) done),
       filter (\<lambda>u. fst (upload_to_s3 s (put u)) = Inr ()) done))"

definition max_concurrent :: "environment \<Rightarrow> S3Sink \<Rightarrow> nat" where
  "max_concurrent env s =
     (case parse_unsigned u64_max (get_or env (s3_opts s) ''max_concurrent_partition_uploads'' ''16'') of Inl _ \<Rightarrow> 16 | Inr n \<Rightarrow> n)"

definition s3_process_batch ::
  "'b s3_foreign \<Rightarrow> environment \<Rightarrow> (nat \<Rightarrow> string) \<Rightarrow> (object \<Rightarrow> nat \<Rightarrow> put_answer) \<Rightarrow> (object list \<Rightarrow> object list) \<Rightarrow> S3Sink \<Rightarrow> 'b
     \<Rightarrow> ((PluginError + unit) \<times> object list) option" where
  "s3_process_batch F env uuid put finish s b =
     (if \<not> s3_running s then Some (Inl (Internal ''S3 sink is not running''), [])
      else if num_rows F b = 0 then Some (Inr (), [])
      else
        (case s3_compression s of
           None \<Rightarrow> Some (Inl (Internal ''Compression is not initialized''), [])
         | Some compression \<Rightarrow>
             (case s3_partition_config s of
                Some (Some config) \<Rightarrow>
                  (case res_bind (partition_batch F b config) (\<lambda>partitions.
                          serialize_blocking F
                            (map (\<lambda>(i, seg, sub). (build_key s (uuid i) (Some seg), sub)) (enumerate 0 partitions)) compression) of
                     Inl e \<Rightarrow> Some (Inl e, [])
                   | Inr uploads \<Rightarrow> if max_concurrent env s = 0 \<and> uploads \<noteq> [] then None else Some (upload_all s put finish uploads))
              | _ \<Rightarrow>
                  (case serialize_blocking F [(build_key s (uuid 0) None, b)] compression of
                     Inl e \<Rightarrow> Some (Inl e, [])
                   | Inr uploads \<Rightarrow> Some (upload_all s put id uploads)))))"

section \<open>Initialization\<close>

fun ok_option :: "'e + 'v \<Rightarrow> 'v option" where
  "ok_option (Inl e) = None"
| "ok_option (Inr v) = Some v"

definition partition_option :: "(string \<Rightarrow> bool) \<Rightarrow> (string list \<Rightarrow> string) \<Rightarrow> environment \<Rightarrow> PluginOptions \<Rightarrow> Schema \<Rightarrow> PluginError + PartitionConfig option" where
  "partition_option alphabetic debug env o' schema =
     partition_config_parse alphabetic debug (ok_option (get_option env o' ''partition_columns'')) schema"

definition s3_describe ::
  "(string \<Rightarrow> bool) \<Rightarrow> (string list \<Rightarrow> string) \<Rightarrow> level_checks \<Rightarrow> environment \<Rightarrow> Schema \<Rightarrow> (string, string) hash_map \<Rightarrow> PluginError + unit" where
  "s3_describe alphabetic debug L env schema options =
     (let o' = plugin_options_new options ''s3_sink'' ''STREAMLING__PLUGIN__S3_SINK'' in
      res_bind (partition_option alphabetic debug env o' schema) (\<lambda>_.
      res_bind (parse_compression_options L env o') (\<lambda>_. Inr ())))"

record store_options =
  so_bucket :: string
  so_region :: string
  so_access_key_id :: string
  so_secret_access_key :: string
  so_token :: "string option"
  so_endpoint :: "string option"
  so_allow_http :: bool

definition trim_end_slashes :: "string \<Rightarrow> string" where
  "trim_end_slashes s = rev (dropWhile (\<lambda>c. c = CHR ''/'') (rev s))"

definition secret_or_fail :: "environment \<Rightarrow> PluginOptions \<Rightarrow> string \<Rightarrow> PluginError + string" where
  "secret_or_fail env o' k =
     ok_or (Internal (''s3_sink: required option '' @ quoted k @ '' is not specified'')) (get_secret env o' k)"

definition allow_http :: "environment \<Rightarrow> PluginOptions \<Rightarrow> bool" where
  "allow_http env o' \<longleftrightarrow>
     (case get_option env o' ''endpoint'' of
        Inl _ \<Rightarrow> False
      | Inr endpoint \<Rightarrow> take 7 (to_ascii_lowercase endpoint) = ''http://'') \<or>
     parse_bool (get_or env o' ''allow_http'' ''false'') = Inr True"

definition store_settings :: "environment \<Rightarrow> PluginOptions \<Rightarrow> PluginError + store_options" where
  "store_settings env o' =
     res_bind (secret_or_fail env o' ''access_key_id'') (\<lambda>access.
     res_bind (secret_or_fail env o' ''secret_access_key'') (\<lambda>secret.
     res_bind (get_option env o' ''region'') (\<lambda>region.
     res_bind (get_option env o' ''bucket'') (\<lambda>bucket.
     Inr \<lparr>so_bucket = bucket, so_region = region, so_access_key_id = access, so_secret_access_key = secret,
          so_token = get_secret env o' ''session_token'', so_endpoint = ok_option (get_option env o' ''endpoint''),
          so_allow_http = allow_http env o'\<rparr>))))"

text \<open>\<open>build\<close> is the object store's builder: the store, or its error.\<close>

definition s3_initialize ::
  "(string \<Rightarrow> bool) \<Rightarrow> (string list \<Rightarrow> string) \<Rightarrow> level_checks \<Rightarrow> environment \<Rightarrow> (store_options \<Rightarrow> string + string) \<Rightarrow> S3Sink
     \<Rightarrow> (PluginError + unit) \<times> S3Sink" where
  "s3_initialize alphabetic debug L env build s =
     (if s3_store s \<noteq> None then (Inr (), s)
      else
        (case partition_option alphabetic debug env (s3_opts s) (s3_schema s) of
           Inl e \<Rightarrow> (Inl e, s)
         | Inr pc \<Rightarrow>
             (let s1 = s\<lparr>s3_partition_config := set_once pc (s3_partition_config s)\<rparr> in
              case parse_compression_options L env (s3_opts s) of
                Inl e \<Rightarrow> (Inl e, s1)
              | Inr compression \<Rightarrow>
                  (let s2 = s1\<lparr>s3_compression := set_once compression (s3_compression s1),
                              s3_prefix := set_once (map_option trim_end_slashes (ok_option (get_option env (s3_opts s) ''prefix'')))
                                             (s3_prefix s1)\<rparr> in
                   case store_settings env (s3_opts s) of
                     Inl e \<Rightarrow> (Inl e, s2)
                   | Inr settings \<Rightarrow>
                       (case build settings of
                          Inl e \<Rightarrow> (Inl (Internal (''Failed to create S3 store: '' @ e)), s2)
                        | Inr store \<Rightarrow>
                            (Inr (), s2\<lparr>s3_store := Some store, s3_bucket := set_once (so_bucket settings) (s3_bucket s2)\<rparr>))))))"

definition s3_terminate :: "S3Sink \<Rightarrow> S3Sink" where
  "s3_terminate s = s\<lparr>s3_running := False\<rparr>"

section \<open>Uploads are retried\<close>

lemma put_loop_result:
  assumes "a < MAX_RETRY_ATTEMPTS"
  shows "fst (put_loop put a w) = Inr () \<longleftrightarrow>
     (\<exists>n. a \<le> n \<and> n < MAX_RETRY_ATTEMPTS \<and> put (Suc n) = Stored \<and> list_all (\<lambda>i. is_retriable_s3_error (put (Suc i))) [a..<n])"
  using assms
proof (induction put a w rule: put_loop.induct)
  case (1 put a w)
  show ?case
  proof (cases "put (Suc a) = Stored")
    case True
    then have "fst (put_loop put a w) = Inr ()" by (simp add: put_loop.simps [of put a w])
    with True "1.prems" show ?thesis by (auto intro!: exI [of _ a])
  next
    case False
    then have "a \<le> n \<and> n < MAX_RETRY_ATTEMPTS \<and> put (Suc n) = Stored \<and> list_all (\<lambda>i. is_retriable_s3_error (put (Suc i))) [a..<n] \<longleftrightarrow>
        is_retriable_s3_error (put (Suc a)) \<and> Suc a \<le> n \<and> n < MAX_RETRY_ATTEMPTS \<and> put (Suc n) = Stored \<and>
        list_all (\<lambda>i. is_retriable_s3_error (put (Suc i))) [Suc a..<n]" for n
      by (cases "a < n") (auto simp: upt_conv_Cons le_less)
    then have later: "(\<exists>n. a \<le> n \<and> n < MAX_RETRY_ATTEMPTS \<and> put (Suc n) = Stored \<and> list_all (\<lambda>i. is_retriable_s3_error (put (Suc i))) [a..<n]) \<longleftrightarrow>
        is_retriable_s3_error (put (Suc a)) \<and>
        (\<exists>n. Suc a \<le> n \<and> n < MAX_RETRY_ATTEMPTS \<and> put (Suc n) = Stored \<and> list_all (\<lambda>i. is_retriable_s3_error (put (Suc i))) [Suc a..<n])"
      by simp
    show ?thesis
    proof (cases "is_retriable_s3_error (put (Suc a)) \<and> Suc a < MAX_RETRY_ATTEMPTS")
      case True
      with False have "fst (put_loop put a w) = fst (put_loop put (Suc a) (min (w * 2) MAX_RETRY_BACKOFF))"
        by (simp add: put_loop.simps [of put a w] case_prod_beta)
      with True False "1.IH" [of "Suc a"] later show ?thesis by simp
    next
      case stop: False
      with False have "fst (put_loop put a w) \<noteq> Inr ()" by (auto simp: put_loop.simps [of put a w] Let_def not_less)
      with stop later show ?thesis by auto
    qed
  qed
qed

lemma put_loop_delays:
  assumes "a < MAX_RETRY_ATTEMPTS" and "w = min (100 * 2 ^ a) MAX_RETRY_BACKOFF"
  shows "\<exists>n. a \<le> n \<and> n < MAX_RETRY_ATTEMPTS \<and> snd (put_loop put a w) = map (\<lambda>i. min (100 * 2 ^ i) MAX_RETRY_BACKOFF) [a..<n]"
  using assms
proof (induction put a w rule: put_loop.induct)
  case (1 put a w)
  show ?case
  proof (cases "put (Suc a) \<noteq> Stored \<and> is_retriable_s3_error (put (Suc a)) \<and> Suc a < MAX_RETRY_ATTEMPTS")
    case True
    have w: "min (w * 2) MAX_RETRY_BACKOFF = min (100 * 2 ^ Suc a) MAX_RETRY_BACKOFF"
      using "1.prems"(2) by (simp add: MAX_RETRY_BACKOFF_def min_def)
    obtain n where n: "Suc a \<le> n" "n < MAX_RETRY_ATTEMPTS"
      "snd (put_loop put (Suc a) (min (w * 2) MAX_RETRY_BACKOFF)) = map (\<lambda>i. min (100 * 2 ^ i) MAX_RETRY_BACKOFF) [Suc a..<n]"
      using "1.IH" [of "Suc a"] True w by auto
    have "snd (put_loop put a w) = w # snd (put_loop put (Suc a) (min (w * 2) MAX_RETRY_BACKOFF))"
      using True by (simp add: put_loop.simps [of put a w] case_prod_beta)
    with n "1.prems"(2) have "snd (put_loop put a w) = map (\<lambda>i. min (100 * 2 ^ i) MAX_RETRY_BACKOFF) [a..<n]"
      by (simp add: upt_conv_Cons)
    with n show ?thesis by (auto intro!: exI [of _ n])
  next
    case False
    then have "snd (put_loop put a w) = []" by (auto simp: put_loop.simps [of put a w] Let_def)
    with "1.prems" show ?thesis by (auto intro!: exI [of _ a])
  qed
qed

text \<open>
  C34: an upload is tried a bounded number of times. On an initialized sink it succeeds exactly when one of the
  first ten attempts is stored and all before it failed with transient errors; the delays between the attempts
  start at 100 ms and double, and are at most nine.
\<close>

theorem s3_upload_retries:
  assumes "s3_store s \<noteq> None" and "s3_bucket s \<noteq> None"
  shows "(fst (upload_to_s3 s put) = Inr () \<longleftrightarrow>
           (\<exists>n < 10. put (Suc n) = Stored \<and> list_all (\<lambda>i. is_retriable_s3_error (put (Suc i))) [0..<n])) \<and>
         (\<exists>n < 10. snd (upload_to_s3 s put) = map (\<lambda>i. 100 * 2 ^ i) [0..<n])"
proof -
  have upload: "upload_to_s3 s put = put_loop put 0 100"
    using assms by (auto simp: upload_to_s3_def INITIAL_RETRY_BACKOFF_def)
  obtain n where n: "n < 10" "snd (put_loop put 0 100) = map (\<lambda>i. min (100 * 2 ^ i) MAX_RETRY_BACKOFF) [0..<n]"
    using put_loop_delays [of 0 100 put] by (auto simp: MAX_RETRY_ATTEMPTS_def MAX_RETRY_BACKOFF_def)
  have "(100 :: nat) * 2 ^ i \<le> MAX_RETRY_BACKOFF" if "i < n" for i
    using that n(1) power_increasing [of i 8 "2 :: nat"] by (simp add: MAX_RETRY_BACKOFF_def)
  then have "snd (put_loop put 0 100) = map (\<lambda>i. 100 * 2 ^ i) [0..<n]"
    using n(2) by (simp add: min_absorb1)
  with n(1) upload put_loop_result [of 0 put 100] show ?thesis
    by (auto simp: MAX_RETRY_ATTEMPTS_def)
qed

definition sample_s3 :: S3Sink where
  "sample_s3 = (s3_sink_new [] [])\<lparr>s3_store := Some ''store'', s3_bucket := Some ''bucket'', s3_compression := Some UNCOMPRESSED\<rparr>"

theorem s3_upload_retries_witness:
  "fst (upload_to_s3 sample_s3 (\<lambda>i. if i < 3 then Generic ''503'' else Stored)) = Inr ()"
proof -
  let ?put = "\<lambda>i :: nat. if i < 3 then Generic ''503'' else Stored"
  have "(2 :: nat) < 10 \<and> ?put (Suc 2) = Stored \<and> list_all (\<lambda>i. is_retriable_s3_error (?put (Suc i))) [0..<2]"
    by code_simp
  then have "\<exists>n < 10. ?put (Suc n) = Stored \<and> list_all (\<lambda>i. is_retriable_s3_error (?put (Suc i))) [0..<n]"
    by (rule exI)
  moreover have "s3_store sample_s3 \<noteq> None" "s3_bucket sample_s3 \<noteq> None" by (simp_all add: sample_s3_def)
  ultimately show ?thesis using s3_upload_retries [of sample_s3 ?put] by blast
qed

section \<open>Partitions split a batch\<close>

text \<open>
  What record batches promise: \<open>rows_of\<close> is the rows of a batch, \<open>take\<close> selects rows by their indices, and a
  hash map is iterated once over each of its entries.
\<close>

definition batches_lawful :: "'b s3_foreign \<Rightarrow> ('b \<Rightarrow> 'r list) \<Rightarrow> bool" where
  "batches_lawful F rows_of \<longleftrightarrow>
     (\<forall>b. num_rows F b = length (rows_of b)) \<and>
     (\<forall>b idx sub. take_rows F b idx = Inr sub \<and> list_all (\<lambda>i. i < num_rows F b) idx \<longrightarrow> rows_of sub = map ((!) (rows_of b)) idx) \<and>
     (\<forall>gs. mset (map_order F gs) = mset gs)"

definition group_of :: "(string, nat list) hash_map \<Rightarrow> string \<Rightarrow> nat list" where
  "group_of groups k = (case hm_get groups k of None \<Rightarrow> [] | Some rows \<Rightarrow> rows)"

definition groups_ok :: "(string, nat list) hash_map \<Rightarrow> bool" where
  "groups_ok groups \<longleftrightarrow> hm_ok groups \<and> list_all (\<lambda>g. snd g \<noteq> []) groups"

lemma push_row_group: "group_of (push_row k row groups) j = group_of groups j @ (if j = k then [row] else [])"
  by (simp add: push_row_def group_of_def split: option.split)

lemma list_all_hm_insert: "list_all (\<lambda>g. snd g \<noteq> []) groups \<Longrightarrow> v \<noteq> [] \<Longrightarrow> list_all (\<lambda>g. snd g \<noteq> []) (hm_insert k v groups)"
  by (induction groups) auto

lemma push_row_ok: "groups_ok groups \<Longrightarrow> groups_ok (push_row k row groups)"
  by (auto simp: groups_ok_def push_row_def list_all_hm_insert split: option.split)

lemma group_rows_spec:
  assumes "group_rows F b config rows groups = Inr gs" and "groups_ok groups" and "list_all (\<lambda>r. r < 2 ^ 32) rows"
  shows "groups_ok gs \<and> list_all (\<lambda>r. \<exists>k. build_partition_key F b config r = Inr k) rows \<and>
     group_of gs k = group_of groups k @ filter (\<lambda>r. build_partition_key F b config r = Inr k) rows"
  using assms
proof (induction F b config rows groups rule: group_rows.induct)
  case (2 F b config row rows groups)
  then obtain j where j: "build_partition_key F b config row = Inr j"
    and rest: "group_rows F b config rows (push_row j row groups) = Inr gs"
    by (auto simp: outcome)
  with 2 have step: "row mod 2 ^ 32 = row" by simp
  from j rest 2 have "groups_ok gs \<and> list_all (\<lambda>r. \<exists>k. build_partition_key F b config r = Inr k) rows \<and>
      group_of gs k = group_of (push_row j row groups) k @ filter (\<lambda>r. build_partition_key F b config r = Inr k) rows"
    by (intro "2.IH" [of j, unfolded step]) (auto intro: push_row_ok)
  with j show ?case by (auto simp: push_row_group)
qed simp

text \<open>The groups of a whole batch: one for each key that occurs, with the rows that have it, in order.\<close>

lemma group_rows_entries:
  assumes "group_rows F b config [0..<n] [] = Inr gs" and "n \<le> 2 ^ 32"
  shows "distinct (map fst gs)"
    and "(k, rows) \<in> set gs \<Longrightarrow> rows = filter (\<lambda>r. build_partition_key F b config r = Inr k) [0..<n] \<and> rows \<noteq> []"
    and "r < n \<Longrightarrow> \<exists>k \<in> fst ` set gs. build_partition_key F b config r = Inr k"
proof -
  have spec: "groups_ok gs \<and> list_all (\<lambda>r. \<exists>k. build_partition_key F b config r = Inr k) [0..<n] \<and>
     group_of gs k = filter (\<lambda>r. build_partition_key F b config r = Inr k) [0..<n]" for k
    using group_rows_spec [OF assms(1), of k] assms(2) by (simp add: groups_ok_def group_of_def list_all_iff)
  then show dist: "distinct (map fst gs)" by (simp add: groups_ok_def hm_ok_def)
  show "rows = filter (\<lambda>r. build_partition_key F b config r = Inr k) [0..<n] \<and> rows \<noteq> []" if "(k, rows) \<in> set gs"
    using spec [of k] map_of_is_SomeI [OF dist that] that by (auto simp: groups_ok_def group_of_def list_all_iff)
  show "\<exists>k \<in> fst ` set gs. build_partition_key F b config r = Inr k" if r: "r < n"
  proof -
    have "list_all (\<lambda>r. \<exists>k. build_partition_key F b config r = Inr k) [0..<n]" using spec by blast
    then have "\<exists>k. build_partition_key F b config r = Inr k" using r by (simp add: list_all_iff)
    then obtain k where k: "build_partition_key F b config r = Inr k" ..
    with spec [of k] r have "group_of gs k \<noteq> []" by (auto simp: filter_empty_conv)
    then have "k \<in> fst ` set gs" by (auto simp: group_of_def split: option.splits dest!: map_of_SomeD intro: rev_image_eqI)
    with k show ?thesis by blast
  qed
qed

text \<open>What a partition of a batch is: each output has the rows of its key, in order, and no row is left out.\<close>

definition splits_batch :: "'b s3_foreign \<Rightarrow> ('b \<Rightarrow> 'r list) \<Rightarrow> 'b \<Rightarrow> PartitionConfig \<Rightarrow> (string \<times> 'b) list \<Rightarrow> bool" where
  "splits_batch F rows_of b config outs \<longleftrightarrow>
     distinct (map fst outs) \<and>
     list_all (\<lambda>(k, sub). rows_of sub \<noteq> [] \<and>
       rows_of sub = map ((!) (rows_of b)) (filter (\<lambda>r. build_partition_key F b config r = Inr k) [0..<length (rows_of b)])) outs \<and>
     list_all (\<lambda>r. \<exists>k \<in> fst ` set outs. build_partition_key F b config r = Inr k) [0..<length (rows_of b)]"

lemma single_group:
  assumes "group_rows F b config [0..<n] [] = Inr gs" and "n \<le> 2 ^ 32" and "gs = [(k, rows)]"
  shows "filter (\<lambda>r. build_partition_key F b config r = Inr k) [0..<n] = [0..<n]"
  using group_rows_entries(3) [OF assms(1,2)] assms(3) by (auto intro!: filter_True)

lemma list_all2_in_set2: "list_all2 P xs ys \<Longrightarrow> y \<in> set ys \<Longrightarrow> \<exists>x \<in> set xs. P x y"
  by (induction rule: list_all2_induct) auto

lemma groups_split_batch:
  assumes "group_rows F b config [0..<length (rows_of b)] [] = Inr gs" and "length (rows_of b) \<le> 2 ^ 32"
    and "mset gs' = mset gs"
    and "list_all2 (\<lambda>(k, rows) (k', sub). k' = k \<and> rows_of sub = map ((!) (rows_of b)) rows) gs' outs"
  shows "splits_batch F rows_of b config outs"
proof -
  note entries = group_rows_entries [OF assms(1,2)]
  have set: "set gs' = set gs" using assms(3) by (rule mset_eq_setD)
  have fsts: "map fst outs = map fst gs'"
    using assms(4) by (induction rule: list_all2_induct) auto
  have dist: "distinct (map fst outs)"
    using entries(1) assms(3) unfolding fsts by (metis mset_eq_imp_distinct_iff mset_map)
  have all: "rows_of sub \<noteq> [] \<and> rows_of sub = map ((!) (rows_of b)) (filter (\<lambda>r. build_partition_key F b config r = Inr k) [0..<length (rows_of b)])"
    if "(k, sub) \<in> set outs" for k sub
  proof -
    obtain rows where "(k, rows) \<in> set gs'" "rows_of sub = map ((!) (rows_of b)) rows"
      using list_all2_in_set2 [OF assms(4) \<open>(k, sub) \<in> set outs\<close>] by auto
    with entries(2) [of k rows] set show ?thesis by auto
  qed
  have "fst ` set outs = fst ` set gs" using arg_cong [OF fsts, of set] set by simp
  with dist all entries(3) show ?thesis by (auto simp: splits_batch_def list_all_iff)
qed

lemma partition_batch_splits:
  assumes "batches_lawful F rows_of" and "partition_batch F b config = Inr outs" and "num_rows F b \<le> 2 ^ 32"
  shows "splits_batch F rows_of b config outs"
proof (cases "num_rows F b = 0")
  case True
  with assms(1,2) show ?thesis by (auto simp: batches_lawful_def partition_batch_def splits_batch_def)
next
  case False
  have rows: "num_rows F b = length (rows_of b)" and perm: "mset (map_order F gs) = mset gs"
    and taken: "take_rows F b idx = Inr sub \<Longrightarrow> list_all (\<lambda>i. i < length (rows_of b)) idx \<Longrightarrow> rows_of sub = map ((!) (rows_of b)) idx" for gs idx sub
    using assms(1) by (auto simp: batches_lawful_def)
  obtain gs where gs: "group_rows F b config [0..<length (rows_of b)] [] = Inr gs"
    using assms(2) False by (auto simp: partition_batch_def outcome rows)
  note entries = group_rows_entries [OF gs assms(3) [unfolded rows]]
  have "list_all2 (\<lambda>(k, rows) (k', sub). k' = k \<and> rows_of sub = map ((!) (rows_of b)) rows) (map_order F gs) outs"
  proof (cases "\<exists>k rs. map_order F gs = [(k, rs)]")
    case True
    then obtain k rs where one: "map_order F gs = [(k, rs)]" by blast
    with perm [of gs] have "gs = [(k, rs)]" by simp
    with single_group [OF gs assms(3) [unfolded rows]] entries(2) [of k rs] have "rs = [0..<length (rows_of b)]" by simp
    with one assms(2) False gs show ?thesis by (auto simp: partition_batch_def rows map_nth)
  next
    case several: False
    then have "collect_results (\<lambda>(k, rows). res_bind (take_rows F b rows) (\<lambda>sub. Inr (k, sub))) (map_order F gs) = Inr outs"
      using assms(2) False gs by (auto simp: partition_batch_def rows split: list.splits prod.splits)
    then have "list_all2 (\<lambda>(k, rows) out. res_bind (take_rows F b rows) (\<lambda>sub. Inr (k, sub)) = Inr out) (map_order F gs) outs"
      by (simp add: collect_results_Inr_iff case_prod_unfold)
    then show ?thesis
    proof (rule list.rel_mono_strong, clarify)
      fix k rs k' sub
      assume "(k, rs) \<in> set (map_order F gs)" and "res_bind (take_rows F b rs) (\<lambda>sub. Inr (k, sub)) = Inr (k', sub)"
      moreover have "list_all (\<lambda>i. i < length (rows_of b)) rs"
        using calculation(1) entries(2) [of k rs] mset_eq_setD [OF perm [of gs]] by (auto simp: list_all_iff)
      ultimately show "k' = k \<and> rows_of sub = map ((!) (rows_of b)) rs" using taken by (auto simp: outcome)
    qed
  qed
  with groups_split_batch [of F b config rows_of, OF gs assms(3) [unfolded rows] perm] show ?thesis by blast
qed

section \<open>Partition keys\<close>

text \<open>The percent encoding keeps texts apart and leaves no slash.\<close>

definition encoding_lawful :: "(string \<Rightarrow> string) \<Rightarrow> bool" where
  "encoding_lawful enc \<longleftrightarrow> inj enc \<and> (\<forall>v. CHR ''/'' \<notin> set (enc v))"

text \<open>The value of a column at a row: nothing for a null, or its text.\<close>

definition partition_value :: "'b s3_foreign \<Rightarrow> 'b \<Rightarrow> nat \<Rightarrow> nat \<Rightarrow> (string + string) option" where
  "partition_value F b row col = (if value_is_null F b col row then None else Some (value_text F b col row))"

lemma join_with_inj:
  assumes "length xs = length ys" and "join_with ''/'' xs = join_with ''/'' ys"
    and "list_all (\<lambda>x. CHR ''/'' \<notin> set x) xs" and "list_all (\<lambda>x. CHR ''/'' \<notin> set x) ys"
  shows "xs = ys"
  using assms
proof (induction xs ys rule: list_induct2)
  case (Cons x xs y ys)
  show ?case
  proof (cases xs)
    case Nil
    with Cons show ?thesis by simp
  next
    case (Cons x' xs')
    with \<open>length xs = length ys\<close> obtain y' ys' where ys: "ys = y' # ys'" by (metis length_Suc_conv)
    have once: "split_once CHR ''/'' (z @ ''/'' @ rest) = Some (z, rest)" if "CHR ''/'' \<notin> set z" for z rest
      using that by (simp add: split_once_Some_iff)
    have "x @ ''/'' @ join_with ''/'' xs = y @ ''/'' @ join_with ''/'' ys"
      using Cons.prems(1) Cons ys by simp
    moreover have "CHR ''/'' \<notin> set x" "CHR ''/'' \<notin> set y" using Cons.prems(2,3) by simp_all
    ultimately have "Some (x, join_with ''/'' xs) = Some (y, join_with ''/'' ys)"
      using once by metis
    with Cons.IH Cons.prems show ?thesis by simp
  qed
qed simp

lemma column_positions_length: "column_positions debug schema cs = Inr is \<Longrightarrow> length is = length cs"
  by (induction cs arbitrary: "is") (auto simp: outcome split: option.splits)

lemma parsed_config:
  assumes "partition_config_parse alphabetic debug cols schema = Inr (Some config)"
  shows "length (pc_indices config) = length (pc_columns config)" "list_all (\<lambda>c. CHR ''/'' \<notin> set c) (pc_columns config)"
proof -
  obtain columns where columns: "List.find (\<lambda>c. \<not> hive_name alphabetic c) columns = None"
    "column_positions debug schema columns = Inr (pc_indices config)" "pc_columns config = columns"
    using assms by (auto simp: partition_config_parse_def Let_def outcome split: option.splits if_splits)
  from columns(2,3) show "length (pc_indices config) = length (pc_columns config)"
    by (simp add: column_positions_length)
  have "CHR ''/'' \<notin> set c" if "hive_name alphabetic c" for c
    using that by (force simp: hive_name_def list_all_iff ascii_alphanumeric_def)
  with columns(1,3) show "list_all (\<lambda>c. CHR ''/'' \<notin> set c) (pc_columns config)"
    by (auto simp: find_None_iff list_all_iff)
qed

fun encoded :: "'b s3_foreign \<Rightarrow> (string + string) option \<Rightarrow> string" where
  "encoded F None = HIVE_DEFAULT_PARTITION"
| "encoded F (Some (Inr v)) = url_encode F v"
| "encoded F (Some (Inl e)) = []"

lemma partition_part_Inr:
  "partition_part F b row (name, col) = Inr p \<longleftrightarrow>
     p = name @ ''='' @ encoded F (partition_value F b row col) \<and> (\<forall>e. partition_value F b row col \<noteq> Some (Inl e))"
  by (cases "value_text F b col row")
     (auto simp: partition_part_def partition_value_def array_value_to_string_def)

lemma build_partition_key_Inr:
  assumes "build_partition_key F b config row = Inr k" and "length (pc_indices config) = length (pc_columns config)"
  shows "k = join_with ''/'' (map (\<lambda>(name, col). name @ ''='' @ encoded F (partition_value F b row col)) (zip (pc_columns config) (pc_indices config)))"
    and "col \<in> set (pc_indices config) \<Longrightarrow> partition_value F b row col \<noteq> Some (Inl e)"
proof -
  let ?zip = "zip (pc_columns config) (pc_indices config)"
  obtain parts where parts: "list_all2 (\<lambda>nc p. partition_part F b row nc = Inr p) ?zip parts" and k: "k = join_with ''/'' parts"
    using assms(1) by (auto simp: build_partition_key_def outcome collect_results_Inr_iff)
  then have "list_all2 (\<lambda>nc p. p = (case nc of (name, col) \<Rightarrow> name @ ''='' @ encoded F (partition_value F b row col))) ?zip parts"
    by (auto simp: partition_part_Inr elim!: list.rel_mono_strong)
  then have "parts = map (\<lambda>(name, col). name @ ''='' @ encoded F (partition_value F b row col)) ?zip"
    by (induction rule: list_all2_induct) auto
  with k show "k = join_with ''/'' (map (\<lambda>(name, col). name @ ''='' @ encoded F (partition_value F b row col)) ?zip)" by simp
  show "partition_value F b row col \<noteq> Some (Inl e)" if "col \<in> set (pc_indices config)"
  proof -
    obtain i where i: "i < length (pc_indices config)" "pc_indices config ! i = col"
      using \<open>col \<in> set (pc_indices config)\<close> by (auto simp: in_set_conv_nth)
    with parts assms(2) show ?thesis
      by (auto simp: list_all2_conv_all_nth partition_part_Inr)
  qed
qed

lemma encoded_inj:
  assumes "encoding_lawful (url_encode F)" and "encoded F x = encoded F y"
    and "\<And>e. x \<noteq> Some (Inl e)" and "\<And>e. y \<noteq> Some (Inl e)"
    and "\<And>v. url_encode F v = HIVE_DEFAULT_PARTITION \<Longrightarrow> x \<noteq> Some (Inr v) \<and> y \<noteq> Some (Inr v)"
  shows "x = y"
  by (cases "(F, x)" rule: encoded.cases; cases "(F, y)" rule: encoded.cases)
     (use assms in \<open>auto simp: encoding_lawful_def inj_eq dest: sym\<close>)

lemma equal_keys_equal_values:
  assumes "partition_config_parse alphabetic debug cols schema = Inr (Some config)"
    and "encoding_lawful (url_encode F)"
    and "build_partition_key F b config r = Inr k" and "build_partition_key F b config r' = Inr k"
    and "\<And>v col. url_encode F v = HIVE_DEFAULT_PARTITION \<Longrightarrow>
       partition_value F b r col \<noteq> Some (Inr v) \<and> partition_value F b r' col \<noteq> Some (Inr v)"
  shows "map (partition_value F b r) (pc_indices config) = map (partition_value F b r') (pc_indices config)"
proof -
  let ?zip = "zip (pc_columns config) (pc_indices config)"
  let ?part = "\<lambda>row (name, col). name @ ''='' @ encoded F (partition_value F b row col)"
  note len = parsed_config(1) [OF assms(1)] and names = parsed_config(2) [OF assms(1)]
  note k = build_partition_key_Inr [OF assms(3) len] and k' = build_partition_key_Inr [OF assms(4) len]
  have "CHR ''/'' \<notin> set HIVE_DEFAULT_PARTITION" by (simp add: HIVE_DEFAULT_PARTITION_def)
  then have "CHR ''/'' \<notin> set (encoded F x)" for x
    using assms(2) by (cases "(F, x)" rule: encoded.cases) (auto simp: encoding_lawful_def)
  then have no_slash: "list_all (\<lambda>p. CHR ''/'' \<notin> set p) (map (?part row) ?zip)" for row
    using names by (auto simp: list_all_iff dest: set_zip_leftD)
  have "map (?part r) ?zip = map (?part r') ?zip"
    by (rule join_with_inj) (use k(1) k'(1) no_slash in auto)
  moreover have "\<exists>name. (name, col) \<in> set ?zip" if "col \<in> set (pc_indices config)" for col
    using that len by (auto simp: set_zip in_set_conv_nth)
  ultimately have "encoded F (partition_value F b r col) = encoded F (partition_value F b r' col)" if "col \<in> set (pc_indices config)" for col
    using that by (fastforce simp: map_eq_conv)
  then show ?thesis
    using encoded_inj [OF assms(2)] k(2) k'(2) assms(5) by (auto intro!: map_cong)
qed

lemma collect_results_cong: "(\<And>x. x \<in> set xs \<Longrightarrow> f x = g x) \<Longrightarrow> collect_results f xs = collect_results g xs"
  by (induction xs) auto

lemma equal_values_equal_keys:
  assumes "length (pc_indices config) = length (pc_columns config)"
    and "map (partition_value F b r) (pc_indices config) = map (partition_value F b r') (pc_indices config)"
  shows "build_partition_key F b config r = build_partition_key F b config r'"
proof -
  have part: "partition_part F b row (name, col) =
      (case partition_value F b row col of
         None \<Rightarrow> Inr (name @ ''='' @ HIVE_DEFAULT_PARTITION)
       | Some t \<Rightarrow> res_bind (map_err (\<lambda>e. Internal (''failed to format partition value: '' @ e)) t) (\<lambda>v. Inr (name @ ''='' @ url_encode F v)))"
    for row name col
    by (simp add: partition_part_def partition_value_def array_value_to_string_def)
  have "partition_value F b r col = partition_value F b r' col" if "col \<in> set (pc_indices config)" for col
    using assms(2) that by (simp add: map_eq_conv)
  then have "partition_part F b r (name, col) = partition_part F b r' (name, col)" if "col \<in> set (pc_indices config)" for name col
    unfolding part using that by simp
  then have "partition_part F b r nc = partition_part F b r' nc" if "nc \<in> set (zip (pc_columns config) (pc_indices config))" for nc
    using that by (cases nc) (blast dest: set_zip_rightD)
  then have "collect_results (partition_part F b r) (zip (pc_columns config) (pc_indices config)) =
      collect_results (partition_part F b r') (zip (pc_columns config) (pc_indices config))"
    by (rule collect_results_cong)
  then show ?thesis by (simp only: build_partition_key_def)
qed

text \<open>
  C33: a batch is partitioned by value. With parsed partition columns every row of the batch is in exactly one of
  the partitions, in the order of the batch, and two rows are in the same one exactly when their values in the
  partition columns are the same, null or text, as long as no text is encoded as the name that stands for null.
\<close>

theorem s3_partitions_by_value:
  assumes "batches_lawful F rows_of" and "encoding_lawful (url_encode F)"
    and "partition_config_parse alphabetic debug cols schema = Inr (Some config)"
    and "partition_batch F b config = Inr outs" and "num_rows F b \<le> 2 ^ 32"
    and "r < num_rows F b" and "r' < num_rows F b"
    and "\<And>v col. url_encode F v = HIVE_DEFAULT_PARTITION \<Longrightarrow>
       partition_value F b r col \<noteq> Some (Inr v) \<and> partition_value F b r' col \<noteq> Some (Inr v)"
  shows "splits_batch F rows_of b config outs \<and>
     (build_partition_key F b config r = build_partition_key F b config r' \<longleftrightarrow>
      map (partition_value F b r) (pc_indices config) = map (partition_value F b r') (pc_indices config))"
proof -
  note splits = partition_batch_splits [OF assms(1,4,5)]
  moreover have "\<exists>k. build_partition_key F b config r = Inr k"
    using splits assms(1,6) by (auto simp: splits_batch_def list_all_iff batches_lawful_def)
  ultimately show ?thesis
    using equal_keys_equal_values [OF assms(3,2) _ _ assms(8)]
      equal_values_equal_keys [OF parsed_config(1) [OF assms(3)]] by metis
qed

section \<open>A processed batch is stored\<close>

lemma mset_filter_by_key:
  assumes "distinct ks" and "\<And>x. x \<in> set xs \<Longrightarrow> f x \<in> set ks"
  shows "mset (concat (map (\<lambda>k. filter (\<lambda>x. f x = k) xs) ks)) = mset xs"
  using assms
proof (induction ks arbitrary: xs)
  case (Cons k ks)
  let ?rest = "filter (\<lambda>x. f x \<noteq> k) xs"
  have "filter (\<lambda>x. f x = j) xs = filter (\<lambda>x. f x = j) ?rest" if "j \<in> set ks" for j
    using that Cons.prems(1) by (auto intro: filter_cong)
  then have "concat (map (\<lambda>j. filter (\<lambda>x. f x = j) xs) ks) = concat (map (\<lambda>j. filter (\<lambda>x. f x = j) ?rest) ks)"
    by (metis (mono_tags, lifting) map_cong)
  moreover have "mset (concat (map (\<lambda>j. filter (\<lambda>x. f x = j) ?rest) ks)) = mset ?rest"
    using Cons.prems by (intro Cons.IH) auto
  moreover have "mset (filter (\<lambda>x. f x = k) xs) + mset ?rest = mset xs"
    using multiset_partition [of "mset xs" "\<lambda>x. f x = k"] by simp
  ultimately show ?case by simp
next
  case Nil
  then show ?case by (cases xs) auto
qed

lemma splits_batch_mset:
  assumes "splits_batch F rows_of b config outs"
  shows "mset (concat (map (\<lambda>(k, sub). rows_of sub) outs)) = mset (rows_of b)"
proof -
  let ?key = "build_partition_key F b config" and ?n = "[0..<length (rows_of b)]"
  have "map (\<lambda>(k, sub). rows_of sub) outs = map (\<lambda>(k, sub). map ((!) (rows_of b)) (filter (\<lambda>r. ?key r = Inr k) ?n)) outs"
    using assms by (auto simp: splits_batch_def list_all_iff)
  also have "\<dots> = map (\<lambda>k. map ((!) (rows_of b)) (filter (\<lambda>r. ?key r = k) ?n)) (map Inr (map fst outs))"
    by (simp add: case_prod_unfold)
  finally have "concat (map (\<lambda>(k, sub). rows_of sub) outs) = map ((!) (rows_of b)) (concat (map (\<lambda>k. filter (\<lambda>r. ?key r = k) ?n) (map Inr (map fst outs))))"
    by (simp only: map_concat map_map comp_def)
  moreover have "mset (concat (map (\<lambda>k. filter (\<lambda>r. ?key r = k) ?n) (map Inr (map fst outs)))) = mset ?n"
    using assms by (intro mset_filter_by_key) (auto simp: splits_batch_def list_all_iff distinct_map inj_on_def)
  ultimately have "mset (concat (map (\<lambda>(k, sub). rows_of sub) outs)) = image_mset ((!) (rows_of b)) (mset ?n)"
    by (metis mset_map)
  then show ?thesis by (metis map_nth mset_map)
qed

lemma splits_batch_count:
  assumes "splits_batch F rows_of b config outs"
  shows "length outs \<le> length (rows_of b)"
proof -
  have "length outs \<le> length (concat (map (\<lambda>(k, sub). rows_of sub) outs))"
    if "list_all (\<lambda>(k, sub). rows_of sub \<noteq> []) outs" for outs :: "(string \<times> 'a) list"
    using that by (induction outs) (auto simp: neq_Nil_conv)
  from this [of outs] assms show ?thesis
    using arg_cong [OF splits_batch_mset [OF assms], of size] by (auto simp: splits_batch_def list_all_iff)
qed

lemma first_error_Inr: "first_error rs = Inr () \<Longrightarrow> list_all (\<lambda>r. r = Inr ()) rs"
  by (induction rs) (auto simp: outcome)

lemma upload_all_Inr:
  assumes "upload_all s put finish uploads = (Inr (), stored)"
  shows "stored = finish uploads"
  using assms first_error_Inr [of "map (\<lambda>u. fst (upload_to_s3 s (put u))) (finish uploads)"]
  by (auto simp: upload_all_def Let_def list_all_iff)

lemma serialize_blocking_Inr:
  assumes "serialize_blocking F items c = Inr uploads"
    and "\<And>b data. serialize_to_parquet F b c = Inr data \<Longrightarrow> decode data = rows_of b"
  shows "map fst uploads = map fst items" "map (\<lambda>(k, d). decode d) uploads = map (\<lambda>(k, b). rows_of b) items"
proof -
  have "list_all2 (\<lambda>(k, b) u. fst u = k \<and> (\<lambda>(k, d). decode d) u = rows_of b) items uploads"
    using assms(1) unfolding serialize_blocking_def collect_results_Inr_iff
    by (rule list.rel_mono_strong) (auto simp: outcome assms(2) split: prod.splits)
  then show "map fst uploads = map fst items" "map (\<lambda>(k, d). decode d) uploads = map (\<lambda>(k, b). rows_of b) items"
    by (induction rule: list_all2_induct) auto
qed

lemma build_key_suffix: "\<exists>p. build_key s u seg = p @ u @ ''.parquet''"
  by (auto simp: build_key_def Let_def split: option.splits)

lemma build_key_inj:
  assumes "build_key s u seg = build_key s u' seg'" and "length u = length u'"
  shows "u = u'"
  using build_key_suffix [of s u seg] build_key_suffix [of s u' seg'] assms by auto

definition keyed_partitions :: "S3Sink \<Rightarrow> (nat \<Rightarrow> string) \<Rightarrow> (string \<times> 'b) list \<Rightarrow> (string \<times> 'b) list" where
  "keyed_partitions s uuid partitions = map (\<lambda>(i, seg, sub). (build_key s (uuid i) (Some seg), sub)) (enumerate 0 partitions)"

lemma keyed_partitions_distinct:
  assumes "inj_on uuid {..<length partitions}" and "\<And>i. length (uuid i) = 36"
  shows "distinct (map fst (keyed_partitions s uuid partitions))"
proof -
  have "map fst (keyed_partitions s uuid partitions) = map (\<lambda>i. build_key s (uuid i) (Some (fst (partitions ! i)))) [0..<length partitions]"
    by (rule nth_equalityI) (simp_all add: keyed_partitions_def nth_enumerate_eq case_prod_unfold)
  moreover have "inj_on (\<lambda>i. build_key s (uuid i) (Some (fst (partitions ! i)))) {..<length partitions}"
    using build_key_inj assms by (fastforce simp: inj_on_def)
  ultimately show ?thesis by (simp add: distinct_map lessThan_atLeast0)
qed

lemma keyed_partitions_rows: "map (\<lambda>(k, b). rows_of b) (keyed_partitions s uuid partitions) = map (\<lambda>(k, b). rows_of b) partitions"
  by (rule nth_equalityI) (simp_all add: keyed_partitions_def nth_enumerate_eq case_prod_unfold)

text \<open>What one call stores when it succeeds: the serialized items of the batch.\<close>

lemma process_batch_stored:
  assumes "s3_process_batch F env uuid put finish s b = Some (Inr (), stored)" and "num_rows F b \<noteq> 0"
    and "\<And>us. mset (finish us) = mset us"
  shows "\<exists>items c uploads. serialize_blocking F items c = Inr uploads \<and> mset stored = mset uploads \<and>
     (items = [(build_key s (uuid 0) None, b)] \<or>
      (\<exists>config partitions. partition_batch F b config = Inr partitions \<and> items = keyed_partitions s uuid partitions))"
  using assms
  by (fastforce simp: s3_process_batch_def outcome keyed_partitions_def [symmetric] split: if_splits option.splits sum.splits
      dest!: upload_all_Inr)

text \<open>
  C32: a batch that succeeds is stored whole. When processing a batch returns without an error, the objects that
  were put in the bucket have different keys, and together they hold every row of the batch as often as the
  batch does, whatever the partitions, the retries and the order in which the uploads finish.
\<close>

theorem s3_batch_stored:
  assumes "batches_lawful F rows_of" and "\<And>c b data. serialize_to_parquet F b c = Inr data \<Longrightarrow> decode data = rows_of b"
    and "\<And>us. mset (finish us) = mset us" and "inj_on uuid {..<num_rows F b}" and "\<And>i. length (uuid i) = 36"
    and "num_rows F b \<le> 2 ^ 32"
    and "s3_process_batch F env uuid put finish s b = Some (Inr (), stored)"
  shows "mset (concat (map (\<lambda>(k, data). decode data) stored)) = mset (rows_of b) \<and> distinct (map fst stored)"
proof (cases "num_rows F b = 0")
  case True
  then have "stored = []" "rows_of b = []"
    using assms(1,7) by (auto simp: s3_process_batch_def batches_lawful_def split: if_splits)
  then show ?thesis by simp
next
  case False
  then obtain items c uploads where up: "serialize_blocking F items c = Inr uploads" "mset stored = mset uploads"
    and items: "items = [(build_key s (uuid 0) None, b)] \<or>
      (\<exists>config partitions. partition_batch F b config = Inr partitions \<and> items = keyed_partitions s uuid partitions)"
    using process_batch_stored [OF assms(7) False assms(3)] by blast
  note ser = serialize_blocking_Inr [OF up(1) assms(2)]
  have rows: "num_rows F b = length (rows_of b)" using assms(1) by (simp add: batches_lawful_def)
  have "mset (concat (map (\<lambda>(k, b). rows_of b) (keyed_partitions s uuid ps))) = mset (rows_of b) \<and>
      distinct (map fst (keyed_partitions s uuid ps))" if "partition_batch F b config = Inr ps" for config ps
    using partition_batch_splits [OF assms(1) that assms(6)] assms(4,5)
    by (auto simp: rows keyed_partitions_rows splits_batch_mset dest: splits_batch_count
        intro!: keyed_partitions_distinct elim: inj_on_subset)
  with items have "mset (concat (map (\<lambda>(k, b). rows_of b) items)) = mset (rows_of b) \<and> distinct (map fst items)"
    by auto
  moreover have "mset (concat (map (\<lambda>(k, data). decode data) stored)) = mset (concat (map (\<lambda>(k, data). decode data) uploads))"
    using arg_cong [OF up(2), of "\<lambda>m. \<Sum>\<^sub># (image_mset (\<lambda>(k, data). mset (decode data)) m)"]
    by (simp add: mset_concat sum_mset_sum_list [symmetric] case_prod_unfold comp_def)
  moreover have "distinct (map fst stored) \<longleftrightarrow> distinct (map fst uploads)"
    by (metis mset_eq_imp_distinct_iff mset_map up(2))
  ultimately show ?thesis using ser by simp
qed

section \<open>Examples\<close>

text \<open>
  Batches of one-letter rows, partitioned by their letter, with the letter \<open>0\<close> for a null, an encoding by two
  letters for each byte and files that hold the rows as they are.
\<close>

definition letter_code :: "char \<Rightarrow> string" where
  "letter_code c = [char_of (65 + (of_char c :: nat) div 16), char_of (65 + (of_char c :: nat) mod 16)]"

definition sample_batches :: "string s3_foreign" where
  "sample_batches =
     \<lparr>num_rows = length, value_is_null = (\<lambda>b c r. b ! r = CHR ''0''), value_text = (\<lambda>b c r. Inr [b ! r]),
      take_rows = (\<lambda>b idx. Inr (map ((!) b) idx)), url_encode = (\<lambda>v. concat (map letter_code v)),
      writer_fails = (\<lambda>c b. None), write_fails = (\<lambda>c b. None), written_file = (\<lambda>c b. Inr b), map_order = rev\<rparr>"

lemma char_byte: "(of_char c :: nat) div 16 < 16"
  by (simp add: less_mult_imp_div_less)

lemma letter_code_bytes: "n < 16 \<Longrightarrow> of_char (char_of (65 + n :: nat) :: char) = 65 + n"
  by (simp add: of_char_of)

lemma letter_code_chars:
  assumes "x \<in> set (letter_code c)"
  shows "65 \<le> (of_char x :: nat)" "(of_char x :: nat) \<le> 80"
proof -
  have "(of_char c :: nat) div 16 < 16" by (rule char_byte)
  then have "(of_char x :: nat) = 65 + of_char c div 16 \<or> (of_char x :: nat) = 65 + of_char c mod 16"
    using assms letter_code_bytes by (auto simp: letter_code_def)
  with \<open>(of_char c :: nat) div 16 < 16\<close> show "65 \<le> (of_char x :: nat)" "(of_char x :: nat) \<le> 80"
    using mod_less_divisor [of 16 "of_char c :: nat"] by auto
qed

lemma letter_code_inj: "letter_code c = letter_code d \<Longrightarrow> c = d"
proof -
  assume eq: "letter_code c = letter_code d"
  have less: "(of_char x :: nat) div 16 < 16" for x :: char by (rule char_byte)
  have "of_char (hd (letter_code x)) = 65 + (of_char x :: nat) div 16" "of_char (hd (tl (letter_code x))) = 65 + (of_char x :: nat) mod 16" for x
    using letter_code_bytes [OF less [of x]] letter_code_bytes [of "of_char x mod 16"] by (simp_all add: letter_code_def)
  with eq have "(of_char c :: nat) div 16 = of_char d div 16" "(of_char c :: nat) mod 16 = of_char d mod 16"
    by (metis add_left_cancel)+
  then have "(of_char c :: nat) = of_char d" by (metis div_mult_mod_eq)
  then show "c = d" by (metis char_of_char)
qed

lemma letter_code_length: "length (letter_code c) = length (letter_code d)"
  by (simp add: letter_code_def)

lemma letter_codes_inj: "concat (map letter_code v) = concat (map letter_code w) \<Longrightarrow> v = w"
proof (induction v arbitrary: w)
  case Nil
  then show ?case by (cases w) (auto simp: letter_code_def)
next
  case (Cons c v)
  then obtain d w' where w: "w = d # w'" by (cases w) (auto simp: letter_code_def)
  with Cons.prems have "letter_code c = letter_code d" "concat (map letter_code v) = concat (map letter_code w')"
    by (simp_all add: append_eq_append_conv letter_code_length)
  with Cons.IH letter_code_inj w show ?case by blast
qed

lemma sample_encoding: "encoding_lawful (url_encode sample_batches)" "url_encode sample_batches v \<noteq> HIVE_DEFAULT_PARTITION"
proof -
  have "x \<noteq> CHR ''/'' \<and> x \<noteq> CHR ''_''" if "x \<in> set (concat (map letter_code w))" for x w
    using that letter_code_chars by fastforce
  then have no: "CHR ''/'' \<notin> set (concat (map letter_code w))" "CHR ''_'' \<notin> set (concat (map letter_code w))" for w by blast+
  then show "encoding_lawful (url_encode sample_batches)"
    by (simp add: encoding_lawful_def sample_batches_def inj_def letter_codes_inj)
  have "CHR ''_'' \<in> set HIVE_DEFAULT_PARTITION" by (simp add: HIVE_DEFAULT_PARTITION_def)
  with no(2) [of v] show "url_encode sample_batches v \<noteq> HIVE_DEFAULT_PARTITION"
    by (metis s3_foreign.select_convs(5) sample_batches_def)
qed

lemma sample_batches_lawful: "batches_lawful sample_batches id"
  by (simp add: batches_lawful_def sample_batches_def)

definition letter_config :: PartitionConfig where
  "letter_config = \<lparr>pc_columns = [''letter''], pc_indices = [0]\<rparr>"

lemma letter_config_parsed:
  "partition_config_parse (\<lambda>_. False) (\<lambda>_. []) (Some '' letter ,'') [\<lparr>field_name = ''letter'', data_type = DUtf8, nullable = True\<rparr>] = Inr (Some letter_config)"
  by code_simp

lemma sample_keys:
  "build_partition_key sample_batches ''a0a'' letter_config 0 = Inr ''letter=GB''"
  "build_partition_key sample_batches ''a0a'' letter_config (Suc 0) = Inr (''letter='' @ HIVE_DEFAULT_PARTITION)"
  "build_partition_key sample_batches ''a0a'' letter_config (Suc (Suc 0)) = Inr ''letter=GB''"
  by code_simp+

lemma sample_outs:
  "partition_batch sample_batches ''a0a'' letter_config = Inr [(''letter='' @ HIVE_DEFAULT_PARTITION, ''0''), (''letter=GB'', ''aa'')]"
proof -
  have "group_rows sample_batches ''a0a'' letter_config [0..<3] [] = Inr [(''letter=GB'', [0, Suc (Suc 0)]), (''letter='' @ HIVE_DEFAULT_PARTITION, [Suc 0])]"
    by (simp add: upt_rec sample_keys push_row_def HIVE_DEFAULT_PARTITION_def)
  then show ?thesis
    by (simp add: partition_batch_def sample_batches_def numeral_3_eq_3 numeral_2_eq_2)
qed

text \<open>A text that is encoded as the name for null is not told apart from null.\<close>

lemma default_text_shares_null:
  "value_is_null F b col r \<Longrightarrow> \<not> value_is_null F b col r' \<Longrightarrow> value_text F b col r' = Inr v \<Longrightarrow>
   url_encode F v = HIVE_DEFAULT_PARTITION \<Longrightarrow> partition_part F b r' (name, col) = partition_part F b r (name, col)"
  by (simp add: partition_part_def array_value_to_string_def)

theorem s3_partitions_by_value_witness:
  "splits_batch sample_batches id ''a0a'' letter_config [(''letter='' @ HIVE_DEFAULT_PARTITION, ''0''), (''letter=GB'', ''aa'')] \<and>
   build_partition_key sample_batches ''a0a'' letter_config 0 = build_partition_key sample_batches ''a0a'' letter_config 2"
proof -
  have same: "map (partition_value sample_batches ''a0a'' 0) (pc_indices letter_config) = map (partition_value sample_batches ''a0a'' 2) (pc_indices letter_config)"
    by code_simp
  have "num_rows sample_batches ''a0a'' = 3" by (simp add: sample_batches_def)
  with s3_partitions_by_value [OF sample_batches_lawful sample_encoding(1) letter_config_parsed sample_outs, of 0 2] same sample_encoding(2)
  show ?thesis by simp
qed

definition sample_uuid :: "nat \<Rightarrow> string" where
  "sample_uuid i = replicate 35 CHR ''0'' @ [char_of (48 + i mod 10)]"

definition letter_sink :: S3Sink where
  "letter_sink = sample_s3\<lparr>s3_partition_config := Some (Some letter_config)\<rparr>"

definition sample_put :: "object \<Rightarrow> nat \<Rightarrow> put_answer" where
  "sample_put u i = (if i < 2 then Generic ''503'' else Stored)"

definition sample_stored :: "((PluginError + unit) \<times> object list) option" where
  "sample_stored = s3_process_batch sample_batches (\<lambda>_. None) sample_uuid sample_put rev letter_sink ''a0a''"

lemma sample_max_concurrent: "max_concurrent (\<lambda>_. None) letter_sink = 16"
  by (simp add: max_concurrent_def get_or_def lookup_def letter_sink_def sample_s3_def s3_sink_new_def plugin_options_new_def
      parse_unsigned_def is_digit_def)

lemma sample_upload: "fst (upload_to_s3 letter_sink (sample_put u)) = Inr ()"
  by (simp add: upload_to_s3_def letter_sink_def sample_s3_def put_loop.simps sample_put_def MAX_RETRY_ATTEMPTS_def MAX_RETRY_BACKOFF_def)

lemma sample_stored_ok: "sample_stored = Some (Inr (), snd (the sample_stored))"
proof -
  have sink: "s3_running letter_sink" "s3_compression letter_sink = Some UNCOMPRESSED" "s3_partition_config letter_sink = Some (Some letter_config)"
    "num_rows sample_batches ''a0a'' \<noteq> 0"
    by (simp_all add: letter_sink_def sample_s3_def s3_sink_new_def sample_batches_def)
  have serialized: "\<exists>uploads. serialize_blocking sample_batches items UNCOMPRESSED = Inr uploads" for items
    by (induction items) (auto simp: serialize_blocking_def serialize_to_parquet_def sample_batches_def)
  define items where "items = map (\<lambda>(i, seg, sub). (build_key letter_sink (sample_uuid i) (Some seg), sub))
    (enumerate 0 [(''letter='' @ HIVE_DEFAULT_PARTITION, ''0''), (''letter=GB'', ''aa'')])"
  obtain uploads where up: "serialize_blocking sample_batches items UNCOMPRESSED = Inr uploads" using serialized by blast
  have "first_error (map (\<lambda>u. Inr ()) us) = Inr ()" for us :: "object list" by (induction us) simp_all
  then have "fst (upload_all letter_sink sample_put rev uploads) = Inr ()"
    by (simp add: upload_all_def Let_def sample_upload)
  then have "map_option fst sample_stored = Some (Inr ())"
    unfolding sample_stored_def s3_process_batch_def
    using sink up [unfolded items_def] by (simp add: sample_outs sample_max_concurrent)
  then obtain us where "sample_stored = Some (Inr (), us)" by (cases sample_stored) (auto simp: prod_eq_iff)
  then show ?thesis by (metis option.sel snd_conv)
qed

theorem s3_batch_stored_witness:
  "mset (concat (map (\<lambda>(k, data). data) (snd (the sample_stored)))) = mset ''a0a'' \<and> distinct (map fst (snd (the sample_stored)))"
proof -
  have "inj_on sample_uuid {..<3}" by (auto simp: inj_on_def sample_uuid_def numeral_3_eq_3 less_Suc_eq)
  moreover have "num_rows sample_batches ''a0a'' = 3" "length (sample_uuid i) = 36" "serialize_to_parquet sample_batches b c = Inr b" for i c b
    by (simp_all add: sample_batches_def sample_uuid_def serialize_to_parquet_def)
  ultimately show ?thesis
    using s3_batch_stored [OF sample_batches_lawful _ _ _ _ _ sample_stored_ok [unfolded sample_stored_def], of id, folded sample_stored_def]
    by simp
qed

end
