(* ===== verification/TextColumns.thy ===== *)
theory TextColumns
  imports CdcArrow
begin

text \<open>
  Read-only access to string columns of a batch, \<open>src/src/utils/text_column.rs\<close>. A column of a batch is a
  string array in one of Arrow's three encodings, a list array of columns, or an array of another type.
\<close>

datatype Column =
    Utf8Column "string option list"
  | LargeUtf8Column "string option list"
  | Utf8ViewColumn "string option list"
  | ListColumn DataType "Column option list"
  | LargeListColumn DataType "Column option list"
  | OtherColumn DataType nat

fun column_type :: "Column \<Rightarrow> DataType" where
  "column_type (Utf8Column xs) = DUtf8"
| "column_type (LargeUtf8Column xs) = DLargeUtf8"
| "column_type (Utf8ViewColumn xs) = DUtf8View"
| "column_type (ListColumn dt rows) = dt"
| "column_type (LargeListColumn dt rows) = dt"
| "column_type (OtherColumn dt n) = dt"

record text_batch =
  tb_schema :: Schema
  tb_columns :: "Column list"
  tb_rows :: nat

datatype TextColumn = Small "string option list" | Large "string option list" | View "string option list"

text \<open>The text at a row, which is a row of the column.\<close>

fun text_value :: "TextColumn \<Rightarrow> nat \<Rightarrow> string option" where
  "text_value (Small xs) row = xs ! row"
| "text_value (Large xs) row = xs ! row"
| "text_value (View xs) row = xs ! row"

fun row_count :: "TextColumn \<Rightarrow> nat" where
  "row_count (Small xs) = length xs"
| "row_count (Large xs) = length xs"
| "row_count (View xs) = length xs"

fun is_text :: "DataType \<Rightarrow> bool" where
  "is_text DUtf8 = True"
| "is_text DLargeUtf8 = True"
| "is_text DUtf8View = True"
| "is_text _ = False"

fun text_column_from :: "Column \<Rightarrow> DataType + TextColumn" where
  "text_column_from (Utf8Column xs) = Inr (Small xs)"
| "text_column_from (LargeUtf8Column xs) = Inr (Large xs)"
| "text_column_from (Utf8ViewColumn xs) = Inr (View xs)"
| "text_column_from c = Inl (column_type c)"

text \<open>\<open>show_type\<close> is how Arrow prints a type.\<close>

definition field_with_name :: "Schema \<Rightarrow> string \<Rightarrow> Field option" where
  "field_with_name schema name = map_option (\<lambda>i. schema ! i) (index_of schema name)"

fun validate_text_columns :: "(DataType \<Rightarrow> string) \<Rightarrow> Schema \<Rightarrow> string list \<Rightarrow> string + unit" where
  "validate_text_columns show_type schema [] = Inr ()"
| "validate_text_columns show_type schema (name # names) =
     (case field_with_name schema name of
        None \<Rightarrow> Inl (''input has no '' @ quoted name @ '' column'')
      | Some f \<Rightarrow>
          if is_text (data_type f) then validate_text_columns show_type schema names
          else Inl (''column '' @ quoted name @ '' must be a string column, got '' @ show_type (data_type f)))"

definition text_column :: "(DataType \<Rightarrow> string) \<Rightarrow> text_batch \<Rightarrow> string \<Rightarrow> string \<Rightarrow> PluginError + TextColumn" where
  "text_column show_type b name plugin =
     (case index_of (tb_schema b) name of
        None \<Rightarrow> Inl (Execution (plugin @ '': missing column '' @ quoted name))
      | Some i \<Rightarrow>
          map_err (\<lambda>dt. Execution (plugin @ '': column '' @ quoted name @ '' must be a string column, got '' @ show_type dt))
            (text_column_from (tb_columns b ! i)))"

text \<open>A batch of a schema: a column of the declared type for each field, all of the same length.\<close>

fun column_length :: "Column \<Rightarrow> nat" where
  "column_length (Utf8Column xs) = length xs"
| "column_length (LargeUtf8Column xs) = length xs"
| "column_length (Utf8ViewColumn xs) = length xs"
| "column_length (ListColumn dt rows) = length rows"
| "column_length (LargeListColumn dt rows) = length rows"
| "column_length (OtherColumn dt n) = n"

text \<open>The array of a type: string and list types have string and list arrays, and only these.\<close>

fun is_list :: "DataType \<Rightarrow> bool" where
  "is_list (DList f) = True"
| "is_list _ = False"

fun is_large_list :: "DataType \<Rightarrow> bool" where
  "is_large_list (DLargeList f) = True"
| "is_large_list _ = False"

definition column_ok :: "Column \<Rightarrow> bool" where
  "column_ok c \<longleftrightarrow>
     (case c of
        ListColumn dt rows \<Rightarrow> is_list dt
      | LargeListColumn dt rows \<Rightarrow> is_large_list dt
      | OtherColumn dt n \<Rightarrow> \<not> is_text dt \<and> \<not> is_list dt \<and> \<not> is_large_list dt
      | _ \<Rightarrow> True)"

definition batch_of :: "Schema \<Rightarrow> text_batch \<Rightarrow> bool" where
  "batch_of schema b \<longleftrightarrow>
     tb_schema b = schema \<and> map column_type (tb_columns b) = map data_type schema \<and>
     list_all (\<lambda>c. column_length c = tb_rows b \<and> column_ok c) (tb_columns b)"

lemma index_of_less: "index_of schema name = Some i \<Longrightarrow> i < length schema \<and> field_name (schema ! i) = name"
  by (induction schema arbitrary: i) (auto split: if_splits)

lemma text_column_from_text: "column_ok c \<Longrightarrow> is_text (column_type c) \<Longrightarrow> \<exists>t. text_column_from c = Inr t \<and> row_count t = column_length c"
  by (cases c) (auto simp: column_ok_def elim: is_list.elims is_large_list.elims)

lemma batch_of_column:
  assumes "batch_of schema b" and "index_of schema name = Some i"
  shows "column_type (tb_columns b ! i) = data_type (schema ! i)" "column_length (tb_columns b ! i) = tb_rows b" "column_ok (tb_columns b ! i)"
proof -
  have types: "map column_type (tb_columns b) = map data_type schema" using assms(1) by (simp add: batch_of_def)
  from arg_cong [OF this, of length] have len: "length (tb_columns b) = length schema" by simp
  show "column_type (tb_columns b ! i) = data_type (schema ! i)"
    using arg_cong [OF types, of "\<lambda>xs. xs ! i"] index_of_less [OF assms(2)] len by simp
  show "column_length (tb_columns b ! i) = tb_rows b" "column_ok (tb_columns b ! i)"
    using assms(1) index_of_less [OF assms(2)] len by (simp_all add: batch_of_def list_all_length)
qed

text \<open>A column that was validated against the schema is found in every batch of it.\<close>

lemma validated_column:
  assumes "validate_text_columns show_type schema names = Inr ()" and "name \<in> set names" and "batch_of schema b"
  shows "\<exists>t. text_column show_type b name plugin = Inr t \<and> row_count t = tb_rows b"
proof -
  have "\<exists>f. field_with_name schema name = Some f \<and> is_text (data_type f)"
    using assms(1,2) by (induction names) (auto split: option.splits if_splits)
  then obtain i where i: "index_of schema name = Some i" "is_text (data_type (schema ! i))"
    by (auto simp: field_with_name_def)
  note column = batch_of_column [OF assms(3) i(1)]
  from text_column_from_text [OF column(3)] i column(1,2) assms(3) show ?thesis
    by (auto simp: text_column_def batch_of_def)
qed

end
