(* ===== verification/Erc7984.thy ===== *)
theory Erc7984
  imports TextColumns PluginOptions
begin

text \<open>
  The transform that decodes ERC-7984 events from raw EVM logs: \<open>src/src/transforms/erc7984_decode/decode.rs\<close> and
  \<open>transform.rs\<close>. A 32-byte word is a word of 256 bits, an address one of 160. Hexadecimal text, the Keccak hashes
  of the event signatures and the batch constructor belong to other crates and are parameters.
\<close>

unbundle bit_operations_syntax

type_synonym B256 = "256 word"
type_synonym Address = "160 word"

record evm_foreign =
  parse_b256 :: "string \<Rightarrow> B256 option"
  parse_address :: "string \<Rightarrow> Address option"
  show_b256 :: "B256 \<Rightarrow> string"
  show_address :: "Address \<Rightarrow> string"
  show_type :: "DataType \<Rightarrow> string"
  CONFIDENTIAL_TRANSFER_TOPIC :: B256
  OPERATOR_SET_TOPIC :: B256
  AMOUNT_DISCLOSED_TOPIC :: B256

definition ERC_PLUGIN_NAME :: string where
  "ERC_PLUGIN_NAME = ''erc7984_decode''"

section \<open>Events\<close>

datatype Event =
    ConfidentialTransfer (event_token: Address) (event_from: Address) (event_to: Address) (amount_handle: B256)
  | OperatorSet (event_token: Address) (event_holder: Address) (event_operator: Address) (event_until: u64)
  | AmountDisclosed (event_token: Address) (encrypted_amount: B256) (event_amount: u64)

fun event_name :: "Event \<Rightarrow> string" where
  "event_name (ConfidentialTransfer _ _ _ _) = ''ConfidentialTransfer''"
| "event_name (OperatorSet _ _ _ _) = ''OperatorSet''"
| "event_name (AmountDisclosed _ _ _) = ''AmountDisclosed''"

datatype TopicColumns = Separate string string string string | Joined string

record LogColumns =
  lc_address :: string
  lc_topics :: TopicColumns
  lc_data :: string

fun child_is_text :: "DataType \<Rightarrow> bool" where
  "child_is_text (DList (n, dt, opt)) = is_text dt"
| "child_is_text (DLargeList (n, dt, opt)) = is_text dt"
| "child_is_text dt = is_text dt"

definition validate_columns :: "evm_foreign \<Rightarrow> Schema \<Rightarrow> LogColumns \<Rightarrow> string + unit" where
  "validate_columns F schema columns =
     res_bind
       (validate_text_columns (show_type F) schema
          ([lc_address columns, lc_data columns] @
           (case lc_topics columns of Separate t0 t1 t2 t3 \<Rightarrow> [t0, t1, t2, t3] | Joined _ \<Rightarrow> []))) (\<lambda>_.
     case lc_topics columns of
       Separate _ _ _ _ \<Rightarrow> Inr ()
     | Joined name \<Rightarrow>
         (case field_with_name schema name of
            None \<Rightarrow> Inl (''input has no '' @ quoted name @ '' column'')
          | Some f \<Rightarrow>
              if child_is_text (data_type f) then Inr ()
              else Inl (''column '' @ quoted name @ '' must be a string column or a list of strings, got '' @ show_type F (data_type f))))"

section \<open>Words\<close>

definition parse_word :: "evm_foreign \<Rightarrow> string \<Rightarrow> B256 option" where
  "parse_word F text = parse_b256 F (trim text)"

text \<open>The bytes of a word, the most significant first.\<close>

definition word_byte :: "B256 \<Rightarrow> nat \<Rightarrow> u8" where
  "word_byte w i = ucast (drop_bit (8 * (31 - i)) w)"

text \<open>\<open>Address::from_slice(&word[12..])\<close> is the low 160 bits.\<close>

definition word_to_address :: "B256 \<Rightarrow> Address option" where
  "word_to_address w = (if list_all (\<lambda>i. word_byte w i = 0) [0..<12] then Some (ucast w) else None)"

definition word_to_uint :: "B256 \<Rightarrow> nat \<Rightarrow> u64 option" where
  "word_to_uint w bits =
     (if uint w < 2 ^ 64
      then (let v = ucast w :: u64 in if bits \<ge> 64 \<or> drop_bit bits v = 0 then Some v else None)
      else None)"

section \<open>Topics\<close>

fun collect_options :: "('a \<Rightarrow> 'b option) \<Rightarrow> 'a list \<Rightarrow> 'b list option" where
  "collect_options f [] = Some []"
| "collect_options f (x # xs) =
     (case f x of None \<Rightarrow> None | Some y \<Rightarrow> map_option ((#) y) (collect_options f xs))"

definition list_topics :: "evm_foreign \<Rightarrow> Column \<Rightarrow> B256 list option" where
  "list_topics F column =
     (case text_column_from column of
        Inl _ \<Rightarrow> None
      | Inr t \<Rightarrow> collect_options (\<lambda>i. case text_value t i of None \<Rightarrow> None | Some text \<Rightarrow> parse_word F text) [0..<row_count t])"

definition trim_start_of :: "(char \<Rightarrow> bool) \<Rightarrow> string \<Rightarrow> string" where
  "trim_start_of P s = dropWhile P s"

definition trim_end_of :: "(char \<Rightarrow> bool) \<Rightarrow> string \<Rightarrow> string" where
  "trim_end_of P s = rev (dropWhile P (rev s))"

definition is_quote :: "char \<Rightarrow> bool" where
  "is_quote c \<longleftrightarrow> c = CHR 0x22 \<or> c = CHR 0x27"

definition split_topics :: "evm_foreign \<Rightarrow> string \<Rightarrow> B256 list option" where
  "split_topics F text =
     collect_options (parse_word F)
       (filter (\<lambda>part. part \<noteq> [])
         (map (\<lambda>part. trim_end_of is_quote (trim_start_of is_quote (trim part)))
           (split_char CHR '','' (trim_end_of (\<lambda>c. c = CHR '']'') (trim_start_of (\<lambda>c. c = CHR ''['') (trim text))))))"

datatype Topics =
    SeparateTopics "TextColumn list"
  | JoinedTopics TextColumn
  | ListTopics "Column option list"
  | LargeListTopics "Column option list"

definition topics_from_batch :: "evm_foreign \<Rightarrow> text_batch \<Rightarrow> TopicColumns \<Rightarrow> PluginError + Topics" where
  "topics_from_batch F b columns =
     (case columns of
        Separate t0 t1 t2 t3 \<Rightarrow>
          res_bind (collect_results (\<lambda>t. text_column (show_type F) b t ERC_PLUGIN_NAME) [t0, t1, t2, t3]) (\<lambda>cs. Inr (SeparateTopics cs))
      | Joined name \<Rightarrow>
          (case index_of (tb_schema b) name of
             None \<Rightarrow> Inl (Execution (ERC_PLUGIN_NAME @ '': missing column '' @ quoted name))
           | Some i \<Rightarrow>
               (case tb_columns b ! i of
                  ListColumn dt rows \<Rightarrow> Inr (ListTopics rows)
                | LargeListColumn dt rows \<Rightarrow> Inr (LargeListTopics rows)
                | c \<Rightarrow>
                    res_bind
                      (map_err (\<lambda>dt. Execution (ERC_PLUGIN_NAME @ '': column '' @ quoted name @
                                '' must be a string column or a list of strings, got '' @ show_type F dt))
                        (text_column_from c)) (\<lambda>t. Inr (JoinedTopics t)))))"

text \<open>The topics of separate columns up to the first that is null or blank.\<close>

fun separate_topics :: "evm_foreign \<Rightarrow> TextColumn list \<Rightarrow> nat \<Rightarrow> B256 list option" where
  "separate_topics F [] row = Some []"
| "separate_topics F (c # cs) row =
     (case text_value c row of
        None \<Rightarrow> Some []
      | Some text \<Rightarrow>
          if trim text = [] then Some []
          else (case parse_word F text of None \<Rightarrow> None | Some w \<Rightarrow> map_option ((#) w) (separate_topics F cs row)))"

fun topics_row :: "evm_foreign \<Rightarrow> Topics \<Rightarrow> nat \<Rightarrow> B256 list option" where
  "topics_row F (SeparateTopics cs) row = separate_topics F cs row"
| "topics_row F (JoinedTopics c) row = (case text_value c row of None \<Rightarrow> None | Some text \<Rightarrow> split_topics F text)"
| "topics_row F (ListTopics rows) row = (case rows ! row of None \<Rightarrow> Some [] | Some column \<Rightarrow> list_topics F column)"
| "topics_row F (LargeListTopics rows) row = (case rows ! row of None \<Rightarrow> Some [] | Some column \<Rightarrow> list_topics F column)"

section \<open>Decoding\<close>

definition decode_address :: "evm_foreign \<Rightarrow> TextColumn \<Rightarrow> nat \<Rightarrow> Address option" where
  "decode_address F address row = Option.bind (text_value address row) (\<lambda>text. parse_address F (trim text))"

definition data_word :: "evm_foreign \<Rightarrow> TextColumn \<Rightarrow> nat \<Rightarrow> B256 option" where
  "data_word F data row = Option.bind (text_value data row) (parse_word F)"

definition decode_row :: "evm_foreign \<Rightarrow> nat \<Rightarrow> TextColumn \<Rightarrow> Topics \<Rightarrow> TextColumn \<Rightarrow> Address set \<Rightarrow> Event option" where
  "decode_row F row address topics data tokens =
     Option.bind (topics_row F topics row) (\<lambda>ts.
     if ts = [] then None
     else if hd ts \<noteq> CONFIDENTIAL_TRANSFER_TOPIC F \<and> hd ts \<noteq> OPERATOR_SET_TOPIC F \<and> hd ts \<noteq> AMOUNT_DISCLOSED_TOPIC F then None
     else
       Option.bind (decode_address F address row) (\<lambda>token.
       if tokens \<noteq> {} \<and> token \<notin> tokens then None
       else if hd ts = CONFIDENTIAL_TRANSFER_TOPIC F then
         (if length ts = 4
          then Option.bind (word_to_address (ts ! 1)) (\<lambda>from.
               Option.bind (word_to_address (ts ! 2)) (\<lambda>to. Some (ConfidentialTransfer token from to (ts ! 3))))
          else None)
       else if hd ts = OPERATOR_SET_TOPIC F then
         (if length ts = 3
          then Option.bind (word_to_address (ts ! 1)) (\<lambda>holder.
               Option.bind (word_to_address (ts ! 2)) (\<lambda>operator.
               Option.bind (Option.bind (data_word F data row) (\<lambda>w. word_to_uint w 48)) (\<lambda>until.
               Some (OperatorSet token holder operator until))))
          else None)
       else
         (if length ts = 2
          then Option.bind (Option.bind (data_word F data row) (\<lambda>w. word_to_uint w 64)) (\<lambda>amount.
               Some (AmountDisclosed token (ts ! 1) amount))
          else None)))"

definition decode_batch :: "evm_foreign \<Rightarrow> text_batch \<Rightarrow> LogColumns \<Rightarrow> Address set \<Rightarrow> PluginError + Event option list" where
  "decode_batch F b columns tokens =
     res_bind (text_column (show_type F) b (lc_address columns) ERC_PLUGIN_NAME) (\<lambda>address.
     res_bind (text_column (show_type F) b (lc_data columns) ERC_PLUGIN_NAME) (\<lambda>data.
     res_bind (topics_from_batch F b (lc_topics columns)) (\<lambda>topics.
     Inr (map (\<lambda>row. decode_row F row address topics data tokens) [0..<tb_rows b]))))"

section \<open>The transform\<close>

definition OUTPUT_COLUMNS :: "string list" where
  "OUTPUT_COLUMNS =
     [''erc7984_event'', ''erc7984_token'', ''erc7984_from'', ''erc7984_to'', ''erc7984_amount_handle'',
      ''erc7984_holder'', ''erc7984_operator'', ''erc7984_until'', ''erc7984_encrypted_amount'', ''erc7984_amount'']"

record Settings =
  set_columns :: LogColumns
  set_tokens :: "Address set"

definition settings_parse :: "evm_foreign \<Rightarrow> environment \<Rightarrow> (string, string) hash_map \<Rightarrow> PluginError + Settings" where
  "settings_parse F env options =
     (let o' = plugin_options_new options ERC_PLUGIN_NAME ''STREAMLING__PLUGIN__ERC7984_DECODE'';
          topic = (\<lambda>i. get_or env o' (''topic'' @ show_nat i @ ''_column'') (''topic'' @ show_nat i));
          topics = (case lookup_non_empty env o' ''topics_column'' of
                      Some name \<Rightarrow> Joined name
                    | None \<Rightarrow> Separate (topic 0) (topic 1) (topic 2) (topic 3));
          columns = \<lparr>lc_address = get_or env o' ''address_column'' ''address'', lc_topics = topics,
                     lc_data = get_or env o' ''data_column'' ''data''\<rparr> in
      res_bind
        (case lookup_non_empty env o' ''tokens'' of
           None \<Rightarrow> Inr {}
         | Some list \<Rightarrow>
             res_bind
               (collect_results
                  (\<lambda>value. ok_or (Internal (ERC_PLUGIN_NAME @ '': invalid token address '' @ quoted value)) (parse_address F value))
                  (filter (\<lambda>value. value \<noteq> []) (map trim (split_char CHR '','' list)))) (\<lambda>tokens. Inr (set tokens))) (\<lambda>tokens.
      Inr \<lparr>set_columns = columns, set_tokens = tokens\<rparr>))"

fun append_output_fields :: "Schema \<Rightarrow> string list \<Rightarrow> Schema \<Rightarrow> string + Schema" where
  "append_output_fields input [] fs = Inr fs"
| "append_output_fields input (name # names) fs =
     (if index_of input name \<noteq> None then Inl (''input already has a '' @ quoted name @ '' column'')
      else append_output_fields input names (fs @ [\<lparr>field_name = name, data_type = DUtf8, nullable = True\<rparr>]))"

definition erc_output_schema :: "Schema \<Rightarrow> string + Schema" where
  "erc_output_schema input = append_output_fields input OUTPUT_COLUMNS input"

fun event_cells :: "evm_foreign \<Rightarrow> Event \<Rightarrow> string option list" where
  "event_cells F (ConfidentialTransfer token from to handle) =
     [Some ''ConfidentialTransfer'', Some (show_address F token), Some (show_address F from), Some (show_address F to),
      Some (show_b256 F handle), None, None, None, None, None]"
| "event_cells F (OperatorSet token holder operator until) =
     [Some ''OperatorSet'', Some (show_address F token), None, None, None, Some (show_address F holder),
      Some (show_address F operator), Some (show_nat (unat until)), None, None]"
| "event_cells F (AmountDisclosed token encrypted amount) =
     [Some ''AmountDisclosed'', Some (show_address F token), None, None, None, None, None, None,
      Some (show_b256 F encrypted), Some (show_nat (unat amount))]"

definition row_cells :: "evm_foreign \<Rightarrow> Event option \<Rightarrow> string option list" where
  "row_cells F event = (case event of None \<Rightarrow> replicate 10 None | Some e \<Rightarrow> event_cells F e)"

text \<open>The columns handed to the batch constructor: those of the batch and the ten of the events.\<close>

definition appended_columns :: "evm_foreign \<Rightarrow> text_batch \<Rightarrow> Event option list \<Rightarrow> Column list" where
  "appended_columns F b events = tb_columns b @ map (\<lambda>i. Utf8Column (map (\<lambda>e. row_cells F e ! i) events)) [0..<10]"

record Erc7984DecodeTransform =
  erc_settings :: Settings
  erc_schema :: Schema
  erc_running :: bool

definition erc_new :: "evm_foreign \<Rightarrow> environment \<Rightarrow> Schema \<Rightarrow> (string, string) hash_map \<Rightarrow> PluginError + Erc7984DecodeTransform" where
  "erc_new F env schema options =
     res_bind (settings_parse F env options) (\<lambda>settings.
     res_bind (map_err (\<lambda>m. Internal (ERC_PLUGIN_NAME @ '': '' @ m)) (validate_columns F schema (set_columns settings))) (\<lambda>_.
     res_bind (map_err (\<lambda>m. Internal (ERC_PLUGIN_NAME @ '': '' @ m)) (erc_output_schema schema)) (\<lambda>output.
     Inr \<lparr>erc_settings = settings, erc_schema = output, erc_running = True\<rparr>)))"

definition erc_process_batch ::
  "evm_foreign \<Rightarrow> (Schema \<Rightarrow> Column list \<Rightarrow> ArrowError + 'b) \<Rightarrow> Erc7984DecodeTransform \<Rightarrow> text_batch \<Rightarrow> PluginError + 'b" where
  "erc_process_batch F try_new t b =
     res_bind (decode_batch F b (set_columns (erc_settings t)) (set_tokens (erc_settings t))) (\<lambda>events.
     map_err ArrowFailure (try_new (erc_schema t) (appended_columns F b events)))"

definition erc_terminate :: "Erc7984DecodeTransform \<Rightarrow> Erc7984DecodeTransform" where
  "erc_terminate t = t\<lparr>erc_running := False\<rparr>"

section \<open>Words of addresses and numbers\<close>

lemma leading_bytes_zero:
  fixes w :: B256
  shows "list_all (\<lambda>i. word_byte w i = 0) [0..<12] \<longleftrightarrow> drop_bit 160 w = 0"
proof
  assume zero: "list_all (\<lambda>i. word_byte w i = 0) [0..<12]"
  have "\<not> bit w n" if "160 \<le> n" "n < 256" for n
  proof -
    let ?i = "31 - n div 8"
    have i: "?i < 12" "8 * (31 - ?i) + n mod 8 = n" using that by auto
    with zero have "\<not> bit (word_byte w ?i) (n mod 8)" by (auto simp: list_all_iff)
    with i(2) that show ?thesis by (simp add: word_byte_def bit_ucast_iff bit_drop_bit_eq)
  qed
  then have "\<not> bit w (160 + n)" for n
    using bit_imp_le_length [of w "160 + n"] by (cases "160 + n < 256") auto
  then show "drop_bit 160 w = 0"
    by (intro bit_word_eqI) (simp add: bit_drop_bit_eq)
next
  assume zero: "drop_bit 160 w = 0"
  have "\<not> bit w n" if "160 \<le> n" for n
    using arg_cong [OF zero, of "\<lambda>x. bit x (n - 160)"] that by (simp add: bit_drop_bit_eq)
  then show "list_all (\<lambda>i. word_byte w i = 0) [0..<12]"
    by (auto simp: list_all_iff word_byte_def bit_ucast_iff bit_drop_bit_eq intro!: bit_word_eqI)
qed

lemma word_to_address_Some: "word_to_address w = Some a \<longleftrightarrow> w = ucast a"
proof -
  have "\<not> bit a (160 + n)" for n using bit_imp_le_length [of a "160 + n"] by auto
  then have "drop_bit 160 (ucast a :: B256) = 0"
    by (intro bit_word_eqI) (simp add: bit_drop_bit_eq bit_ucast_iff)
  moreover have "w = ucast (ucast w :: Address)" if "drop_bit 160 w = 0"
  proof -
    have "\<not> bit w n" if "160 \<le> n" for n
      using arg_cong [OF \<open>drop_bit 160 w = 0\<close>, of "\<lambda>x. bit x (n - 160)"] that by (simp add: bit_drop_bit_eq)
    then show ?thesis by (intro bit_word_eqI) (simp add: bit_ucast_iff, meson not_le)
  qed
  moreover have "ucast (ucast a :: B256) = a"
    by (intro bit_word_eqI) (simp add: bit_ucast_iff)
  ultimately show ?thesis unfolding word_to_address_def leading_bytes_zero by auto
qed

lemma word_to_uint_Some: "word_to_uint w bits = Some v \<longleftrightarrow> w = ucast v \<and> (bits \<ge> 64 \<or> drop_bit bits v = 0)"
proof -
  have "uint (ucast v :: B256) < 2 ^ 64" using uint_lt2p [of v] take_bit_int_less_eq_self_iff [of 256 "uint v"] by (simp add: unsigned_ucast_eq)
  moreover have "w = ucast (ucast w :: u64)" if "uint w < 2 ^ 64"
    using that by (intro word_uint_eqI) (simp add: unsigned_ucast_eq unsigned_take_bit_eq take_bit_int_eq_self)
  moreover have "ucast (ucast v :: B256) = v" by (intro bit_word_eqI) (simp add: bit_ucast_iff)
  ultimately show ?thesis by (auto simp: word_to_uint_def Let_def)
qed

section \<open>Decoding is exact\<close>

text \<open>How the contract writes an event to the log: its topics and, if it has one, its data word.\<close>

fun event_topics :: "evm_foreign \<Rightarrow> Event \<Rightarrow> B256 list" where
  "event_topics F (ConfidentialTransfer token from to handle) = [CONFIDENTIAL_TRANSFER_TOPIC F, ucast from, ucast to, handle]"
| "event_topics F (OperatorSet token holder operator until) = [OPERATOR_SET_TOPIC F, ucast holder, ucast operator]"
| "event_topics F (AmountDisclosed token encrypted amount) = [AMOUNT_DISCLOSED_TOPIC F, encrypted]"

fun event_data :: "Event \<Rightarrow> B256 option" where
  "event_data (ConfidentialTransfer token from to handle) = None"
| "event_data (OperatorSet token holder operator until) = Some (ucast until)"
| "event_data (AmountDisclosed token encrypted amount) = Some (ucast amount)"

fun event_in_range :: "Event \<Rightarrow> bool" where
  "event_in_range (OperatorSet token holder operator until) \<longleftrightarrow> uint until < 2 ^ 48"
| "event_in_range _ \<longleftrightarrow> True"

lemma drop_bit_zero_iff: "drop_bit 48 (v :: u64) = 0 \<longleftrightarrow> uint v < 2 ^ 48"
proof -
  have "drop_bit 48 v = 0 \<longleftrightarrow> uint (drop_bit 48 v) = 0" by (rule unsigned_eq_0_iff [symmetric])
  also have "\<dots> \<longleftrightarrow> uint v div 2 ^ 48 = 0"
    by (simp add: drop_bit_eq_div uint_div)
  also have "\<dots> \<longleftrightarrow> uint v < 2 ^ 48" by (auto simp: zdiv_eq_0_iff)
  finally show ?thesis .
qed

lemma list_lengths:
  "length ts = 4 \<longleftrightarrow> ts = [hd ts, ts ! 1, ts ! 2, ts ! 3]"
  "length ts = 3 \<longleftrightarrow> ts = [hd ts, ts ! 1, ts ! 2]"
  "length ts = 2 \<longleftrightarrow> ts = [hd ts, ts ! 1]"
  by (auto simp: numeral_eq_Suc length_Suc_conv dest: arg_cong [of _ _ length])

lemma decode_row_selected:
  assumes "topics_row F topics row = Some ts" and "ts \<noteq> []" and "decode_address F address row = Some token"
    and "tokens = {} \<or> token \<in> tokens"
    and "distinct [CONFIDENTIAL_TRANSFER_TOPIC F, OPERATOR_SET_TOPIC F, AMOUNT_DISCLOSED_TOPIC F]"
  shows "decode_row F row address topics data tokens = Some ev \<longleftrightarrow>
     event_token ev = token \<and> ts = event_topics F ev \<and>
     (event_data ev = None \<or> data_word F data row = event_data ev) \<and> event_in_range ev"
  using assms
  by (cases ev)
     (auto simp: decode_row_def bind_eq_Some_conv list_lengths word_to_address_Some word_to_uint_Some drop_bit_zero_iff)

text \<open>
  C35: a row decodes to an event exactly when it is the log of that event. The topics of the row are the event's
  selector and indexed values, addresses padded with zeros, its data is the event's number when it has one, the
  number fits the width that the event declares, and the emitting contract is an accepted token.
\<close>

theorem erc_decode_exact:
  assumes "distinct [CONFIDENTIAL_TRANSFER_TOPIC F, OPERATOR_SET_TOPIC F, AMOUNT_DISCLOSED_TOPIC F]"
  shows "decode_row F row address topics data tokens = Some ev \<longleftrightarrow>
     topics_row F topics row = Some (event_topics F ev) \<and>
     decode_address F address row = Some (event_token ev) \<and> (tokens = {} \<or> event_token ev \<in> tokens) \<and>
     (event_data ev = None \<or> data_word F data row = event_data ev) \<and> event_in_range ev"
proof (cases "\<exists>ts token. topics_row F topics row = Some ts \<and> ts \<noteq> [] \<and> decode_address F address row = Some token \<and>
    (tokens = {} \<or> token \<in> tokens)")
  case True
  then show ?thesis using decode_row_selected [OF _ _ _ _ assms] by fastforce
next
  case False
  moreover have "event_topics F ev \<noteq> []" by (cases ev) auto
  ultimately have "decode_row F row address topics data tokens = None"
    by (auto simp: decode_row_def split: Option.bind_splits)
  with False \<open>event_topics F ev \<noteq> []\<close> show ?thesis by fastforce
qed

section \<open>The layouts of topics agree\<close>

lemma split_char_none: "c \<notin> set x \<Longrightarrow> split_char c x = [x]"
  by (induction x) auto

lemma split_char_piece: "c \<notin> set x \<Longrightarrow> split_char c (x @ c # y) = x # split_char c y"
  by (induction x) (auto split: list.splits)

lemma split_char_prefix: "c \<notin> set x \<Longrightarrow> split_char c s = p # ps \<Longrightarrow> split_char c (x @ s) = (x @ p) # ps"
  by (induction x) auto

lemma split_char_join:
  assumes "c \<notin> set sp" and "list_all (\<lambda>x. c \<notin> set x) xs" and "xs \<noteq> []"
  shows "split_char c (join_with (c # sp) xs) = hd xs # map ((@) sp) (tl xs)"
  using assms(2,3)
proof (induction xs)
  case (Cons x xs)
  show ?case
  proof (cases xs)
    case Nil
    with Cons.prems show ?thesis by (simp add: split_char_none)
  next
    case (Cons y ys)
    define rest where "rest = join_with (c # sp) (y # ys)"
    have later: "split_char c rest = y # map ((@) sp) ys" using Cons.IH Cons.prems Cons by (simp add: rest_def)
    have "split_char c (sp @ rest) = (sp @ y) # map ((@) sp) ys"
      using assms(1) later by (rule split_char_prefix)
    with Cons Cons.prems show ?thesis by (simp add: split_char_piece rest_def [symmetric])
  qed
qed simp

lemma dropWhile_hd: "s \<noteq> [] \<Longrightarrow> \<not> P (hd s) \<Longrightarrow> dropWhile P s = s"
  by (cases s) auto

lemma trim_both: "s = [] \<or> \<not> P (hd s) \<and> \<not> P (last s) \<Longrightarrow> rev (dropWhile P (rev (dropWhile P s))) = s"
  by (cases "s = []") (simp_all add: dropWhile_hd hd_rev)

lemma trim_id: "s = [] \<or> \<not> is_space (hd s) \<and> \<not> is_space (last s) \<Longrightarrow> trim s = s"
  unfolding trim_def by (rule trim_both)

text \<open>Printed words parse, and hold no character that separates topics.\<close>

definition plain_char :: "char \<Rightarrow> bool" where
  "plain_char c \<longleftrightarrow> \<not> is_space c \<and> \<not> is_quote c \<and> c \<noteq> CHR '','' \<and> c \<noteq> CHR ''['' \<and> c \<noteq> CHR '']''"

definition hex_lawful :: "evm_foreign \<Rightarrow> bool" where
  "hex_lawful F \<longleftrightarrow> (\<forall>w. parse_b256 F (show_b256 F w) = Some w \<and> show_b256 F w \<noteq> [] \<and> list_all plain_char (show_b256 F w))"

lemma collect_options_map: "(\<And>x. x \<in> set xs \<Longrightarrow> f (g x) = Some x) \<Longrightarrow> collect_options f (map g xs) = Some xs"
  by (induction xs) auto

lemma collect_options_upt: "collect_options (\<lambda>i. f (xs ! i)) [0..<length xs] = collect_options f xs"
proof -
  have "collect_options (\<lambda>i. f (ys ! i)) is = collect_options f (map ((!) ys) is)" for ys and "is" :: "nat list"
    by (induction "is") (auto split: option.split)
  from this [of xs "[0..<length xs]"] show ?thesis by (simp add: map_nth)
qed

lemma shown:
  assumes "hex_lawful F"
  shows "show_b256 F w \<noteq> []" "c \<in> set (show_b256 F w) \<Longrightarrow> plain_char c" "parse_b256 F (show_b256 F w) = Some w"
  using assms by (auto simp: hex_lawful_def list_all_iff)

lemma shown_ends:
  assumes "hex_lawful F"
  shows "plain_char (hd (show_b256 F w))" "plain_char (last (show_b256 F w))"
  using shown(1,2) [OF assms] by (auto intro: hd_in_set last_in_set)

lemma parse_word_shown: "hex_lawful F \<Longrightarrow> parse_word F (show_b256 F w) = Some w"
  using shown_ends [of F w] by (simp add: parse_word_def trim_id plain_char_def shown)

lemma trim_quotes_shown:
  assumes "hex_lawful F"
  shows "trim_end_of is_quote (trim_start_of is_quote (show_b256 F w)) = show_b256 F w"
    "trim_end_of is_quote (trim_start_of is_quote (CHR 0x22 # show_b256 F w @ [CHR 0x22])) = show_b256 F w"
proof -
  note ends = shown_ends [OF assms, of w]
  show "trim_end_of is_quote (trim_start_of is_quote (show_b256 F w)) = show_b256 F w"
    using ends by (simp add: trim_end_of_def trim_start_of_def trim_both plain_char_def)
  have "dropWhile is_quote (show_b256 F w @ [CHR 0x22]) = show_b256 F w @ [CHR 0x22]"
    using ends shown(1) [OF assms] by (intro dropWhile_hd) (auto simp: plain_char_def)
  moreover have "dropWhile is_quote (rev (show_b256 F w)) = rev (show_b256 F w)"
    using ends shown(1) [OF assms] by (intro dropWhile_hd) (auto simp: plain_char_def hd_rev)
  ultimately show "trim_end_of is_quote (trim_start_of is_quote (CHR 0x22 # show_b256 F w @ [CHR 0x22])) = show_b256 F w"
    by (simp add: trim_end_of_def trim_start_of_def is_quote_def)
qed

lemma separate_topics_shown:
  assumes "hex_lawful F"
  shows "separate_topics F (map (\<lambda>t. Small [t]) (map (\<lambda>w. Some (show_b256 F w)) ws @ replicate n None)) 0 = Some ws"
proof (induction ws)
  case Nil
  then show ?case by (cases n) simp_all
next
  case (Cons w ws)
  have "trim (show_b256 F w) \<noteq> []"
    using shown_ends [OF assms, of w] shown(1) [OF assms] by (simp add: trim_id plain_char_def)
  with Cons show ?case by (simp add: parse_word_shown [OF assms])
qed

lemma join_with_ends:
  assumes "xs \<noteq> []" and "list_all (\<lambda>x. x \<noteq> []) xs"
  shows "join_with sep xs \<noteq> [] \<and> hd (join_with sep xs) = hd (hd xs) \<and> last (join_with sep xs) = last (last xs)"
  using assms by (induction sep xs rule: join_with.induct) (auto simp: hd_append)

text \<open>A joined text of words, each in an optional pair of quotes, gives back the words.\<close>

lemma split_topics_joined:
  assumes "hex_lawful F" and "text = (if q then (\<lambda>w. CHR 0x22 # show_b256 F w @ [CHR 0x22]) else show_b256 F)"
    and "sp = [] \<or> sp = '' ''"
  shows "collect_options (parse_word F)
     (filter (\<lambda>part. part \<noteq> []) (map (\<lambda>part. trim_end_of is_quote (trim_start_of is_quote (trim part)))
        (split_char CHR '','' (join_with (CHR '','' # sp) (map text ws))))) = Some ws"
proof (cases "ws = []")
  case True
  then show ?thesis by (simp add: trim_def trim_end_of_def trim_start_of_def)
next
  case False
  have comma: "list_all (\<lambda>x. CHR '','' \<notin> set x) (map text ws)"
    using shown(2) [OF assms(1)] by (auto simp: assms(2) list_all_iff plain_char_def)
  have piece: "trim_end_of is_quote (trim_start_of is_quote (trim (text w))) = show_b256 F w" for w
  proof -
    have "trim (text w) = text w"
      using shown_ends [OF assms(1), of w] by (intro trim_id) (simp add: assms(2) plain_char_def is_space_def)
    then show ?thesis using trim_quotes_shown [OF assms(1), of w] by (simp add: assms(2))
  qed
  moreover have "trim (sp @ s) = trim s" for s
    using assms(3) by (auto simp: trim_def is_space_def)
  moreover have "CHR '','' \<notin> set sp" using assms(3) by auto
  ultimately have "map (\<lambda>part. trim_end_of is_quote (trim_start_of is_quote (trim part)))
      (split_char CHR '','' (join_with (CHR '','' # sp) (map text ws))) = map (show_b256 F) ws"
    using False comma by (cases ws) (simp_all add: split_char_join del: join_with.simps)
  with shown(1) [OF assms(1)] show ?thesis
    by (simp add: filter_True collect_options_map parse_word_shown [OF assms(1)])
qed

lemma bracketed_text:
  assumes "s = [] \<or> hd s \<noteq> CHR ''['' \<and> last s \<noteq> CHR '']''"
  shows "trim_end_of (\<lambda>c. c = CHR '']'') (trim_start_of (\<lambda>c. c = CHR ''['') (trim (''['' @ s @ '']''))) = s"
proof -
  have "trim (''['' @ s @ '']'') = ''['' @ s @ '']''" by (rule trim_id) (simp add: is_space_def)
  moreover have "dropWhile (\<lambda>c. c = CHR ''['') (s @ '']'') = s @ '']''"
    using assms by (intro dropWhile_hd) (auto simp: hd_append)
  moreover have "dropWhile (\<lambda>c. c = CHR '']'') (rev s) = rev s"
    using assms by (cases "s = []") (auto intro!: dropWhile_hd simp: hd_rev)
  ultimately show ?thesis by (simp add: trim_end_of_def trim_start_of_def)
qed

lemma unbracketed_text:
  assumes "s = [] \<or> plain_char (hd s) \<and> plain_char (last s)"
  shows "trim_end_of (\<lambda>c. c = CHR '']'') (trim_start_of (\<lambda>c. c = CHR ''['') (trim s)) = s"
proof -
  have "trim s = s" using assms by (intro trim_id) (auto simp: plain_char_def)
  moreover have "dropWhile (\<lambda>c. c = CHR ''['') s = s" "dropWhile (\<lambda>c. c = CHR '']'') (rev s) = rev s"
    using assms by (cases "s = []"; auto intro!: dropWhile_hd simp: hd_rev plain_char_def)+
  ultimately show ?thesis by (simp add: trim_end_of_def trim_start_of_def)
qed

lemma topic_layouts:
  assumes "hex_lawful F" and "length ws \<le> 4"
  shows "topics_row F (SeparateTopics (map (\<lambda>t. Small [t]) (map (\<lambda>w. Some (show_b256 F w)) ws @ replicate (4 - length ws) None))) 0 = Some ws"
    and "topics_row F (JoinedTopics (Small [Some (join_with '','' (map (show_b256 F) ws))])) 0 = Some ws"
    and "topics_row F (JoinedTopics (Small [Some (''['' @ join_with '', '' (map (\<lambda>w. CHR 0x22 # show_b256 F w @ [CHR 0x22]) ws) @ '']'')])) 0 = Some ws"
    and "topics_row F (ListTopics [Some (Utf8Column (map (\<lambda>w. Some (show_b256 F w)) ws))]) 0 = Some ws"
proof -
  show "topics_row F (SeparateTopics (map (\<lambda>t. Small [t]) (map (\<lambda>w. Some (show_b256 F w)) ws @ replicate (4 - length ws) None))) 0 = Some ws"
    using separate_topics_shown [OF assms(1)] by simp
  let ?plain = "join_with '','' (map (show_b256 F) ws)" and ?quoted = "join_with '', '' (map (\<lambda>w. CHR 0x22 # show_b256 F w @ [CHR 0x22]) ws)"
  have "?plain = [] \<or> plain_char (hd ?plain) \<and> plain_char (last ?plain)"
    using join_with_ends [of "map (show_b256 F) ws" "'',''"] shown(1) [OF assms(1)] shown_ends [OF assms(1)]
    by (cases "ws = []") (auto simp: list_all_iff hd_map last_map)
  then show "topics_row F (JoinedTopics (Small [Some ?plain])) 0 = Some ws"
    using split_topics_joined [OF assms(1), of "show_b256 F" False "[]" ws] by (simp add: split_topics_def unbracketed_text)
  have "?quoted = [] \<or> hd ?quoted \<noteq> CHR ''['' \<and> last ?quoted \<noteq> CHR '']''"
    using join_with_ends [of "map (\<lambda>w. CHR 0x22 # show_b256 F w @ [CHR 0x22]) ws" "'', ''"]
    by (cases "ws = []") (auto simp: list_all_iff hd_map last_map)
  then have "trim_end_of (\<lambda>c. c = CHR '']'') (trim_start_of (\<lambda>c. c = CHR ''['') (trim (''['' @ ?quoted @ '']''))) = ?quoted"
    by (rule bracketed_text)
  then show "topics_row F (JoinedTopics (Small [Some (''['' @ ?quoted @ '']'')])) 0 = Some ws"
    using split_topics_joined [OF assms(1), of "\<lambda>w. CHR 0x22 # show_b256 F w @ [CHR 0x22]" True "'' ''" ws] by (simp add: split_topics_def)
  have "collect_options (\<lambda>t. case t of None \<Rightarrow> None | Some text \<Rightarrow> parse_word F text) (map (\<lambda>w. Some (show_b256 F w)) ws) = Some ws"
    by (rule collect_options_map) (simp add: parse_word_shown [OF assms(1)])
  then show "topics_row F (ListTopics [Some (Utf8Column (map (\<lambda>w. Some (show_b256 F w)) ws))]) 0 = Some ws"
    using collect_options_upt [of "\<lambda>t. case t of None \<Rightarrow> None | Some text \<Rightarrow> parse_word F text" "map (\<lambda>w. Some (show_b256 F w)) ws"]
    by (simp add: list_topics_def)
qed

text \<open>
  the layouts of topics agree. Up to four topics give the same words whether they come as separate columns
  with nulls for the absent ones, as one text separated by commas, as a JSON-like list in one text, or as a list
  column, provided that printed words parse and hold no separator.
\<close>

theorem erc_topic_layouts_agree:
  assumes "hex_lawful F" and "length ws \<le> 4"
  shows "topics_row F (SeparateTopics (map (\<lambda>t. Small [t]) (map (\<lambda>w. Some (show_b256 F w)) ws @ replicate (4 - length ws) None))) 0 = Some ws \<and>
     topics_row F (JoinedTopics (Small [Some (join_with '','' (map (show_b256 F) ws))])) 0 = Some ws \<and>
     topics_row F (JoinedTopics (Small [Some (''['' @ join_with '', '' (map (\<lambda>w. CHR 0x22 # show_b256 F w @ [CHR 0x22]) ws) @ '']'')])) 0 = Some ws \<and>
     topics_row F (ListTopics [Some (Utf8Column (map (\<lambda>w. Some (show_b256 F w)) ws))]) 0 = Some ws"
  using topic_layouts [OF assms] by blast

section \<open>Every batch of the schema is decoded\<close>

lemma append_output_fields_Inr:
  "append_output_fields input names fs = Inr out \<Longrightarrow>
     out = fs @ map (\<lambda>name. \<lparr>field_name = name, data_type = DUtf8, nullable = True\<rparr>) names \<and> list_all (\<lambda>name. index_of input name = None) names"
  by (induction input names fs rule: append_output_fields.induct) (auto split: if_splits)

lemma topics_from_batch_ok:
  assumes "validate_columns F schema columns = Inr ()" and "batch_of schema b"
  shows "\<exists>topics. topics_from_batch F b (lc_topics columns) = Inr topics"
proof (cases "lc_topics columns")
  case (Separate t0 t1 t2 t3)
  then have valid: "validate_text_columns (show_type F) schema [lc_address columns, lc_data columns, t0, t1, t2, t3] = Inr ()"
    using assms(1) by (simp add: validate_columns_def outcome)
  have "\<exists>t. text_column (show_type F) b name ERC_PLUGIN_NAME = Inr t" if "name \<in> {t0, t1, t2, t3}" for name
    using validated_column [OF valid _ assms(2), of name] that by auto
  then obtain f where "text_column (show_type F) b name ERC_PLUGIN_NAME = Inr (f name)" if "name \<in> {t0, t1, t2, t3}" for name
    by metis
  then show ?thesis using Separate by (simp add: topics_from_batch_def)
next
  case (Joined name)
  then obtain i where i: "index_of schema name = Some i" "child_is_text (data_type (schema ! i))"
    using assms(1) by (auto simp: validate_columns_def outcome field_with_name_def split: option.splits if_splits)
  note column = batch_of_column [OF assms(2) i(1)]
  have "is_text (column_type (tb_columns b ! i)) \<or> is_list (column_type (tb_columns b ! i)) \<or> is_large_list (column_type (tb_columns b ! i))"
    using i(2) column(1) by (cases "data_type (schema ! i)" rule: child_is_text.cases) auto
  with column(3) i(1) Joined assms(2) show ?thesis
    by (cases "tb_columns b ! i") (auto simp: topics_from_batch_def batch_of_def column_ok_def)
qed

text \<open>
  C36: a transform that was constructed decodes every batch of its input schema. Decoding does not fail, it gives
  one entry for each row, and the columns handed to the batch constructor have the types of the declared output
  schema, position by position, and one value for each row.
\<close>

theorem erc_decodes_every_batch:
  assumes "erc_new F env schema options = Inr t" and "batch_of schema b"
  shows "\<exists>events. decode_batch F b (set_columns (erc_settings t)) (set_tokens (erc_settings t)) = Inr events \<and>
     length events = tb_rows b \<and>
     map column_type (appended_columns F b events) = map data_type (erc_schema t) \<and>
     list_all (\<lambda>c. column_length c = tb_rows b) (appended_columns F b events)"
proof -
  define columns where "columns = set_columns (erc_settings t)"
  have valid: "validate_columns F schema columns = Inr ()" and schema: "erc_output_schema schema = Inr (erc_schema t)"
    using assms(1) by (auto simp: erc_new_def outcome columns_def)
  then have texts: "validate_text_columns (show_type F) schema ([lc_address columns, lc_data columns] @
      (case lc_topics columns of Separate t0 t1 t2 t3 \<Rightarrow> [t0, t1, t2, t3] | Joined _ \<Rightarrow> [])) = Inr ()"
    by (simp add: validate_columns_def outcome)
  obtain address where address: "text_column (show_type F) b (lc_address columns) ERC_PLUGIN_NAME = Inr address"
    using validated_column [OF texts _ assms(2), of "lc_address columns"] by auto
  obtain data where data: "text_column (show_type F) b (lc_data columns) ERC_PLUGIN_NAME = Inr data"
    using validated_column [OF texts _ assms(2), of "lc_data columns"] by auto
  obtain topics where topics: "topics_from_batch F b (lc_topics columns) = Inr topics"
    using topics_from_batch_ok [OF valid assms(2)] by blast
  obtain events where events: "decode_batch F b columns (set_tokens (erc_settings t)) = Inr events" and len: "length events = tb_rows b"
    using address data topics by (simp add: decode_batch_def)
  have "erc_schema t = schema @ map (\<lambda>name. \<lparr>field_name = name, data_type = DUtf8, nullable = True\<rparr>) OUTPUT_COLUMNS"
    using append_output_fields_Inr [OF schema [unfolded erc_output_schema_def]] by simp
  then have "map column_type (appended_columns F b events) = map data_type (erc_schema t)"
    using assms(2) by (simp add: appended_columns_def batch_of_def OUTPUT_COLUMNS_def upt_rec)
  moreover have "list_all (\<lambda>c. column_length c = tb_rows b) (appended_columns F b events)"
    using assms(2) len by (auto simp: appended_columns_def batch_of_def list_all_iff)
  ultimately show ?thesis using events len by (auto simp: columns_def)
qed

section \<open>Examples\<close>

text \<open>Words and addresses printed as decimal numbers.\<close>

definition sample_evm :: evm_foreign where
  "sample_evm =
     \<lparr>parse_b256 = (\<lambda>s. case parse_unsigned (2 ^ 256 - 1) s of Inl _ \<Rightarrow> None | Inr n \<Rightarrow> Some (of_nat n)),
      parse_address = (\<lambda>s. case parse_unsigned (2 ^ 160 - 1) s of Inl _ \<Rightarrow> None | Inr n \<Rightarrow> Some (of_nat n)),
      show_b256 = (\<lambda>w. show_nat (unat w)), show_address = (\<lambda>a. show_nat (unat a)), show_type = (\<lambda>_. ''type''),
      CONFIDENTIAL_TRANSFER_TOPIC = 1, OPERATOR_SET_TOPIC = 2, AMOUNT_DISCLOSED_TOPIC = 3\<rparr>"

lemma digit_plain: "is_digit c \<Longrightarrow> plain_char c"
  by (auto simp: is_digit_def plain_char_def is_space_def is_quote_def)

lemma sample_evm_lawful: "hex_lawful sample_evm"
proof -
  have "unat w \<le> 2 ^ 256 - 1" for w :: B256 using unsigned_less [of w, where ?'a = nat] by simp
  then have "parse_unsigned (2 ^ 256 - 1) (show_nat (unat w)) = Inr (unat w)" for w :: B256
    by (rule parse_unsigned_show)
  then show ?thesis
    using digit_plain show_nat_digits by (auto simp: hex_lawful_def sample_evm_def list_all_iff)
qed

theorem erc_topic_layouts_agree_witness:
  "topics_row sample_evm (JoinedTopics (Small [Some (''['' @ join_with '', '' (map (\<lambda>w. CHR 0x22 # show_b256 sample_evm w @ [CHR 0x22]) [1, 7]) @ '']'')])) 0 = Some [1, 7]"
  using erc_topic_layouts_agree [OF sample_evm_lawful, of "[1, 7]"] by simp

theorem erc_decode_exact_witness:
  "decode_row sample_evm 0 (Small [Some ''9'']) (JoinedTopics (Small [Some ''2,5,6''])) (Small [Some ''1337'']) {} = Some (OperatorSet 9 5 6 1337)"
proof -
  have parse: "parse_unsigned (2 ^ 256 - 1) ''2'' = Inr 2" "parse_unsigned (2 ^ 256 - 1) ''5'' = Inr 5" "parse_unsigned (2 ^ 256 - 1) ''6'' = Inr 6"
    "parse_unsigned (2 ^ 256 - 1) ''1337'' = Inr 1337" "parse_unsigned (2 ^ 160 - 1) ''9'' = Inr 9"
    by (simp_all add: parse_unsigned_def is_digit_def)
  have "topics_row sample_evm (JoinedTopics (Small [Some ''2,5,6''])) 0 = Some [2, 5, 6]"
    using parse by (simp add: split_topics_def parse_word_def trim_def trim_end_of_def trim_start_of_def is_space_def is_quote_def sample_evm_def)
  moreover have "decode_address sample_evm (Small [Some ''9'']) 0 = Some 9" "data_word sample_evm (Small [Some ''1337'']) 0 = Some 1337"
    using parse by (simp_all add: decode_address_def data_word_def parse_word_def trim_def is_space_def sample_evm_def)
  ultimately show ?thesis
    using erc_decode_exact [of sample_evm 0 "Small [Some ''9'']" "JoinedTopics (Small [Some ''2,5,6''])" "Small [Some ''1337'']" "{}" "OperatorSet 9 5 6 1337"]
    by (simp add: sample_evm_def)
qed

definition log_schema :: Schema where
  "log_schema = map (\<lambda>name. \<lparr>field_name = name, data_type = DUtf8, nullable = True\<rparr>) [''address'', ''topics'', ''data'']"

definition log_batch :: text_batch where
  "log_batch = \<lparr>tb_schema = log_schema, tb_columns = [Utf8Column [Some ''9''], Utf8Column [None], Utf8Column [Some ''1337'']], tb_rows = 1\<rparr>"

definition log_transform :: Erc7984DecodeTransform where
  "log_transform =
     \<lparr>erc_settings = \<lparr>set_columns = \<lparr>lc_address = ''address'', lc_topics = Joined ''topics'', lc_data = ''data''\<rparr>, set_tokens = {}\<rparr>,
      erc_schema = log_schema @ map (\<lambda>name. \<lparr>field_name = name, data_type = DUtf8, nullable = True\<rparr>) OUTPUT_COLUMNS, erc_running = True\<rparr>"

lemma log_transform_new: "erc_new sample_evm (\<lambda>_. None) log_schema [(''topics_column'', ''topics'')] = Inr log_transform"
  by (simp add: erc_new_def settings_parse_def lookup_non_empty_def filter_non_empty_def lookup_def get_or_def plugin_options_new_def
      validate_columns_def field_with_name_def log_schema_def erc_output_schema_def OUTPUT_COLUMNS_def log_transform_def)

theorem erc_decodes_every_batch_witness:
  "\<exists>events. decode_batch sample_evm log_batch (set_columns (erc_settings log_transform)) (set_tokens (erc_settings log_transform)) = Inr events \<and>
     length events = 1"
proof -
  have "batch_of log_schema log_batch"
    by (simp add: batch_of_def log_batch_def log_schema_def column_ok_def)
  from erc_decodes_every_batch [OF log_transform_new this] show ?thesis by (auto simp: log_batch_def)
qed

end
