(* ===== verification/ZamaPublic.thy ===== *)
theory ZamaPublic
  imports Erc7984
begin

text \<open>
  The transform that decrypts publicly decryptable handles, \<open>src/src/transforms/zama_public_decrypt.rs\<close>. The answers
  of the decryption service to a request are a parameter, as is the construction of the SDK context.
\<close>

section \<open>Errors and values of the service\<close>

record SdkError =
  sdk_code :: string
  sdk_message :: string
  sdk_retryable :: bool

datatype ErrorKind = InvalidInput | SdkFailure | OtherKind string

record ClientError =
  ce_kind :: ErrorKind
  ce_sdk_error :: "SdkError option"
  ce_text :: string

text \<open>A number is given by its printed form.\<close>

datatype ClearValue = BigInt int | Number string | Bool bool | String string | Undefined

definition PUBLIC_REFUSAL_CODES :: "string list" where
  "PUBLIC_REFUSAL_CODES = [''NOT_ENTITLED'', ''NO_CIPHERTEXT'']"

definition public_is_refusal :: "ClientError \<Rightarrow> bool" where
  "public_is_refusal e =
     (case ce_kind e of
        InvalidInput \<Rightarrow> True
      | SdkFailure \<Rightarrow> (case ce_sdk_error e of None \<Rightarrow> False | Some sdk \<Rightarrow> \<not> sdk_retryable sdk \<and> sdk_code sdk \<in> set PUBLIC_REFUSAL_CODES)
      | OtherKind _ \<Rightarrow> False)"

fun render :: "ClearValue \<Rightarrow> string + string" where
  "render (BigInt v) = Inr (show_int v)"
| "render (Number text) = Inr text"
| "render (Bool b) = Inr (if b then ''1'' else ''0'')"
| "render (String s) = Inr s"
| "render Undefined = Inl ''relayer returned an undefined value''"

type_synonym clear_values = "(B256, ClearValue) hash_map"

definition answer :: "clear_values \<Rightarrow> B256 \<Rightarrow> string + string" where
  "answer vals handle =
     (case hm_get vals handle of None \<Rightarrow> Inl ''relayer returned no result for handle'' | Some v \<Rightarrow> render v)"

section \<open>Requests\<close>

definition MAX_REQUEST_BITS :: nat where
  "MAX_REQUEST_BITS = 2048"

definition encryption_bits :: "B256 \<Rightarrow> nat" where
  "encryption_bits handle =
     (let t = unat (word_byte handle 30) in
      if t = 0 then 2 else if t = 2 then 8 else if t = 3 then 16 else if t = 4 then 32 else if t = 5 then 64
      else if t = 6 then 128 else if t = 7 then 160 else 256)"

text \<open>The loop with the chunks so far, the last one open, and the bits of that one.\<close>

fun chunk_loop_bits :: "B256 list list \<Rightarrow> nat \<Rightarrow> B256 list \<Rightarrow> B256 list list" where
  "chunk_loop_bits chunks bits [] = chunks"
| "chunk_loop_bits chunks bits (h # hs) =
     (let cost = encryption_bits h in
      if chunks \<noteq> [] \<and> bits + cost \<le> MAX_REQUEST_BITS
      then chunk_loop_bits (butlast chunks @ [last chunks @ [h]]) (bits + cost) hs
      else chunk_loop_bits (chunks @ [[h]]) (0 + cost) hs)"

definition chunk_by_bits :: "B256 list \<Rightarrow> B256 list list" where
  "chunk_by_bits handles = chunk_loop_bits [] 0 handles"

type_synonym answers = "(B256, string + string) hash_map"

text \<open>Asking one handle at a time, so that a refusal is the answer for that handle only.\<close>

fun decrypt_each :: "(B256 list \<Rightarrow> ClientError + clear_values) \<Rightarrow> B256 list \<Rightarrow> answers \<Rightarrow> ClientError + answers" where
  "decrypt_each decrypt [] acc = Inr acc"
| "decrypt_each decrypt (h # hs) acc =
     (case decrypt [h] of
        Inr vals \<Rightarrow> decrypt_each decrypt hs (hm_insert h (answer vals h) acc)
      | Inl e \<Rightarrow> if public_is_refusal e then decrypt_each decrypt hs (hm_insert h (Inl (ce_text e)) acc) else Inl e)"

definition decrypt_chunk :: "(B256 list \<Rightarrow> ClientError + clear_values) \<Rightarrow> B256 list \<Rightarrow> ClientError + answers" where
  "decrypt_chunk decrypt handles =
     (case decrypt handles of
        Inr vals \<Rightarrow> Inr (fold (\<lambda>h m. hm_insert h (answer vals h) m) handles [])
      | Inl e \<Rightarrow>
          if \<not> public_is_refusal e then Inl e
          else if length handles = 1 then Inr [(hd handles, Inl (ce_text e))]
          else decrypt_each decrypt handles [])"

fun decrypt_chunks :: "(B256 list \<Rightarrow> ClientError + clear_values) \<Rightarrow> B256 list list \<Rightarrow> answers \<Rightarrow> ClientError + answers" where
  "decrypt_chunks decrypt [] acc = Inr acc"
| "decrypt_chunks decrypt (c # cs) acc =
     res_bind (decrypt_chunk decrypt c) (\<lambda>m. decrypt_chunks decrypt cs (fold (\<lambda>(h, r). hm_insert h r) m acc))"

definition decrypt_all :: "(B256 list \<Rightarrow> ClientError + clear_values) \<Rightarrow> B256 list \<Rightarrow> ClientError + answers" where
  "decrypt_all decrypt handles = decrypt_chunks decrypt (chunk_by_bits handles) []"

section \<open>The transform\<close>

definition PUBLIC_PLUGIN_NAME :: string where
  "PUBLIC_PLUGIN_NAME = ''zama_public_decrypt''"

definition AMOUNT_COLUMN :: string where
  "AMOUNT_COLUMN = ''zama_public_amount''"

definition PUBLIC_ERROR_COLUMN :: string where
  "PUBLIC_ERROR_COLUMN = ''zama_public_error''"

definition public_output_schema :: "evm_foreign \<Rightarrow> Schema \<Rightarrow> string \<Rightarrow> string + Schema" where
  "public_output_schema F input handle_column =
     (case field_with_name input handle_column of
        None \<Rightarrow> Inl (''input has no '' @ quoted handle_column @ '' column'')
      | Some f \<Rightarrow>
          if \<not> is_text (data_type f)
          then Inl (''column '' @ quoted handle_column @ '' must be a string column, got '' @ show_type F (data_type f))
          else append_output_fields input [AMOUNT_COLUMN, PUBLIC_ERROR_COLUMN] input)"

definition parse_handle :: "evm_foreign \<Rightarrow> string \<Rightarrow> string + B256" where
  "parse_handle F text = ok_or (''invalid handle '' @ quoted text) (parse_b256 F (trim text))"

definition read_handles :: "evm_foreign \<Rightarrow> text_batch \<Rightarrow> string \<Rightarrow> PluginError + (string + B256) option list" where
  "read_handles F b name =
     (case index_of (tb_schema b) name of
        None \<Rightarrow> Inl (Execution (PUBLIC_PLUGIN_NAME @ '': missing column '' @ quoted name))
      | Some i \<Rightarrow>
          (case text_column_from (tb_columns b ! i) of
             Inr t \<Rightarrow> Inr (map (\<lambda>row. map_option (parse_handle F) (text_value t row)) [0..<row_count t])
           | Inl dt \<Rightarrow> Inl (Execution (PUBLIC_PLUGIN_NAME @ '': column '' @ quoted name @ '' must be a string column, got '' @ show_type F dt))))"

text \<open>The handles of the rows, sorted, each once.\<close>

definition unique_handles :: "(string + B256) option list \<Rightarrow> B256 list" where
  "unique_handles rows =
     remdups_adj (sort (List.map_filter (\<lambda>row. case row of Some (Inr h) \<Rightarrow> Some h | _ \<Rightarrow> None) rows))"

text \<open>The amount and the error of a row; \<open>None\<close> is the panic of a handle without an answer.\<close>

definition row_result :: "answers \<Rightarrow> (string + B256) option \<Rightarrow> (string option \<times> string option) option" where
  "row_result answers row =
     (case row of
        None \<Rightarrow> Some (None, None)
      | Some (Inl e) \<Rightarrow> Some (None, Some e)
      | Some (Inr h) \<Rightarrow>
          (case hm_get answers h of
             None \<Rightarrow> None
           | Some (Inr amount) \<Rightarrow> Some (Some amount, None)
           | Some (Inl e) \<Rightarrow> Some (None, Some e)))"

record ZamaPublicDecryptTransform =
  zp_chain_id :: nat
  zp_rpc_url :: string
  zp_daemon_socket :: string
  zp_relayer_api_key :: "string option"
  zp_handle_column :: string
  zp_output_schema :: Schema
  zp_connected :: bool
  zp_running :: bool

definition public_new ::
  "evm_foreign \<Rightarrow> environment \<Rightarrow> Schema \<Rightarrow> (string, string) hash_map \<Rightarrow> PluginError + ZamaPublicDecryptTransform" where
  "public_new F env schema options =
     (let o' = plugin_options_new options PUBLIC_PLUGIN_NAME ''STREAMLING__PLUGIN__ZAMA_PUBLIC_DECRYPT'' in
      res_bind (res_bind (get_option env o' ''chain_id'') (\<lambda>v. parse_value (parse_unsigned u64_max) o' ''chain_id'' v)) (\<lambda>chain_id.
      res_bind (get_option env o' ''rpc_url'') (\<lambda>rpc_url.
      res_bind (get_option env o' ''daemon_socket'') (\<lambda>daemon_socket.
      res_bind (get_env_only_secret env o' ''relayer_api_key'') (\<lambda>relayer_api_key.
      (let handle_column = get_or env o' ''handle_column'' ''handle'' in
       res_bind (map_err (\<lambda>m. Internal (PUBLIC_PLUGIN_NAME @ '': '' @ m)) (public_output_schema F schema handle_column)) (\<lambda>output.
       Inr \<lparr>zp_chain_id = chain_id, zp_rpc_url = rpc_url, zp_daemon_socket = daemon_socket, zp_relayer_api_key = relayer_api_key,
            zp_handle_column = handle_column, zp_output_schema = output, zp_connected = False, zp_running = True\<rparr>)))))))"

text \<open>\<open>connect\<close> and \<open>build\<close> are the errors of reaching the daemon and of creating the context.\<close>

definition public_initialize :: "string option \<Rightarrow> string option \<Rightarrow> ZamaPublicDecryptTransform \<Rightarrow> (PluginError + unit) \<times> ZamaPublicDecryptTransform" where
  "public_initialize connect build t =
     (if zp_connected t then (Inr (), t)
      else
        (case connect of
           Some e \<Rightarrow> (Inl (Internal (PUBLIC_PLUGIN_NAME @ '': connecting to daemon at '' @ zp_daemon_socket t @ '': '' @ e)), t)
         | None \<Rightarrow>
             (case build of
                Some e \<Rightarrow> (Inl (Internal (PUBLIC_PLUGIN_NAME @ '': creating SDK context: '' @ e)), t)
              | None \<Rightarrow> (Inr (), t\<lparr>zp_connected := True\<rparr>))))"

text \<open>The columns for the batch constructor; the outer \<open>None\<close> is a panic.\<close>

definition public_columns ::
  "evm_foreign \<Rightarrow> (B256 list \<Rightarrow> ClientError + clear_values) \<Rightarrow> ZamaPublicDecryptTransform \<Rightarrow> text_batch \<Rightarrow> (PluginError + Column list) option" where
  "public_columns F decrypt t b =
     (if \<not> zp_connected t then Some (Inl (Internal (PUBLIC_PLUGIN_NAME @ '': batch before initialize'')))
      else
        (case read_handles F b (zp_handle_column t) of
           Inl e \<Rightarrow> Some (Inl e)
         | Inr rows \<Rightarrow>
             (case decrypt_all decrypt (unique_handles rows) of
                Inl e \<Rightarrow> Some (Inl (Execution (PUBLIC_PLUGIN_NAME @ '': public decrypt failed: '' @ ce_text e)))
              | Inr answers \<Rightarrow>
                  (case collect_options (row_result answers) rows of
                     None \<Rightarrow> None
                   | Some cells \<Rightarrow> Some (Inr (tb_columns b @ [Utf8Column (map fst cells), Utf8Column (map snd cells)]))))))"

definition public_process_batch ::
  "evm_foreign \<Rightarrow> (Schema \<Rightarrow> Column list \<Rightarrow> ArrowError + 'b) \<Rightarrow> (B256 list \<Rightarrow> ClientError + clear_values) \<Rightarrow> ZamaPublicDecryptTransform \<Rightarrow> text_batch
     \<Rightarrow> (PluginError + 'b) option" where
  "public_process_batch F try_new decrypt t b =
     map_option (\<lambda>res. res_bind res (\<lambda>columns. map_err ArrowFailure (try_new (zp_output_schema t) columns))) (public_columns F decrypt t b)"

definition public_terminate :: "ZamaPublicDecryptTransform \<Rightarrow> ZamaPublicDecryptTransform" where
  "public_terminate t = t\<lparr>zp_running := False\<rparr>"

section \<open>Requests stay within the budget\<close>

definition chunk_bits :: "B256 list \<Rightarrow> nat" where
  "chunk_bits c = sum_list (map encryption_bits c)"

text \<open>Chunks that are not empty, fit the budget, and could not have taken the handle that opens the next one.\<close>

definition chunks_ok :: "B256 list list \<Rightarrow> bool" where
  "chunks_ok cs \<longleftrightarrow>
     list_all (\<lambda>c. c \<noteq> [] \<and> chunk_bits c \<le> MAX_REQUEST_BITS) cs \<and>
     successively (\<lambda>c d. MAX_REQUEST_BITS < chunk_bits c + encryption_bits (hd d)) cs"

lemma encryption_bits_bound: "encryption_bits h \<le> MAX_REQUEST_BITS"
  by (simp add: encryption_bits_def Let_def MAX_REQUEST_BITS_def)

lemma chunks_ok_extend:
  assumes "chunks_ok (cs @ [c])" and "chunk_bits c + encryption_bits h \<le> MAX_REQUEST_BITS"
  shows "chunks_ok (cs @ [c @ [h]])"
  using assms by (auto simp: chunks_ok_def chunk_bits_def successively_append_iff hd_append)

lemma chunks_ok_open:
  assumes "chunks_ok cs" and "cs \<noteq> [] \<longrightarrow> MAX_REQUEST_BITS < chunk_bits (last cs) + encryption_bits h"
  shows "chunks_ok (cs @ [[h]])"
  using assms encryption_bits_bound [of h] by (auto simp: chunks_ok_def chunk_bits_def successively_append_iff)

lemma chunk_loop_bits_ok:
  assumes "chunks_ok chunks" and "chunks \<noteq> [] \<longrightarrow> bits = chunk_bits (last chunks)"
  shows "concat (chunk_loop_bits chunks bits hs) = concat chunks @ hs \<and> chunks_ok (chunk_loop_bits chunks bits hs)"
  using assms
proof (induction chunks bits hs rule: chunk_loop_bits.induct)
  case (2 chunks bits h hs)
  show ?case
  proof (cases "chunks \<noteq> [] \<and> bits + encryption_bits h \<le> MAX_REQUEST_BITS")
    case True
    then obtain cs c where cs: "chunks = cs @ [c]" by (metis rev_exhaust)
    with True 2 have "chunks_ok (cs @ [c @ [h]])" by (intro chunks_ok_extend) auto
    with "2.IH"(1) [OF refl True] True cs "2.prems"(2) show ?thesis
      by (simp add: chunk_bits_def Let_def)
  next
    case False
    with 2 have "chunks_ok (chunks @ [[h]])" by (intro chunks_ok_open) auto
    with "2.IH"(2) [OF refl False] show ?thesis unfolding chunk_loop_bits.simps(2) Let_def if_not_P [OF False]
      by (simp add: chunk_bits_def)
  qed
qed simp

text \<open>
  C38: the handles of a batch are asked for within the limits of the service. The chunks are the handles in order,
  none is empty, the encrypted bits of each stay within the limit of a request, and none could have taken the
  first handle of the chunk after it.
\<close>

theorem zama_requests_within_budget:
  "concat (chunk_by_bits handles) = handles \<and> chunks_ok (chunk_by_bits handles)"
  using chunk_loop_bits_ok [of "[]" 0 handles] by (simp add: chunk_by_bits_def chunks_ok_def)

section \<open>Every row has its own answer\<close>

text \<open>
  What the service promises while a batch is processed: it fails only by refusing, and a request that succeeds
  answers each of its handles as if it were asked alone.
\<close>

definition service_lawful :: "(B256 list \<Rightarrow> ClientError + clear_values) \<Rightarrow> bool" where
  "service_lawful decrypt \<longleftrightarrow>
     (\<forall>hs e. decrypt hs = Inl e \<longrightarrow> public_is_refusal e) \<and>
     (\<forall>hs vals h. decrypt hs = Inr vals \<and> h \<in> set hs \<longrightarrow> (\<exists>vals'. decrypt [h] = Inr vals' \<and> answer vals h = answer vals' h))"

definition single_answer :: "(B256 list \<Rightarrow> ClientError + clear_values) \<Rightarrow> B256 \<Rightarrow> string + string" where
  "single_answer decrypt h = (case decrypt [h] of Inr vals \<Rightarrow> answer vals h | Inl e \<Rightarrow> Inl (ce_text e))"

lemma decrypt_each_lawful:
  assumes "service_lawful decrypt"
  shows "\<exists>m. decrypt_each decrypt hs acc = Inr m \<and> map_of m = map_of acc ++ (\<lambda>h. if h \<in> set hs then Some (single_answer decrypt h) else None)"
proof (induction hs arbitrary: acc)
  case Nil
  then show ?case by (simp add: map_add_def)
next
  case (Cons h hs)
  define acc' where "acc' = hm_insert h (single_answer decrypt h) acc"
  have "decrypt_each decrypt (h # hs) acc = decrypt_each decrypt hs acc'"
    using assms by (auto simp: acc'_def single_answer_def service_lawful_def split: sum.split)
  with Cons.IH [of acc'] show ?case
    by (auto simp: acc'_def map_add_def fun_eq_iff)
qed

lemma fold_insert_answers: "map_of (fold (\<lambda>h m. hm_insert h (f h) m) hs acc) = map_of acc ++ (\<lambda>h. if h \<in> set hs then Some (f h) else None)"
  by (induction hs arbitrary: acc) (auto simp: map_add_def fun_eq_iff)

lemma decrypt_chunk_lawful:
  assumes "service_lawful decrypt"
  shows "\<exists>m. decrypt_chunk decrypt hs = Inr m \<and> map_of m = (\<lambda>h. if h \<in> set hs then Some (single_answer decrypt h) else None)"
proof (cases "decrypt hs")
  case (Inr vals)
  have "answer vals h = single_answer decrypt h" if "h \<in> set hs" for h
    using assms Inr that unfolding service_lawful_def single_answer_def by fastforce
  then show ?thesis using Inr by (auto simp: decrypt_chunk_def fold_insert_answers map_add_def fun_eq_iff)
next
  case (Inl e)
  then have "public_is_refusal e" using assms by (simp add: service_lawful_def)
  show ?thesis
  proof (cases "length hs = 1")
    case True
    then obtain h where "hs = [h]" by (cases hs) auto
    with Inl \<open>public_is_refusal e\<close> show ?thesis by (auto simp: decrypt_chunk_def single_answer_def fun_eq_iff)
  next
    case False
    with Inl \<open>public_is_refusal e\<close> decrypt_each_lawful [OF assms, of hs "[]"] show ?thesis by (auto simp: decrypt_chunk_def)
  qed
qed

lemma decrypt_each_ok: "decrypt_each decrypt hs acc = Inr m \<Longrightarrow> hm_ok acc \<Longrightarrow> hm_ok m"
  by (induction decrypt hs acc rule: decrypt_each.induct) (auto split: sum.splits if_splits)

lemma hm_ok_fold_insert: "hm_ok acc \<Longrightarrow> hm_ok (fold (\<lambda>h m. hm_insert h (f h) m) hs acc)"
  by (induction hs arbitrary: acc) auto

lemma decrypt_chunk_ok: "decrypt_chunk decrypt hs = Inr m \<Longrightarrow> hm_ok m"
  by (auto simp: decrypt_chunk_def hm_ok_fold_insert hm_ok_def [of "[x]" for x] dest: decrypt_each_ok split: sum.splits if_splits)

lemma fold_insert_pairs: "hm_ok m \<Longrightarrow> map_of (fold (\<lambda>(h, r). hm_insert h r) m acc) = map_of acc ++ map_of m"
proof (induction m arbitrary: acc)
  case (Cons e m)
  obtain h r where e: "e = (h, r)" by (cases e)
  with Cons.prems have "map_of m h = None" by (auto simp: hm_ok_def map_of_eq_None_iff)
  with Cons e show ?case by (auto simp: hm_ok_def map_add_def fun_eq_iff split: option.split)
qed simp

lemma map_add_merge:
  "a ++ (\<lambda>h. if P h then Some (f h) else None) ++ (\<lambda>h. if Q h then Some (f h) else None) = a ++ (\<lambda>h. if P h \<or> Q h then Some (f h) else None)"
  by (auto simp: map_add_def fun_eq_iff)

lemma decrypt_chunks_lawful:
  assumes "service_lawful decrypt"
  shows "\<exists>m. decrypt_chunks decrypt cs acc = Inr m \<and>
     map_of m = map_of acc ++ (\<lambda>h. if h \<in> set (concat cs) then Some (single_answer decrypt h) else None)"
proof (induction cs arbitrary: acc)
  case Nil
  then show ?case by (simp add: map_add_def)
next
  case (Cons c cs)
  obtain m where m: "decrypt_chunk decrypt c = Inr m" "map_of m = (\<lambda>h. if h \<in> set c then Some (single_answer decrypt h) else None)"
    using decrypt_chunk_lawful [OF assms] by blast
  define acc' where "acc' = fold (\<lambda>(h, r). hm_insert h r) m acc"
  have "map_of acc' = map_of acc ++ (\<lambda>h. if h \<in> set c then Some (single_answer decrypt h) else None)"
    using fold_insert_pairs [OF decrypt_chunk_ok [OF m(1)]] m(2) by (simp add: acc'_def)
  moreover obtain m' where "decrypt_chunks decrypt cs acc' = Inr m'"
    "map_of m' = map_of acc' ++ (\<lambda>h. if h \<in> set (concat cs) then Some (single_answer decrypt h) else None)"
    using Cons.IH [of acc'] by blast
  ultimately show ?case using m(1) by (simp add: acc'_def [symmetric] map_add_merge)
qed

lemma decrypt_all_lawful:
  assumes "service_lawful decrypt"
  shows "\<exists>m. decrypt_all decrypt hs = Inr m \<and> (\<forall>h \<in> set hs. map_of m h = Some (single_answer decrypt h))"
proof -
  have "concat (chunk_by_bits hs) = hs"
    using chunk_loop_bits_ok [of "[]" 0 hs] by (simp add: chunk_by_bits_def chunks_ok_def)
  with decrypt_chunks_lawful [OF assms, of "chunk_by_bits hs" "[]"] show ?thesis
    by (auto simp: decrypt_all_def map_add_def)
qed

text \<open>What a row should hold: nothing for a null, an error for a malformed handle, or the handle's own answer.\<close>

definition row_spec :: "(B256 list \<Rightarrow> ClientError + clear_values) \<Rightarrow> (string + B256) option \<Rightarrow> string option \<times> string option" where
  "row_spec decrypt row =
     (case row of
        None \<Rightarrow> (None, None)
      | Some (Inl e) \<Rightarrow> (None, Some e)
      | Some (Inr h) \<Rightarrow> (case single_answer decrypt h of Inr amount \<Rightarrow> (Some amount, None) | Inl e \<Rightarrow> (None, Some e)))"

lemma set_unique_handles: "h \<in> set (unique_handles rows) \<longleftrightarrow> Some (Inr h) \<in> set rows"
  by (force simp: unique_handles_def map_filter_def split: option.splits sum.splits)

lemma collect_options_total: "(\<And>x. x \<in> set xs \<Longrightarrow> f x = Some (g x)) \<Longrightarrow> collect_options f xs = Some (map g xs)"
  by (induction xs) auto

text \<open>
  C37: every row gets the answer of its own handle. On a service that fails only by refusing and answers a handle
  of a request as it would alone, processing a batch does not fail or panic, and each row holds nothing for a
  null, an error for malformed text, and otherwise the amount or the refusal of its handle, although handles are
  asked for once and together and a refused request is split.
\<close>

theorem zama_public_rows:
  assumes "service_lawful decrypt" and "zp_connected t" and "read_handles F b (zp_handle_column t) = Inr rows"
  shows "public_columns F decrypt t b =
     Some (Inr (tb_columns b @ [Utf8Column (map (\<lambda>row. fst (row_spec decrypt row)) rows), Utf8Column (map (\<lambda>row. snd (row_spec decrypt row)) rows)]))"
proof -
  obtain m where m: "decrypt_all decrypt (unique_handles rows) = Inr m"
    "\<forall>h \<in> set (unique_handles rows). map_of m h = Some (single_answer decrypt h)"
    using decrypt_all_lawful [OF assms(1)] by blast
  have "row_result m row = Some (row_spec decrypt row)" if "row \<in> set rows" for row
    using m(2) that by (auto simp: row_result_def row_spec_def set_unique_handles split: option.splits sum.splits)
  then have "collect_options (row_result m) rows = Some (map (row_spec decrypt) rows)"
    by (rule collect_options_total)
  with assms(2,3) m(1) show ?thesis by (simp add: public_columns_def comp_def)
qed

text \<open>A service that decrypts a handle to its number and refuses odd ones.\<close>

definition sample_service :: "B256 list \<Rightarrow> ClientError + clear_values" where
  "sample_service hs =
     (if list_ex (\<lambda>h. odd (unat h)) hs
      then Inl \<lparr>ce_kind = InvalidInput, ce_sdk_error = None, ce_text = ''refused''\<rparr>
      else Inr (map (\<lambda>h. (h, BigInt (uint h))) hs))"

lemma sample_service_lawful: "service_lawful sample_service"
proof -
  have "map_of (map (\<lambda>h. (h, BigInt (uint h))) hs) h = Some (BigInt (uint h))" if "h \<in> set hs" for h :: B256 and hs
    using that by (induction hs) auto
  then show ?thesis
    by (auto simp: service_lawful_def sample_service_def public_is_refusal_def answer_def list_ex_iff split: if_splits)
qed

definition public_transform :: ZamaPublicDecryptTransform where
  "public_transform =
     \<lparr>zp_chain_id = 1, zp_rpc_url = ''rpc'', zp_daemon_socket = ''/daemon'', zp_relayer_api_key = None, zp_handle_column = ''data'',
      zp_output_schema = log_schema, zp_connected = True, zp_running = True\<rparr>"

theorem zama_public_rows_witness:
  "public_columns sample_evm sample_service public_transform
     (log_batch\<lparr>tb_columns := [Utf8Column [], Utf8Column [], Utf8Column [Some ''4'', None, Some ''7'', Some ''x'']]\<rparr>) =
   Some (Inr [Utf8Column [], Utf8Column [], Utf8Column [Some ''4'', None, Some ''7'', Some ''x''],
     Utf8Column [Some ''4'', None, None, None], Utf8Column [None, None, Some ''refused'', Some (''invalid handle '' @ quoted ''x'')]])"
proof -
  define b where "b = log_batch\<lparr>tb_columns := [Utf8Column [], Utf8Column [], Utf8Column [Some ''4'', None, Some ''7'', Some ''x'']]\<rparr>"
  have parse: "parse_unsigned (2 ^ 256 - 1) ''4'' = Inr 4" "parse_unsigned (2 ^ 256 - 1) ''7'' = Inr 7"
    "parse_unsigned (2 ^ 256 - 1) ''x'' = Inl ''invalid digit found in string''"
    by (simp_all add: parse_unsigned_def is_digit_def)
  have rows: "read_handles sample_evm b (zp_handle_column public_transform) = Inr [Some (Inr 4), None, Some (Inr 7), Some (Inl (''invalid handle '' @ quoted ''x''))]"
    using parse by (simp add: read_handles_def b_def public_transform_def log_batch_def log_schema_def upt_rec parse_handle_def
        sample_evm_def trim_def is_space_def)
  have digit: "show_int 4 = ''4''" by code_simp
  show ?thesis
    using zama_public_rows [OF sample_service_lawful _ rows]
    by (simp add: b_def [symmetric])
       (simp add: b_def public_transform_def row_spec_def single_answer_def sample_service_def answer_def digit)
qed

end
