(* ===== verification/ZamaDecrypt.thy ===== *)
theory ZamaDecrypt
  imports ZamaPublic "HOL-Library.Multiset"
begin

text \<open>
  The transform that decrypts transfer amounts on behalf of parties that delegated to the plugin,
  \<open>src/src/transforms/zama_decrypt\<close>: settings, the transfers of a batch, delegation lookups with their cache,
  one decryption request per delegator, the cells of a row, and the signing of permits. The answers of the
  daemon, the clocks, the signature scheme and the orders in which hash tables are iterated and concurrent
  lookups complete are parameters.
\<close>

section \<open>Transfers of a batch\<close>

definition ZD_PLUGIN_NAME :: string where
  "ZD_PLUGIN_NAME = ''zama_decrypt''"

definition ZD_ENV_PREFIX :: string where
  "ZD_ENV_PREFIX = ''STREAMLING__PLUGIN__ZAMA_DECRYPT''"

record TransferColumns =
  tc_token :: string
  tc_from :: string
  tc_to :: string
  tc_handle :: string

definition tc_names :: "TransferColumns \<Rightarrow> string list" where
  "tc_names c = [tc_token c, tc_from c, tc_to c, tc_handle c]"

record DecodedTransfer =
  dt_token :: Address
  dt_from :: Address
  dt_to :: Address
  dt_handle :: B256

definition zd_decode_row ::
  "evm_foreign \<Rightarrow> nat \<Rightarrow> TextColumn \<Rightarrow> TextColumn \<Rightarrow> TextColumn \<Rightarrow> TextColumn \<Rightarrow> Address set \<Rightarrow> DecodedTransfer option" where
  "zd_decode_row F row token from to handle tokens =
     Option.bind (Option.bind (text_value token row) (\<lambda>x. parse_address F (trim x))) (\<lambda>token.
     if tokens \<noteq> {} \<and> token \<notin> tokens then None
     else
       Option.bind (Option.bind (text_value from row) (\<lambda>x. parse_address F (trim x))) (\<lambda>from.
       Option.bind (Option.bind (text_value to row) (\<lambda>x. parse_address F (trim x))) (\<lambda>to.
       Option.bind (Option.bind (text_value handle row) (\<lambda>x. parse_b256 F (trim x))) (\<lambda>handle.
       Some \<lparr>dt_token = token, dt_from = from, dt_to = to, dt_handle = handle\<rparr>))))"

definition zd_decode_batch ::
  "evm_foreign \<Rightarrow> text_batch \<Rightarrow> TransferColumns \<Rightarrow> Address set \<Rightarrow> PluginError + DecodedTransfer option list" where
  "zd_decode_batch F b columns tokens =
     res_bind (text_column (show_type F) b (tc_token columns) ZD_PLUGIN_NAME) (\<lambda>token.
     res_bind (text_column (show_type F) b (tc_from columns) ZD_PLUGIN_NAME) (\<lambda>from.
     res_bind (text_column (show_type F) b (tc_to columns) ZD_PLUGIN_NAME) (\<lambda>to.
     res_bind (text_column (show_type F) b (tc_handle columns) ZD_PLUGIN_NAME) (\<lambda>handle.
     Inr (map (\<lambda>row. zd_decode_row F row token from to handle tokens) [0..<tb_rows b])))))"

definition zd_validate_columns :: "evm_foreign \<Rightarrow> Schema \<Rightarrow> TransferColumns \<Rightarrow> string + unit" where
  "zd_validate_columns F schema columns = validate_text_columns (show_type F) schema (tc_names columns)"

section \<open>Errors of the daemon\<close>

record Decrypted =
  zd_amount :: "string option"
  zd_delegator :: "Address option"
  zd_error :: "string option"

definition decrypted_default :: Decrypted where
  "decrypted_default = \<lparr>zd_amount = None, zd_delegator = None, zd_error = None\<rparr>"

datatype BackendError = Rejected string | Transient string

fun backend_error_text :: "BackendError \<Rightarrow> string" where
  "backend_error_text (Rejected message) = message"
| "backend_error_text (Transient message) = message"

definition REFUSAL_CODES :: "string list" where
  "REFUSAL_CODES = [''NOT_ENTITLED'', ''NO_CIPHERTEXT'', ''DELEGATION_NOT_FOUND'', ''DELEGATION_EXPIRED'']"

definition is_refusal :: "SdkError \<Rightarrow> bool" where
  "is_refusal e \<longleftrightarrow> \<not> sdk_retryable e \<and> sdk_code e \<in> set REFUSAL_CODES"

text \<open>\<open>show_kind\<close> is the debug form of the kind.\<close>

definition backend_error_from :: "(ErrorKind \<Rightarrow> string) \<Rightarrow> ClientError \<Rightarrow> BackendError" where
  "backend_error_from show_kind e =
     (let transient = Transient (ce_text e @ '' ('' @ show_kind (ce_kind e) @ '')'') in
      case ce_kind e of
        InvalidInput \<Rightarrow> Rejected (ce_text e)
      | SdkFailure \<Rightarrow>
          (case ce_sdk_error e of
             Some sdk \<Rightarrow> if is_refusal sdk then Rejected (ce_text e) else transient
           | None \<Rightarrow> transient)
      | OtherKind _ \<Rightarrow> transient)"

fun zd_render :: "ClearValue \<Rightarrow> string + string" where
  "zd_render (BigInt v) = Inr (show_int v)"
| "zd_render (Number digits) = Inr digits"
| "zd_render (Bool b) = Inr (if b then ''1'' else ''0'')"
| "zd_render (String s) = Inr s"
| "zd_render Undefined = Inl ''relayer returned an undefined value''"

section \<open>Delegations\<close>

text \<open>A token and a party that may have delegated its decryption rights on it.\<close>

type_synonym party = "Address \<times> Address"

record DelegationQuery =
  dq_contract_address :: Address
  dq_delegator_address :: Address
  dq_delegate_address :: Address

record DelegationStatus =
  is_active :: bool
  expiry_timestamp :: u64

text \<open>Instants of the monotonic clock and durations are in nanoseconds.\<close>

record Delegation =
  dg_active :: bool
  dg_checked_at :: nat
  dg_expiry_timestamp :: u64

definition from_secs :: "nat \<Rightarrow> nat" where
  "from_secs s = s * 1000000000"

definition ACTIVE_RECHECK :: nat where
  "ACTIVE_RECHECK = from_secs (5 * 60)"

definition INACTIVE_RECHECK :: nat where
  "INACTIVE_RECHECK = from_secs 60"

text \<open>\<open>clock\<close> is the reading of the system clock in seconds; a clock before the epoch cannot be read.\<close>

definition zd_expired :: "nat option \<Rightarrow> u64 \<Rightarrow> bool" where
  "zd_expired clock expiry = (case clock of None \<Rightarrow> True | Some now \<Rightarrow> now \<ge> unat expiry)"

definition is_fresh :: "nat option \<Rightarrow> Delegation \<Rightarrow> nat \<Rightarrow> bool" where
  "is_fresh clock d now =
     (let age = now - dg_checked_at d in
      if dg_active d then age < ACTIVE_RECHECK \<and> \<not> zd_expired clock (dg_expiry_timestamp d)
      else age < INACTIVE_RECHECK)"

type_synonym delegation_cache = "(party, Delegation) hash_map"
type_synonym delegation_answers_map = "(party, string + bool) hash_map"

text \<open>
  What one round of lookups meets: the instant it starts, the system clock as each cache entry is examined, the
  daemon's answers, and the order in which the concurrent lookups complete.
\<close>

record lookup_round =
  lr_now :: nat
  lr_clock :: "party \<Rightarrow> nat option"
  lr_status :: "DelegationQuery \<Rightarrow> BackendError + DelegationStatus"
  lr_order :: "party list \<Rightarrow> party list"

definition retain_fresh :: "lookup_round \<Rightarrow> delegation_cache \<Rightarrow> delegation_cache" where
  "retain_fresh r cache = filter (\<lambda>(p, d). is_fresh (lr_clock r p) d (lr_now r)) cache"

text \<open>The answers the cache gives and the parties that must be asked about.\<close>

fun resolve_cached ::
  "delegation_cache \<Rightarrow> party list \<Rightarrow> delegation_answers_map \<Rightarrow> party list \<Rightarrow> delegation_answers_map \<times> party list" where
  "resolve_cached cache [] answers pending = (answers, pending)"
| "resolve_cached cache (p # ps) answers pending =
     (if snd p = 0 \<or> hm_get answers p \<noteq> None then resolve_cached cache ps answers pending
      else
        (case hm_get cache p of
           Some d \<Rightarrow> resolve_cached cache ps (hm_insert p (Inr (dg_active d)) answers) pending
         | None \<Rightarrow> resolve_cached cache ps answers (if p \<in> set pending then pending else pending @ [p])))"

fun record_statuses ::
  "nat \<Rightarrow> (party \<times> (BackendError + DelegationStatus)) list \<Rightarrow> delegation_answers_map \<Rightarrow> delegation_cache
     \<Rightarrow> (BackendError + delegation_answers_map) \<times> delegation_cache" where
  "record_statuses now [] answers cache = (Inr answers, cache)"
| "record_statuses now ((p, status) # results) answers cache =
     (case status of
        Inr s \<Rightarrow>
          record_statuses now results (hm_insert p (Inr (is_active s)) answers)
            (hm_insert p \<lparr>dg_active = is_active s, dg_checked_at = now, dg_expiry_timestamp = expiry_timestamp s\<rparr> cache)
      | Inl (Rejected message) \<Rightarrow> record_statuses now results (hm_insert p (Inl message) answers) cache
      | Inl e \<Rightarrow> (Inl e, cache))"

definition delegation_query :: "Address \<Rightarrow> party \<Rightarrow> DelegationQuery" where
  "delegation_query delegate p =
     \<lparr>dq_contract_address = fst p, dq_delegator_address = snd p, dq_delegate_address = delegate\<rparr>"

definition resolve ::
  "lookup_round \<Rightarrow> Address \<Rightarrow> party list \<Rightarrow> delegation_answers_map \<Rightarrow> delegation_cache
     \<Rightarrow> (BackendError + delegation_answers_map) \<times> delegation_cache" where
  "resolve r delegate pairs answers cache =
     (let cache1 = retain_fresh r cache in
      case resolve_cached cache1 pairs answers [] of (answers1, pending) \<Rightarrow>
        record_statuses (lr_now r)
          (map (\<lambda>p. (p, lr_status r (delegation_query delegate p))) (lr_order r pending)) answers1 cache1)"

fun wants_sender :: "(string + bool) option \<Rightarrow> bool" where
  "wants_sender (Some (Inr True)) = False"
| "wants_sender (Some (Inl _)) = False"
| "wants_sender _ = True"

text \<open>Receivers first, then the senders of transfers whose receiver did not delegate.\<close>

definition delegation_answers ::
  "lookup_round \<Rightarrow> lookup_round \<Rightarrow> Address \<Rightarrow> (nat \<times> DecodedTransfer) list \<Rightarrow> delegation_cache
     \<Rightarrow> (BackendError + delegation_answers_map) \<times> delegation_cache" where
  "delegation_answers r1 r2 delegate transfers cache =
     (case resolve r1 delegate (map (\<lambda>(_, t). (dt_token t, dt_to t)) transfers) [] cache of
        (Inl e, cache1) \<Rightarrow> (Inl e, cache1)
      | (Inr answers, cache1) \<Rightarrow>
          resolve r2 delegate
            (map (\<lambda>(_, t). (dt_token t, dt_from t))
              (filter (\<lambda>(_, t). wants_sender (hm_get answers (dt_token t, dt_to t))) transfers))
            answers cache1)"

fun pick_party :: "Address \<Rightarrow> delegation_answers_map \<Rightarrow> Address list \<Rightarrow> string + Address option" where
  "pick_party token answers [] = Inr None"
| "pick_party token answers (party # parties) =
     (if party = 0 then pick_party token answers parties
      else
        (case hm_get answers (token, party) of
           Some (Inr True) \<Rightarrow> Inr (Some party)
         | Some (Inl message) \<Rightarrow> Inl message
         | Some (Inr False) \<Rightarrow> pick_party token answers parties
         | None \<Rightarrow> pick_party token answers parties))"

definition pick_delegator :: "DecodedTransfer \<Rightarrow> delegation_answers_map \<Rightarrow> string + Address option" where
  "pick_delegator t answers = pick_party (dt_token t) answers [dt_to t, dt_from t]"

section \<open>Decrypting a batch\<close>

record EncryptedInput =
  encrypted_value :: B256
  contract_address :: Address

record BatchItem =
  bi_encrypted_value :: B256
  bi_contract_address :: Address
  bi_result :: "SdkError + ClearValue"

type_synonym batch_service = "EncryptedInput list \<Rightarrow> Address \<Rightarrow> u32 option \<Rightarrow> BackendError + BatchItem list"
type_synonym entries = "(nat \<times> DecodedTransfer) list"

definition transfers_of :: "DecodedTransfer option list \<Rightarrow> entries" where
  "transfers_of rows = List.map_filter (\<lambda>(row, t). map_option (Pair row) t) (enumerate 0 rows)"

definition push_entry :: "Address \<Rightarrow> nat \<times> DecodedTransfer \<Rightarrow> (Address, entries) hash_map \<Rightarrow> (Address, entries) hash_map" where
  "push_entry d e groups = hm_insert d ((case hm_get groups d of None \<Rightarrow> [] | Some es \<Rightarrow> es) @ [e]) groups"

fun group_by_delegator ::
  "delegation_answers_map \<Rightarrow> entries \<Rightarrow> Decrypted list \<Rightarrow> (Address, entries) hash_map \<Rightarrow> Decrypted list \<times> (Address, entries) hash_map" where
  "group_by_delegator answers [] output groups = (output, groups)"
| "group_by_delegator answers ((row, t) # es) output groups =
     (case pick_delegator t answers of
        Inr (Some d) \<Rightarrow> group_by_delegator answers es output (push_entry d (row, t) groups)
      | Inr None \<Rightarrow>
          group_by_delegator answers es
            (output[row := (output ! row)\<lparr>zd_error := Some ''no active delegation from either party''\<rparr>]) groups
      | Inl message \<Rightarrow>
          group_by_delegator answers es
            (output[row := (output ! row)\<lparr>zd_error := Some (''delegation check failed: '' @ message)\<rparr>]) groups)"

text \<open>The filter with the set of inputs already seen.\<close>

fun unique_inputs :: "(B256 \<times> Address) set \<Rightarrow> entries \<Rightarrow> EncryptedInput list" where
  "unique_inputs seen [] = []"
| "unique_inputs seen ((row, t) # es) =
     (let k = (dt_handle t, dt_token t) in
      if k \<in> seen then unique_inputs seen es
      else \<lparr>encrypted_value = dt_handle t, contract_address = dt_token t\<rparr> # unique_inputs (insert k seen) es)"

definition by_input :: "BatchItem list \<Rightarrow> (B256 \<times> Address, SdkError + ClearValue) hash_map" where
  "by_input items = fold (\<lambda>i. hm_insert (bi_encrypted_value i, bi_contract_address i) (bi_result i)) items []"

definition forget :: "Address \<Rightarrow> Address \<Rightarrow> delegation_cache \<Rightarrow> delegation_cache" where
  "forget token delegator cache = hm_remove (token, delegator) cache"

text \<open>A rejected request is the error of all its rows.\<close>

fun reject_rows :: "Address \<Rightarrow> string \<Rightarrow> entries \<Rightarrow> Decrypted list \<Rightarrow> delegation_cache \<Rightarrow> Decrypted list \<times> delegation_cache" where
  "reject_rows d message [] output cache = (output, cache)"
| "reject_rows d message ((row, t) # es) output cache =
     reject_rows d message es
       (output[row := (output ! row)\<lparr>zd_error := Some (''batch decrypt failed: '' @ message)\<rparr>]) (forget (dt_token t) d cache)"

text \<open>The error that has the batch replayed.\<close>

definition replay_error :: "SdkError \<Rightarrow> BackendError" where
  "replay_error e =
     Transient (sdk_code e @ '': '' @ sdk_message e @ '' (retryable: '' @ (if sdk_retryable e then ''true'' else ''false'') @ '')'')"

fun fill_rows ::
  "(B256 \<times> Address, SdkError + ClearValue) hash_map \<Rightarrow> Address \<Rightarrow> entries \<Rightarrow> Decrypted list \<Rightarrow> delegation_cache
     \<Rightarrow> (BackendError + Decrypted list) \<times> delegation_cache" where
  "fill_rows results d [] output cache = (Inr output, cache)"
| "fill_rows results d ((row, t) # es) output cache =
     (case hm_get results (dt_handle t, dt_token t) of
        Some (Inr value) \<Rightarrow>
          (case zd_render value of
             Inr amount \<Rightarrow> fill_rows results d es (output[row := (output ! row)\<lparr>zd_amount := Some amount\<rparr>]) cache
           | Inl e \<Rightarrow> fill_rows results d es (output[row := (output ! row)\<lparr>zd_error := Some e\<rparr>]) cache)
      | Some (Inl e) \<Rightarrow>
          if \<not> is_refusal e then (Inl (replay_error e), cache)
          else
            fill_rows results d es
              (output[row := (output ! row)\<lparr>zd_error := Some (sdk_code e @ '': '' @ sdk_message e)\<rparr>])
              (forget (dt_token t) d cache)
      | None \<Rightarrow>
          fill_rows results d es
            (output[row := (output ! row)\<lparr>zd_error := Some ''relayer returned no result for handle''\<rparr>]) cache)"

fun set_delegators :: "Address \<Rightarrow> entries \<Rightarrow> Decrypted list \<Rightarrow> Decrypted list" where
  "set_delegators d [] output = output"
| "set_delegators d ((row, t) # es) output = set_delegators d es (output[row := (output ! row)\<lparr>zd_delegator := Some d\<rparr>])"

fun decrypt_groups ::
  "batch_service \<Rightarrow> u32 option \<Rightarrow> (Address \<times> entries) list \<Rightarrow> Decrypted list \<Rightarrow> delegation_cache
     \<Rightarrow> (BackendError + Decrypted list) \<times> delegation_cache" where
  "decrypt_groups batch_decrypt max_concurrency [] output cache = (Inr output, cache)"
| "decrypt_groups batch_decrypt max_concurrency ((d, es) # groups) output cache =
     (let output1 = set_delegators d es output in
      case batch_decrypt (unique_inputs {} es) d max_concurrency of
        Inl (Rejected message) \<Rightarrow>
          (case reject_rows d message es output1 cache of (output2, cache1) \<Rightarrow>
             decrypt_groups batch_decrypt max_concurrency groups output2 cache1)
      | Inl e \<Rightarrow> (Inl e, cache)
      | Inr items \<Rightarrow>
          (case fill_rows (by_input items) d es output1 cache of
             (Inl e, cache1) \<Rightarrow> (Inl e, cache1)
           | (Inr output2, cache1) \<Rightarrow> decrypt_groups batch_decrypt max_concurrency groups output2 cache1))"

record Decryptor =
  zd_delegate :: Address
  zd_max_concurrency :: "u32 option"
  zd_delegations :: delegation_cache

definition decryptor_new :: "Address \<Rightarrow> u32 option \<Rightarrow> Decryptor" where
  "decryptor_new delegate max_concurrency =
     \<lparr>zd_delegate = delegate, zd_max_concurrency = max_concurrency, zd_delegations = []\<rparr>"

text \<open>What a call meets: the two rounds of lookups, the decryption service, and the iteration order of the groups.\<close>

record decrypt_world =
  dw_receivers :: lookup_round
  dw_senders :: lookup_round
  dw_batch :: batch_service
  dw_groups :: "(Address \<times> entries) list \<Rightarrow> (Address \<times> entries) list"

definition decrypt :: "decrypt_world \<Rightarrow> DecodedTransfer option list \<Rightarrow> Decryptor \<Rightarrow> (BackendError + Decrypted list) \<times> Decryptor" where
  "decrypt w rows D =
     (let transfers = transfers_of rows in
      case delegation_answers (dw_receivers w) (dw_senders w) (zd_delegate D) transfers (zd_delegations D) of
        (Inl e, cache) \<Rightarrow> (Inl e, D\<lparr>zd_delegations := cache\<rparr>)
      | (Inr answers, cache) \<Rightarrow>
          (case group_by_delegator answers transfers (replicate (length rows) decrypted_default) [] of
             (output, groups) \<Rightarrow>
               (case decrypt_groups (dw_batch w) (zd_max_concurrency D) (dw_groups w groups) output cache of
                  (res, cache1) \<Rightarrow> (res, D\<lparr>zd_delegations := cache1\<rparr>))))"

section \<open>Settings\<close>

text \<open>The signature scheme: keys from their bytes, the address of a key, and signatures of hashes.\<close>

record 'k key_scheme =
  key_from_slice :: "B256 \<Rightarrow> 'k option"
  key_address :: "'k \<Rightarrow> Address"
  key_sign :: "'k \<Rightarrow> B256 \<Rightarrow> string + u8 list"

record 'k ZamaSettings =
  zs_chain_id :: nat
  zs_rpc_url :: string
  zs_daemon_socket :: string
  zs_tokens :: "Address set"
  zs_columns :: TransferColumns
  zs_max_concurrency :: "u32 option"
  zs_signer :: 'k
  zs_relayer_api_key :: "string option"

definition zd_invalid :: "string \<Rightarrow> PluginError" where
  "zd_invalid message = Internal (ZD_PLUGIN_NAME @ '': '' @ message)"

definition is_absolute :: "string \<Rightarrow> bool" where
  "is_absolute path \<longleftrightarrow> path \<noteq> [] \<and> hd path = CHR ''/''"

definition parse_tokens :: "evm_foreign \<Rightarrow> string option \<Rightarrow> PluginError + Address set" where
  "parse_tokens F tokens =
     (case tokens of
        None \<Rightarrow> Inr {}
      | Some list \<Rightarrow>
          res_bind
            (collect_results
               (\<lambda>value. ok_or (zd_invalid (''invalid token address '' @ quoted value)) (parse_address F value))
               (filter (\<lambda>value. value \<noteq> []) (map trim (split_char CHR '','' list)))) (\<lambda>tokens. Inr (set tokens)))"

definition parse_concurrency :: "PluginOptions \<Rightarrow> string option \<Rightarrow> PluginError + u32 option" where
  "parse_concurrency o' value =
     (case value of
        None \<Rightarrow> Inr None
      | Some v \<Rightarrow> res_bind (parse_value (parse_unsigned (2 ^ 32 - 1)) o' ''max_concurrency'' v) (\<lambda>n. Inr (Some (of_nat n))))"

definition parse_signer :: "evm_foreign \<Rightarrow> 'k key_scheme \<Rightarrow> string option \<Rightarrow> PluginError + 'k" where
  "parse_signer F K secret =
     res_bind
       (ok_or (zd_invalid (''required option '' @ quoted ''delegate_private_key'' @ '' is not specified; set '' @ ZD_ENV_PREFIX @
          ''__DELEGATE_PRIVATE_KEY'')) secret) (\<lambda>hex.
     ok_or (zd_invalid ''delegate_private_key is not a valid secp256k1 key'')
       (Option.bind (parse_b256 F hex) (key_from_slice K)))"

definition zd_settings_parse ::
  "evm_foreign \<Rightarrow> 'k key_scheme \<Rightarrow> environment \<Rightarrow> (string, string) hash_map \<Rightarrow> PluginError + 'k ZamaSettings" where
  "zd_settings_parse F K env options =
     (let o' = plugin_options_new options ZD_PLUGIN_NAME ZD_ENV_PREFIX in
      res_bind (res_bind (get_option env o' ''chain_id'') (\<lambda>v. parse_value (parse_unsigned u64_max) o' ''chain_id'' v)) (\<lambda>chain_id.
      res_bind (get_option env o' ''rpc_url'') (\<lambda>rpc_url.
      res_bind (get_option env o' ''daemon_socket'') (\<lambda>daemon_socket.
      if \<not> is_absolute daemon_socket then Inl (zd_invalid ''daemon_socket must be an absolute path'')
      else
        res_bind (parse_tokens F (lookup_non_empty env o' ''tokens'')) (\<lambda>tokens.
        (let columns = \<lparr>tc_token = get_or env o' ''token_column'' ''erc7984_token'',
                        tc_from = get_or env o' ''from_column'' ''erc7984_from'',
                        tc_to = get_or env o' ''to_column'' ''erc7984_to'',
                        tc_handle = get_or env o' ''handle_column'' ''erc7984_amount_handle''\<rparr> in
         res_bind (parse_concurrency o' (lookup_non_empty env o' ''max_concurrency'')) (\<lambda>max_concurrency.
         res_bind (res_bind (get_env_only_secret env o' ''delegate_private_key'') (parse_signer F K)) (\<lambda>signer.
         res_bind (get_env_only_secret env o' ''relayer_api_key'') (\<lambda>relayer_api_key.
         Inr \<lparr>zs_chain_id = chain_id, zs_rpc_url = rpc_url, zs_daemon_socket = daemon_socket, zs_tokens = tokens,
              zs_columns = columns, zs_max_concurrency = max_concurrency, zs_signer = signer,
              zs_relayer_api_key = relayer_api_key\<rparr>)))))))))"

definition delegate_address :: "'k key_scheme \<Rightarrow> 'k ZamaSettings \<Rightarrow> Address" where
  "delegate_address K s = key_address K (zs_signer s)"

section \<open>Permits\<close>

definition PERMIT_TYPES :: "string list" where
  "PERMIT_TYPES = [''UserDecryptRequestVerification'', ''DelegatedUserDecryptRequestVerification'']"

record 'k DelegateSigner =
  ds_key :: 'k
  ds_address :: Address
  ds_chain_id :: B256

definition signer_new :: "'k key_scheme \<Rightarrow> 'k \<Rightarrow> nat \<Rightarrow> 'k DelegateSigner" where
  "signer_new K key chain_id = \<lparr>ds_key = key, ds_address = key_address K key, ds_chain_id = of_nat chain_id\<rparr>"

text \<open>Typed data as the signer reads it, with the hash that EIP-712 gives it, if any.\<close>

record TypedData =
  td_primary_type :: string
  td_chain_id :: "B256 option"
  td_signing_hash :: "B256 option"

text \<open>A request with the typed data, if its JSON is typed data.\<close>

record SigningRequest =
  sr_account_address :: Address
  sr_typed_data :: "TypedData option"

datatype signing_error = SigningFailed string | SigningRejected string

text \<open>\<open>show_chain\<close> and \<open>show_domain\<close> print a chain number and the chain of a domain.\<close>

definition sign_typed_data ::
  "evm_foreign \<Rightarrow> (B256 \<Rightarrow> string) \<Rightarrow> (B256 option \<Rightarrow> string) \<Rightarrow> 'k key_scheme \<Rightarrow> 'k DelegateSigner \<Rightarrow> SigningRequest \<Rightarrow> signing_error + u8 list" where
  "sign_typed_data F show_chain show_domain K s request =
     (if sr_account_address request \<noteq> ds_address s
      then Inl (SigningFailed (ZD_PLUGIN_NAME @ '': signing request is for '' @ show_address F (sr_account_address request) @ '', not the delegate''))
      else
        res_bind
          (ok_or (SigningFailed (ZD_PLUGIN_NAME @ '': signing request is not EIP-712 typed data'')) (sr_typed_data request)) (\<lambda>typed.
        if td_primary_type typed \<notin> set PERMIT_TYPES
        then Inl (SigningRejected (ZD_PLUGIN_NAME @ '': refusing to sign '' @ quoted (td_primary_type typed) @
               ''; the delegate key signs decryption permits only''))
        else if td_chain_id typed \<noteq> Some (ds_chain_id s)
        then Inl (SigningRejected (ZD_PLUGIN_NAME @ '': refusing to sign '' @ quoted (td_primary_type typed) @ '' for domain chain '' @
               show_domain (td_chain_id typed) @ ''; the delegate key signs for chain '' @ show_chain (ds_chain_id s) @ '' only''))
        else
          res_bind
            (ok_or (SigningFailed (ZD_PLUGIN_NAME @ '': signing request cannot be hashed as EIP-712 typed data'')) (td_signing_hash typed)) (\<lambda>hash.
          map_err (\<lambda>e. SigningFailed (ZD_PLUGIN_NAME @ '': '' @ e)) (key_sign K (ds_key s) hash))))"

section \<open>The transform\<close>

definition ZD_OUTPUT_COLUMNS :: "string list" where
  "ZD_OUTPUT_COLUMNS = [''zama_amount'', ''zama_delegator'']"

definition ERROR_COLUMN :: string where
  "ERROR_COLUMN = ''zama_error''"

datatype PluginInitializationError = Configuration string

record 'k ZamaDecryptTransform =
  zt_settings :: "'k ZamaSettings"
  zt_output_schema :: Schema
  zt_decryptor :: "Decryptor option"
  zt_running :: bool

definition zd_output_schema :: "Schema \<Rightarrow> string + Schema" where
  "zd_output_schema input = append_output_fields input (ZD_OUTPUT_COLUMNS @ [ERROR_COLUMN]) input"

definition zd_configuration :: "string \<Rightarrow> PluginInitializationError" where
  "zd_configuration message = Configuration (ZD_PLUGIN_NAME @ '': '' @ message)"

text \<open>\<open>show_error\<close> is how the plugin interface prints an error.\<close>

definition zd_new ::
  "evm_foreign \<Rightarrow> (PluginError \<Rightarrow> string) \<Rightarrow> 'k key_scheme \<Rightarrow> environment \<Rightarrow> Schema \<Rightarrow> (string, string) hash_map
     \<Rightarrow> PluginInitializationError + 'k ZamaDecryptTransform" where
  "zd_new F show_error K env schema options =
     res_bind (map_err (\<lambda>e. Configuration (show_error e)) (zd_settings_parse F K env options)) (\<lambda>settings.
     res_bind (map_err zd_configuration (zd_validate_columns F schema (zs_columns settings))) (\<lambda>_.
     res_bind (map_err zd_configuration (zd_output_schema schema)) (\<lambda>output.
     Inr \<lparr>zt_settings = settings, zt_output_schema = output, zt_decryptor = None, zt_running = True\<rparr>)))"

text \<open>\<open>client\<close> and \<open>build\<close> are the errors of reaching the daemon and of creating the context.\<close>

definition zd_connect :: "string option \<Rightarrow> string option \<Rightarrow> 'k ZamaSettings \<Rightarrow> PluginError + unit" where
  "zd_connect client build s =
     (case client of
        Some e \<Rightarrow> Inl (zd_invalid (''connecting to daemon at '' @ zs_daemon_socket s @ '': '' @ e))
      | None \<Rightarrow> (case build of Some e \<Rightarrow> Inl (zd_invalid (''creating SDK context: '' @ e)) | None \<Rightarrow> Inr ()))"

text \<open>\<open>get_or_try_init\<close>: a failed connection leaves the cell empty.\<close>

definition zd_decryptor_cell ::
  "'k key_scheme \<Rightarrow> string option \<Rightarrow> string option \<Rightarrow> 'k ZamaDecryptTransform \<Rightarrow> (PluginError + Decryptor) \<times> 'k ZamaDecryptTransform" where
  "zd_decryptor_cell K client build t =
     (case zt_decryptor t of
        Some D \<Rightarrow> (Inr D, t)
      | None \<Rightarrow>
          (case zd_connect client build (zt_settings t) of
             Inl e \<Rightarrow> (Inl e, t)
           | Inr _ \<Rightarrow>
               (let D = decryptor_new (delegate_address K (zt_settings t)) (zs_max_concurrency (zt_settings t)) in
                (Inr D, t\<lparr>zt_decryptor := Some D\<rparr>))))"

definition zd_initialize ::
  "'k key_scheme \<Rightarrow> string option \<Rightarrow> string option \<Rightarrow> 'k ZamaDecryptTransform \<Rightarrow> (PluginError + unit) \<times> 'k ZamaDecryptTransform" where
  "zd_initialize K client build t =
     (case zd_decryptor_cell K client build t of (res, t1) \<Rightarrow> (res_bind res (\<lambda>_. Inr ()), t1))"

text \<open>The columns handed to the batch constructor.\<close>

definition zd_append_columns :: "evm_foreign \<Rightarrow> text_batch \<Rightarrow> Decrypted list \<Rightarrow> Column list" where
  "zd_append_columns F b decrypted =
     tb_columns b @
     [Utf8Column (map zd_amount decrypted),
      Utf8Column (map (\<lambda>row. map_option (show_address F) (zd_delegator row)) decrypted),
      Utf8Column (map zd_error decrypted)]"

definition zd_process_batch ::
  "evm_foreign \<Rightarrow> (Schema \<Rightarrow> Column list \<Rightarrow> ArrowError + 'b) \<Rightarrow> 'k key_scheme \<Rightarrow> string option \<Rightarrow> string option \<Rightarrow> decrypt_world
     \<Rightarrow> 'k ZamaDecryptTransform \<Rightarrow> text_batch \<Rightarrow> (PluginError + 'b) \<times> 'k ZamaDecryptTransform" where
  "zd_process_batch F try_new K client build w t b =
     (let emit = (\<lambda>decrypted. map_err ArrowFailure (try_new (zt_output_schema t) (zd_append_columns F b decrypted))) in
      case zd_decode_batch F b (zs_columns (zt_settings t)) (zs_tokens (zt_settings t)) of
        Inl e \<Rightarrow> (Inl e, t)
      | Inr decoded \<Rightarrow>
          if list_all (\<lambda>row. row = None) decoded then (emit (replicate (length decoded) decrypted_default), t)
          else
            (case zd_decryptor_cell K client build t of
               (Inl e, t1) \<Rightarrow> (Inl e, t1)
             | (Inr D, t1) \<Rightarrow>
                 (case decrypt w decoded D of
                    (Inl e, D1) \<Rightarrow>
                      (Inl (Execution (ZD_PLUGIN_NAME @ '': failing the batch for replay: '' @ backend_error_text e)), t1\<lparr>zt_decryptor := Some D1\<rparr>)
                  | (Inr decrypted, D1) \<Rightarrow> (emit decrypted, t1\<lparr>zt_decryptor := Some D1\<rparr>))))"

definition zd_terminate :: "'k ZamaDecryptTransform \<Rightarrow> 'k ZamaDecryptTransform" where
  "zd_terminate t = t\<lparr>zt_running := False\<rparr>"

section \<open>Writing cells\<close>

text \<open>The loops over the rows write cells; each is a list of rows with the change to make there.\<close>

definition write_cells :: "(nat \<times> ('c \<Rightarrow> 'c)) list \<Rightarrow> 'c list \<Rightarrow> 'c list" where
  "write_cells ws cells = fold (\<lambda>(row, f) cells. cells[row := f (cells ! row)]) ws cells"

lemma write_cells_simps [simp]:
  "write_cells [] cells = cells"
  "write_cells ((row, f) # ws) cells = write_cells ws (cells[row := f (cells ! row)])"
  "write_cells (vs @ ws) cells = write_cells ws (write_cells vs cells)"
  by (simp_all add: write_cells_def)

lemma length_write_cells [simp]: "length (write_cells ws cells) = length cells"
  by (induction ws arbitrary: cells) auto

lemma nth_write_cells:
  assumes "distinct (map fst ws)" and "i < length cells"
  shows "write_cells ws cells ! i = (case map_of ws i of None \<Rightarrow> cells ! i | Some f \<Rightarrow> f (cells ! i))"
  using assms
proof (induction ws arbitrary: cells)
  case (Cons w ws)
  obtain row f where w: "w = (row, f)" by (cases w)
  with Cons.prems(1) have "map_of ws row = None" by (auto simp: map_of_eq_None_iff)
  with Cons w show ?case by (auto split: option.split)
qed simp

lemma nth_write_entries:
  assumes "distinct (map fst es)" and "i < length cells"
  shows "write_cells (map (\<lambda>(row, t). (row, f t)) es) cells ! i = (case map_of es i of None \<Rightarrow> cells ! i | Some t \<Rightarrow> f t (cells ! i))"
proof -
  have "fst \<circ> (\<lambda>(row :: nat, t). (row, f t)) = fst" by auto
  then have "distinct (map fst (map (\<lambda>(row, t). (row, f t)) es))" using assms(1) unfolding map_map by simp
  from nth_write_cells [OF this assms(2)] show ?thesis by (simp add: map_of_map split: option.split)
qed

lemma write_cells_twice:
  assumes "distinct (map fst es)"
  shows "write_cells (map (\<lambda>(row, t). (row, g t)) es) (write_cells (map (\<lambda>(row, t). (row, f t)) es) cells) =
     write_cells (map (\<lambda>(row, t). (row, g t \<circ> f t)) es) cells"
  by (rule nth_equalityI) (simp_all add: nth_write_entries [OF assms] split: option.split)

section \<open>The loops as writes\<close>

definition delegator_cell :: "Address \<Rightarrow> Decrypted \<Rightarrow> Decrypted" where
  "delegator_cell d c = c\<lparr>zd_delegator := Some d\<rparr>"

definition undecided_cell :: "delegation_answers_map \<Rightarrow> DecodedTransfer \<Rightarrow> Decrypted \<Rightarrow> Decrypted" where
  "undecided_cell answers t c =
     (case pick_delegator t answers of
        Inr (Some d) \<Rightarrow> c
      | Inr None \<Rightarrow> c\<lparr>zd_error := Some ''no active delegation from either party''\<rparr>
      | Inl message \<Rightarrow> c\<lparr>zd_error := Some (''delegation check failed: '' @ message)\<rparr>)"

definition fill_cell :: "(B256 \<times> Address, SdkError + ClearValue) hash_map \<Rightarrow> DecodedTransfer \<Rightarrow> Decrypted \<Rightarrow> Decrypted" where
  "fill_cell results t c =
     (case hm_get results (dt_handle t, dt_token t) of
        Some (Inr value) \<Rightarrow>
          (case zd_render value of Inr amount \<Rightarrow> c\<lparr>zd_amount := Some amount\<rparr> | Inl e \<Rightarrow> c\<lparr>zd_error := Some e\<rparr>)
      | Some (Inl e) \<Rightarrow> c\<lparr>zd_error := Some (sdk_code e @ '': '' @ sdk_message e)\<rparr>
      | None \<Rightarrow> c\<lparr>zd_error := Some ''relayer returned no result for handle''\<rparr>)"

definition replays :: "(B256 \<times> Address, SdkError + ClearValue) hash_map \<Rightarrow> DecodedTransfer \<Rightarrow> bool" where
  "replays results t \<longleftrightarrow> (\<exists>e. hm_get results (dt_handle t, dt_token t) = Some (Inl e) \<and> \<not> is_refusal e)"

definition group_of :: "delegation_answers_map \<Rightarrow> entries \<Rightarrow> Address \<Rightarrow> entries" where
  "group_of answers es d = filter (\<lambda>(_, t). pick_delegator t answers = Inr (Some d)) es"

lemma set_delegators_writes: "set_delegators d es cells = write_cells (map (\<lambda>(row, t). (row, delegator_cell d)) es) cells"
  by (induction d es cells rule: set_delegators.induct) (auto simp: delegator_cell_def)

lemma reject_rows_writes:
  "fst (reject_rows d message es cells cache) =
     write_cells (map (\<lambda>(row, t). (row, \<lambda>c. c\<lparr>zd_error := Some (''batch decrypt failed: '' @ message)\<rparr>)) es) cells"
  by (induction d message es cells cache rule: reject_rows.induct) auto

lemma fill_rows_writes:
  "fst (fill_rows results d es cells cache) = Inr out \<longleftrightarrow>
     (\<forall>(row, t) \<in> set es. \<not> replays results t) \<and> out = write_cells (map (\<lambda>(row, t). (row, fill_cell results t)) es) cells"
  by (induction results d es cells cache rule: fill_rows.induct)
     (auto simp: fill_cell_def replays_def split: option.split sum.split)

lemma group_by_delegator_output:
  "fst (group_by_delegator answers es cells groups) = write_cells (map (\<lambda>(row, t). (row, undecided_cell answers t)) es) cells"
  by (induction answers es cells groups rule: group_by_delegator.induct)
     (auto simp: undecided_cell_def split: sum.split option.split)

lemma group_by_delegator_groups:
  "map_of (snd (group_by_delegator answers es cells groups)) d =
     (case map_of groups d of
        None \<Rightarrow> if group_of answers es d = [] then None else Some (group_of answers es d)
      | Some es0 \<Rightarrow> Some (es0 @ group_of answers es d))"
  by (induction answers es cells groups rule: group_by_delegator.induct)
     (auto simp: group_of_def push_entry_def split: sum.split option.split)

lemma group_by_delegator_ok: "hm_ok groups \<Longrightarrow> hm_ok (snd (group_by_delegator answers es cells groups))"
  by (induction answers es cells groups rule: group_by_delegator.induct)
     (auto simp: push_entry_def split: sum.split option.split)

text \<open>The groups of a batch: one for each delegator, with the transfers it was picked for, in order.\<close>

lemma groups_of_batch:
  assumes "group_by_delegator answers es cells [] = (cells', groups)"
  shows "distinct (map fst groups)" and "(d, g) \<in> set groups \<longleftrightarrow> g = group_of answers es d \<and> g \<noteq> []"
proof -
  have ok: "hm_ok groups" using group_by_delegator_ok [of "[]" answers es cells] assms by simp
  then show "distinct (map fst groups)" by (simp add: hm_ok_def)
  have "map_of groups d = (if group_of answers es d = [] then None else Some (group_of answers es d))"
    using group_by_delegator_groups [of answers es cells "[]" d] assms by simp
  then show "(d, g) \<in> set groups \<longleftrightarrow> g = group_of answers es d \<and> g \<noteq> []"
    using map_of_eq_Some_iff [of groups d g] ok by (auto simp: hm_ok_def split: if_splits)
qed

section \<open>Every row has the outcome of its own transfer\<close>

text \<open>What the request for a delegator does to the cell of one of its transfers, and when it fails the batch.\<close>

definition group_cell :: "batch_service \<Rightarrow> u32 option \<Rightarrow> Address \<times> entries \<Rightarrow> DecodedTransfer \<Rightarrow> Decrypted \<Rightarrow> Decrypted" where
  "group_cell batch m g t c =
     (case batch (unique_inputs {} (snd g)) (fst g) m of
        Inl e \<Rightarrow> (delegator_cell (fst g) c)\<lparr>zd_error := Some (''batch decrypt failed: '' @ backend_error_text e)\<rparr>
      | Inr items \<Rightarrow> fill_cell (by_input items) t (delegator_cell (fst g) c))"

definition group_fails :: "batch_service \<Rightarrow> u32 option \<Rightarrow> Address \<times> entries \<Rightarrow> bool" where
  "group_fails batch m g \<longleftrightarrow>
     (case batch (unique_inputs {} (snd g)) (fst g) m of
        Inl (Rejected _) \<Rightarrow> False
      | Inl (Transient _) \<Rightarrow> True
      | Inr items \<Rightarrow> \<exists>(row, t) \<in> set (snd g). replays (by_input items) t)"

definition group_writes :: "batch_service \<Rightarrow> u32 option \<Rightarrow> Address \<times> entries \<Rightarrow> (nat \<times> (Decrypted \<Rightarrow> Decrypted)) list" where
  "group_writes batch m g = map (\<lambda>(row, t). (row, group_cell batch m g t)) (snd g)"

lemma decrypt_groups_writes:
  assumes "\<forall>g \<in> set groups. distinct (map fst (snd g))"
  shows "fst (decrypt_groups batch m groups cells cache) = Inr out \<longleftrightarrow>
     (\<forall>g \<in> set groups. \<not> group_fails batch m g) \<and> out = write_cells (concat (map (group_writes batch m) groups)) cells"
  using assms
proof (induction groups arbitrary: cells cache)
  case (Cons g groups)
  obtain d es where g: "g = (d, es)" by (cases g)
  have dist: "distinct (map fst es)" using Cons.prems g by simp
  note IH = Cons.IH [OF ballI [OF bspec [OF Cons.prems]], unfolded list.set, OF insertI2]
  show ?case
  proof (cases "batch (unique_inputs {} es) d m")
    case (Inl e)
    show ?thesis
    proof (cases e)
      case (Rejected message)
      have "fst (reject_rows d message es (set_delegators d es cells) cache) = write_cells (group_writes batch m g) cells"
        unfolding reject_rows_writes set_delegators_writes write_cells_twice [OF dist]
        by (simp add: group_writes_def group_cell_def [abs_def] g Inl Rejected comp_def)
      with Inl Rejected g show ?thesis
        by (cases "reject_rows d message es (set_delegators d es cells) cache") (simp add: Let_def IH group_fails_def)
    qed (use Inl g in \<open>simp add: Let_def group_fails_def\<close>)
  next
    case (Inr items)
    have writes: "write_cells (map (\<lambda>(row, t). (row, fill_cell (by_input items) t)) es) (set_delegators d es cells) = write_cells (group_writes batch m g) cells"
      unfolding set_delegators_writes write_cells_twice [OF dist]
      by (simp add: group_writes_def group_cell_def [abs_def] g Inr comp_def)
    obtain res cache1 where fill: "fill_rows (by_input items) d es (set_delegators d es cells) cache = (res, cache1)" by fastforce
    have res: "res = Inr out' \<longleftrightarrow> \<not> group_fails batch m g \<and> out' = write_cells (group_writes batch m g) cells" for out'
      using fill_rows_writes [of "by_input items" d es "set_delegators d es cells" cache out'] fill writes g Inr
      by (auto simp: group_fails_def)
    show ?thesis
    proof (cases "group_fails batch m g")
      case True
      with res obtain e where "res = Inl e" by (cases res) auto
      with True fill Inr g show ?thesis by (simp add: Let_def)
    next
      case False
      with res have "res = Inr (write_cells (group_writes batch m g) cells)" by blast
      with False fill Inr g show ?thesis by (simp add: Let_def IH)
    qed
  qed
qed auto

lemma set_transfers_of: "(i, t) \<in> set (transfers_of rows) \<longleftrightarrow> i < length rows \<and> rows ! i = Some t"
proof -
  have "(i, t) \<in> set (transfers_of rows) \<longleftrightarrow> (i, Some t) \<in> set (enumerate 0 rows)"
    by (force simp: transfers_of_def map_filter_def)
  then show ?thesis by (auto simp: in_set_enumerate_eq)
qed

lemma distinct_transfers_of: "distinct (map fst (transfers_of rows))"
proof -
  have "map fst (transfers_of rows) = map fst (filter (\<lambda>x. snd x \<noteq> None) (enumerate 0 rows))"
    by (simp add: transfers_of_def map_filter_def case_prod_unfold comp_def option.map_sel)
  moreover have "distinct (map fst (enumerate 0 rows))" by simp
  ultimately show ?thesis by (metis distinct_map_filter)
qed

lemma map_of_transfers: "map_of (transfers_of rows) i = (if i < length rows then rows ! i else None)"
proof (cases "map_of (transfers_of rows) i")
  case None
  then have "\<forall>t. (i, t) \<notin> set (transfers_of rows)" by (auto simp: map_of_eq_None_iff image_iff)
  with None show ?thesis by (auto simp: set_transfers_of)
next
  case (Some t)
  then have "(i, t) \<in> set (transfers_of rows)" by (rule map_of_SomeD)
  with Some show ?thesis by (simp add: set_transfers_of)
qed

text \<open>The result for an input: that of its last item.\<close>

definition item_for :: "BatchItem list \<Rightarrow> DecodedTransfer \<Rightarrow> (SdkError + ClearValue) option" where
  "item_for items t =
     map_of (map (\<lambda>i. ((bi_encrypted_value i, bi_contract_address i), bi_result i)) (rev items)) (dt_handle t, dt_token t)"

lemma by_input_item: "hm_get (by_input items) (dt_handle t, dt_token t) = item_for items t"
proof -
  have "map_of (fold (\<lambda>i. hm_insert (key i) (bi_result i)) items m) =
      map_of m ++ map_of (map (\<lambda>i. (key i, bi_result i)) (rev items))" for key and m :: "(B256 \<times> Address, SdkError + ClearValue) hash_map"
    by (induction items arbitrary: m) (auto simp: fun_eq_iff map_add_def split: option.split)
  from this [of "\<lambda>i. (bi_encrypted_value i, bi_contract_address i)" "[]"] show ?thesis
    by (simp add: by_input_def item_for_def)
qed

text \<open>
  The request for a delegator, which asks for every input of its transfers once; the cell a transfer should get; and
  the failures that must not become a cell.
\<close>

definition request_for :: "delegation_answers_map \<Rightarrow> DecodedTransfer option list \<Rightarrow> Address \<Rightarrow> EncryptedInput list" where
  "request_for answers rows d = unique_inputs {} (group_of answers (transfers_of rows) d)"

definition row_outcome ::
  "batch_service \<Rightarrow> u32 option \<Rightarrow> delegation_answers_map \<Rightarrow> DecodedTransfer option list \<Rightarrow> DecodedTransfer \<Rightarrow> Decrypted" where
  "row_outcome batch m answers rows t =
     (case pick_delegator t answers of
        Inl message \<Rightarrow> \<lparr>zd_amount = None, zd_delegator = None, zd_error = Some (''delegation check failed: '' @ message)\<rparr>
      | Inr None \<Rightarrow> \<lparr>zd_amount = None, zd_delegator = None, zd_error = Some ''no active delegation from either party''\<rparr>
      | Inr (Some d) \<Rightarrow>
          (case batch (request_for answers rows d) d m of
             Inl e \<Rightarrow> \<lparr>zd_amount = None, zd_delegator = Some d, zd_error = Some (''batch decrypt failed: '' @ backend_error_text e)\<rparr>
           | Inr items \<Rightarrow>
               (case item_for items t of
                  None \<Rightarrow> \<lparr>zd_amount = None, zd_delegator = Some d, zd_error = Some ''relayer returned no result for handle''\<rparr>
                | Some (Inl e) \<Rightarrow> \<lparr>zd_amount = None, zd_delegator = Some d, zd_error = Some (sdk_code e @ '': '' @ sdk_message e)\<rparr>
                | Some (Inr value) \<Rightarrow>
                    (case zd_render value of
                       Inr amount \<Rightarrow> \<lparr>zd_amount = Some amount, zd_delegator = Some d, zd_error = None\<rparr>
                     | Inl e \<Rightarrow> \<lparr>zd_amount = None, zd_delegator = Some d, zd_error = Some e\<rparr>))))"

definition must_replay ::
  "batch_service \<Rightarrow> u32 option \<Rightarrow> delegation_answers_map \<Rightarrow> DecodedTransfer option list \<Rightarrow> DecodedTransfer \<Rightarrow> bool" where
  "must_replay batch m answers rows t \<longleftrightarrow>
     (case pick_delegator t answers of
        Inr (Some d) \<Rightarrow>
          (case batch (request_for answers rows d) d m of
             Inl (Transient _) \<Rightarrow> True
           | Inl (Rejected _) \<Rightarrow> False
           | Inr items \<Rightarrow> (case item_for items t of Some (Inl e) \<Rightarrow> \<not> is_refusal e | _ \<Rightarrow> False))
      | _ \<Rightarrow> False)"

lemma row_outcome_cells:
  "row_outcome batch m answers rows t =
     (case pick_delegator t answers of
        Inr (Some d) \<Rightarrow> group_cell batch m (d, group_of answers (transfers_of rows) d) t decrypted_default
      | _ \<Rightarrow> undecided_cell answers t decrypted_default)"
  by (auto simp: row_outcome_def group_cell_def undecided_cell_def request_for_def delegator_cell_def fill_cell_def
      by_input_item decrypted_default_def split: sum.split option.split)

lemma unique_inputs_once:
  "distinct (unique_inputs seen es) \<and>
   set (unique_inputs seen es) =
     {\<lparr>encrypted_value = dt_handle t, contract_address = dt_token t\<rparr> | row t. (row, t) \<in> set es \<and> (dt_handle t, dt_token t) \<notin> seen}"
proof (induction seen es rule: unique_inputs.induct)
  case (2 seen row t es)
  show ?case
  proof (cases "(dt_handle t, dt_token t) \<in> seen")
    case True
    with 2 show ?thesis by (auto simp: Let_def)
  next
    case False
    with 2(2) [OF refl False] show ?thesis by (auto simp: Let_def)
  qed
qed simp

lemma must_replay_iff:
  "(\<exists>t. Some t \<in> set rows \<and> must_replay batch m answers rows t) \<longleftrightarrow>
     (\<exists>d. group_of answers (transfers_of rows) d \<noteq> [] \<and> group_fails batch m (d, group_of answers (transfers_of rows) d))"
    (is "?L \<longleftrightarrow> ?R")
proof -
  have mem: "(\<exists>i. (i, t) \<in> set (group_of answers (transfers_of rows) d)) \<longleftrightarrow> Some t \<in> set rows \<and> pick_delegator t answers = Inr (Some d)" for t d
    by (auto simp: group_of_def set_transfers_of in_set_conv_nth [of "Some t"])
  have fails: "group_fails batch m (d, group_of answers (transfers_of rows) d) \<longleftrightarrow>
      (\<exists>t. Some t \<in> set rows \<and> pick_delegator t answers = Inr (Some d) \<and> must_replay batch m answers rows t)"
    if ne: "group_of answers (transfers_of rows) d \<noteq> []" for d
  proof -
    obtain t0 where t0: "Some t0 \<in> set rows" "pick_delegator t0 answers = Inr (Some d)"
      using ne mem [of _ d] by (cases "group_of answers (transfers_of rows) d") fastforce+
    have "must_replay batch m answers rows t \<longleftrightarrow>
        (case batch (request_for answers rows d) d m of
           Inl (Transient _) \<Rightarrow> True
         | Inl (Rejected _) \<Rightarrow> False
         | Inr items \<Rightarrow> replays (by_input items) t)" if "pick_delegator t answers = Inr (Some d)" for t
      using that by (auto simp: must_replay_def replays_def by_input_item split: sum.split BackendError.split option.split)
    then have "(\<exists>t. Some t \<in> set rows \<and> pick_delegator t answers = Inr (Some d) \<and> must_replay batch m answers rows t) \<longleftrightarrow>
        (\<exists>i t. (i, t) \<in> set (group_of answers (transfers_of rows) d) \<and>
           (case batch (request_for answers rows d) d m of
              Inl (Transient _) \<Rightarrow> True
            | Inl (Rejected _) \<Rightarrow> False
            | Inr items \<Rightarrow> replays (by_input items) t))"
      using mem [of _ d] by blast
    then show ?thesis
      using t0 mem [of t0 d] by (auto simp: group_fails_def request_for_def split: sum.split BackendError.split)
  qed
  show ?thesis
  proof
    assume ?L
    then obtain t where t: "Some t \<in> set rows" "must_replay batch m answers rows t" by blast
    then obtain d where "pick_delegator t answers = Inr (Some d)" by (auto simp: must_replay_def split: sum.splits option.splits)
    with t mem [of t d] have "group_of answers (transfers_of rows) d \<noteq> []" by auto
    with fails [of d] t \<open>pick_delegator t answers = Inr (Some d)\<close> show ?R by blast
  next
    assume ?R
    with fails show ?L by blast
  qed
qed

text \<open>The rows of the groups together are the transfers that have a delegator.\<close>

lemma fst_group_writes: "map fst (group_writes batch m g) = map fst (snd g)"
  by (simp add: group_writes_def comp_def case_prod_unfold)

lemma distinct_group_rows:
  assumes "distinct (map fst es)" and "distinct (map fst gs)" and "\<forall>(d, g) \<in> set gs. g = group_of answers es d"
  shows "distinct (map fst (concat (map (group_writes batch m) gs)))"
  using assms(2,3)
proof (induction gs)
  case (Cons x gs)
  obtain d where x: "x = (d, group_of answers es d)" using Cons.prems(2) by (cases x) auto
  have "distinct (map fst (group_of answers es d))" unfolding group_of_def using assms(1) by (rule distinct_map_filter)
  moreover have "i \<notin> fst ` set (concat (map (group_writes batch m) gs))" if i: "i \<in> fst ` set (group_of answers es d)" for i
  proof
    assume "i \<in> fst ` set (concat (map (group_writes batch m) gs))"
    then obtain d' g f where g: "(d', g) \<in> set gs" and "(i, f) \<in> set (group_writes batch m (d', g))" by fastforce
    then have "i \<in> fst ` set g" by (force simp: group_writes_def)
    moreover have "g = group_of answers es d'" using Cons.prems(2) g by auto
    ultimately obtain t t' where "(i, t) \<in> set es" "(i, t') \<in> set es" "pick_delegator t answers = Inr (Some d)" "pick_delegator t' answers = Inr (Some d')"
      using i by (auto simp: group_of_def)
    moreover from this assms(1) have "t = t'" by (metis eq_key_imp_eq_value)
    ultimately have "d = d'" by simp
    with g Cons.prems(1) x show False by force
  qed
  ultimately show ?case using Cons x fst_group_writes [of batch m x] by (auto simp del: map_map)
qed simp

lemma group_entries:
  assumes "\<And>d g. (d, g) \<in> set gs \<longleftrightarrow> g = group_of answers es d \<and> g \<noteq> []"
  shows "(i, f) \<in> set (concat (map (group_writes batch m) gs)) \<longleftrightarrow>
    (\<exists>t d. (i, t) \<in> set es \<and> pick_delegator t answers = Inr (Some d) \<and> f = group_cell batch m (d, group_of answers es d) t)"
    (is "?L \<longleftrightarrow> ?R")
proof
  assume ?L
  then obtain d g where g: "(d, g) \<in> set gs" and f: "(i, f) \<in> set (group_writes batch m (d, g))" by fastforce
  then have "g = group_of answers es d" using assms by blast
  with f show ?R by (auto simp: group_writes_def group_of_def)
next
  assume ?R
  then obtain t d where t: "(i, t) \<in> set (group_of answers es d)" and f: "f = group_cell batch m (d, group_of answers es d) t"
    by (auto simp: group_of_def)
  then have "(d, group_of answers es d) \<in> set gs" using assms [of d "group_of answers es d"] by auto
  moreover have "(i, f) \<in> set (group_writes batch m (d, group_of answers es d))" using t f by (force simp: group_writes_def)
  ultimately show ?L by auto
qed

lemma rows_written:
  assumes "group_by_delegator answers (transfers_of rows) (replicate (length rows) decrypted_default) [] = (cells, groups)"
    and "mset gs = mset groups"
  shows "write_cells (concat (map (group_writes batch m) gs)) cells =
    map (\<lambda>row. case row of None \<Rightarrow> decrypted_default | Some t \<Rightarrow> row_outcome batch m answers rows t) rows"
proof (rule nth_equalityI)
  note groups = groups_of_batch [OF assms(1)]
  have gs: "set gs = set groups" "distinct (map fst gs)"
    using assms(2) groups(1) mset_eq_imp_distinct_iff [of "map fst gs" "map fst groups"] by (auto dest: mset_eq_setD)
  let ?ws = "concat (map (group_writes batch m) gs)"
  have "\<forall>(d, g) \<in> set gs. g = group_of answers (transfers_of rows) d" using groups(2) gs(1) by auto
  with gs(2) have dist: "distinct (map fst ?ws)" by (intro distinct_group_rows [OF distinct_transfers_of])
  have entries: "(i, f) \<in> set ?ws \<longleftrightarrow> (\<exists>t d. (i, t) \<in> set (transfers_of rows) \<and> pick_delegator t answers = Inr (Some d) \<and>
      f = group_cell batch m (d, group_of answers (transfers_of rows) d) t)" for i f
    by (rule group_entries) (simp only: gs(1) groups(2))
  have cells: "cells = write_cells (map (\<lambda>(row, t). (row, undecided_cell answers t)) (transfers_of rows)) (replicate (length rows) decrypted_default)"
    using group_by_delegator_output [of answers "transfers_of rows" "replicate (length rows) decrypted_default" "[]"] assms(1) by simp
  then show "length (write_cells ?ws cells) = length (map (\<lambda>row. case row of None \<Rightarrow> decrypted_default | Some t \<Rightarrow> row_outcome batch m answers rows t) rows)"
    by simp
  fix i assume "i < length (write_cells ?ws cells)"
  then have i: "i < length cells" "i < length rows" using cells by simp_all
  have cell: "cells ! i = (case rows ! i of None \<Rightarrow> decrypted_default | Some t \<Rightarrow> undecided_cell answers t decrypted_default)"
    using i(2) by (simp add: cells nth_write_entries [OF distinct_transfers_of] map_of_transfers split: option.split)
  have found: "map_of ?ws i = Some f \<longleftrightarrow> (i, f) \<in> set ?ws" for f using dist by (rule map_of_eq_Some_iff)
  show "write_cells ?ws cells ! i = map (\<lambda>row. case row of None \<Rightarrow> decrypted_default | Some t \<Rightarrow> row_outcome batch m answers rows t) rows ! i"
  proof (cases "map_of ?ws i")
    case None
    with found have "\<forall>f. (i, f) \<notin> set ?ws" by simp
    then have "\<not> (\<exists>t d. rows ! i = Some t \<and> pick_delegator t answers = Inr (Some d))"
      unfolding entries set_transfers_of using i(2) by blast
    with None cell i show ?thesis
      by (auto simp: nth_write_cells [OF dist i(1)] row_outcome_cells split: option.split sum.split)
  next
    case (Some f)
    then obtain t d where "rows ! i = Some t" "pick_delegator t answers = Inr (Some d)"
      "f = group_cell batch m (d, group_of answers (transfers_of rows) d) t"
      using found entries by (auto simp: set_transfers_of)
    with Some cell i show ?thesis
      by (simp add: nth_write_cells [OF dist i(1)] row_outcome_cells undecided_cell_def)
  qed
qed

text \<open>Hash tables are iterated in some order and every lookup completes.\<close>

definition world_lawful :: "decrypt_world \<Rightarrow> bool" where
  "world_lawful w \<longleftrightarrow>
     (\<forall>gs. mset (dw_groups w gs) = mset gs) \<and>
     (\<forall>ps. mset (lr_order (dw_receivers w) ps) = mset ps) \<and>
     (\<forall>ps. mset (lr_order (dw_senders w) ps) = mset ps)"

lemma request_once:
  "distinct (request_for answers rows d)"
  "set (request_for answers rows d) =
     {\<lparr>encrypted_value = dt_handle t, contract_address = dt_token t\<rparr> | t. Some t \<in> set rows \<and> pick_delegator t answers = Inr (Some d)}"
  using unique_inputs_once [of "{}" "group_of answers (transfers_of rows) d"]
  by (auto simp: request_for_def group_of_def set_transfers_of in_set_conv_nth [of "Some t" for t])

lemma decrypt_succeeds_iff:
  assumes "world_lawful w"
  shows "fst (decrypt w rows D) = Inr out \<longleftrightarrow>
     (\<exists>answers.
        fst (delegation_answers (dw_receivers w) (dw_senders w) (zd_delegate D) (transfers_of rows) (zd_delegations D)) = Inr answers \<and>
        \<not> (\<exists>t. Some t \<in> set rows \<and> must_replay (dw_batch w) (zd_max_concurrency D) answers rows t) \<and>
        out = map (\<lambda>row. case row of None \<Rightarrow> decrypted_default
                   | Some t \<Rightarrow> row_outcome (dw_batch w) (zd_max_concurrency D) answers rows t) rows)"
proof -
  let ?batch = "dw_batch w" and ?m = "zd_max_concurrency D"
  obtain res cache where lookups:
    "delegation_answers (dw_receivers w) (dw_senders w) (zd_delegate D) (transfers_of rows) (zd_delegations D) = (res, cache)"
    by fastforce
  show "fst (decrypt w rows D) = Inr out \<longleftrightarrow>
     (\<exists>answers.
        fst (delegation_answers (dw_receivers w) (dw_senders w) (zd_delegate D) (transfers_of rows) (zd_delegations D)) = Inr answers \<and>
        \<not> (\<exists>t. Some t \<in> set rows \<and> must_replay ?batch ?m answers rows t) \<and>
        out = map (\<lambda>row. case row of None \<Rightarrow> decrypted_default | Some t \<Rightarrow> row_outcome ?batch ?m answers rows t) rows)"
  proof (cases res)
    case (Inl e)
    with lookups show ?thesis by (simp add: decrypt_def)
  next
    case (Inr answers)
    obtain cells groups where grouped:
      "group_by_delegator answers (transfers_of rows) (replicate (length rows) decrypted_default) [] = (cells, groups)" by fastforce
    define gs where "gs = dw_groups w groups"
    have gs: "mset gs = mset groups" using assms by (simp add: world_lawful_def gs_def)
    note members = groups_of_batch(2) [OF grouped] 
    have "distinct (map fst (snd g))" if "g \<in> set gs" for g
      using that members [of "fst g" "snd g"] mset_eq_setD [OF gs] distinct_transfers_of [of rows]
      by (simp add: group_of_def distinct_map_filter)
    then have "fst (decrypt_groups ?batch ?m gs cells cache) = Inr out \<longleftrightarrow>
        (\<forall>g \<in> set gs. \<not> group_fails ?batch ?m g) \<and>
        out = map (\<lambda>row. case row of None \<Rightarrow> decrypted_default | Some t \<Rightarrow> row_outcome ?batch ?m answers rows t) rows"
      using decrypt_groups_writes [of gs] rows_written [OF grouped gs] by simp
    moreover have "(\<forall>g \<in> set gs. \<not> group_fails ?batch ?m g) \<longleftrightarrow> \<not> (\<exists>t. Some t \<in> set rows \<and> must_replay ?batch ?m answers rows t)"
      unfolding must_replay_iff using members mset_eq_setD [OF gs] by auto
    ultimately show ?thesis
      using lookups Inr grouped by (simp add: decrypt_def gs_def split_beta)
  qed
qed

text \<open>
  C39: a batch is decrypted exactly when no failure in it may clear on a retry, and then every row has the outcome of
  its own transfer. The lookups must have been answered or refused, no request for a delegator may have failed other
  than by a refusal, and no item of a row may carry another error; otherwise the call fails and produces nothing. The
  result has a cell per row: an empty one where there is no transfer, the reason where no delegator was found, the
  amount or the refusal of the row's own input otherwise. Each delegator is asked once, for every input of its
  transfers once, whatever the iteration order of the groups.
\<close>

theorem zama_delegated_rows:
  assumes "world_lawful w"
  shows "(fst (decrypt w rows D) = Inr out \<longleftrightarrow>
     (\<exists>answers.
        fst (delegation_answers (dw_receivers w) (dw_senders w) (zd_delegate D) (transfers_of rows) (zd_delegations D)) = Inr answers \<and>
        \<not> (\<exists>t. Some t \<in> set rows \<and> must_replay (dw_batch w) (zd_max_concurrency D) answers rows t) \<and>
        out = map (\<lambda>row. case row of None \<Rightarrow> decrypted_default
                   | Some t \<Rightarrow> row_outcome (dw_batch w) (zd_max_concurrency D) answers rows t) rows)) \<and>
   distinct (request_for answers' rows d) \<and>
   set (request_for answers' rows d) =
     {\<lparr>encrypted_value = dt_handle t, contract_address = dt_token t\<rparr> | t. Some t \<in> set rows \<and> pick_delegator t answers' = Inr (Some d)}"
  using decrypt_succeeds_iff [OF assms] request_once by simp

section \<open>Amounts are authorised\<close>

text \<open>
  What the daemon says in a round, and that an answer about a party can be relied on in a round: the daemon gave it
  in that round, or gave it earlier, not longer ago than the recheck interval of such an answer and, for an active
  delegation, before its expiry on the system clock.
\<close>

type_synonym statement = "nat \<times> party \<times> DelegationStatus"

definition said :: "Address \<Rightarrow> lookup_round \<Rightarrow> statement set" where
  "said delegate r = {(lr_now r, p, s) | p s. lr_status r (delegation_query delegate p) = Inr s}"

definition heard :: "statement set \<Rightarrow> Address \<Rightarrow> lookup_round \<Rightarrow> party \<Rightarrow> bool \<Rightarrow> bool" where
  "heard earlier delegate r p b \<longleftrightarrow>
     (\<exists>s. lr_status r (delegation_query delegate p) = Inr s \<and> is_active s = b) \<or>
     (\<exists>at s. (at, p, s) \<in> earlier \<and> is_active s = b \<and>
        lr_now r - at < (if b then ACTIVE_RECHECK else INACTIVE_RECHECK) \<and>
        (b \<longrightarrow> (\<exists>now. lr_clock r p = Some now \<and> now < unat (expiry_timestamp s))))"

text \<open>The life of a decryptor: calls for any rows, with any answers; the statements are those of all rounds so far.\<close>

inductive zd_run :: "Address \<Rightarrow> Decryptor \<Rightarrow> statement set \<Rightarrow> bool" where
  zd_start: "zd_run delegate (decryptor_new delegate m) {}"
| zd_call: "zd_run delegate D S \<Longrightarrow> world_lawful w \<Longrightarrow>
     zd_run delegate (snd (decrypt w rows D)) (S \<union> said delegate (dw_receivers w) \<union> said delegate (dw_senders w))"

definition cache_heard :: "statement set \<Rightarrow> delegation_cache \<Rightarrow> bool" where
  "cache_heard S cache \<longleftrightarrow>
     (\<forall>(p, d) \<in> set cache. (dg_checked_at d, p, \<lparr>is_active = dg_active d, expiry_timestamp = dg_expiry_timestamp d\<rparr>) \<in> S)"

lemma cache_heard_mono: "cache_heard S cache \<Longrightarrow> S \<subseteq> T \<Longrightarrow> cache_heard T cache"
  by (auto simp: cache_heard_def)

lemma set_hm_insert: "set (hm_insert p d m) \<subseteq> insert (p, d) (set m)"
  by (induction m) auto

lemma cache_heard_insert:
  "cache_heard S cache \<Longrightarrow> (dg_checked_at d, p, \<lparr>is_active = dg_active d, expiry_timestamp = dg_expiry_timestamp d\<rparr>) \<in> S \<Longrightarrow>
     cache_heard S (hm_insert p d cache)"
  using set_hm_insert [of p d cache] by (auto simp: cache_heard_def)

lemma cache_heard_forget: "cache_heard S cache \<Longrightarrow> cache_heard S (forget token d cache)"
  by (auto simp: cache_heard_def forget_def AList.delete_eq)

lemma cache_heard_retain: "cache_heard S cache \<Longrightarrow> cache_heard S (retain_fresh r cache)"
  by (auto simp: cache_heard_def retain_fresh_def)

lemma retained_heard:
  assumes "cache_heard S cache" and "map_of (retain_fresh r cache) p = Some d"
  shows "heard S delegate r p (dg_active d)"
proof -
  have "(p, d) \<in> set cache" "is_fresh (lr_clock r p) d (lr_now r)"
    using map_of_SomeD [OF assms(2)] by (auto simp: retain_fresh_def)
  moreover from this(1) assms(1)
  have "(dg_checked_at d, p, \<lparr>is_active = dg_active d, expiry_timestamp = dg_expiry_timestamp d\<rparr>) \<in> S"
    by (auto simp: cache_heard_def)
  ultimately show ?thesis
    by (fastforce simp: heard_def is_fresh_def zd_expired_def Let_def not_le split: if_splits option.splits)
qed

lemma resolve_cached_answers:
  assumes "resolve_cached cache ps answers pending = (answers', pending')"
  shows "map_of answers' p = (case map_of answers p of
           Some v \<Rightarrow> Some v
         | None \<Rightarrow> if p \<in> set ps \<and> snd p \<noteq> 0 then map_option (\<lambda>d. Inr (dg_active d)) (map_of cache p) else None)"
    and "p \<in> set pending' \<longleftrightarrow> p \<in> set pending \<or> p \<in> set ps \<and> snd p \<noteq> 0 \<and> map_of answers p = None \<and> map_of cache p = None"
  using assms
  by (induction cache ps answers pending rule: resolve_cached.induct) (auto split: if_splits option.splits)

lemma record_statuses_answers:
  assumes "record_statuses now (map (\<lambda>p. (p, status p)) ps) answers cache = (Inr answers', cache')"
  shows "map_of answers' p = (if p \<in> set ps then Some (case status p of Inr s \<Rightarrow> Inr (is_active s) | Inl e \<Rightarrow> Inl (backend_error_text e)) else map_of answers p)"
  using assms
  by (induction ps arbitrary: answers cache) (auto split: sum.splits BackendError.splits)

lemma record_statuses_cache:
  assumes "cache_heard S cache" and "\<And>p s. p \<in> set ps \<Longrightarrow> status p = Inr s \<Longrightarrow> (now, p, s) \<in> S"
  shows "cache_heard S (snd (record_statuses now (map (\<lambda>p. (p, status p)) ps) answers cache))"
  using assms
proof (induction ps arbitrary: answers cache)
  case (Cons p ps)
  show ?case
  proof (cases "status p")
    case (Inr s)
    have "cache_heard S (hm_insert p \<lparr>dg_active = is_active s, dg_checked_at = now, dg_expiry_timestamp = expiry_timestamp s\<rparr> cache)"
      using Cons.prems Inr by (intro cache_heard_insert) auto
    with Cons Inr show ?thesis by simp
  qed (use Cons in \<open>auto split: BackendError.split\<close>)
qed simp

text \<open>A round: what is answered stays answered, every party is answered, and every answer was heard.\<close>

lemma resolve_ok:
  assumes "cache_heard S cache" and "\<forall>ps. mset (lr_order r ps) = mset ps"
  shows "cache_heard (S \<union> said delegate r) (snd (resolve r delegate pairs answers cache))"
    and "fst (resolve r delegate pairs answers cache) = Inr answers' \<Longrightarrow> map_of answers p = Some v \<Longrightarrow> map_of answers' p = Some v"
    and "fst (resolve r delegate pairs answers cache) = Inr answers' \<Longrightarrow> p \<in> set pairs \<Longrightarrow> snd p \<noteq> 0 \<Longrightarrow> map_of answers' p \<noteq> None"
    and "fst (resolve r delegate pairs answers cache) = Inr answers' \<Longrightarrow> snd p = 0 \<Longrightarrow> map_of answers' p = map_of answers p"
    and "fst (resolve r delegate pairs answers cache) = Inr answers' \<Longrightarrow> map_of answers' p = Some (Inr b) \<Longrightarrow>
      map_of answers p = Some (Inr b) \<or> heard S delegate r p b"
proof -
  let ?status = "\<lambda>p. lr_status r (delegation_query delegate p)"
  obtain answers1 pending where cached: "resolve_cached (retain_fresh r cache) pairs answers [] = (answers1, pending)" by fastforce
  have resolve: "resolve r delegate pairs answers cache =
      record_statuses (lr_now r) (map (\<lambda>p. (p, ?status p)) (lr_order r pending)) answers1 (retain_fresh r cache)"
    by (simp add: resolve_def cached)
  have order: "set (lr_order r pending) = set pending" using assms(2) by (metis mset_eq_setD)
  note cached_answers = resolve_cached_answers [OF cached]
  show "cache_heard (S \<union> said delegate r) (snd (resolve r delegate pairs answers cache))"
    unfolding resolve by (rule record_statuses_cache)
      (auto simp: said_def intro: cache_heard_mono [OF cache_heard_retain [OF assms(1)]])
  assume "fst (resolve r delegate pairs answers cache) = Inr answers'"
  then obtain cache' where "resolve r delegate pairs answers cache = (Inr answers', cache')"
    by (cases "resolve r delegate pairs answers cache") simp
  from record_statuses_answers [OF this [unfolded resolve]] order
  have answers': "map_of answers' p = (if p \<in> set pending then Some (case ?status p of Inr s \<Rightarrow> Inr (is_active s) | Inl e \<Rightarrow> Inl (backend_error_text e)) else map_of answers1 p)" for p
    by simp
  show "map_of answers p = Some v \<Longrightarrow> map_of answers' p = Some v"
    and "p \<in> set pairs \<Longrightarrow> snd p \<noteq> 0 \<Longrightarrow> map_of answers' p \<noteq> None"
    and "snd p = 0 \<Longrightarrow> map_of answers' p = map_of answers p"
    by (auto simp: answers' cached_answers split: option.splits)
  assume "map_of answers' p = Some (Inr b)"
  then show "map_of answers p = Some (Inr b) \<or> heard S delegate r p b"
  proof (cases "p \<in> set pending")
    case True
    with \<open>map_of answers' p = Some (Inr b)\<close> obtain s where "?status p = Inr s" "is_active s = b"
      by (auto simp: answers' split: sum.splits)
    then show ?thesis by (simp add: heard_def)
  next
    case False
    with \<open>map_of answers' p = Some (Inr b)\<close> have "map_of answers1 p = Some (Inr b)" by (simp add: answers')
    then show ?thesis
      using retained_heard [OF assms(1), of r p _ delegate] by (auto simp: cached_answers(1) split: option.splits if_splits)
  qed
qed

lemma delegation_answers_ok:
  assumes "cache_heard S cache" and "\<forall>ps. mset (lr_order r1 ps) = mset ps" and "\<forall>ps. mset (lr_order r2 ps) = mset ps"
  shows "cache_heard (S \<union> said delegate r1 \<union> said delegate r2) (snd (delegation_answers r1 r2 delegate transfers cache))"
    and "fst (delegation_answers r1 r2 delegate transfers cache) = Inr answers \<Longrightarrow> map_of answers p = Some (Inr b) \<Longrightarrow>
      heard S delegate r1 p b \<or> heard (S \<union> said delegate r1) delegate r2 p b"
    and "fst (delegation_answers r1 r2 delegate transfers cache) = Inr answers \<Longrightarrow> (i, t) \<in> set transfers \<Longrightarrow>
      pick_delegator t answers = Inr None \<Longrightarrow> party \<in> {dt_to t, dt_from t} \<Longrightarrow> party \<noteq> 0 \<Longrightarrow>
      map_of answers (dt_token t, party) = Some (Inr False)"
proof -
  let ?receivers = "map (\<lambda>(_, t). (dt_token t, dt_to t)) transfers"
  obtain res cache1 where first: "resolve r1 delegate ?receivers [] cache = (res, cache1)" by fastforce
  note round1 = resolve_ok [OF assms(1,2), of delegate ?receivers "[]", unfolded first]
  have heard1: "cache_heard (S \<union> said delegate r1) cache1" using round1(1) by simp
  show "cache_heard (S \<union> said delegate r1 \<union> said delegate r2) (snd (delegation_answers r1 r2 delegate transfers cache))"
    using heard1 resolve_ok(1) [OF heard1 assms(3)]
    by (cases res) (auto simp: delegation_answers_def first elim: cache_heard_mono)
  assume ok: "fst (delegation_answers r1 r2 delegate transfers cache) = Inr answers"
  then obtain answers1 where res: "res = Inr answers1" by (cases res) (simp_all add: delegation_answers_def first)
  let ?senders = "map (\<lambda>(_, t). (dt_token t, dt_from t)) (filter (\<lambda>(_, t). wants_sender (map_of answers1 (dt_token t, dt_to t))) transfers)"
  have second: "fst (resolve r2 delegate ?senders answers1 cache1) = Inr answers" using ok by (simp add: delegation_answers_def first res)
  note round2 = resolve_ok(2,3,5) [OF heard1 assms(3) second]
  { assume "map_of answers p = Some (Inr b)"
    from round2(3) [OF this] round1(5) [of answers1 p b] res
    show "heard S delegate r1 p b \<or> heard (S \<union> said delegate r1) delegate r2 p b" by auto }
  assume t: "(i, t) \<in> set transfers" "pick_delegator t answers = Inr None" and party: "party \<in> {dt_to t, dt_from t}" "party \<noteq> 0"
  have not_active: "map_of answers (dt_token t, q) = None \<or> map_of answers (dt_token t, q) = Some (Inr False)" if "q \<in> {dt_to t, dt_from t}" "q \<noteq> 0" for q
    using t(2) that by (auto simp: pick_delegator_def split: if_splits option.splits sum.splits bool.splits)
  have receiver: "map_of answers (dt_token t, dt_to t) \<noteq> None" if "dt_to t \<noteq> 0"
    using that round1(3) [of answers1 "(dt_token t, dt_to t)"] t(1) res round2(1) by force
  have "wants_sender (map_of answers1 (dt_token t, dt_to t))" if "dt_to t \<noteq> 0"
    using not_active [of "dt_to t"] that round2(1) [of "(dt_token t, dt_to t)"] 
    by (cases "map_of answers1 (dt_token t, dt_to t)") auto
  moreover have "wants_sender (map_of answers1 (dt_token t, dt_to t))" if "dt_to t = 0"
    using that round1(4) [of answers1 "(dt_token t, dt_to t)"] res by simp
  ultimately have "(dt_token t, dt_from t) \<in> set ?senders" using t(1) by force
  with round2(2) [of "(dt_token t, dt_from t)"] receiver not_active [OF party] party
  show "map_of answers (dt_token t, party) = Some (Inr False)" by auto
qed

lemma reject_rows_cache: "cache_heard S cache \<Longrightarrow> cache_heard S (snd (reject_rows d message es cells cache))"
  by (induction d message es cells cache rule: reject_rows.induct) (auto simp: cache_heard_forget)

lemma fill_rows_cache: "cache_heard S cache \<Longrightarrow> cache_heard S (snd (fill_rows results d es cells cache))"
  by (induction results d es cells cache rule: fill_rows.induct) (auto simp: cache_heard_forget split: option.split sum.split)

lemma decrypt_groups_cache: "cache_heard S cache \<Longrightarrow> cache_heard S (snd (decrypt_groups batch m groups cells cache))"
proof (induction groups arbitrary: cells cache)
  case (Cons g groups)
  obtain d es where g: "g = (d, es)" by (cases g)
  obtain cells1 where cells1: "cells1 = set_delegators d es cells" by simp
  show ?case
  proof (cases "batch (unique_inputs {} es) d m")
    case (Inl e)
    with g cells1 Cons.prems Cons.IH [OF reject_rows_cache [OF Cons.prems]] show ?thesis
      by (cases e) (simp_all add: Let_def split_beta)
  next
    case (Inr items)
    obtain res cache1 where fill: "fill_rows (by_input items) d es cells1 cache = (res, cache1)" by fastforce
    then have "cache_heard S cache1" using fill_rows_cache [OF Cons.prems, of "by_input items" d es cells1] by simp
    with g cells1 Inr fill Cons.IH show ?thesis by (cases res) (simp_all add: Let_def)
  qed
qed simp

lemma decrypt_cache:
  assumes "cache_heard S (zd_delegations D)" and "world_lawful w"
  shows "cache_heard (S \<union> said (zd_delegate D) (dw_receivers w) \<union> said (zd_delegate D) (dw_senders w)) (zd_delegations (snd (decrypt w rows D)))"
    and "zd_delegate (snd (decrypt w rows D)) = zd_delegate D"
proof -
  obtain res cache where lookups:
    "delegation_answers (dw_receivers w) (dw_senders w) (zd_delegate D) (transfers_of rows) (zd_delegations D) = (res, cache)"
    by fastforce
  have "cache_heard (S \<union> said (zd_delegate D) (dw_receivers w) \<union> said (zd_delegate D) (dw_senders w)) cache"
    using delegation_answers_ok(1) [OF assms(1), of "dw_receivers w" "dw_senders w" "zd_delegate D" "transfers_of rows"] assms(2) lookups
    by (simp add: world_lawful_def)
  then show "cache_heard (S \<union> said (zd_delegate D) (dw_receivers w) \<union> said (zd_delegate D) (dw_senders w)) (zd_delegations (snd (decrypt w rows D)))"
    by (cases res) (simp_all add: decrypt_def lookups Let_def split_beta decrypt_groups_cache)
  show "zd_delegate (snd (decrypt w rows D)) = zd_delegate D"
    by (cases res) (simp_all add: decrypt_def lookups Let_def split_beta)
qed

lemma zd_run_heard: "zd_run delegate D S \<Longrightarrow> zd_delegate D = delegate \<and> cache_heard S (zd_delegations D)"
  by (induction rule: zd_run.induct) (auto simp: decryptor_new_def cache_heard_def [of _ "[]"] decrypt_cache)

text \<open>
  C40: an amount is never written without an authorisation. In the life of a decryptor, whatever the daemon answers
  and in whatever order, a row that gets an amount names a party of its own transfer, not the zero address, whose
  delegation on the transfer's token the daemon reported active, in one of the two rounds of the call or not
  longer than five minutes before and not past its expiry. A row is reported as having no delegation only when
  each of its parties is the zero address or was reported inactive, in the call or within the last minute.
\<close>

theorem zama_amounts_authorised:
  assumes "zd_run delegate D S" and "world_lawful w" and "fst (decrypt w rows D) = Inr out" and "i < length rows"
  shows "(zd_amount (out ! i) \<noteq> None \<longrightarrow>
      (\<exists>t d. rows ! i = Some t \<and> zd_delegator (out ! i) = Some d \<and> d \<in> {dt_to t, dt_from t} \<and> d \<noteq> 0 \<and>
         (heard S delegate (dw_receivers w) (dt_token t, d) True \<or>
          heard (S \<union> said delegate (dw_receivers w)) delegate (dw_senders w) (dt_token t, d) True))) \<and>
    (zd_delegator (out ! i) = None \<and> zd_error (out ! i) = Some ''no active delegation from either party'' \<longrightarrow>
      (\<exists>t. rows ! i = Some t \<and>
         (\<forall>party \<in> {dt_to t, dt_from t}. party \<noteq> 0 \<longrightarrow>
            heard S delegate (dw_receivers w) (dt_token t, party) False \<or>
            heard (S \<union> said delegate (dw_receivers w)) delegate (dw_senders w) (dt_token t, party) False)))"
proof -
  note run = zd_run_heard [OF assms(1)]
  obtain answers where answers:
    "fst (delegation_answers (dw_receivers w) (dw_senders w) delegate (transfers_of rows) (zd_delegations D)) = Inr answers"
    and out: "out = map (\<lambda>row. case row of None \<Rightarrow> decrypted_default
        | Some t \<Rightarrow> row_outcome (dw_batch w) (zd_max_concurrency D) answers rows t) rows"
    using assms(3) run unfolding decrypt_succeeds_iff [OF assms(2)] by auto
  have orders: "\<forall>ps. mset (lr_order (dw_receivers w) ps) = mset ps" "\<forall>ps. mset (lr_order (dw_senders w) ps) = mset ps"
    using assms(2) by (simp_all add: world_lawful_def)
  note lookups = delegation_answers_ok(2,3) [OF conjunct2 [OF run] orders answers]
  show ?thesis
  proof (cases "rows ! i")
    case None
    then show ?thesis using assms(4) by (simp add: out decrypted_default_def)
  next
    case (Some t)
    then have cell: "out ! i = row_outcome (dw_batch w) (zd_max_concurrency D) answers rows t" using assms(4) by (simp add: out)
    have member: "(i, t) \<in> set (transfers_of rows)" using Some assms(4) by (simp add: set_transfers_of)
    show ?thesis
    proof (intro conjI impI)
      assume "zd_amount (out ! i) \<noteq> None"
      then obtain d where d: "zd_delegator (out ! i) = Some d" "pick_delegator t answers = Inr (Some d)"
        by (auto simp: cell row_outcome_def split: sum.splits option.splits)
      from d(2) have "d \<in> {dt_to t, dt_from t} \<and> d \<noteq> 0 \<and> map_of answers (dt_token t, d) = Some (Inr True)"
        by (auto simp: pick_delegator_def split: if_splits option.splits sum.splits bool.splits)
      with d(1) lookups(1) Some show "\<exists>t d. rows ! i = Some t \<and> zd_delegator (out ! i) = Some d \<and> d \<in> {dt_to t, dt_from t} \<and> d \<noteq> 0 \<and>
         (heard S delegate (dw_receivers w) (dt_token t, d) True \<or>
          heard (S \<union> said delegate (dw_receivers w)) delegate (dw_senders w) (dt_token t, d) True)" by blast
    next
      assume "zd_delegator (out ! i) = None \<and> zd_error (out ! i) = Some ''no active delegation from either party''"
      then have "pick_delegator t answers = Inr None"
        by (auto simp: cell row_outcome_def split: sum.splits option.splits)
      with lookups member Some show "\<exists>t. rows ! i = Some t \<and>
         (\<forall>party \<in> {dt_to t, dt_from t}. party \<noteq> 0 \<longrightarrow>
            heard S delegate (dw_receivers w) (dt_token t, party) False \<or>
            heard (S \<union> said delegate (dw_receivers w)) delegate (dw_senders w) (dt_token t, party) False)" by blast
    qed
  qed
qed

text \<open>A daemon on which party 2 delegated, and which decrypts a handle to its number but refuses the handle 8.\<close>

definition sample_round :: "nat \<Rightarrow> lookup_round" where
  "sample_round now =
     \<lparr>lr_now = now, lr_clock = (\<lambda>_. Some 1000),
      lr_status = (\<lambda>q. Inr \<lparr>is_active = (dq_delegator_address q = 2), expiry_timestamp = 5000\<rparr>), lr_order = rev\<rparr>"

definition sample_batch_service :: batch_service where
  "sample_batch_service inputs d m =
     Inr (map (\<lambda>i. \<lparr>bi_encrypted_value = encrypted_value i, bi_contract_address = contract_address i,
                    bi_result = (if encrypted_value i = 8 then Inl \<lparr>sdk_code = ''NOT_ENTITLED'', sdk_message = ''no'', sdk_retryable = False\<rparr>
                                 else Inr (BigInt (uint (encrypted_value i))))\<rparr>) inputs)"

definition sample_world :: decrypt_world where
  "sample_world =
     \<lparr>dw_receivers = sample_round 0, dw_senders = sample_round 1, dw_batch = sample_batch_service, dw_groups = rev\<rparr>"

definition sample_transfer :: "Address \<Rightarrow> Address \<Rightarrow> B256 \<Rightarrow> DecodedTransfer" where
  "sample_transfer from to handle = \<lparr>dt_token = 1, dt_from = from, dt_to = to, dt_handle = handle\<rparr>"

definition sample_rows :: "DecodedTransfer option list" where
  "sample_rows = [None, Some (sample_transfer 2 3 7), Some (sample_transfer 4 2 8), Some (sample_transfer 0 4 7)]"

definition sample_cells :: "Decrypted list" where
  "sample_cells =
     [decrypted_default,
      \<lparr>zd_amount = Some ''7'', zd_delegator = Some 2, zd_error = None\<rparr>,
      \<lparr>zd_amount = None, zd_delegator = Some 2, zd_error = Some ''NOT_ENTITLED: no''\<rparr>,
      \<lparr>zd_amount = None, zd_delegator = None, zd_error = Some ''no active delegation from either party''\<rparr>]"

lemma sample_world_lawful: "world_lawful sample_world"
  by (simp add: world_lawful_def sample_world_def sample_round_def)

lemma sample_decrypt: "fst (decrypt sample_world sample_rows (decryptor_new 9 None)) = Inr sample_cells"
proof -
  have "show_int 7 = ''7''" by code_simp
  then show ?thesis
    by (simp add: decrypt_def decryptor_new_def sample_rows_def sample_transfer_def transfers_of_def map_filter_def delegation_answers_def
        resolve_def retain_fresh_def sample_world_def sample_round_def delegation_query_def pick_delegator_def push_entry_def
        sample_batch_service_def by_input_def is_refusal_def REFUSAL_CODES_def sample_cells_def decrypted_default_def Let_def)
qed

lemma sample_fields:
  "dw_receivers sample_world = sample_round 0" "dw_senders sample_world = sample_round 1" "dw_batch sample_world = sample_batch_service"
  "zd_delegate (decryptor_new 9 None) = 9" "zd_max_concurrency (decryptor_new 9 None) = None" "zd_delegations (decryptor_new 9 None) = []"
  by (simp_all add: sample_world_def decryptor_new_def)

theorem zama_delegated_rows_witness:
  "\<exists>answers.
     fst (delegation_answers (sample_round 0) (sample_round 1) 9 (transfers_of sample_rows) []) = Inr answers \<and>
     \<not> (\<exists>t. Some t \<in> set sample_rows \<and> must_replay sample_batch_service None answers sample_rows t) \<and>
     sample_cells = map (\<lambda>row. case row of None \<Rightarrow> decrypted_default
       | Some t \<Rightarrow> row_outcome sample_batch_service None answers sample_rows t) sample_rows"
  using zama_delegated_rows [OF sample_world_lawful, of sample_rows "decryptor_new 9 None" sample_cells, unfolded sample_fields] sample_decrypt
  by blast

theorem zama_amounts_authorised_witness:
  "heard {} 9 (sample_round 0) (1, 2) True \<or> heard (said 9 (sample_round 0)) 9 (sample_round 1) (1, 2) True"
  using zama_amounts_authorised [OF zd_start sample_world_lawful sample_decrypt, of 1]
  by (simp add: sample_cells_def sample_rows_def sample_transfer_def sample_world_def)

section \<open>Batches and permits\<close>

text \<open>A constructed transform reads the transfers of every batch of its input schema, one entry per row.\<close>

lemma zd_decodes_every_batch:
  assumes "zd_new F show_error K env schema options = Inr t" and "batch_of schema b"
  shows "\<exists>decoded. zd_decode_batch F b (zs_columns (zt_settings t)) (zs_tokens (zt_settings t)) = Inr decoded \<and> length decoded = tb_rows b"
proof -
  have "validate_text_columns (show_type F) schema (tc_names (zs_columns (zt_settings t))) = Inr ()"
    using assms(1) by (auto simp: zd_new_def zd_validate_columns_def outcome)
  note column = validated_column [OF this _ assms(2), of _ ZD_PLUGIN_NAME, unfolded tc_names_def]
  obtain token sender receiver handle where
    "text_column (show_type F) b (tc_token (zs_columns (zt_settings t))) ZD_PLUGIN_NAME = Inr token"
    "text_column (show_type F) b (tc_from (zs_columns (zt_settings t))) ZD_PLUGIN_NAME = Inr sender"
    "text_column (show_type F) b (tc_to (zs_columns (zt_settings t))) ZD_PLUGIN_NAME = Inr receiver"
    "text_column (show_type F) b (tc_handle (zs_columns (zt_settings t))) ZD_PLUGIN_NAME = Inr handle"
    using column [of "tc_token (zs_columns (zt_settings t))"] column [of "tc_from (zs_columns (zt_settings t))"]
      column [of "tc_to (zs_columns (zt_settings t))"] column [of "tc_handle (zs_columns (zt_settings t))"] by auto
  then show ?thesis by (simp add: zd_decode_batch_def)
qed

text \<open>The delegate key signs only the two permits, for its own account and the configured chain.\<close>

lemma signs_permits_only:
  assumes "sign_typed_data F show_chain show_domain K (signer_new K key chain_id) request = Inr signature"
  shows "\<exists>typed hash. sr_account_address request = key_address K key \<and> sr_typed_data request = Some typed \<and>
    td_primary_type typed \<in> set PERMIT_TYPES \<and> td_chain_id typed = Some (of_nat chain_id) \<and>
    td_signing_hash typed = Some hash \<and> key_sign K key hash = Inr signature"
  using assms by (auto simp: sign_typed_data_def signer_new_def outcome split: if_splits)

end
