(* ===== verification/Spec2Isabelle.thy ===== *)
theory Spec2Isabelle
  imports CdcSystem Store CdcPlugin SqsSink CloudTrailSystem IcebergSystem S2System S2Sink MySqlServer S3Sink ZamaDecrypt
begin

text \<open>
  A verification library for the Streamling community plugins: sources, sinks and transforms that a
  stream-processing host loads as a shared library. The host constructs a plugin from its options,
  initializes it, pulls record batches from a source or pushes them into a sink, and drives
  checkpoints: it marks an epoch when the checkpoint barrier passes a plugin and finalizes it when
  the whole pipeline has the data. A source may forget (acknowledge, or persist its position past)
  only what a finalized epoch covers; this is the thread through most theorems below.

  \<^bold>\<open>Shared theories.\<close> \<open>Prelude\<close>: machine words, results as sums (\<open>Inl\<close> is the error) with their
  inversion rules in the collection \<open>outcome\<close>, error values, Rust's text functions and number
  parsing. \<open>OrderedMaps\<close>: \<open>BTreeMap\<close> and \<open>HashMap\<close> as lists of entries, both interpretations of the
  locale \<open>keyed_map\<close>. \<open>PluginOptions\<close>: \<open>utils/plugin_options.rs\<close>. \<open>Utf8\<close>: lossy decoding of bytes.
  \<open>Buffered\<close>: the channel and carry between a background reader and the host. \<open>Checkpoints\<close>: the
  contract the polling sources share, as the locales \<open>epoch_notes\<close> (a marker notes the position
  visible at its epoch) and \<open>noting_source\<close> (its finalizer persists the note), interpreted for the
  CloudTrail, Iceberg and S2 sources. \<open>TextColumns\<close>: \<open>utils/text_column.rs\<close>.

  \<^bold>\<open>The Postgres source\<close> (\<open>src/src/postgres_cdc\<close>). Several sources share one replication slot:
  \<open>pipeline.rs\<close> registers them in a group whose replication pipeline writes every change to
  \<open>bridge.rs\<close>; it converts the rows each source wants and sends them through the source's channel;
  \<open>source.rs\<close> cuts batches from the channel; \<open>ledger.rs\<close> decides which writes may be acknowledged.

  \<^item> \<open>Ledger\<close> (\<open>ledger.rs\<close>): the acknowledgement ledger with its 64-bit counter and the
    acknowledgement shared by several sources. The ledger refines a specification that keeps the
    whole history and filters it; nothing is lost or repeated; a completed checkpoint settles
    everything armed before it.
  \<^item> \<open>CdcCells\<close>, \<open>CdcArrow\<close> (\<open>json.rs\<close>, \<open>arrow.rs\<close>, \<open>discovery.rs\<close>): cell values, their JSON and
    text, column builders, and the type chosen for each column. Batch construction is well typed
    for every discovered schema.
  \<^item> \<open>Bridge\<close> (\<open>bridge.rs\<close>): alignment of row images by column name, conversion of events, fan-out.
  \<^item> \<open>CdcSource\<close> (\<open>source.rs\<close>): taking rows from the channel in order, building a batch, checkpoints.
  \<^item> \<open>CdcSystem\<close>: the steps of a whole group under every interleaving. An acknowledged write is
    durable in every source it fed, and is acknowledged once.
  \<^item> \<open>Store\<close> (\<open>store.rs\<close>): the replication library's store on the plugin's state backend. A restart
    restores the cache; checkpoints do not regress; pruning keeps lookups; rollback undoes an update.
  \<^item> \<open>CdcConfig\<close> (\<open>config.rs\<close>), \<open>Pipeline\<close> (\<open>pipeline.rs\<close>), \<open>CdcPlugin\<close> (\<open>source.rs\<close>, \<open>discovery.rs\<close>):
    option parsing, the registry of groups, the publication statement with its quoting, and the
    life cycle of a source. A group starts once; a failed registration changes nothing.

  \<^bold>\<open>The SQS sink\<close> (\<open>src/src/sinks/sqs\<close>), theory \<open>SqsSink\<close>: configuration, packing of rows into
  messages, chunking into requests, and retries of partial failures. A successful batch was
  accepted by the queue in full, and every request respects the limits of the service.

  \<^bold>\<open>The CloudTrail source\<close> (\<open>src/src/sources/cloudtrail\<close>): \<open>CloudTrailConvert\<close> (\<open>convert.rs\<close>),
  \<open>CloudTrail\<close> (\<open>config.rs\<close>, \<open>poller.rs\<close>, \<open>source.rs\<close>) and \<open>CloudTrailSystem\<close>, the poller, the source
  and the host as a step relation. A restart skips no undelivered record, an event is emitted once
  within a run, and a backfill always progresses.

  \<^bold>\<open>The Iceberg source\<close> (\<open>src/src/sources/iceberg\<close>, \<open>src/src/utils/iceberg.rs\<close>): \<open>Iceberg\<close> holds the
  configuration, the walk over the snapshots, the reading of one unit and the table reader;
  \<open>IcebergSystem\<close> its guarantees. The table reader cuts exactly what is left of the table into
  batches, and a checkpointed position resumes with the rows not delivered when it was noted.

  \<^bold>\<open>The S2 source and sink\<close> (\<open>src/src/sources/s2\<close>, \<open>src/src/sinks/s2\<close>, \<open>src/src/utils/s2.rs\<close>):

  \<^item> \<open>S2Convert\<close>: records as record batches; skipping a malformed record keeps the remaining rows
    aligned with their records.
  \<^item> \<open>S2Source\<close>, \<open>S2System\<close>: the readers, the scan that adds and prunes streams, and the whole run
    over any number of restarts as a step relation. No restart skips an undelivered record of a
    stream that was not pruned, and a scan prunes only streams that the service no longer lists.
  \<^item> \<open>S2Sink\<close>: stream templates, row kinds, and the producers with their acknowledgements. A
    checkpoint marker that succeeds finds every earlier record durable; a template is printed back
    as it was parsed, and resolved names cannot leave the template's namespace.

  \<^bold>\<open>The MySQL sink\<close> (\<open>src/src/sinks/mysql/sink.rs\<close>): \<open>Calendar\<close> proves the conversion of day numbers
  to dates correct against the Gregorian calendar, with its machine arithmetic; \<open>MySqlSink\<close> covers
  column types, bound values, statements and the writing of a batch. Every statement has as many
  values as placeholders. \<open>MySqlServer\<close> reads the statements back from their text, as the server does, and
  states the law of the server on statements so read: a batch leaves the table as applying its rows one by
  one would.

  \<^bold>\<open>The S3 sink\<close> (\<open>src/src/sinks/s3\<close>, \<open>src/src/utils/parquet_compression.rs\<close>), theory \<open>S3Sink\<close>: partitioning,
  object keys, encoding and the upload with its retries. After a successful write the objects hold
  the rows of the batch, and two rows share an object exactly when their partition values agree, a text
  encoded as the name that stands for null aside.

  \<^bold>\<open>The transforms\<close> (\<open>src/src/transforms\<close>): \<open>Erc7984\<close> decodes ERC-7984 events from raw logs, exactly those
  of the standard and the same from either layout of the topics; \<open>ZamaPublic\<close> decrypts publicly
  decryptable handles, row by row as the service answers and within its budget of bits per request;
  \<open>ZamaDecrypt\<close> decrypts amounts on behalf of parties that delegated to the plugin. A row gets the outcome
  of its own transfer, a failure that may clear on a retry fails the batch instead of becoming a row,
  and no amount is written without a recent report of an active delegation.

  \<^bold>\<open>How the code is rendered.\<close> Structs are records, enums datatypes, \<open>Result\<close> a sum, \<open>Option\<close> an
  option; state is passed explicitly. Asynchronous code is a function of the answers it receives
  (from a database, a queue, a service, the clock); where tasks run concurrently the interleavings
  are the steps of an inductive relation, with ghost fields for the history a theorem speaks of.
  Counters that can wrap are words; times in milliseconds are integers with the saturating
  operations written out. Loops are structural recursion where they can be. The others are functions
  with a termination proof (\<open>pack_loop\<close> and \<open>send_loop\<close> of the SQS sink, \<open>read_loop\<close> of the Iceberg source,
  \<open>chunk_list\<close> of the MySQL sink, \<open>put_loop\<close> of the S3 sink, \<open>template_loop\<close> of the S2 sink, \<open>feed\<close> of the
  S2 source, the UTF-8 decoder) or partial functions whose results are proved to exist where the
  theorems need them (\<open>split_batches\<close> for every positive batch size, \<open>walk\<close> for every snapshot graph
  without a cycle, \<open>next_batch\<close> for every lawful table). No definition uses fuel other than the bounds
  on attempts that the code itself has.

  \<^bold>\<open>Parameters.\<close> Code outside the repository appears as arguments: what chrono, uuid, etl and
  \<open>serde_json\<close> print or parse, SHA-256, Keccak and hexadecimal parsing, the Arrow and Parquet
  constructors, the answers of Postgres, SQS, CloudTrail, Iceberg catalogs, S2, MySQL, S3 and the
  decryption service. What is relied on is a named hypothesis: \<open>lawful_page\<close> (CloudTrail),
  \<open>reader_lawful\<close> and \<open>table_lawful\<close> (Iceberg files and snapshots), \<open>log_lawful\<close>, \<open>session_lawful\<close>,
  \<open>backend_answers\<close> and \<open>api_lawful\<close> (S2), \<open>constructor_lawful\<close>, \<open>arrow_lawful\<close> and \<open>batches_lawful\<close> (Arrow), \<open>server_lawful\<close> (MySQL),
  \<open>encoding_lawful\<close> (percent encoding), \<open>hex_lawful\<close>, \<open>service_lawful\<close> and
  \<open>world_lawful\<close> (Zama), and the law of SQS that it
  answers every entry once. Each has a concrete instance in a witness.

  \<^bold>\<open>Not modelled.\<close> The Iceberg sink, which translates schemas between the types of the arrow and
  iceberg crates and drives the latter's transactions; the rewriting of decimal columns and the JSON printing of
  batches (\<open>utils/decimal_arb.rs\<close>, \<open>utils/record_batch_json.rs\<close>), done by the arrow crate; log lines,
  metrics, waiting times and the construction of SDK clients, which have no influence on the values
  above; the registration macros in \<open>lib.rs\<close>.
\<close>

end
